(* ===== verification/Prelude.thy ===== *)
theory Prelude
  imports Main "HOL-Library.Word" "HOL-Library.Char_ord" "HOL-Library.List_Lexorder"
    "HOL-Library.Product_Lexorder"
begin

text \<open>
  What every component of the dent8 model shares: the collections of hints, Rust's
  \<open>Result\<close> as a sum with its combinators, the loops over lists that stop at the first
  error, the fixed-width integers of the code with their checked and saturating operations,
  and byte strings with the operations of \<open>str\<close> that the code calls.
\<close>

named_theorems result_simps \<open>evaluation of the result combinators\<close>
named_theorems inv_intro \<open>introduction rules of component invariants\<close>
named_theorems step_elims \<open>inversion of successful operations\<close>

section \<open>Results\<close>

text \<open>
  \<open>Result<T, E>\<close> is \<open>'e + 'a\<close>, \<open>Inl\<close> the error. \<open>and_then\<close> is the \<open>?\<close>
  operator (an early return of the error), \<open>map_err\<close> the method of that name.
\<close>

fun and_then :: "'e + 'a \<Rightarrow> ('a \<Rightarrow> 'e + 'b) \<Rightarrow> 'e + 'b" where
  "and_then (Inl e) f = Inl e"
| "and_then (Inr x) f = f x"

fun map_err :: "('e \<Rightarrow> 'f) \<Rightarrow> 'e + 'a \<Rightarrow> 'f + 'a" where
  "map_err h (Inl e) = Inl (h e)"
| "map_err h (Inr x) = Inr x"

fun map_ok :: "('a \<Rightarrow> 'b) \<Rightarrow> 'e + 'a \<Rightarrow> 'e + 'b" where
  "map_ok h (Inl e) = Inl e"
| "map_ok h (Inr x) = Inr (h x)"

fun ok_or :: "'e \<Rightarrow> 'a option \<Rightarrow> 'e + 'a" where
  "ok_or e None = Inl e"
| "ok_or e (Some x) = Inr x"

fun is_ok :: "'e + 'a \<Rightarrow> bool" where
  "is_ok (Inl e) = False"
| "is_ok (Inr x) = True"

lemmas [result_simps] = and_then.simps map_err.simps map_ok.simps ok_or.simps is_ok.simps

lemma and_then_Inr [simp]: "and_then r f = Inr y \<longleftrightarrow> (\<exists>x. r = Inr x \<and> f x = Inr y)"
  by (cases r) auto

lemma and_then_Inl: "and_then r f = Inl e \<longleftrightarrow> r = Inl e \<or> (\<exists>x. r = Inr x \<and> f x = Inl e)"
  by (cases r) auto

lemma map_err_Inr [simp]: "map_err h r = Inr y \<longleftrightarrow> r = Inr y"
  by (cases r) auto

lemma map_err_Inl [simp]: "map_err h r = Inl e \<longleftrightarrow> (\<exists>d. r = Inl d \<and> e = h d)"
  by (cases r) auto

lemma map_ok_Inr [simp]: "map_ok h r = Inr y \<longleftrightarrow> (\<exists>x. r = Inr x \<and> y = h x)"
  by (cases r) auto

lemma map_ok_map_ok [simp]: "map_ok f (map_ok g r) = map_ok (\<lambda>x. f (g x)) r"
  by (cases r) auto

lemma is_ok_iff: "is_ok r \<longleftrightarrow> (\<exists>x. r = Inr x)"
  by (cases r) auto

lemma and_then_Inr_right [simp]: "and_then r Inr = r"
  by (cases r) auto

lemma and_then_assoc: "and_then (and_then r f) g = and_then r (\<lambda>x. and_then (f x) g)"
  by (cases r) auto

text \<open>The two loops of the code that stop at the first error: one collects, one folds.\<close>

fun try_map :: "('a \<Rightarrow> 'e + 'b) \<Rightarrow> 'a list \<Rightarrow> 'e + 'b list" where
  "try_map f [] = Inr []"
| "try_map f (x # xs) = and_then (f x) (\<lambda>y. and_then (try_map f xs) (\<lambda>ys. Inr (y # ys)))"

fun try_fold :: "('s \<Rightarrow> 'a \<Rightarrow> 'e + 's) \<Rightarrow> 's \<Rightarrow> 'a list \<Rightarrow> 'e + 's" where
  "try_fold f s [] = Inr s"
| "try_fold f s (x # xs) = and_then (f s x) (\<lambda>s'. try_fold f s' xs)"

lemma try_fold_append: "try_fold f s (xs @ ys) = and_then (try_fold f s xs) (\<lambda>s'. try_fold f s' ys)"
proof (induction xs arbitrary: s)
  case (Cons x xs)
  then show ?case by (cases "f s x") auto
qed simp

lemma try_fold_snoc: "try_fold f s (xs @ [x]) = and_then (try_fold f s xs) (\<lambda>s'. f s' x)"
proof -
  show ?thesis by (simp add: try_fold_append)
qed

lemma try_fold_invariant:
  assumes "try_fold f s xs = Inr t" and "P s"
    and "\<And>s x t. x \<in> set xs \<Longrightarrow> P s \<Longrightarrow> f s x = Inr t \<Longrightarrow> P t"
  shows "P t"
  using assms
proof (induction xs arbitrary: s)
  case (Cons x xs)
  from Cons.prems(1) obtain s' where s': "f s x = Inr s'" "try_fold f s' xs = Inr t" by auto
  have "P s'" using Cons.prems(3) [of x s s'] Cons.prems(2) s'(1) by simp
  then show ?case
  proof (rule Cons.IH [OF s'(2)])
    fix y u v
    assume "y \<in> set xs" "P u" "f u y = Inr v"
    then show "P v" using Cons.prems(3) [of y u v] by simp
  qed
qed simp

lemma try_map_all_ok: "(\<And>x. x \<in> set xs \<Longrightarrow> f x = Inr (g x)) \<Longrightarrow> try_map f xs = Inr (map g xs)"
  by (induction xs) auto

lemma try_map_length: "try_map f xs = Inr ys \<Longrightarrow> length ys = length xs"
  by (induction xs arbitrary: ys) auto

lemma try_map_all2: "try_map f xs = Inr ys \<longleftrightarrow> list_all2 (\<lambda>x y. f x = Inr y) xs ys"
  by (induction xs arbitrary: ys) (auto simp: list_all2_Cons1)

lemma try_map_in: "try_map f xs = Inr ys \<Longrightarrow> x \<in> set xs \<Longrightarrow> \<exists>y. f x = Inr y"
  by (induction xs arbitrary: ys) auto

text \<open>\<open>Iterator::find_map\<close>\<close>

fun find_map :: "('a \<Rightarrow> 'b option) \<Rightarrow> 'a list \<Rightarrow> 'b option" where
  "find_map f [] = None"
| "find_map f (x # xs) = (case f x of Some y \<Rightarrow> Some y | None \<Rightarrow> find_map f xs)"

section \<open>Machine integers\<close>

text \<open>
  \<open>u64\<close>, \<open>i64\<close> and \<open>u16\<close> are words of their width: \<open>u64\<close> and \<open>u16\<close> are read with
  \<open>unat\<close>, \<open>i64\<close> with \<open>sint\<close>. \<open>usize\<close> is \<open>nat\<close>: the code uses it for lengths and
  indices of collections in memory, which Rust bounds by \<open>isize::MAX\<close>.
\<close>

type_synonym u8 = "8 word"
type_synonym u16 = "16 word"
type_synonym u64 = "64 word"
type_synonym i64 = "64 word"
type_synonym usize = nat

abbreviation i64_min :: int where "i64_min \<equiv> - (2 ^ 63)"
abbreviation i64_max :: int where "i64_max \<equiv> 2 ^ 63 - 1"

definition in_i64 :: "int \<Rightarrow> bool" where
  "in_i64 x \<longleftrightarrow> - 9223372036854775808 \<le> x \<and> x \<le> 9223372036854775807"

definition i64_of_int :: "int \<Rightarrow> i64" where
  "i64_of_int x = word_of_int x"

definition i64_checked_add :: "i64 \<Rightarrow> i64 \<Rightarrow> i64 option" where
  "i64_checked_add a b = (if in_i64 (sint a + sint b) then Some (a + b) else None)"

definition i64_saturating_sub :: "i64 \<Rightarrow> i64 \<Rightarrow> i64" where
  "i64_saturating_sub a b =
     (if sint a - sint b < - 9223372036854775808 then i64_of_int (- 9223372036854775808)
      else if 9223372036854775807 < sint a - sint b then i64_of_int 9223372036854775807
      else a - b)"

definition i64_try_from_u64 :: "u64 \<Rightarrow> i64 option" where
  "i64_try_from_u64 w = (if uint w < 9223372036854775808 then Some w else None)"

definition u64_try_from_i64 :: "i64 \<Rightarrow> u64 option" where
  "u64_try_from_i64 w = (if 0 \<le> sint w then Some w else None)"

lemma sint_inj: "sint a = sint b \<longleftrightarrow> a = b"
  by (metis signed_word_eqI)

lemma sint_i64_range: "- 9223372036854775808 \<le> sint (w :: i64)" "sint (w :: i64) \<le> 9223372036854775807"
  using sint_ge [of w] sint_lt [of w] by simp_all

lemma in_i64_sint [simp]: "in_i64 (sint (w :: i64))"
  using sint_i64_range [of w] by (simp add: in_i64_def)

lemma sint_i64_of_int: "in_i64 x \<Longrightarrow> sint (i64_of_int x) = x"
  by (simp add: in_i64_def i64_of_int_def sint_sbintrunc' signed_take_bit_int_eq_self)

lemma i64_checked_add_Some:
  "i64_checked_add a b = Some c \<longleftrightarrow> in_i64 (sint a + sint b) \<and> sint c = sint a + sint b"
proof -
  have "sint (a + b) = sint a + sint b" if "in_i64 (sint a + sint b)"
    using that by (simp add: in_i64_def sint_word_ariths signed_take_bit_int_eq_self)
  then show ?thesis
    by (auto simp: i64_checked_add_def) (metis signed_word_eqI)
qed

lemma i64_checked_add_None: "i64_checked_add a b = None \<longleftrightarrow> \<not> in_i64 (sint a + sint b)"
  by (simp add: i64_checked_add_def)

lemma sint_i64_saturating_sub:
  "sint (i64_saturating_sub a b) =
     max (- 9223372036854775808) (min 9223372036854775807 (sint a - sint b))"
proof -
  have "sint (a - b) = sint a - sint b" if "in_i64 (sint a - sint b)"
    using that by (simp add: in_i64_def sint_word_ariths signed_take_bit_int_eq_self)
  then show ?thesis
    by (auto simp: i64_saturating_sub_def in_i64_def sint_i64_of_int)
qed

lemma len_num_i64: "(2::int) ^ LENGTH(64) = 18446744073709551616"
  by simp

lemma unat_lt_iff_uint: "unat (w :: i64) < numeral n \<longleftrightarrow> uint w < numeral n"
  unfolding uint_nat by (metis of_nat_less_iff of_nat_numeral)

lemma sint_small: "uint (w :: i64) < 9223372036854775808 \<Longrightarrow> sint w = uint w"
proof -
  assume w: "uint w < 9223372036854775808"
  have l: "- 9223372036854775808 \<le> uint w" by (rule order_trans [OF _ uint_ge_0]) simp
  have "sint w = signed_take_bit 63 (uint w)"
    by (simp add: sint_uint)
  also have "\<dots> = uint w"
    by (rule signed_take_bit_int_eq_self) (use w l in simp_all)
  finally show ?thesis .
qed

lemma uint_nonneg: "0 \<le> sint (w :: i64) \<Longrightarrow> uint w = sint w"
proof -
  assume w: "0 \<le> sint w"
  have "w = word_of_int (sint w)" by simp
  then have "uint w = sint w mod 18446744073709551616"
    by (metis (no_types, lifting) len_num_i64 uint_word_of_int)
  then show ?thesis using w sint_i64_range(2) [of w] by simp
qed

lemma i64_try_from_u64_None: "i64_try_from_u64 w = None \<longleftrightarrow> 9223372036854775808 \<le> uint w"
  by (simp add: i64_try_from_u64_def not_less [symmetric])

lemma i64_try_from_u64_Some: "i64_try_from_u64 w = Some v \<Longrightarrow> sint v = uint w"
  by (auto simp: i64_try_from_u64_def sint_small split: if_splits)

lemma u64_try_from_i64_Some: "u64_try_from_i64 w = Some v \<Longrightarrow> uint v = sint w"
  by (auto simp: u64_try_from_i64_def uint_nonneg split: if_splits)

section \<open>Strings\<close>

text \<open>
  \<open>String\<close> is \<open>string\<close>, a list of bytes: a Rust string is UTF-8, its \<open>len\<close> counts
  bytes and its derived order compares bytes, as the order of \<open>char\<close> and of lists here does.
  Operations on characters decode: a character starts at each byte that is not a continuation
  byte.
\<close>

definition byte_of :: "char \<Rightarrow> nat" where
  "byte_of c = of_char c"

text \<open>
  \<open>trim\<close> removes the characters with the Unicode property White\_Space from both ends. In
  UTF-8 these are the bytes 9--13 and 32, and the two- and three-byte encodings of U+0085,
  U+00A0, U+1680, U+2000--U+200A, U+2028, U+2029, U+202F, U+205F and U+3000. The result is the
  length of a leading (for the second function: trailing, read backwards) encoding, or 0.
\<close>

definition ws3 :: "nat \<Rightarrow> nat \<Rightarrow> nat \<Rightarrow> bool" where
  "ws3 a b c \<longleftrightarrow>
     (a = 225 \<and> b = 154 \<and> c = 128) \<or>
     (a = 226 \<and> b = 128 \<and> (128 \<le> c \<and> c \<le> 138 \<or> c = 168 \<or> c = 169 \<or> c = 175)) \<or>
     (a = 226 \<and> b = 129 \<and> c = 159) \<or>
     (a = 227 \<and> b = 128 \<and> c = 128)"

definition ws2 :: "nat \<Rightarrow> nat \<Rightarrow> bool" where
  "ws2 a b \<longleftrightarrow> a = 194 \<and> (b = 133 \<or> b = 160)"

definition ws1 :: "nat \<Rightarrow> bool" where
  "ws1 a \<longleftrightarrow> 9 \<le> a \<and> a \<le> 13 \<or> a = 32"

fun ws_prefix :: "string \<Rightarrow> nat" where
  "ws_prefix (a # b # c # _) =
     (if ws1 (byte_of a) then 1 else if ws2 (byte_of a) (byte_of b) then 2
      else if ws3 (byte_of a) (byte_of b) (byte_of c) then 3 else 0)"
| "ws_prefix [a, b] =
     (if ws1 (byte_of a) then 1 else if ws2 (byte_of a) (byte_of b) then 2 else 0)"
| "ws_prefix [a] = (if ws1 (byte_of a) then 1 else 0)"
| "ws_prefix [] = 0"

fun ws_suffix_rev :: "string \<Rightarrow> nat" where
  "ws_suffix_rev (c # b # a # _) =
     (if ws1 (byte_of c) then 1 else if ws2 (byte_of b) (byte_of c) then 2
      else if ws3 (byte_of a) (byte_of b) (byte_of c) then 3 else 0)"
| "ws_suffix_rev [c, b] =
     (if ws1 (byte_of c) then 1 else if ws2 (byte_of b) (byte_of c) then 2 else 0)"
| "ws_suffix_rev [c] = (if ws1 (byte_of c) then 1 else 0)"
| "ws_suffix_rev [] = 0"

function trim_start :: "string \<Rightarrow> string" where
  "trim_start s =
     (if s = [] \<or> ws_prefix s = 0 then s else trim_start (drop (ws_prefix s) s))"
  by pat_completeness auto
termination
  by (relation "measure length") auto

function trim_end_rev :: "string \<Rightarrow> string" where
  "trim_end_rev s =
     (if s = [] \<or> ws_suffix_rev s = 0 then s else trim_end_rev (drop (ws_suffix_rev s) s))"
  by pat_completeness auto
termination
  by (relation "measure length") auto

declare trim_start.simps [simp del] trim_end_rev.simps [simp del]

definition trim :: "string \<Rightarrow> string" where
  "trim s = rev (trim_end_rev (rev (trim_start s)))"

definition is_blank :: "string \<Rightarrow> bool" where
  "is_blank s \<longleftrightarrow> trim s = []"

lemmas trim_eval = is_blank_def trim_def trim_start.simps trim_end_rev.simps ws1_def ws2_def
  ws3_def byte_of_def

lemma trim_empty [simp]: "trim [] = []" "is_blank []"
  by (simp_all add: trim_eval)

text \<open>\<open>chars\<close>: the characters of a UTF-8 string, each as its encoding.\<close>

definition is_continuation :: "char \<Rightarrow> bool" where
  "is_continuation c \<longleftrightarrow> 128 \<le> byte_of c \<and> byte_of c < 192"

function chars :: "string \<Rightarrow> string list" where
  "chars [] = []"
| "chars (c # cs) = (c # takeWhile is_continuation cs) # chars (dropWhile is_continuation cs)"
  by pat_completeness auto
termination
  by (relation "measure length") (auto simp: le_imp_less_Suc length_dropWhile_le)

lemma chars_concat: "concat (chars s) = s"
  by (induction s rule: chars.induct) auto

definition strip_prefix :: "string \<Rightarrow> string \<Rightarrow> string option" where
  "strip_prefix p s = (if take (length p) s = p then Some (drop (length p) s) else None)"

lemma strip_prefix_Some: "strip_prefix p s = Some t \<longleftrightarrow> s = p @ t"
  by (auto simp: strip_prefix_def) (metis append_take_drop_id)

text \<open>\<open>Display\<close> of an unsigned number: its decimal digits.\<close>

fun show_nat :: "nat \<Rightarrow> string" where
  "show_nat n =
     (if n < 10 then [char_of (48 + n)] else show_nat (n div 10) @ [char_of (48 + n mod 10)])"

declare show_nat.simps [simp del]

definition show_int :: "int \<Rightarrow> string" where
  "show_int i = (if i < 0 then ''-'' @ show_nat (nat (- i)) else show_nat (nat i))"

text \<open>
  \<open>Debug\<close> of a string: quoted, with the escapes of \<open>char::escape_debug\<close> for the ASCII
  characters. Characters above ASCII are kept, as the code keeps the printable ones.
\<close>

definition hex_digit :: "nat \<Rightarrow> char" where
  "hex_digit n = (if n < 10 then char_of (48 + n) else char_of (87 + n))"

definition escape_char :: "char \<Rightarrow> string" where
  "escape_char c = (let n = byte_of c in
     if n = 0 then [CHR 0x5C, CHR ''0'']
     else if n = 9 then [CHR 0x5C, CHR ''t'']
     else if n = 10 then [CHR 0x5C, CHR ''n'']
     else if n = 13 then [CHR 0x5C, CHR ''r'']
     else if n = 34 \<or> n = 92 then [CHR 0x5C, c]
     else if n < 16 then [CHR 0x5C, CHR ''u'', CHR 0x7B, hex_digit n, CHR 0x7D]
     else if n < 32 \<or> n = 127
     then [CHR 0x5C, CHR ''u'', CHR 0x7B, hex_digit (n div 16), hex_digit (n mod 16), CHR 0x7D]
     else [c])"

definition show_debug :: "string \<Rightarrow> string" where
  "show_debug s = [CHR 0x22] @ concat (map escape_char s) @ [CHR 0x22]"

text \<open>A string that starts with a printable ASCII character is not blank.\<close>

definition is_graph :: "char \<Rightarrow> bool" where
  "is_graph c \<longleftrightarrow> byte_of c < 128 \<and> \<not> ws1 (byte_of c)"

lemma ws_suffix_rev_graph:
  assumes "is_graph c"
  shows "ws_suffix_rev (xs @ [c]) \<le> length xs"
proof -
  have c: "\<not> ws1 (byte_of c)" "\<not> ws2 (byte_of c) n" "\<not> ws3 (byte_of c) m n" for m n
    using assms by (simp_all add: is_graph_def ws2_def ws3_def)
  consider "xs = []" | a where "xs = [a]" | a b where "xs = [a, b]" | a b d ys where "xs = a # b # d # ys"
    by (metis neq_Nil_conv)
  then show ?thesis by cases (simp_all add: c)
qed

lemma trim_end_rev_graph: "is_graph c \<Longrightarrow> trim_end_rev (xs @ [c]) \<noteq> []"
proof (induction "length xs" arbitrary: xs rule: less_induct)
  case less
  let ?n = "ws_suffix_rev (xs @ [c])"
  have le: "?n \<le> length xs" by (rule ws_suffix_rev_graph [OF less.prems])
  show ?case
  proof (cases "?n = 0")
    case True
    then show ?thesis by (simp add: trim_end_rev.simps)
  next
    case False
    then have "trim_end_rev (drop ?n xs @ [c]) \<noteq> []"
      using le by (intro less.hyps less.prems) simp
    then show ?thesis using False le by (subst trim_end_rev.simps) simp
  qed
qed

lemma not_blank_graph: "is_graph c \<Longrightarrow> \<not> is_blank (c # s)"
proof -
  assume c: "is_graph c"
  then have "ws_prefix (c # s) = 0"
    by (cases "c # s" rule: ws_prefix.cases) (simp_all add: is_graph_def ws2_def ws3_def)
  then have "trim_start (c # s) = c # s" by (simp add: trim_start.simps)
  then show ?thesis using trim_end_rev_graph [OF c, of "rev s"] by (simp add: is_blank_def trim_def)
qed

section \<open>Message building\<close>

text \<open>The em dash of the messages, three bytes in UTF-8, single quotes, and \<open>[T]::join\<close>.\<close>

definition em_dash :: string where
  "em_dash = [CHR 0xE2, CHR 0x80, CHR 0x94]"

definition nl :: char where
  "nl = CHR 0x0A"

definition quoted :: "string \<Rightarrow> string" where
  "quoted s = CHR 0x27 # s @ [CHR 0x27]"

fun join :: "string \<Rightarrow> string list \<Rightarrow> string" where
  "join sep [] = []"
| "join sep [s] = s"
| "join sep (s # t # ss) = s @ sep @ join sep (t # ss)"

end
