(* ===== verification/BTree.thy ===== *)
theory BTree
  imports Prelude
begin

text \<open>
  \<open>BTreeMap<K, V>\<close>: the code iterates over its ordered maps (believed facts, fact streams,
  lineage checks), so the order of the entries is part of the behaviour. The model is the list
  of entries in strictly increasing key order. The interface is the locale \<open>ordered_map\<close>:
  what a lookup returns after \<open>entry(k).and_modify(f).or_insert(d)\<close>, and that the entries
  come out once each and sorted. Its clients group a list by a key
  (\<open>entry(k).or_default().push(x)\<close>), which is how event streams are built.
\<close>

type_synonym ('k, 'v) btree = "('k \<times> 'v) list"

fun btm_get :: "('k, 'v) btree \<Rightarrow> 'k \<Rightarrow> 'v option" where
  "btm_get [] k = None"
| "btm_get ((a, b) # m) k = (if k = a then Some b else btm_get m k)"

fun btm_upsert :: "('v \<Rightarrow> 'v) \<Rightarrow> 'v \<Rightarrow> 'k::linorder \<Rightarrow> ('k, 'v) btree \<Rightarrow> ('k, 'v) btree" where
  "btm_upsert f d k [] = [(k, d)]"
| "btm_upsert f d k ((a, b) # m) =
     (if k < a then (k, d) # (a, b) # m
      else if k = a then (k, f b) # m
      else (a, b) # btm_upsert f d k m)"

definition btm_insert :: "'k::linorder \<Rightarrow> 'v \<Rightarrow> ('k, 'v) btree \<Rightarrow> ('k, 'v) btree" where
  "btm_insert k v m = btm_upsert (\<lambda>_. v) v k m"

definition btm_keys :: "('k, 'v) btree \<Rightarrow> 'k list" where
  "btm_keys m = map fst m"

definition btm_values :: "('k, 'v) btree \<Rightarrow> 'v list" where
  "btm_values m = map snd m"

definition btm_ok :: "('k::linorder, 'v) btree \<Rightarrow> bool" where
  "btm_ok m \<longleftrightarrow> sorted_wrt (<) (map fst m)"

section \<open>The interface\<close>

locale ordered_map =
  fixes empty :: "'m"
    and get :: "'m \<Rightarrow> 'k::linorder \<Rightarrow> 'v option"
    and upsert :: "('v \<Rightarrow> 'v) \<Rightarrow> 'v \<Rightarrow> 'k \<Rightarrow> 'm \<Rightarrow> 'm"
    and entries :: "'m \<Rightarrow> ('k \<times> 'v) list"
    and ok :: "'m \<Rightarrow> bool"
  assumes ok_empty: "ok empty"
    and get_empty: "get empty k = None"
    and ok_upsert: "ok m \<Longrightarrow> ok (upsert f d k m)"
    and get_upsert: "ok m \<Longrightarrow> get (upsert f d k m) j =
      (if j = k then Some (case get m k of None \<Rightarrow> d | Some v \<Rightarrow> f v) else get m j)"
    and entries_get: "ok m \<Longrightarrow> (k, v) \<in> set (entries m) \<longleftrightarrow> get m k = Some v"
    and entries_sorted: "ok m \<Longrightarrow> sorted_wrt (<) (map fst (entries m))"
begin

lemma keys_distinct: "ok m \<Longrightarrow> distinct (map fst (entries m))"
  using entries_sorted strict_sorted_iff by auto

lemma entries_unique:
  assumes "ok m" and "ok n" and "\<And>k. get m k = get n k"
  shows "entries m = entries n"
proof -
  have eq: "set (entries m) = set (entries n)"
    using assms entries_get by auto
  have inj: "inj_on fst (set (entries m) \<union> set (entries n))"
    unfolding eq Un_absorb using keys_distinct [OF assms(2)] by (simp add: distinct_map)
  have s: "sorted (map fst (entries m))" "sorted (map fst (entries n))"
    using entries_sorted [OF assms(1)] entries_sorted [OF assms(2)] by (simp_all add: strict_sorted_iff)
  show ?thesis
    by (rule map_sorted_distinct_set_unique
      [OF inj s(1) keys_distinct [OF assms(1)] s(2) keys_distinct [OF assms(2)] eq])
qed

text \<open>Every client property that the whole map satisfies pointwise survives an upsert.\<close>

lemma upsert_all:
  assumes "ok m" and "\<And>j v. get m j = Some v \<Longrightarrow> P j v" and "P k d"
    and "\<And>v. get m k = Some v \<Longrightarrow> P k v \<Longrightarrow> P k (f v)"
    and "get (upsert f d k m) j = Some v"
  shows "P j v"
  using assms by (auto simp: get_upsert split: if_splits option.splits)

text \<open>Grouping: folding a push into each element's bucket.\<close>

lemma ok_grouped:
  "ok m \<Longrightarrow> ok (foldl (\<lambda>n x. upsert (push x) (new x) (key x) n) m xs)"
  by (induction xs arbitrary: m) (auto simp: ok_upsert)

lemma get_grouped:
  assumes "ok m" and push: "\<And>x l. val (push x l) = val l @ [x]" and new: "\<And>x. val (new x) = [x]"
  shows "map_option val (get (foldl (\<lambda>n x. upsert (push x) (new x) (key x) n) m xs) k) =
    (case get m k of
       None \<Rightarrow> if \<exists>x \<in> set xs. key x = k then Some (filter (\<lambda>x. key x = k) xs) else None
     | Some l \<Rightarrow> Some (val l @ filter (\<lambda>x. key x = k) xs))"
  using assms(1)
proof (induction xs arbitrary: m)
  case Nil
  then show ?case by (auto split: option.splits)
next
  case (Cons x xs)
  show ?case
    by (simp add: Cons.IH ok_upsert [OF Cons.prems] get_upsert [OF Cons.prems] push new
        split: option.split)
qed

end

section \<open>The sorted list of entries provides the interface\<close>

lemma btm_upsert_keys: "set (map fst (btm_upsert f d k m)) = insert k (set (map fst m))"
  by (induction m rule: btm_upsert.induct) auto

lemma btm_ok_Cons: "btm_ok ((a, b) # m) \<longleftrightarrow> (\<forall>x \<in> set (map fst m). a < x) \<and> btm_ok m"
  by (auto simp: btm_ok_def)

lemma btm_ok_upsert [intro, simp]: "btm_ok m \<Longrightarrow> btm_ok (btm_upsert f d k m)"
proof (induction f d k m rule: btm_upsert.induct)
  case (1 f d k)
  show ?case by (simp add: btm_ok_def)
next
  case (2 f d k a b m)
  have m: "\<forall>x \<in> set (map fst m). a < x" "btm_ok m"
    using "2.prems" by (simp_all add: btm_ok_Cons)
  consider "k < a" | "k = a" | "a < k" by (rule linorder_cases)
  then show ?case
  proof cases
    case 1
    with m show ?thesis by (auto simp: btm_ok_Cons)
  next
    case 2
    with m show ?thesis by (auto simp: btm_ok_Cons)
  next
    case 3
    then have n: "\<not> k < a" "k \<noteq> a" by auto
    have "btm_ok (btm_upsert f d k m)" using "2.IH" [OF n m(2)] .
    moreover have "\<forall>x \<in> set (map fst (btm_upsert f d k m)). a < x"
      unfolding btm_upsert_keys using m(1) 3 by simp
    ultimately show ?thesis using n by (simp add: btm_ok_Cons)
  qed
qed

lemma btm_get_None: "btm_get m k = None \<longleftrightarrow> k \<notin> fst ` set m"
proof (induction m)
  case (Cons p m)
  then show ?case by (cases p) simp
qed simp

lemma btm_get_in_set: "btm_get m k = Some v \<Longrightarrow> (k, v) \<in> set m"
proof (induction m)
  case (Cons p m)
  then show ?case by (cases p) (auto split: if_splits)
qed simp

lemma btm_get_upsert:
  "btm_ok m \<Longrightarrow> btm_get (btm_upsert f d k m) j =
     (if j = k then Some (case btm_get m k of None \<Rightarrow> d | Some v \<Rightarrow> f v) else btm_get m j)"
proof (induction f d k m rule: btm_upsert.induct)
  case (2 f d k a b m)
  have gone: "btm_get m k = None" if "k < a"
    using "2.prems" that by (auto simp: btm_ok_def btm_get_None)
  from "2.prems" have "btm_ok m" by (simp add: btm_ok_def)
  with 2 gone show ?case by auto
qed simp

lemma btm_in_set: "btm_ok m \<Longrightarrow> (k, v) \<in> set m \<longleftrightarrow> btm_get m k = Some v"
proof (induction m)
  case (Cons p m)
  obtain a b where p: "p = (a, b)" by (cases p)
  from Cons.prems have m: "btm_ok m" "a \<notin> fst ` set m"
    by (auto simp: btm_ok_def p)
  then show ?case using Cons.IH p by (auto simp: image_iff btm_get_None)
qed simp

interpretation btm: ordered_map "[]" btm_get btm_upsert "\<lambda>m. m" btm_ok
proof unfold_locales
  show "btm_ok ([] :: ('k::linorder \<times> 'v) list)" by (simp add: btm_ok_def)
next
  fix m :: "('k::linorder \<times> 'v) list" and k v
  assume "btm_ok m"
  then show "(k, v) \<in> set m \<longleftrightarrow> btm_get m k = Some v" by (rule btm_in_set)
qed (simp_all add: btm_get_upsert, simp add: btm_ok_def)

lemma btm_ok_Nil [simp]: "btm_ok []"
  by (simp add: btm_ok_def)

lemma btm_ok_single [simp]: "btm_ok [p]"
  by (simp add: btm_ok_def)

lemma btm_ok_insert [simp]: "btm_ok m \<Longrightarrow> btm_ok (btm_insert k v m)"
  by (simp add: btm_insert_def)

lemma btm_get_insert: "btm_ok m \<Longrightarrow> btm_get (btm_insert k v m) j = (if j = k then Some v else btm_get m j)"
  by (simp add: btm_insert_def btm_get_upsert split: option.split)

lemma btm_keys_get: "btm_ok m \<Longrightarrow> set (btm_keys m) = {k. btm_get m k \<noteq> None}"
  by (auto simp: btm_keys_def btm_get_None image_iff)

lemma btm_values_get: "btm_ok m \<Longrightarrow> set (btm_values m) = {v. \<exists>k. btm_get m k = Some v}"
  using btm_in_set [of m] by (force simp: btm_values_def)

lemma btm_keys_distinct: "btm_ok m \<Longrightarrow> distinct (btm_keys m)"
  using btm.keys_distinct by (simp add: btm_keys_def)

lemma btm_length_upsert:
  "btm_ok m \<Longrightarrow> length (btm_upsert f d k m) = (if btm_get m k = None then Suc (length m) else length m)"
proof (induction f d k m rule: btm_upsert.induct)
  case (2 f d k a b m)
  have gone: "btm_get m k = None" if "k < a"
    using "2.prems" that by (auto simp: btm_ok_def btm_get_None)
  from "2.prems" have "btm_ok m" by (simp add: btm_ok_def)
  with 2 gone show ?case by auto
qed simp

text \<open>The number of entries whose value passes a test, before and after an upsert.\<close>

definition btm_count :: "('v \<Rightarrow> bool) \<Rightarrow> ('k, 'v) btree \<Rightarrow> nat" where
  "btm_count p m = length (filter p (btm_values m))"

lemma btm_count_simps [simp]:
  "btm_count p [] = 0"
  "btm_count p ((a, b) # m) = (if p b then Suc (btm_count p m) else btm_count p m)"
  by (simp_all add: btm_count_def btm_values_def)

text \<open>An upsert that writes no passing value leaves the count; it never adds more than one.\<close>

lemma btm_count_upsert_same:
  "\<not> p d \<Longrightarrow> (\<And>v. p (f v) = p v) \<Longrightarrow> btm_count p (btm_upsert f d k m) = btm_count p m"
  by (induction f d k m rule: btm_upsert.induct) auto

lemma btm_count_upsert_mono:
  "(\<And>v. p v \<Longrightarrow> p (f v)) \<Longrightarrow> btm_count p m \<le> btm_count p (btm_upsert f d k m)"
  by (induction f d k m rule: btm_upsert.induct) auto

lemma btm_count_upsert_Suc: "btm_count p (btm_upsert f d k m) \<le> Suc (btm_count p m)"
  by (induction f d k m rule: btm_upsert.induct) auto

lemma btm_count_le_length: "btm_count p m \<le> length m"
  by (simp add: btm_count_def btm_values_def order_trans [OF length_filter_le])

lemma btm_count_antimono: "(\<And>v. q v \<Longrightarrow> p v) \<Longrightarrow> btm_count q m \<le> btm_count p m"
  by (induction m) auto

text \<open>The streams of a log: each key with its elements, in order.\<close>

definition btm_group :: "('a \<Rightarrow> 'k::linorder) \<Rightarrow> 'a list \<Rightarrow> ('k, 'a list) btree" where
  "btm_group key xs = foldl (\<lambda>m x. btm_upsert (\<lambda>l. l @ [x]) [x] (key x) m) [] xs"

lemma btm_ok_group [simp]: "btm_ok (btm_group key xs)"
  unfolding btm_group_def by (rule btm.ok_grouped) simp

lemma btm_get_group:
  "btm_get (btm_group key xs) k =
     (if \<exists>x \<in> set xs. key x = k then Some (filter (\<lambda>x. key x = k) xs) else None)"
  using btm.get_grouped [of "[]" "\<lambda>l. l" "\<lambda>x l. l @ [x]" "\<lambda>x. [x]" key xs k]
  by (simp add: btm_group_def option.map_ident)

section \<open>Removal\<close>

definition btm_remove :: "'k \<Rightarrow> ('k, 'v) btree \<Rightarrow> ('k, 'v) btree" where
  "btm_remove k m = filter (\<lambda>(a, _). a \<noteq> k) m"

lemma btm_get_remove: "btm_get (btm_remove k m) j = (if j = k then None else btm_get m j)"
  by (induction m) (auto simp: btm_remove_def)

lemma btm_ok_remove [simp]: "btm_ok m \<Longrightarrow> btm_ok (btm_remove k m)"
  by (induction m) (auto simp: btm_remove_def btm_ok_def)

end
