(* ===== verification/Model.thy ===== *)
theory Model
  imports BTree
begin

text \<open>
  The data model of \<open>crates/dent8-core\<close> (\<open>ids.rs\<close>, \<open>model.rs\<close>): validated
  identifiers, timestamps, authority levels, confidence, TTLs, and the fact event with its
  validation. Structs are records or one-constructor datatypes, enums are datatypes with the
  code's constructors, constructors that can fail return a sum. JSON parsing and printing are
  \<open>serde_json\<close>'s and are parameters. The field \<open>value\<close> of an event is \<open>val\<close> here.
\<close>

section \<open>Identifiers and timestamps\<close>

datatype IdError = IdError (id_error_kind: string)

definition show_IdError :: "IdError \<Rightarrow> string" where
  "show_IdError e = id_error_kind e @ '' cannot be empty''"

text \<open>The constructor that the macro \<open>id_type!\<close> generates for each identifier.\<close>

definition id_new :: "string \<Rightarrow> (string \<Rightarrow> 'a) \<Rightarrow> string \<Rightarrow> IdError + 'a" where
  "id_new name wrap s = (if is_blank s then Inl (IdError name) else Inr (wrap s))"

datatype ActorId = ActorId (actor_str: string)
datatype FactEventId = FactEventId (event_str: string)
datatype FactId = FactId (fact_str: string)
datatype EvidenceId = EvidenceId (evidence_str: string)
datatype SourceId = SourceId (source_str: string)

definition ActorId_new :: "string \<Rightarrow> IdError + ActorId" where
  "ActorId_new = id_new ''ActorId'' ActorId"

definition FactEventId_new :: "string \<Rightarrow> IdError + FactEventId" where
  "FactEventId_new = id_new ''FactEventId'' FactEventId"

definition FactId_new :: "string \<Rightarrow> IdError + FactId" where
  "FactId_new = id_new ''FactId'' FactId"

definition EvidenceId_new :: "string \<Rightarrow> IdError + EvidenceId" where
  "EvidenceId_new = id_new ''EvidenceId'' EvidenceId"

definition SourceId_new :: "string \<Rightarrow> IdError + SourceId" where
  "SourceId_new = id_new ''SourceId'' SourceId"

lemmas id_defs = ActorId_new_def FactEventId_new_def FactId_new_def EvidenceId_new_def
  SourceId_new_def id_new_def

instantiation FactId :: linorder
begin

definition less_eq_FactId :: "FactId \<Rightarrow> FactId \<Rightarrow> bool" where
  "a \<le> b \<longleftrightarrow> fact_str a \<le> fact_str b"

definition less_FactId :: "FactId \<Rightarrow> FactId \<Rightarrow> bool" where
  "a < b \<longleftrightarrow> fact_str a < fact_str b"

instance
  by standard (auto simp: less_eq_FactId_def less_FactId_def FactId.expand)

end

instantiation SourceId :: linorder
begin

definition less_eq_SourceId :: "SourceId \<Rightarrow> SourceId \<Rightarrow> bool" where
  "a \<le> b \<longleftrightarrow> source_str a \<le> source_str b"

definition less_SourceId :: "SourceId \<Rightarrow> SourceId \<Rightarrow> bool" where
  "a < b \<longleftrightarrow> source_str a < source_str b"

instance
  by standard (auto simp: less_eq_SourceId_def less_SourceId_def SourceId.expand)

end

datatype TimestampMillis = TimestampMillis (as_unix_millis: i64)

definition from_unix_millis :: "i64 \<Rightarrow> TimestampMillis" where
  "from_unix_millis v = TimestampMillis v"

text \<open>The instant as a mathematical integer; the derived order of \<open>i64\<close> is signed.\<close>

definition ms :: "TimestampMillis \<Rightarrow> int" where
  "ms t = sint (as_unix_millis t)"

instantiation TimestampMillis :: linorder
begin

definition less_eq_TimestampMillis :: "TimestampMillis \<Rightarrow> TimestampMillis \<Rightarrow> bool" where
  "a \<le> b \<longleftrightarrow> ms a \<le> ms b"

definition less_TimestampMillis :: "TimestampMillis \<Rightarrow> TimestampMillis \<Rightarrow> bool" where
  "a < b \<longleftrightarrow> ms a < ms b"

instance
proof
  fix a b :: TimestampMillis
  show "a = b" if "a \<le> b" "b \<le> a"
    using that by (simp add: less_eq_TimestampMillis_def ms_def sint_inj TimestampMillis.expand)
qed (auto simp: less_eq_TimestampMillis_def less_TimestampMillis_def)

end

lemmas timestamp_order = less_eq_TimestampMillis_def less_TimestampMillis_def

lemma ms_inj: "ms a = ms b \<Longrightarrow> a = b"
  by (simp add: ms_def TimestampMillis.expand sint_inj)

lemma ms_min: "ms (min a b) = min (ms a) (ms b)"
  by (simp add: min_def timestamp_order)

section \<open>Subjects, predicates and values\<close>

datatype ValidationError =
    EmptyField string
  | ConfidenceOutOfRange u16
  | MissingFactValue
  | MissingEvidence
  | InvalidJson string
  | InvalidValidityInterval

definition show_ValidationError :: "ValidationError \<Rightarrow> string" where
  "show_ValidationError err = (case err of
      EmptyField field \<Rightarrow> field @ '' cannot be empty''
    | ConfidenceOutOfRange v \<Rightarrow> ''confidence '' @ show_nat (unat v) @ '' is outside 0..=1000''
    | MissingFactValue \<Rightarrow> ''asserted facts must include a value''
    | MissingEvidence \<Rightarrow> ''asserted facts must include evidence''
    | InvalidJson e \<Rightarrow> ''invalid JSON fact value: '' @ e
    | InvalidValidityInterval \<Rightarrow> ''valid_to must be after valid_from (non-empty validity interval)'')"

datatype Subject = Subject (subject_kind: string) (subject_key: string)

definition Subject_new :: "string \<Rightarrow> string \<Rightarrow> ValidationError + Subject" where
  "Subject_new k key =
     (if is_blank k then Inl (EmptyField ''subject.kind'')
      else if is_blank key then Inl (EmptyField ''subject.key'')
      else Inr (Subject k key))"

datatype Predicate = Predicate (predicate_str: string)

definition Predicate_new :: "string \<Rightarrow> ValidationError + Predicate" where
  "Predicate_new v = (if is_blank v then Inl (EmptyField ''predicate'') else Inr (Predicate v))"

text \<open>
  \<open>CanonicalJson\<close>: \<open>parse\<close> is \<open>serde_json::from_str\<close> into a \<open>Value\<close>, \<open>print\<close> is
  \<open>serde_json::to_string\<close>; their errors are already rendered. Deserialization goes through
  the same constructor.
\<close>

datatype CanonicalJson = CanonicalJson (json_str: string)

definition CanonicalJson_new ::
    "(string \<Rightarrow> string + 'v) \<Rightarrow> ('v \<Rightarrow> string + string) \<Rightarrow> string \<Rightarrow> ValidationError + CanonicalJson" where
  "CanonicalJson_new parse print raw =
     and_then (map_err InvalidJson (parse raw))
       (\<lambda>v. and_then (map_err InvalidJson (print v)) (\<lambda>canonical. Inr (CanonicalJson canonical)))"

definition CanonicalJson_deserialize ::
    "(string \<Rightarrow> string + 'v) \<Rightarrow> ('v \<Rightarrow> string + string) \<Rightarrow> string \<Rightarrow> ValidationError + CanonicalJson" where
  "CanonicalJson_deserialize parse print raw = CanonicalJson_new parse print raw"

datatype FactValue = Text string | Json CanonicalJson | Redacted

definition FactValue_json ::
    "(string \<Rightarrow> string + 'v) \<Rightarrow> ('v \<Rightarrow> string + string) \<Rightarrow> string \<Rightarrow> ValidationError + FactValue" where
  "FactValue_json parse print raw = and_then (CanonicalJson_new parse print raw) (\<lambda>c. Inr (Json c))"

section \<open>Confidence and authority\<close>

datatype Confidence = Confidence (as_millis: u16)

definition Confidence_MAX :: u16 where "Confidence_MAX = 1000"
definition Confidence_ZERO :: Confidence where "Confidence_ZERO = Confidence 0"
definition Confidence_ASSERTED :: Confidence where "Confidence_ASSERTED = Confidence 900"

definition Confidence_from_millis :: "u16 \<Rightarrow> ValidationError + Confidence" where
  "Confidence_from_millis v =
     (if Confidence_MAX < v then Inl (ConfidenceOutOfRange v) else Inr (Confidence v))"

instantiation Confidence :: linorder
begin

definition less_eq_Confidence :: "Confidence \<Rightarrow> Confidence \<Rightarrow> bool" where
  "a \<le> b \<longleftrightarrow> as_millis a \<le> as_millis b"

definition less_Confidence :: "Confidence \<Rightarrow> Confidence \<Rightarrow> bool" where
  "a < b \<longleftrightarrow> as_millis a < as_millis b"

instance
  by standard (auto simp: less_eq_Confidence_def less_Confidence_def Confidence.expand)

end

datatype AuthorityLevel = Unknown | Low | Medium | High | Canonical

text \<open>The derived order is the declaration order.\<close>

fun level_rank :: "AuthorityLevel \<Rightarrow> nat" where
  "level_rank Unknown = 0"
| "level_rank Low = 1"
| "level_rank Medium = 2"
| "level_rank High = 3"
| "level_rank Canonical = 4"

lemma level_rank_inj: "level_rank a = level_rank b \<longleftrightarrow> a = b"
  by (cases a; cases b) auto

instantiation AuthorityLevel :: linorder
begin

definition less_eq_AuthorityLevel :: "AuthorityLevel \<Rightarrow> AuthorityLevel \<Rightarrow> bool" where
  "a \<le> b \<longleftrightarrow> level_rank a \<le> level_rank b"

definition less_AuthorityLevel :: "AuthorityLevel \<Rightarrow> AuthorityLevel \<Rightarrow> bool" where
  "a < b \<longleftrightarrow> level_rank a < level_rank b"

instance
  by standard (auto simp: less_eq_AuthorityLevel_def less_AuthorityLevel_def level_rank_inj
      intro: level_rank_inj [THEN iffD1] antisym)

end

lemmas level_order = less_eq_AuthorityLevel_def less_AuthorityLevel_def

lemma Unknown_le [simp]: "Unknown \<le> a" "\<not> a < Unknown"
  by (simp_all add: level_order)

lemma le_Canonical [simp]: "a \<le> Canonical" "\<not> Canonical < a"
  by (cases a; simp add: level_order)+

fun AuthorityLevel_name :: "AuthorityLevel \<Rightarrow> string" where
  "AuthorityLevel_name Unknown = ''unknown''"
| "AuthorityLevel_name Low = ''low''"
| "AuthorityLevel_name Medium = ''medium''"
| "AuthorityLevel_name High = ''high''"
| "AuthorityLevel_name Canonical = ''canonical''"

definition show_AuthorityLevel :: "AuthorityLevel \<Rightarrow> string" where
  "show_AuthorityLevel a = AuthorityLevel_name a"

record Authority =
  level :: AuthorityLevel
  issuer :: "string option"
  scope :: "string option"

definition Authority_unknown :: Authority where
  "Authority_unknown = \<lparr>level = Unknown, issuer = None, scope = None\<rparr>"

section \<open>TTL\<close>

datatype Ttl = Never | ExpiresAt TimestampMillis | DurationMillis u64

fun Ttl_expires_at :: "Ttl \<Rightarrow> TimestampMillis \<Rightarrow> TimestampMillis option" where
  "Ttl_expires_at Never anchor = None"
| "Ttl_expires_at (ExpiresAt at) anchor = Some at"
| "Ttl_expires_at (DurationMillis duration) anchor =
     map_option from_unix_millis
       (Option.bind (i64_try_from_u64 duration)
          (\<lambda>d. i64_checked_add (as_unix_millis anchor) d))"

definition Ttl_is_expired_at :: "Ttl \<Rightarrow> TimestampMillis \<Rightarrow> TimestampMillis \<Rightarrow> bool" where
  "Ttl_is_expired_at ttl anchor now =
     (case Ttl_expires_at ttl anchor of None \<Rightarrow> False | Some e \<Rightarrow> e \<le> now)"

section \<open>Provenance and evidence\<close>

datatype AttestationAlgorithm = Ed25519

record WriteAttestation =
  algorithm :: AttestationAlgorithm
  public_key :: string
  signature :: string

record Provenance =
  source :: SourceId
  actor :: ActorId
  tool :: "string option"
  run_id :: "string option"
  input_digest :: "string option"
  recorded_at :: TimestampMillis
  attestation :: "WriteAttestation option"

datatype EvidenceKind =
  DirectObservation | ToolOutput | FileSpan | UserStatement | DerivedSummary | ExternalDocument | DerivedFrom

record Evidence =
  evidence_id :: EvidenceId
  kind :: EvidenceKind
  locator :: string
  digest :: "string option"
  summary :: "string option"

section \<open>Events\<close>

datatype ContradictionBasis =
  SamePredicateDifferentValue | MutuallyExclusivePredicate | AuthorityChallenge | FreshnessChallenge

datatype SupersessionReason = NewerObservation | HigherAuthority | UserCorrection | SchemaMigration

datatype ExpirationReason = TtlElapsed | PolicyRetention

datatype RetractionReason = SourceInvalidated | PoisoningDetected | UserDeleted | PolicyViolation

datatype ChallengeKind = Supersession | Contradiction | Retraction | Expiration

datatype ChallengeRejection =
  InsufficientAuthority | LaunderedAuthority | CanonicalContradiction | WeakerCorroboration | WeakerEntrenchment

datatype FactEventKind =
    Asserted
  | Reinforced FactId
  | Contradicted FactId ContradictionBasis
  | Superseded FactId SupersessionReason
  | Expired ExpirationReason
  | Retracted RetractionReason
  | Retrieved string
  | UsedInDecision string
  | ChallengeRejected ChallengeKind "FactId option" ChallengeRejection

definition FactEventKind_name :: "FactEventKind \<Rightarrow> string" where
  "FactEventKind_name k = (case k of
      Asserted \<Rightarrow> ''fact.asserted''
    | Reinforced _ \<Rightarrow> ''fact.reinforced''
    | Contradicted _ _ \<Rightarrow> ''fact.contradicted''
    | Superseded _ _ \<Rightarrow> ''fact.superseded''
    | Expired _ \<Rightarrow> ''fact.expired''
    | Retracted _ \<Rightarrow> ''fact.retracted''
    | Retrieved _ \<Rightarrow> ''fact.retrieved''
    | UsedInDecision _ \<Rightarrow> ''fact.used_in_decision''
    | ChallengeRejected _ _ _ \<Rightarrow> ''fact.challenge_rejected'')"

definition is_lifecycle_terminal :: "FactEventKind \<Rightarrow> bool" where
  "is_lifecycle_terminal k =
     (case k of Superseded _ _ \<Rightarrow> True | Expired _ \<Rightarrow> True | Retracted _ \<Rightarrow> True | _ \<Rightarrow> False)"

record FactEvent =
  event_id :: FactEventId
  fact_id :: FactId
  kind :: FactEventKind
  subject :: Subject
  predicate :: Predicate
  val :: "FactValue option"
  confidence :: Confidence
  authority :: Authority
  ttl :: Ttl
  provenance :: Provenance
  evidence :: "Evidence list"
  observed_at :: "TimestampMillis option"
  valid_from :: "TimestampMillis option"
  valid_to :: "TimestampMillis option"

text \<open>\<open>dependency_edges\<close>: a malformed locator contributes no edge.\<close>

definition dependency_edges :: "FactEvent \<Rightarrow> FactId list" where
  "dependency_edges e =
     List.map_filter
       (\<lambda>item. case FactId_new (locator item) of Inl _ \<Rightarrow> None | Inr f \<Rightarrow> Some f)
       (filter (\<lambda>item. Evidence.kind item = DerivedFrom) (evidence e))"

definition validate :: "FactEvent \<Rightarrow> ValidationError + unit" where
  "validate e =
     (if (case (valid_from e, valid_to e) of (Some f, Some t) \<Rightarrow> t \<le> f | _ \<Rightarrow> False)
      then Inl InvalidValidityInterval
      else case FactEvent.kind e of
          Asserted \<Rightarrow>
            if val e = None then Inl MissingFactValue
            else if evidence e = [] then Inl MissingEvidence
            else Inr ()
        | Retrieved purpose \<Rightarrow>
            if is_blank purpose then Inl (EmptyField ''retrieval.purpose'') else Inr ()
        | UsedInDecision decision_id \<Rightarrow>
            if is_blank decision_id then Inl (EmptyField ''decision_id'') else Inr ()
        | _ \<Rightarrow> Inr ())"

abbreviation event_level :: "FactEvent \<Rightarrow> AuthorityLevel" where
  "event_level e \<equiv> level (authority e)"

abbreviation event_source :: "FactEvent \<Rightarrow> SourceId" where
  "event_source e \<equiv> source (provenance e)"

section \<open>Sample events\<close>

text \<open>
  A builder for the concrete events of the witnesses, after the helper \<open>base_event\<close> of the
  repository's tests: one subject, one predicate, no TTL, one evidence item.
\<close>

definition sample_event ::
    "string \<Rightarrow> string \<Rightarrow> FactEventKind \<Rightarrow> FactValue option \<Rightarrow> string \<Rightarrow> AuthorityLevel \<Rightarrow> FactEvent" where
  "sample_event eid fid k v src l = \<lparr>
     event_id = FactEventId eid, fact_id = FactId fid, kind = k,
     subject = Subject ''repo'' ''dent8'', predicate = Predicate ''database'',
     val = v, confidence = Confidence_ASSERTED,
     authority = \<lparr>level = l, issuer = None, scope = None\<rparr>, ttl = Never,
     provenance = \<lparr>source = SourceId src, actor = ActorId ''actor:test'', tool = None, run_id = None,
       input_digest = None, recorded_at = TimestampMillis 1, attestation = None\<rparr>,
     evidence = [\<lparr>evidence_id = EvidenceId ''evidence:1'', kind = UserStatement, locator = ''test'',
       digest = None, summary = None\<rparr>],
     observed_at = None, valid_from = None, valid_to = None\<rparr>"

definition sample_assert :: "string \<Rightarrow> string \<Rightarrow> AuthorityLevel \<Rightarrow> FactEvent" where
  "sample_assert eid fid l = sample_event eid fid Asserted (Some (Text ''postgres'')) ''owner'' l"

definition sample_mark :: "string \<Rightarrow> string \<Rightarrow> FactEventKind \<Rightarrow> AuthorityLevel \<Rightarrow> FactEvent" where
  "sample_mark eid fid k l = sample_event eid fid k None ''owner'' l"

lemmas sample_defs = sample_event_def sample_assert_def sample_mark_def

end
