(* ===== verification/Policy.thy ===== *)
theory Policy
  imports Model
begin

text \<open>
  \<open>crates/dent8-core/src/policy.rs\<close>: an epistemic policy says which events a
  counterfactual replay admits. Only events that can change belief are subject to the floors.
\<close>

record EpistemicPolicy =
  distrusted_sources :: "SourceId set"
  authority_floor :: AuthorityLevel
  confidence_floor :: Confidence

definition identity_policy :: EpistemicPolicy where
  "identity_policy =
     \<lparr>distrusted_sources = {}, authority_floor = Unknown, confidence_floor = Confidence_ZERO\<rparr>"

definition is_identity :: "EpistemicPolicy \<Rightarrow> bool" where
  "is_identity p \<longleftrightarrow>
     distrusted_sources p = {} \<and> authority_floor p = Unknown \<and> confidence_floor p = Confidence_ZERO"

definition affects_belief :: "FactEventKind \<Rightarrow> bool" where
  "affects_belief k = (case k of
      Asserted \<Rightarrow> True
    | Reinforced _ \<Rightarrow> True
    | Contradicted _ _ \<Rightarrow> True
    | Superseded _ _ \<Rightarrow> True
    | _ \<Rightarrow> False)"

definition admits :: "EpistemicPolicy \<Rightarrow> FactEvent \<Rightarrow> bool" where
  "admits p e =
     (if event_source e \<in> distrusted_sources p then False
      else if affects_belief (FactEvent.kind e) \<and>
              (event_level e < authority_floor p \<or> confidence e < confidence_floor p)
      then False
      else True)"

lemma identity_admits [simp]: "admits identity_policy e"
  by (simp add: admits_def identity_policy_def Confidence_ZERO_def less_Confidence_def)

lemma is_identity_iff: "is_identity p \<longleftrightarrow> p = \<lparr>distrusted_sources = {}, authority_floor = Unknown,
    confidence_floor = Confidence_ZERO, \<dots> = EpistemicPolicy.more p\<rparr>"
  by (cases p) (auto simp: is_identity_def)

text \<open>Raising a floor or distrusting more sources only removes events.\<close>

lemma admits_antimono:
  assumes "admits q e"
    and "distrusted_sources p \<subseteq> distrusted_sources q"
    and "authority_floor p \<le> authority_floor q" and "confidence_floor p \<le> confidence_floor q"
  shows "admits p e"
  using assms by (auto simp: admits_def split: if_splits)

end
