(* ===== verification/State.thy ===== *)
theory State
  imports Policy
begin

text \<open>
  \<open>crates/dent8-core/src/state.rs\<close>: the projected state of a fact and the transition
  function \<open>apply_event\<close>, the per-fact firewall. The abstract lifecycle machine
  \<open>lifecycle_step\<close> and the admission condition \<open>admissible\<close> are the specifications that
  \<open>apply_event\<close> refines; \<open>stream_state\<close> is the reachability relation of a fact stream.
\<close>

section \<open>State\<close>

datatype FactLifecycle = Active | Contested | Superseded | Expired | Retracted

definition is_terminal :: "FactLifecycle \<Rightarrow> bool" where
  "is_terminal l = (case l of
      FactLifecycle.Superseded \<Rightarrow> True | FactLifecycle.Expired \<Rightarrow> True | FactLifecycle.Retracted \<Rightarrow> True
    | _ \<Rightarrow> False)"

lemma is_terminal_simps [simp]:
  "\<not> is_terminal Active" "\<not> is_terminal Contested" "is_terminal FactLifecycle.Superseded"
  "is_terminal FactLifecycle.Expired" "is_terminal FactLifecycle.Retracted"
  by (simp_all add: is_terminal_def)

lemma not_terminal_iff: "\<not> is_terminal l \<longleftrightarrow> l = Active \<or> l = Contested"
  by (cases l) simp_all

fun show_FactLifecycle :: "FactLifecycle \<Rightarrow> string" where
  "show_FactLifecycle Active = ''Active''"
| "show_FactLifecycle Contested = ''Contested''"
| "show_FactLifecycle FactLifecycle.Superseded = ''Superseded''"
| "show_FactLifecycle FactLifecycle.Expired = ''Expired''"
| "show_FactLifecycle FactLifecycle.Retracted = ''Retracted''"

record FactState =
  fact_id :: FactId
  subject :: Subject
  predicate :: Predicate
  val :: FactValue
  authority :: Authority
  ttl :: Ttl
  freshness_anchor :: TimestampMillis
  valid_from :: "TimestampMillis option"
  valid_to :: "TimestampMillis option"
  lifecycle :: FactLifecycle
  created_at :: TimestampMillis
  updated_at :: TimestampMillis
  last_event_id :: FactEventId
  superseded_by :: "FactId option"
  contradicted_by :: "FactId list"
  evidence_count :: usize
  corroborating_sources :: "(SourceId, AuthorityLevel) btree"
  survived_challenges :: "(SourceId, AuthorityLevel) btree"

abbreviation state_level :: "FactState \<Rightarrow> AuthorityLevel" where
  "state_level s \<equiv> level (FactState.authority s)"

definition corroboration :: "FactState \<Rightarrow> usize" where
  "corroboration s = length (corroborating_sources s)"

definition corroboration_at_or_above :: "FactState \<Rightarrow> AuthorityLevel \<Rightarrow> usize" where
  "corroboration_at_or_above s m = btm_count (\<lambda>l. m \<le> l) (corroborating_sources s)"

definition survived_challenge_count :: "FactState \<Rightarrow> usize" where
  "survived_challenge_count s = length (survived_challenges s)"

definition survived_challenges_at_or_above :: "FactState \<Rightarrow> AuthorityLevel \<Rightarrow> usize" where
  "survived_challenges_at_or_above s m = btm_count (\<lambda>l. m \<le> l) (survived_challenges s)"

definition earned_entrenchment_at_or_above :: "FactState \<Rightarrow> AuthorityLevel \<Rightarrow> usize" where
  "earned_entrenchment_at_or_above s m =
     corroboration_at_or_above s m + survived_challenges_at_or_above s m"

definition expires_at :: "FactState \<Rightarrow> TimestampMillis option" where
  "expires_at s = (case (Ttl_expires_at (FactState.ttl s) (freshness_anchor s), FactState.valid_to s) of
      (Some t, Some v) \<Rightarrow> Some (min t v)
    | (t, v) \<Rightarrow> (case t of Some x \<Rightarrow> Some x | None \<Rightarrow> v))"

definition is_not_yet_valid_at :: "FactState \<Rightarrow> TimestampMillis \<Rightarrow> bool" where
  "is_not_yet_valid_at s now =
     (case FactState.valid_from s of None \<Rightarrow> False | Some f \<Rightarrow> now < f)"

definition is_expired_at :: "FactState \<Rightarrow> TimestampMillis \<Rightarrow> bool" where
  "is_expired_at s now = (case expires_at s of None \<Rightarrow> False | Some e \<Rightarrow> e \<le> now)"

definition is_fresh_at :: "FactState \<Rightarrow> TimestampMillis \<Rightarrow> bool" where
  "is_fresh_at s now \<longleftrightarrow> \<not> is_not_yet_valid_at s now \<and> \<not> is_expired_at s now"

section \<open>Transitions\<close>

datatype TransitionError =
    InvalidEvent ValidationError
  | MissingInitialAssertion
  | DuplicateAssertion
  | FactIdMismatch
  | FactShapeMismatch
  | ReinforcementValueMismatch
  | TerminalStateMutation FactLifecycle
  | InsufficientAuthority (incumbent: AuthorityLevel) (challenger: AuthorityLevel)
  | CanonicalContradiction

definition show_TransitionError :: "TransitionError \<Rightarrow> string" where
  "show_TransitionError err = (case err of
      InvalidEvent e \<Rightarrow> ''invalid event: '' @ show_ValidationError e
    | MissingInitialAssertion \<Rightarrow> ''fact stream must start with fact.asserted''
    | DuplicateAssertion \<Rightarrow> ''fact stream cannot assert the same fact twice''
    | FactIdMismatch \<Rightarrow> ''event fact_id does not match current state''
    | FactShapeMismatch \<Rightarrow> ''event subject or predicate does not match current state''
    | ReinforcementValueMismatch \<Rightarrow> ''fact.reinforced cannot change the fact value''
    | TerminalStateMutation l \<Rightarrow> ''cannot mutate terminal fact state '' @ show_FactLifecycle l
    | TransitionError.InsufficientAuthority i c \<Rightarrow>
        ''insufficient authority: '' @ show_AuthorityLevel c @
        '' may not override or remove an incumbent of '' @ show_AuthorityLevel i
    | TransitionError.CanonicalContradiction \<Rightarrow>
        ''a canonical fact cannot be contradicted; supersede it with equal authority instead'')"

definition apply_initial_event :: "FactEvent \<Rightarrow> TransitionError + FactState" where
  "apply_initial_event e =
     (if FactEvent.kind e \<noteq> Asserted then Inl MissingInitialAssertion
      else and_then (ok_or MissingInitialAssertion (FactEvent.val e)) (\<lambda>v.
        let anchor = (case FactEvent.valid_from e of Some t \<Rightarrow> t
                      | None \<Rightarrow> (case observed_at e of Some t \<Rightarrow> t
                                 | None \<Rightarrow> recorded_at (provenance e)))
        in Inr \<lparr>
          fact_id = FactEvent.fact_id e,
          subject = FactEvent.subject e,
          predicate = FactEvent.predicate e,
          val = v,
          authority = FactEvent.authority e,
          ttl = FactEvent.ttl e,
          freshness_anchor = anchor,
          valid_from = FactEvent.valid_from e,
          valid_to = FactEvent.valid_to e,
          lifecycle = Active,
          created_at = recorded_at (provenance e),
          updated_at = recorded_at (provenance e),
          last_event_id = event_id e,
          superseded_by = None,
          contradicted_by = [],
          evidence_count = length (evidence e),
          corroborating_sources = [(event_source e, event_level e)],
          survived_challenges = []\<rparr>))"

text \<open>\<open>entry(source).and_modify(|l| *l = (*l).max(level)).or_insert(level)\<close>\<close>

definition raise_source ::
    "SourceId \<Rightarrow> AuthorityLevel \<Rightarrow> (SourceId, AuthorityLevel) btree \<Rightarrow> (SourceId, AuthorityLevel) btree" where
  "raise_source src l m = btm_upsert (\<lambda>old. max old l) l src m"

definition is_audit :: "FactEventKind \<Rightarrow> bool" where
  "is_audit k = (case k of Retrieved _ \<Rightarrow> True | UsedInDecision _ \<Rightarrow> True | _ \<Rightarrow> False)"

text \<open>The \<open>match &event.kind\<close> of \<open>apply_next_event\<close>.\<close>

definition apply_kind :: "FactState \<Rightarrow> FactEvent \<Rightarrow> TransitionError + FactState" where
  "apply_kind s e = (case FactEvent.kind e of
      Asserted \<Rightarrow> Inl DuplicateAssertion
    | Reinforced _ \<Rightarrow>
        if (case FactEvent.val e of Some v \<Rightarrow> v \<noteq> FactState.val s | None \<Rightarrow> False)
        then Inl ReinforcementValueMismatch
        else Inr (s\<lparr>evidence_count := evidence_count s + length (evidence e),
                    corroborating_sources :=
                      raise_source (event_source e) (event_level e) (corroborating_sources s)\<rparr>)
    | Contradicted f _ \<Rightarrow>
        if state_level s = Canonical then Inl TransitionError.CanonicalContradiction
        else Inr (s\<lparr>lifecycle := Contested,
                    contradicted_by :=
                      (if f \<in> set (contradicted_by s) then contradicted_by s
                       else contradicted_by s @ [f])\<rparr>)
    | FactEventKind.Superseded f _ \<Rightarrow>
        if event_level e < state_level s
        then Inl (TransitionError.InsufficientAuthority (state_level s) (event_level e))
        else Inr (s\<lparr>lifecycle := FactLifecycle.Superseded, superseded_by := Some f\<rparr>)
    | FactEventKind.Expired _ \<Rightarrow>
        if event_level e < state_level s
        then Inl (TransitionError.InsufficientAuthority (state_level s) (event_level e))
        else Inr (s\<lparr>lifecycle := FactLifecycle.Expired\<rparr>)
    | FactEventKind.Retracted _ \<Rightarrow>
        if event_level e < state_level s
        then Inl (TransitionError.InsufficientAuthority (state_level s) (event_level e))
        else Inr (s\<lparr>lifecycle := FactLifecycle.Retracted\<rparr>)
    | Retrieved _ \<Rightarrow> Inr s
    | UsedInDecision _ \<Rightarrow> Inr s
    | ChallengeRejected _ _ _ \<Rightarrow>
        Inr (s\<lparr>survived_challenges :=
                 raise_source (event_source e) (event_level e) (survived_challenges s)\<rparr>))"

definition apply_next_event :: "FactState \<Rightarrow> FactEvent \<Rightarrow> TransitionError + FactState" where
  "apply_next_event s e =
     (if FactState.fact_id s \<noteq> FactEvent.fact_id e then Inl FactIdMismatch
      else if FactState.subject s \<noteq> FactEvent.subject e \<or> FactState.predicate s \<noteq> FactEvent.predicate e
      then Inl FactShapeMismatch
      else if is_terminal (lifecycle s) \<and> \<not> is_audit (FactEvent.kind e)
      then Inl (TerminalStateMutation (lifecycle s))
      else map_ok
        (\<lambda>t. t\<lparr>updated_at := recorded_at (provenance e), last_event_id := event_id e\<rparr>)
        (apply_kind s e))"

definition apply_event :: "FactState option \<Rightarrow> FactEvent \<Rightarrow> TransitionError + FactState" where
  "apply_event current e =
     and_then (map_err InvalidEvent (validate e)) (\<lambda>_.
       case current of
         None \<Rightarrow> apply_initial_event e
       | Some s \<Rightarrow> apply_next_event s e)"

section \<open>What a successful event says and does\<close>

lemma validate_ok_Asserted:
  "validate e = Inr () \<Longrightarrow> FactEvent.kind e = Asserted \<Longrightarrow> \<exists>v. FactEvent.val e = Some v"
  by (auto simp: validate_def split: if_splits)

lemma apply_event_None [simp]:
  "apply_event None e = Inr s \<longleftrightarrow> validate e = Inr () \<and> apply_initial_event e = Inr s"
  by (cases "validate e") (auto simp: apply_event_def)

lemma apply_event_Some [simp]:
  "apply_event (Some s) e = Inr t \<longleftrightarrow> validate e = Inr () \<and> apply_next_event s e = Inr t"
  by (cases "validate e") (auto simp: apply_event_def)

lemma apply_initial_iff:
  "apply_initial_event e = Inr s \<Longrightarrow> FactEvent.kind e = Asserted \<and> FactEvent.val e = Some (val s) \<and>
     fact_id s = FactEvent.fact_id e \<and> subject s = FactEvent.subject e \<and>
     predicate s = FactEvent.predicate e \<and> authority s = FactEvent.authority e \<and>
     ttl s = FactEvent.ttl e \<and> valid_from s = FactEvent.valid_from e \<and>
     valid_to s = FactEvent.valid_to e \<and> lifecycle s = Active \<and>
     created_at s = recorded_at (provenance e) \<and> updated_at s = recorded_at (provenance e) \<and>
     last_event_id s = event_id e \<and> superseded_by s = None \<and> contradicted_by s = [] \<and>
     evidence_count s = length (evidence e) \<and>
     corroborating_sources s = [(event_source e, event_level e)] \<and> survived_challenges s = []"
  by (cases "FactEvent.val e") (auto simp: apply_initial_event_def Let_def split: if_splits)

lemma apply_initial_anchor:
  "apply_initial_event e = Inr s \<Longrightarrow> freshness_anchor s =
     (case FactEvent.valid_from e of Some t \<Rightarrow> t
      | None \<Rightarrow> (case observed_at e of Some t \<Rightarrow> t | None \<Rightarrow> recorded_at (provenance e)))"
  by (cases "FactEvent.val e") (auto simp: apply_initial_event_def Let_def split: if_splits)

lemma apply_next_Inr:
  "apply_next_event s e = Inr t \<longleftrightarrow>
     fact_id s = FactEvent.fact_id e \<and> subject s = FactEvent.subject e \<and>
     predicate s = FactEvent.predicate e \<and>
     (is_terminal (lifecycle s) \<longrightarrow> is_audit (FactEvent.kind e)) \<and>
     (\<exists>u. apply_kind s e = Inr u \<and>
        t = u\<lparr>updated_at := recorded_at (provenance e), last_event_id := event_id e\<rparr>)"
  by (auto simp: apply_next_event_def split: if_splits)

text \<open>The fields no event ever rewrites: a fact's identity, value and entrenching authority.\<close>

lemma apply_kind_frame:
  assumes "apply_kind s e = Inr u"
  shows "fact_id u = fact_id s" "subject u = subject s" "predicate u = predicate s"
    "val u = val s" "authority u = authority s" "ttl u = ttl s"
    "freshness_anchor u = freshness_anchor s" "valid_from u = valid_from s"
    "valid_to u = valid_to s" "created_at u = created_at s"
  using assms
  by (auto simp: apply_kind_def split: FactEventKind.splits if_splits option.splits)

lemma apply_next_frame:
  assumes "apply_next_event s e = Inr t"
  shows "fact_id t = fact_id s" "subject t = subject s" "predicate t = predicate s"
    "val t = val s" "authority t = authority s" "ttl t = ttl s"
    "freshness_anchor t = freshness_anchor s" "valid_from t = valid_from s"
    "valid_to t = valid_to s" "created_at t = created_at s"
  using assms by (auto simp: apply_next_Inr dest: apply_kind_frame)

definition same_core :: "FactState \<Rightarrow> FactState \<Rightarrow> bool" where
  "same_core s t \<longleftrightarrow> fact_id t = fact_id s \<and> subject t = subject s \<and> predicate t = predicate s \<and>
     val t = val s \<and> authority t = authority s \<and> ttl t = ttl s \<and>
     freshness_anchor t = freshness_anchor s \<and> valid_from t = valid_from s \<and>
     valid_to t = valid_to s \<and> created_at t = created_at s"

lemma same_core_next: "apply_next_event s e = Inr t \<Longrightarrow> same_core s t"
  by (simp add: same_core_def apply_next_frame)

lemma same_core_refl [simp]: "same_core s s"
  by (simp add: same_core_def)

lemma same_core_trans: "same_core s t \<Longrightarrow> same_core t u \<Longrightarrow> same_core s u"
  by (simp add: same_core_def)

section \<open>The abstract lifecycle machine\<close>

inductive lifecycle_step :: "FactLifecycle \<Rightarrow> FactEventKind \<Rightarrow> FactLifecycle \<Rightarrow> bool" where
  audit: "is_audit k \<Longrightarrow> lifecycle_step l k l"
| reinforce: "\<not> is_terminal l \<Longrightarrow> lifecycle_step l (Reinforced f) l"
| survive: "\<not> is_terminal l \<Longrightarrow> lifecycle_step l (ChallengeRejected c g r) l"
| contest: "\<not> is_terminal l \<Longrightarrow> lifecycle_step l (Contradicted f b) Contested"
| supersede: "\<not> is_terminal l \<Longrightarrow>
    lifecycle_step l (FactEventKind.Superseded f r1) FactLifecycle.Superseded"
| expire: "\<not> is_terminal l \<Longrightarrow> lifecycle_step l (FactEventKind.Expired r2) FactLifecycle.Expired"
| retract: "\<not> is_terminal l \<Longrightarrow>
    lifecycle_step l (FactEventKind.Retracted r3) FactLifecycle.Retracted"

inductive_cases lifecycle_stepE: "lifecycle_step l k m"

lemma is_audit_simps [simp]:
  "\<not> is_audit Asserted" "\<not> is_audit (Reinforced f)" "\<not> is_audit (Contradicted f b)"
  "\<not> is_audit (FactEventKind.Superseded f r1)" "\<not> is_audit (FactEventKind.Expired r2)"
  "\<not> is_audit (FactEventKind.Retracted r3)" "is_audit (Retrieved p)" "is_audit (UsedInDecision p)"
  "\<not> is_audit (ChallengeRejected c g r)"
  by (simp_all add: is_audit_def)

inductive_simps lifecycle_step_simps:
  "lifecycle_step l Asserted m"
  "lifecycle_step l (Reinforced f) m"
  "lifecycle_step l (Contradicted f b) m"
  "lifecycle_step l (FactEventKind.Superseded f r1) m"
  "lifecycle_step l (FactEventKind.Expired r2) m"
  "lifecycle_step l (FactEventKind.Retracted r3) m"
  "lifecycle_step l (Retrieved p) m"
  "lifecycle_step l (UsedInDecision p) m"
  "lifecycle_step l (ChallengeRejected c g r) m"

text \<open>
  What the per-fact firewall admits, stated once: the event names this fact and its shape, the
  fact is open unless the event is an audit record, a reinforcement restates the value or leaves
  it out, dissent is refused on a canonical fact only, and a closing event out-ranks or ties the
  incumbent.
\<close>

definition admissible :: "FactState \<Rightarrow> FactEvent \<Rightarrow> bool" where
  "admissible s e \<longleftrightarrow>
     fact_id s = FactEvent.fact_id e \<and> subject s = FactEvent.subject e \<and>
     predicate s = FactEvent.predicate e \<and>
     (is_audit (FactEvent.kind e) \<or> \<not> is_terminal (lifecycle s)) \<and>
     FactEvent.kind e \<noteq> Asserted \<and>
     (\<forall>f. FactEvent.kind e = Reinforced f \<longrightarrow> FactEvent.val e = None \<or> FactEvent.val e = Some (val s)) \<and>
     (\<forall>f b. FactEvent.kind e = Contradicted f b \<longrightarrow> state_level s \<noteq> Canonical) \<and>
     (is_lifecycle_terminal (FactEvent.kind e) \<longrightarrow> state_level s \<le> event_level e)"

lemma apply_kind_lifecycle:
  assumes "apply_kind s e = Inr u" and "is_terminal (lifecycle s) \<longrightarrow> is_audit (FactEvent.kind e)"
  shows "lifecycle_step (lifecycle s) (FactEvent.kind e) (lifecycle u)"
  using assms
  by (auto simp: apply_kind_def lifecycle_step_simps split: FactEventKind.splits if_splits option.splits)

lemma apply_next_iff_admissible:
  "(\<exists>t. apply_next_event s e = Inr t) \<longleftrightarrow> admissible s e"
  by (cases "FactEvent.kind e")
    (auto simp: apply_next_Inr admissible_def apply_kind_def is_lifecycle_terminal_def
      not_less split: option.splits)

section \<open>Fact streams and their invariant\<close>

text \<open>\<open>stream_state es s\<close>: folding the stream \<open>es\<close> succeeds and ends in \<open>s\<close>.\<close>

inductive stream_state :: "FactEvent list \<Rightarrow> FactState \<Rightarrow> bool" where
  opened: "apply_event None e = Inr s \<Longrightarrow> stream_state [e] s"
| extended: "stream_state es s \<Longrightarrow> apply_event (Some s) e = Inr t \<Longrightarrow> stream_state (es @ [e]) t"

definition state_inv :: "FactState \<Rightarrow> bool" where
  "state_inv s \<longleftrightarrow>
     (lifecycle s = FactLifecycle.Superseded \<longleftrightarrow> superseded_by s \<noteq> None) \<and>
     (lifecycle s = Contested \<longrightarrow> contradicted_by s \<noteq> []) \<and>
     (lifecycle s = Active \<longrightarrow> contradicted_by s = []) \<and>
     (contradicted_by s \<noteq> [] \<longrightarrow> state_level s \<noteq> Canonical) \<and>
     distinct (contradicted_by s) \<and>
     btm_ok (corroborating_sources s) \<and> btm_ok (survived_challenges s) \<and>
     corroborating_sources s \<noteq> []"

lemma btm_upsert_nonempty [simp]: "btm_upsert f d k m \<noteq> []"
  by (induction f d k m rule: btm_upsert.induct) auto

lemma btm_ok_raise [simp]: "btm_ok m \<Longrightarrow> btm_ok (raise_source src l m)"
  by (simp add: raise_source_def)

lemma raise_nonempty [simp]: "raise_source src l m \<noteq> []"
  by (simp add: raise_source_def)

lemma state_inv_initial [inv_intro]: "apply_initial_event e = Inr s \<Longrightarrow> state_inv s"
  by (auto simp: state_inv_def dest: apply_initial_iff)

lemma state_inv_kind:
  assumes "state_inv s" and "apply_kind s e = Inr u"
    and "is_terminal (lifecycle s) \<longrightarrow> is_audit (FactEvent.kind e)"
  shows "state_inv u"
  using assms
  by (cases "FactEvent.kind e")
    (auto simp: apply_kind_def state_inv_def not_terminal_iff is_terminal_def
      split: if_splits option.splits FactLifecycle.splits)

lemma state_inv_next [inv_intro]:
  assumes "state_inv s" and "apply_next_event s e = Inr t"
  shows "state_inv t"
proof -
  from assms(2) obtain u where u: "apply_kind s e = Inr u"
    and t: "t = u\<lparr>updated_at := recorded_at (provenance e), last_event_id := event_id e\<rparr>"
    and close: "is_terminal (lifecycle s) \<longrightarrow> is_audit (FactEvent.kind e)"
    by (auto simp: apply_next_Inr)
  from state_inv_kind [OF assms(1) u close] show ?thesis by (simp add: t state_inv_def)
qed

lemma stream_state_inv: "stream_state es s \<Longrightarrow> state_inv s"
  by (induction rule: stream_state.induct) (auto intro: inv_intro)

lemma stream_state_nonempty: "stream_state es s \<Longrightarrow> es \<noteq> []"
  by (induction rule: stream_state.induct) auto

lemma stream_state_hd:
  "stream_state es s \<Longrightarrow> \<exists>s0. apply_event None (hd es) = Inr s0 \<and> same_core s0 s"
proof (induction rule: stream_state.induct)
  case (opened e s)
  then show ?case by force
next
  case (extended es s e t)
  then obtain s0 where "apply_event None (hd es) = Inr s0" "same_core s0 s" by auto
  moreover have "same_core s t" using extended.hyps(2) by (auto dest: same_core_next)
  ultimately show ?case
    using stream_state_nonempty [OF extended.hyps(1)] by (metis hd_append2 same_core_trans)
qed

lemma stream_state_ids:
  "stream_state es s \<Longrightarrow> \<forall>e \<in> set es. FactEvent.fact_id e = fact_id s \<and>
     FactEvent.subject e = subject s \<and> FactEvent.predicate e = predicate s"
proof (induction rule: stream_state.induct)
  case (opened e s)
  then show ?case by (auto dest: apply_initial_iff)
next
  case (extended es s e t)
  from extended.hyps(2) have "apply_next_event s e = Inr t" by simp
  then have "same_core s t" "fact_id s = FactEvent.fact_id e" "subject s = FactEvent.subject e"
    "predicate s = FactEvent.predicate e" by (rule same_core_next) (use \<open>apply_next_event s e = Inr t\<close> in \<open>simp_all add: apply_next_Inr\<close>)
  with extended.IH show ?case by (auto simp: same_core_def)
qed

text \<open>Only the first event of a stream asserts.\<close>

lemma stream_state_tl_not_Asserted:
  "stream_state es s \<Longrightarrow> \<forall>e \<in> set (tl es). FactEvent.kind e \<noteq> Asserted"
proof (induction rule: stream_state.induct)
  case (extended es s e t)
  have "FactEvent.kind e \<noteq> Asserted"
    using extended.hyps(2) by (auto simp: apply_next_Inr apply_kind_def)
  then show ?case
    using extended.IH stream_state_nonempty [OF extended.hyps(1)] by (cases es) auto
qed simp

section \<open>Entrenchment\<close>

lemma raise_count_same:
  "l < m \<Longrightarrow> btm_count (\<lambda>x. m \<le> x) (raise_source src l t) = btm_count (\<lambda>x. m \<le> x) t"
  unfolding raise_source_def by (rule btm_count_upsert_same) (auto simp: le_max_iff_disj)

lemma raise_count_mono:
  "btm_count (\<lambda>x. m \<le> x) t \<le> btm_count (\<lambda>x. m \<le> x) (raise_source src l t)"
  unfolding raise_source_def by (rule btm_count_upsert_mono) (auto simp: le_max_iff_disj)

lemmas entrenchment_defs = earned_entrenchment_at_or_above_def corroboration_at_or_above_def
  survived_challenges_at_or_above_def

lemma next_entrenchment_weak:
  "apply_next_event s e = Inr t \<Longrightarrow> event_level e < m \<Longrightarrow>
     corroboration_at_or_above t m = corroboration_at_or_above s m \<and>
     survived_challenges_at_or_above t m = survived_challenges_at_or_above s m"
  by (auto simp: apply_next_Inr apply_kind_def entrenchment_defs raise_count_same
      split: FactEventKind.splits if_splits option.splits)

lemma next_entrenchment_mono:
  "apply_next_event s e = Inr t \<Longrightarrow>
     corroboration_at_or_above s m \<le> corroboration_at_or_above t m \<and>
     survived_challenges_at_or_above s m \<le> survived_challenges_at_or_above t m"
  by (auto simp: apply_next_Inr apply_kind_def entrenchment_defs raise_count_mono
      split: FactEventKind.splits if_splits option.splits)

text \<open>A run of further events on an open stream.\<close>

definition run_events :: "FactState \<Rightarrow> FactEvent list \<Rightarrow> TransitionError + FactState" where
  "run_events s es = try_fold (\<lambda>s e. apply_event (Some s) e) s es"

lemma run_events_simps [simp]:
  "run_events s [] = Inr s"
  "run_events s (e # es) = and_then (apply_event (Some s) e) (\<lambda>t. run_events t es)"
  by (simp_all add: run_events_def)

lemma run_events_weak:
  "run_events s es = Inr t \<Longrightarrow> \<forall>e \<in> set es. event_level e < m \<Longrightarrow>
     earned_entrenchment_at_or_above t m = earned_entrenchment_at_or_above s m"
  by (induction es arbitrary: s)
    (auto dest!: next_entrenchment_weak simp: earned_entrenchment_at_or_above_def)

lemma run_events_mono:
  "run_events s es = Inr t \<Longrightarrow>
     earned_entrenchment_at_or_above s m \<le> earned_entrenchment_at_or_above t m"
proof (induction es arbitrary: s)
  case (Cons e es)
  then obtain u where u: "apply_next_event s e = Inr u" "run_events u es = Inr t" by auto
  show ?case
    using next_entrenchment_mono [OF u(1), of m] Cons.IH [OF u(2)]
    by (simp add: earned_entrenchment_at_or_above_def)
qed simp

lemma run_events_core: "run_events s es = Inr t \<Longrightarrow> same_core s t"
  by (induction es arbitrary: s) (auto intro: same_core_next same_core_trans)

lemma run_events_stream:
  "stream_state es s \<Longrightarrow> run_events s fs = Inr t \<Longrightarrow> stream_state (es @ fs) t"
proof (induction fs arbitrary: es s)
  case (Cons e fs)
  then obtain u where "apply_event (Some s) e = Inr u" "run_events u fs = Inr t" by auto
  then show ?case using Cons.IH [OF stream_state.extended [OF Cons.prems(1)]] by simp
qed simp

section \<open>Freshness\<close>

lemma Ttl_expired_int:
  assumes "0 \<le> ms anchor"
  shows "Ttl_is_expired_at t anchor now \<longleftrightarrow> (case t of
      Never \<Rightarrow> False
    | ExpiresAt at \<Rightarrow> ms at \<le> ms now
    | DurationMillis d \<Rightarrow> ms anchor + uint d \<le> ms now)"
proof (cases t)
  case (DurationMillis d)
  have now: "ms now \<le> 9223372036854775807" by (simp add: ms_def sint_i64_range)
  show ?thesis
  proof (cases "i64_try_from_u64 d")
    case None
    then have "9223372036854775808 \<le> uint d" by (simp add: i64_try_from_u64_None)
    with None now assms DurationMillis show ?thesis by (simp add: Ttl_is_expired_at_def)
  next
    case (Some d')
    have d': "sint d' = uint d" by (rule i64_try_from_u64_Some [OF Some])
    show ?thesis
    proof (cases "i64_checked_add (as_unix_millis anchor) d'")
      case None
      then have "\<not> in_i64 (ms anchor + uint d)" by (simp add: i64_checked_add_None ms_def d')
      moreover have "0 \<le> ms anchor + uint d" using assms by (intro add_nonneg_nonneg) simp_all
      ultimately have "9223372036854775807 < ms anchor + uint d" by (simp add: in_i64_def)
      with None Some now DurationMillis show ?thesis by (simp add: Ttl_is_expired_at_def)
    next
      case (Some c)
      then have "sint c = ms anchor + uint d" by (simp add: i64_checked_add_Some ms_def d')
      with Some \<open>i64_try_from_u64 d = Some d'\<close> DurationMillis show ?thesis
        by (simp add: Ttl_is_expired_at_def timestamp_order from_unix_millis_def ms_def)
    qed
  qed
qed (simp_all add: Ttl_is_expired_at_def timestamp_order)

lemma is_expired_iff:
  "is_expired_at s now \<longleftrightarrow> Ttl_is_expired_at (ttl s) (freshness_anchor s) now \<or>
     (case valid_to s of None \<Rightarrow> False | Some v \<Rightarrow> v \<le> now)"
  by (auto simp: is_expired_at_def expires_at_def Ttl_is_expired_at_def min_le_iff_disj
      split: option.splits)

section \<open>Properties\<close>

text \<open>
  The lifecycle automaton. Whenever the transition function accepts an event on an existing
  fact, the lifecycle moves as the abstract machine allows (open facts may be contested or closed,
  closed facts only record audit events, nothing reopens) and the fact keeps its identity, shape,
  value, authority, TTL and validity.
\<close>

theorem apply_event_refines_lifecycle:
  assumes "apply_event (Some s) e = Inr t"
  shows "lifecycle_step (lifecycle s) (FactEvent.kind e) (lifecycle t) \<and>
    fact_id t = fact_id s \<and> subject t = subject s \<and> predicate t = predicate s \<and>
    val t = val s \<and> authority t = authority s \<and> ttl t = ttl s \<and>
    freshness_anchor t = freshness_anchor s \<and> valid_from t = valid_from s \<and>
    valid_to t = valid_to s \<and> created_at t = created_at s"
  using assms by (auto simp: apply_next_Inr dest: apply_kind_lifecycle apply_kind_frame)

text \<open>
  The per-fact firewall decides exactly by the stated condition: an event on an existing fact
  is accepted if and only if it validates and is admissible (same fact and shape, fact open or
  audit record, no second assertion, restated value equal, canonical facts not contradicted,
  closing events of at least the incumbent's authority).
\<close>

theorem apply_event_accepts_iff:
  "(\<exists>t. apply_event (Some s) e = Inr t) \<longleftrightarrow> validate e = Inr () \<and> admissible s e"
  using apply_next_iff_admissible by auto

text \<open>
  C13: A supersession, retraction or expiration stated below the incumbent's authority is refused
  with \<open>InsufficientAuthority\<close> naming both levels, whatever its confidence, evidence or age.
\<close>

theorem low_authority_cannot_close:
  assumes "validate e = Inr ()" and "fact_id s = FactEvent.fact_id e"
    and "subject s = FactEvent.subject e" and "predicate s = FactEvent.predicate e"
    and "\<not> is_terminal (lifecycle s)" and "is_lifecycle_terminal (FactEvent.kind e)"
    and "event_level e < state_level s"
  shows "apply_event (Some s) e =
    Inl (TransitionError.InsufficientAuthority (state_level s) (event_level e))"
  using assms
  by (cases "FactEvent.kind e")
    (simp_all add: apply_event_def apply_next_event_def apply_kind_def is_lifecycle_terminal_def)

text \<open>
  A closed fact is frozen. Along any accepted run of events from a superseded, expired or
  retracted fact, every event is an audit record and nothing but the last-update stamp changes.
\<close>

theorem terminal_fact_frozen:
  assumes "is_terminal (lifecycle s)" and "run_events s es = Inr t"
  shows "(\<forall>e \<in> set es. is_audit (FactEvent.kind e)) \<and>
    t = s\<lparr>updated_at := updated_at t, last_event_id := last_event_id t\<rparr>"
  using assms
proof (induction es arbitrary: s)
  case (Cons e es)
  then obtain u where u: "apply_next_event s e = Inr u" "run_events u es = Inr t" by auto
  have a: "is_audit (FactEvent.kind e)" using u(1) Cons.prems(1) by (simp add: apply_next_Inr)
  then have ueq: "u = s\<lparr>updated_at := updated_at u, last_event_id := last_event_id u\<rparr>"
    using u(1) by (cases "FactEvent.kind e") (auto simp: apply_next_Inr apply_kind_def)
  then have "lifecycle u = lifecycle s" by (metis FactState.select_convs(10) FactState.surjective
      FactState.update_convs(12,13))
  then have "(\<forall>e \<in> set es. is_audit (FactEvent.kind e)) \<and>
    t = u\<lparr>updated_at := updated_at t, last_event_id := last_event_id t\<rparr>"
    using Cons.IH [OF _ u(2)] Cons.prems(1) by simp
  with a ueq show ?case by (cases s; cases u; cases t) simp
qed simp

text \<open>
  C40: The state invariant of every fact stream: a fact is marked superseded exactly when its
  successor is recorded, contested exactly with a non-empty duplicate-free list of contradictors
  while open, a canonical fact never carries a contradiction, and at least one source backs it.
\<close>

theorem stream_state_invariant:
  assumes "stream_state es s"
  shows "(lifecycle s = FactLifecycle.Superseded \<longleftrightarrow> superseded_by s \<noteq> None) \<and>
    (lifecycle s = Contested \<longrightarrow> contradicted_by s \<noteq> []) \<and>
    (lifecycle s = Active \<longrightarrow> contradicted_by s = []) \<and>
    (state_level s = Canonical \<longrightarrow> contradicted_by s = [] \<and> lifecycle s \<noteq> Contested) \<and>
    distinct (contradicted_by s) \<and> 0 < corroboration s"
  using stream_state_inv [OF assms] by (auto simp: state_inv_def corroboration_def)

text \<open>
  Sybil resistance. No number of events below a level, from however many sources, changes the
  earned entrenchment (corroboration plus survived challenges) measured at that level.
\<close>

theorem weak_sources_earn_nothing:
  assumes "run_events s es = Inr t" and "\<forall>e \<in> set es. event_level e < m"
  shows "earned_entrenchment_at_or_above t m = earned_entrenchment_at_or_above s m"
  using assms by (rule run_events_weak)

text \<open>
  Freshness is interval membership in unbounded arithmetic. For a fact anchored at or after
  the epoch, it is fresh at an instant exactly when the instant is not before \<open>valid_from\<close>, is
  before \<open>valid_to\<close>, and is before the TTL's end computed without overflow: the checked 64-bit
  addition of the code loses no expiry that a clock could reach.
\<close>

theorem fresh_iff_in_window:
  assumes "0 \<le> ms (freshness_anchor s)"
  shows "is_fresh_at s now \<longleftrightarrow>
    (case valid_from s of None \<Rightarrow> True | Some f \<Rightarrow> ms f \<le> ms now) \<and>
    (case valid_to s of None \<Rightarrow> True | Some v \<Rightarrow> ms now < ms v) \<and>
    (case ttl s of
       Never \<Rightarrow> True
     | ExpiresAt at \<Rightarrow> ms now < ms at
     | DurationMillis d \<Rightarrow> ms now < ms (freshness_anchor s) + uint d)"
  by (auto simp: is_fresh_at_def is_not_yet_valid_at_def is_expired_iff Ttl_expired_int [OF assms]
      timestamp_order not_le not_less split: option.splits Ttl.splits)

text \<open>
  The guard on the anchor in the freshness property is needed, and the documented rule does not hold for anchors before the
  epoch: a duration above \<open>i64::MAX\<close> on a negative anchor has a representable end, yet the
  code treats the fact as never expiring.
\<close>

theorem negative_anchor_ttl_never_expires:
  "Ttl_expires_at (DurationMillis 9223372036854775808) (TimestampMillis (- 1)) = None \<and>
   in_i64 (ms (TimestampMillis (- 1)) + uint (9223372036854775808 :: u64))"
  by (simp add: i64_try_from_u64_def ms_def in_i64_def)

section \<open>Witnesses\<close>

definition sample_open :: "AuthorityLevel \<Rightarrow> FactState" where
  "sample_open l = \<lparr>fact_id = FactId ''fact:1'', subject = Subject ''repo'' ''dent8'',
     predicate = Predicate ''database'', val = Text ''postgres'',
     authority = \<lparr>level = l, issuer = None, scope = None\<rparr>, ttl = Never,
     freshness_anchor = TimestampMillis 1, valid_from = None, valid_to = None, lifecycle = Active,
     created_at = TimestampMillis 1, updated_at = TimestampMillis 1,
     last_event_id = FactEventId ''event:1'', superseded_by = None, contradicted_by = [],
     evidence_count = 1, corroborating_sources = [(SourceId ''owner'', l)],
     survived_challenges = []\<rparr>"

lemmas transition_eval = apply_event_def apply_initial_event_def apply_next_event_def
  apply_kind_def validate_def raise_source_def is_terminal_def is_audit_def

lemma sample_open_eq:
  "apply_event None (sample_assert ''event:1'' ''fact:1'' l) = Inr (sample_open l)"
  by (simp add: transition_eval sample_defs sample_open_def)

definition sample_contest :: FactEvent where
  "sample_contest =
     sample_mark ''event:2'' ''fact:1'' (Contradicted (FactId ''fact:2'') SamePredicateDifferentValue) Low"

definition sample_supersede :: "AuthorityLevel \<Rightarrow> FactEvent" where
  "sample_supersede l =
     sample_mark ''event:2'' ''fact:1'' (FactEventKind.Superseded (FactId ''fact:2'') UserCorrection) l"

definition sample_reinforce :: "string \<Rightarrow> AuthorityLevel \<Rightarrow> FactEvent" where
  "sample_reinforce src l =
     sample_event ''event:3'' ''fact:1'' (Reinforced (FactId ''fact:1'')) None src l"

lemmas sample_state_defs = sample_defs sample_open_def sample_contest_def sample_supersede_def
  sample_reinforce_def

theorem apply_event_refines_lifecycle_witness:
  "\<exists>t. apply_event (Some (sample_open High)) sample_contest = Inr t \<and>
     lifecycle_step Active (FactEvent.kind sample_contest) (lifecycle t) \<and> lifecycle t = Contested"
proof -
  obtain t where t: "apply_event (Some (sample_open High)) sample_contest = Inr t"
    "lifecycle t = Contested"
    by (simp add: transition_eval sample_state_defs)
  from apply_event_refines_lifecycle [OF t(1)] t show ?thesis by (auto simp: sample_open_def)
qed

theorem low_authority_cannot_close_witness:
  "apply_event (Some (sample_open High)) (sample_supersede Low) =
     Inl (TransitionError.InsufficientAuthority High Low)"
  using low_authority_cannot_close [of "sample_supersede Low" "sample_open High"]
  by (simp add: sample_state_defs validate_def is_lifecycle_terminal_def level_order)

definition sample_closed :: FactState where
  "sample_closed = (sample_open High)\<lparr>lifecycle := FactLifecycle.Retracted\<rparr>"

theorem terminal_fact_frozen_witness:
  "\<exists>t. run_events sample_closed [sample_mark ''event:4'' ''fact:1'' (Retrieved ''audit'') Low] = Inr t \<and>
     t = sample_closed\<lparr>updated_at := updated_at t, last_event_id := last_event_id t\<rparr>"
proof -
  obtain t where
    t: "run_events sample_closed [sample_mark ''event:4'' ''fact:1'' (Retrieved ''audit'') Low] = Inr t"
    by (simp add: sample_closed_def sample_state_defs transition_eval trim_eval)
  moreover have "is_terminal (lifecycle sample_closed)" by (simp add: sample_closed_def)
  ultimately show ?thesis using terminal_fact_frozen by blast
qed

theorem stream_state_invariant_witness:
  "stream_state [sample_assert ''event:1'' ''fact:1'' High] (sample_open High) \<and>
   0 < corroboration (sample_open High)"
proof -
  have "stream_state [sample_assert ''event:1'' ''fact:1'' High] (sample_open High)"
    by (rule stream_state.opened [OF sample_open_eq])
  with stream_state_invariant [OF this] show ?thesis by blast
qed

theorem weak_sources_earn_nothing_witness:
  "\<exists>t. run_events (sample_open High) [sample_reinforce ''sybil1'' Low, sample_reinforce ''sybil2'' Low] = Inr t \<and>
     corroboration t = 3 \<and>
     earned_entrenchment_at_or_above t High = earned_entrenchment_at_or_above (sample_open High) High"
proof -
  obtain t where t: "run_events (sample_open High)
      [sample_reinforce ''sybil1'' Low, sample_reinforce ''sybil2'' Low] = Inr t" "corroboration t = 3"
    by (simp add: sample_state_defs transition_eval corroboration_def less_SourceId_def level_order)
  moreover have "\<forall>e \<in> set [sample_reinforce ''sybil1'' Low, sample_reinforce ''sybil2'' Low].
      event_level e < High"
    by (simp add: sample_state_defs level_order)
  ultimately show ?thesis using weak_sources_earn_nothing by blast
qed

theorem fresh_iff_in_window_witness:
  "is_fresh_at (sample_open High\<lparr>ttl := DurationMillis 500\<rparr>) (TimestampMillis 500) \<and>
   \<not> is_fresh_at (sample_open High\<lparr>ttl := DurationMillis 500\<rparr>) (TimestampMillis 501)"
  using fresh_iff_in_window [of "sample_open High\<lparr>ttl := DurationMillis 500\<rparr>" "TimestampMillis 500"]
    fresh_iff_in_window [of "sample_open High\<lparr>ttl := DurationMillis 500\<rparr>" "TimestampMillis 501"]
  by (simp add: sample_open_def ms_def)

end
