(* ===== verification/Replay.thy ===== *)
theory Replay
  imports State
begin

text \<open>
  \<open>crates/dent8-store/src/lib.rs\<close>, first part: the store's errors, replay of one fact stream
  and of a subject, plain and under an epistemic policy, and the comparison of two projections.
  Replay is the only way the code derives a state, so \<open>stream_state\<close> is its specification.
\<close>

section \<open>Errors\<close>

datatype ReplayError = Transition TransitionError

definition show_ReplayError :: "ReplayError \<Rightarrow> string" where
  "show_ReplayError err = (case err of Transition e \<Rightarrow> ''replay failed: '' @ show_TransitionError e)"

datatype StoreError =
    Conflict string
  | Unavailable string
  | CorruptEvent string
  | Canonicalization string
  | Rejected TransitionError
  | LaunderedAuthority AuthorityLevel AuthorityLevel
  | UnbackedSupersession FactId
  | BelowAuthorityFloor string AuthorityLevel AuthorityLevel
  | UniquenessViolation string
  | TtlCeilingExceeded string u64 u64
  | Replay ReplayError

definition show_StoreError :: "StoreError \<Rightarrow> string" where
  "show_StoreError err = (case err of
      Conflict m \<Rightarrow> ''store conflict: '' @ m
    | Unavailable m \<Rightarrow> ''store unavailable: '' @ m
    | CorruptEvent m \<Rightarrow> ''corrupt event: '' @ m
    | Canonicalization m \<Rightarrow> ''canonicalization failed: '' @ m
    | Rejected e \<Rightarrow> ''firewall rejected the write: '' @ show_TransitionError e
    | LaunderedAuthority inc ch \<Rightarrow>
        ''firewall rejected the write: supersession by a weaker fact (challenger '' @
        show_AuthorityLevel ch @ '' is below incumbent '' @ show_AuthorityLevel inc @ '')''
    | UnbackedSupersession f \<Rightarrow>
        ''firewall rejected the write: superseding fact '' @ fact_str f @ '' does not exist''
    | BelowAuthorityFloor p fl a \<Rightarrow>
        ''policy rejected the write: '' @ p @ '' requires authority '' @ show_AuthorityLevel fl @
        '', got '' @ show_AuthorityLevel a
    | UniquenessViolation p \<Rightarrow>
        ''policy rejected the write: '' @ p @ '' already has a believed fact (supersede it)''
    | TtlCeilingExceeded p t c \<Rightarrow>
        ''policy rejected the write: '' @ p @ '' TTL of '' @ show_nat (unat t) @
        ''ms exceeds the retention ceiling of '' @ show_nat (unat c) @
        ''ms; assert a shorter freshness window (or raise the ceiling) '' @
        [CHR 0xE2, CHR 0x80, CHR 0x94] @ '' asserted TTLs are rejected, not silently clamped''
    | Replay e \<Rightarrow> show_ReplayError e)"

section \<open>Folding one stream\<close>

text \<open>The loop of \<open>fold_fact\<close>, with its early return when the assertion is filtered out.\<close>

fun fold_loop ::
    "bool \<Rightarrow> EpistemicPolicy \<Rightarrow> FactState option \<Rightarrow> FactEvent list \<Rightarrow> ReplayError + FactState option" where
  "fold_loop assertion_filtered p state [] = Inr state"
| "fold_loop assertion_filtered p state (e # es) =
     (if \<not> admits p e then fold_loop assertion_filtered p state es
      else if state = None \<and> assertion_filtered \<and> FactEvent.kind e \<noteq> Asserted then Inr None
      else and_then (map_err Transition (apply_event state e))
             (\<lambda>s. fold_loop assertion_filtered p (Some s) es))"

definition fold_fact :: "FactEvent list \<Rightarrow> EpistemicPolicy \<Rightarrow> ReplayError + FactState option" where
  "fold_fact es p =
     fold_loop (\<exists>e \<in> set es. FactEvent.kind e = Asserted \<and> \<not> admits p e) p None es"

definition replay_fact_with_policy ::
    "FactEvent list \<Rightarrow> EpistemicPolicy \<Rightarrow> ReplayError + FactState option" where
  "replay_fact_with_policy es p = fold_fact es p"

definition replay_fact :: "FactEvent list \<Rightarrow> ReplayError + FactState option" where
  "replay_fact es = replay_fact_with_policy es identity_policy"

section \<open>Folding a subject\<close>

record SubjectProjection =
  facts :: "(FactId, FactState) btree"

definition projection_get :: "SubjectProjection \<Rightarrow> FactId \<Rightarrow> FactState option" where
  "projection_get pr f = btm_get (facts pr) f"

fun fold_streams ::
    "EpistemicPolicy \<Rightarrow> (FactId \<times> FactEvent list) list \<Rightarrow> (FactId, FactState) btree \<Rightarrow>
       ReplayError + (FactId, FactState) btree" where
  "fold_streams p [] m = Inr m"
| "fold_streams p ((f, es) # rest) m =
     and_then (fold_fact es p)
       (\<lambda>r. fold_streams p rest (case r of Some s \<Rightarrow> btm_insert f s m | None \<Rightarrow> m))"

definition replay_subject_with_policy ::
    "FactEvent list \<Rightarrow> EpistemicPolicy \<Rightarrow> ReplayError + SubjectProjection" where
  "replay_subject_with_policy es p =
     and_then (fold_streams p (btm_group FactEvent.fact_id es) []) (\<lambda>m. Inr \<lparr>facts = m\<rparr>)"

definition replay_subject :: "FactEvent list \<Rightarrow> ReplayError + SubjectProjection" where
  "replay_subject es = replay_subject_with_policy es identity_policy"

section \<open>Comparing projections\<close>

datatype StateDiff =
    Unchanged
  | Appeared
  | Disappeared
  | Changed "(FactLifecycle \<times> FactLifecycle) option" "(FactValue \<times> FactValue) option"
      "(FactId option \<times> FactId option) option" "(FactId list \<times> FactId list) option"
      "(usize \<times> usize) option"

definition then_some :: "bool \<Rightarrow> 'a \<Rightarrow> 'a option" where
  "then_some b x = (if b then Some x else None)"

definition diff_states :: "FactState option \<Rightarrow> FactState option \<Rightarrow> StateDiff" where
  "diff_states b c = (case (b, c) of
      (None, None) \<Rightarrow> Unchanged
    | (None, Some _) \<Rightarrow> Appeared
    | (Some _, None) \<Rightarrow> Disappeared
    | (Some base, Some cf) \<Rightarrow>
        let l = then_some (lifecycle base \<noteq> lifecycle cf) (lifecycle base, lifecycle cf);
            v = then_some (val base \<noteq> val cf) (val base, val cf);
            s = then_some (superseded_by base \<noteq> superseded_by cf) (superseded_by base, superseded_by cf);
            d = then_some (contradicted_by base \<noteq> contradicted_by cf) (contradicted_by base, contradicted_by cf);
            n = then_some (evidence_count base \<noteq> evidence_count cf) (evidence_count base, evidence_count cf)
        in if l = None \<and> v = None \<and> s = None \<and> d = None \<and> n = None then Unchanged
           else Changed l v s d n)"

section \<open>Replay is the fold of the transition function\<close>

lemma fold_loop_plain:
  "fold_loop False p state es =
     (if filter (admits p) es = [] then Inr state
      else map_err Transition (map_ok Some
        (and_then (apply_event state (hd (filter (admits p) es)))
          (\<lambda>s. run_events s (tl (filter (admits p) es))))))"
proof (induction es arbitrary: state)
  case (Cons e es)
  show ?case
  proof (cases "admits p e")
    case True
    show ?thesis
    proof (cases "apply_event state e")
      case (Inr s)
      with True Cons.IH [of "Some s"] show ?thesis
        by (cases "filter (admits p) es") (simp_all add: run_events_def)
    qed (use True in simp)
  qed (use Cons.IH in simp)
qed simp

lemma fold_fact_plain:
  "\<forall>e \<in> set es. FactEvent.kind e = Asserted \<longrightarrow> admits p e \<Longrightarrow> fold_fact es p = fold_loop False p None es"
proof -
  assume "\<forall>e \<in> set es. FactEvent.kind e = Asserted \<longrightarrow> admits p e"
  then have "(\<exists>e \<in> set es. FactEvent.kind e = Asserted \<and> \<not> admits p e) = False" by blast
  then show ?thesis by (simp only: fold_fact_def)
qed

lemma filter_identity [simp]: "filter (admits identity_policy) es = es"
  by (simp add: filter_id_conv)

lemma replay_fact_eq:
  "replay_fact es = (case es of [] \<Rightarrow> Inr None
     | e # fs \<Rightarrow> map_err Transition (map_ok Some (and_then (apply_event None e) (\<lambda>s. run_events s fs))))"
  by (cases es)
    (simp_all add: replay_fact_def replay_fact_with_policy_def fold_fact_plain fold_loop_plain
      del: fold_loop.simps)

lemma replay_fact_Nil [simp]: "replay_fact [] = Inr None"
  by (simp add: replay_fact_eq)

lemma stream_state_run:
  "stream_state es s \<longleftrightarrow>
     (\<exists>e fs s0. es = e # fs \<and> apply_event None e = Inr s0 \<and> run_events s0 fs = Inr s)"
proof
  assume "stream_state es s"
  then show "\<exists>e fs s0. es = e # fs \<and> apply_event None e = Inr s0 \<and> run_events s0 fs = Inr s"
  proof (induction rule: stream_state.induct)
    case (opened e s)
    then show ?case by force
  next
    case (extended es s e t)
    then obtain d fs s0 where "es = d # fs" "apply_event None d = Inr s0" "run_events s0 fs = Inr s"
      by blast
    then show ?case using extended.hyps(2) by (auto simp: run_events_def try_fold_snoc)
  qed
next
  assume "\<exists>e fs s0. es = e # fs \<and> apply_event None e = Inr s0 \<and> run_events s0 fs = Inr s"
  then show "stream_state es s"
    using run_events_stream [OF stream_state.opened] by fastforce
qed

lemma replay_fact_Some: "replay_fact es = Inr (Some s) \<longleftrightarrow> stream_state es s"
  by (cases es) (auto simp: replay_fact_eq stream_state_run simp del: apply_event_None)

lemma replay_fact_None: "replay_fact es = Inr None \<longleftrightarrow> es = []"
  by (cases es) (auto simp: replay_fact_eq)

lemma replay_fact_snoc:
  "replay_fact es = Inr current \<Longrightarrow>
     replay_fact (es @ [e]) = map_err Transition (map_ok Some (apply_event current e))"
proof (cases es)
  case Nil
  moreover assume "replay_fact es = Inr current"
  ultimately show ?thesis by (simp add: replay_fact_eq run_events_def)
next
  case (Cons d fs)
  assume "replay_fact es = Inr current"
  then obtain s0 s where "apply_event None d = Inr s0" "run_events s0 fs = Inr s" "current = Some s"
    using Cons by (auto simp: replay_fact_eq simp del: apply_event_None)
  then show ?thesis using Cons by (simp add: replay_fact_eq run_events_def try_fold_snoc del: apply_event_None)
qed

lemma replay_fact_prefix: "replay_fact (es @ fs) = Inr r \<Longrightarrow> \<exists>r. replay_fact es = Inr r"
proof (cases es)
  case (Cons d ds)
  assume "replay_fact (es @ fs) = Inr r"
  then show ?thesis using Cons
    by (auto simp: replay_fact_eq run_events_def try_fold_append simp del: apply_event_None)
qed simp

section \<open>Counterfactual replay\<close>

lemma fold_loop_filtered:
  "\<forall>e \<in> set es. admits p e \<longrightarrow> FactEvent.kind e \<noteq> Asserted \<Longrightarrow> fold_loop True p None es = Inr None"
  by (induction es) auto

lemma same_core_sym: "same_core s t \<Longrightarrow> same_core t s"
  by (simp add: same_core_def)

lemma admissible_core:
  "same_core s t \<Longrightarrow> (is_terminal (lifecycle t) \<longrightarrow> is_terminal (lifecycle s)) \<Longrightarrow> admissible s e \<Longrightarrow>
     admissible t e"
  by (auto simp: admissible_def same_core_def)

lemma next_lifecycle: "apply_next_event s e = Inr t \<Longrightarrow>
    lifecycle_step (lifecycle s) (FactEvent.kind e) (lifecycle t)"
  by (auto simp: apply_next_Inr dest: apply_kind_lifecycle)

lemma next_terminal: "apply_next_event s e = Inr t \<Longrightarrow> is_terminal (lifecycle s) \<Longrightarrow> is_terminal (lifecycle t)"
  by (drule next_lifecycle) (cases "FactEvent.kind e"; simp add: lifecycle_step_simps)

lemma step_terminal_mono:
  "lifecycle_step l k m \<Longrightarrow> lifecycle_step l' k m' \<Longrightarrow> (is_terminal l' \<longrightarrow> is_terminal l) \<Longrightarrow>
     is_terminal m' \<longrightarrow> is_terminal m"
  by (cases k) (auto simp: lifecycle_step_simps)

text \<open>
  Dropping events from an accepted run leaves an accepted run: admissibility depends on the
  fact's fixed fields and on the fact being open, and dropping events closes nothing.
\<close>

lemma run_events_filter:
  assumes "run_events s es = Inr t" and "same_core s s'"
    and "is_terminal (lifecycle s') \<longrightarrow> is_terminal (lifecycle s)"
  shows "\<exists>t'. run_events s' (filter P es) = Inr t' \<and> same_core t t' \<and>
    (is_terminal (lifecycle t') \<longrightarrow> is_terminal (lifecycle t))"
  using assms
proof (induction es arbitrary: s s')
  case (Cons e es)
  then obtain u where v: "validate e = Inr ()" and u: "apply_next_event s e = Inr u"
    and t: "run_events u es = Inr t" by auto
  show ?case
  proof (cases "P e")
    case False
    have "same_core u s'"
      using same_core_next [OF u] Cons.prems(2) by (meson same_core_sym same_core_trans)
    moreover have "is_terminal (lifecycle s') \<longrightarrow> is_terminal (lifecycle u)"
      using Cons.prems(3) next_terminal [OF u] by blast
    ultimately show ?thesis using Cons.IH [OF t, of s'] False by simp
  next
    case True
    have "admissible s' e"
      using admissible_core [OF Cons.prems(2,3)] u apply_next_iff_admissible by blast
    then obtain u' where u': "apply_next_event s' e = Inr u'"
      using apply_next_iff_admissible by blast
    have "same_core u u'"
      using same_core_next [OF u] same_core_next [OF u'] Cons.prems(2)
      by (meson same_core_sym same_core_trans)
    moreover have "is_terminal (lifecycle u') \<longrightarrow> is_terminal (lifecycle u)"
      by (rule step_terminal_mono [OF next_lifecycle [OF u] next_lifecycle [OF u'] Cons.prems(3)])
    ultimately show ?thesis using Cons.IH [OF t, of u'] True v u' by simp
  qed
qed auto

lemma counterfactual:
  assumes "stream_state es s"
  shows "replay_fact_with_policy es p =
      (if admits p (hd es) then replay_fact (filter (admits p) es) else Inr None)"
    and "admits p (hd es) \<Longrightarrow> \<exists>t. replay_fact (filter (admits p) es) = Inr (Some t) \<and> same_core s t"
proof -
  obtain e fs s0 where es: "es = e # fs" and s0: "apply_event None e = Inr s0"
    and s: "run_events s0 fs = Inr s"
    using assms stream_state_run by blast
  have tl: "\<forall>e \<in> set fs. FactEvent.kind e \<noteq> Asserted"
    using stream_state_tl_not_Asserted [OF assms] es by simp
  have hd: "FactEvent.kind e = Asserted" using s0 apply_initial_iff by auto
  show "replay_fact_with_policy es p =
      (if admits p (hd es) then replay_fact (filter (admits p) es) else Inr None)"
  proof (cases "admits p e")
    case True
    then have "fold_fact es p = fold_loop False p None es"
      using tl es by (intro fold_fact_plain) auto
    then show ?thesis
      using True es by (simp add: replay_fact_with_policy_def replay_fact_eq fold_loop_plain
        del: fold_loop.simps)
  next
    case False
    then have "(\<exists>e \<in> set es. FactEvent.kind e = Asserted \<and> \<not> admits p e) = True"
      using es hd by auto
    then have "fold_fact es p = fold_loop True p None es" by (simp only: fold_fact_def)
    then show ?thesis
      using False es tl by (simp add: replay_fact_with_policy_def fold_loop_filtered)
  qed
  show "\<exists>t. replay_fact (filter (admits p) es) = Inr (Some t) \<and> same_core s t" if "admits p (hd es)"
    using that es s0 run_events_filter [OF s same_core_refl, of "admits p"]
    by (auto simp: replay_fact_eq simp del: apply_event_None)
qed

section \<open>Subject replay\<close>

lemma fold_streams_Inr:
  assumes "fold_streams p ss m = Inr n" and "btm_ok m" and "distinct (map fst ss)"
    and "\<forall>f \<in> set (map fst ss). btm_get m f = None"
  shows "btm_ok n \<and> (\<forall>f. (case map_of ss f of
      None \<Rightarrow> btm_get n f = btm_get m f
    | Some es \<Rightarrow> fold_fact es p = Inr (btm_get n f)))"
  using assms
proof (induction ss arbitrary: m)
  case (Cons x ss)
  obtain g es where x: "x = (g, es)" by (cases x)
  from Cons.prems(1) x obtain r where r: "fold_fact es p = Inr r"
    and n: "fold_streams p ss (case r of Some s \<Rightarrow> btm_insert g s m | None \<Rightarrow> m) = Inr n" by auto
  let ?m = "case r of Some s \<Rightarrow> btm_insert g s m | None \<Rightarrow> m"
  have m: "btm_ok ?m" "\<And>f. btm_get ?m f = (if f = g then r else btm_get m f)"
    using Cons.prems(2,4) x by (auto split: option.split simp: btm_get_insert)
  have fresh: "\<forall>f \<in> set (map fst ss). btm_get ?m f = None"
    using Cons.prems(3,4) x m(2) by auto
  have d: "distinct (map fst ss)" and g: "map_of ss g = None"
    using Cons.prems(3) x by (auto simp: map_of_eq_None_iff)
  have ih: "btm_ok n" "\<And>f. (case map_of ss f of None \<Rightarrow> btm_get n f = btm_get ?m f
      | Some es \<Rightarrow> fold_fact es p = Inr (btm_get n f))"
    using Cons.IH [OF n m(1) d fresh] by blast+
  have "(case map_of (x # ss) f of None \<Rightarrow> btm_get n f = btm_get m f
      | Some es \<Rightarrow> fold_fact es p = Inr (btm_get n f))" for f
  proof (cases "f = g")
    case True
    then show ?thesis using ih(2) [of g] g x r unfolding m(2) by simp
  next
    case False
    then show ?thesis using ih(2) [of f] x unfolding m(2) by (auto split: option.splits)
  qed
  with ih(1) show ?case by blast
qed (auto split: option.split)

lemma fold_streams_ok:
  "(\<exists>n. fold_streams p ss m = Inr n) \<longleftrightarrow> (\<forall>(f, es) \<in> set ss. \<exists>r. fold_fact es p = Inr r)"
proof (induction ss arbitrary: m)
  case (Cons x ss)
  then show ?case by (cases x; cases "fold_fact (snd x) p") auto
qed simp

lemma btm_get_map_of: "btm_get m k = map_of m k"
proof (induction m)
  case (Cons p m)
  then show ?case by (cases p) simp
qed simp

definition stream_of :: "FactId \<Rightarrow> FactEvent list \<Rightarrow> FactEvent list" where
  "stream_of f es = filter (\<lambda>e. FactEvent.fact_id e = f) es"

lemma stream_state_of:
  assumes "stream_state (stream_of f es) s"
  shows "fact_id s = f"
proof -
  have "hd (stream_of f es) \<in> set (stream_of f es)" using stream_state_nonempty [OF assms] by simp
  moreover have "\<forall>e \<in> set (stream_of f es). FactEvent.fact_id e = f" by (simp add: stream_of_def)
  ultimately show ?thesis using stream_state_ids [OF assms] by metis
qed

lemma fold_fact_Nil [simp]: "fold_fact [] p = Inr None"
  by (simp add: fold_fact_def)

lemma group_streams:
  "(f, xs) \<in> set (btm_group FactEvent.fact_id es) \<longleftrightarrow> xs = stream_of f es \<and> xs \<noteq> []"
  by (auto simp: btm_in_set btm_get_group stream_of_def filter_empty_conv)

lemma replay_subject_ok:
  "(\<exists>pr. replay_subject_with_policy es p = Inr pr) \<longleftrightarrow> (\<forall>f. \<exists>r. fold_fact (stream_of f es) p = Inr r)"
proof -
  have "(\<exists>pr. replay_subject_with_policy es p = Inr pr) \<longleftrightarrow>
      (\<exists>n. fold_streams p (btm_group FactEvent.fact_id es) [] = Inr n)"
    by (auto simp: replay_subject_with_policy_def)
  also have "\<dots> \<longleftrightarrow> (\<forall>f. \<exists>r. fold_fact (stream_of f es) p = Inr r)"
  proof -
    have "(\<forall>f. stream_of f es \<noteq> [] \<longrightarrow> (\<exists>r. fold_fact (stream_of f es) p = Inr r)) \<longleftrightarrow>
        (\<forall>f. \<exists>r. fold_fact (stream_of f es) p = Inr r)"
      by (metis fold_fact_Nil)
    moreover have "(\<forall>(f, xs) \<in> set (btm_group FactEvent.fact_id es). \<exists>r. fold_fact xs p = Inr r) \<longleftrightarrow>
        (\<forall>f. stream_of f es \<noteq> [] \<longrightarrow> (\<exists>r. fold_fact (stream_of f es) p = Inr r))"
      by (simp only: Ball_def split_paired_All prod.case group_streams) blast
    ultimately show ?thesis unfolding fold_streams_ok by (rule trans [rotated])
  qed
  finally show ?thesis .
qed

lemma replay_subject_get:
  assumes "replay_subject_with_policy es p = Inr pr"
  shows "btm_ok (facts pr) \<and> (\<forall>f. fold_fact (stream_of f es) p = Inr (projection_get pr f))"
proof -
  obtain n where n: "fold_streams p (btm_group FactEvent.fact_id es) [] = Inr n" and pr: "facts pr = n"
    using assms by (auto simp: replay_subject_with_policy_def)
  have d: "distinct (map fst (btm_group FactEvent.fact_id es))"
    using btm_keys_distinct [OF btm_ok_group] by (simp add: btm_keys_def)
  have n': "btm_ok n" "\<And>f. case map_of (btm_group FactEvent.fact_id es) f of
        None \<Rightarrow> btm_get n f = btm_get [] f | Some xs \<Rightarrow> fold_fact xs p = Inr (btm_get n f)"
    using fold_streams_Inr [OF n btm_ok_Nil d] by simp_all
  have "fold_fact (stream_of f es) p = Inr (btm_get n f)" for f
    using n'(2) [of f] unfolding btm_get_map_of [symmetric] btm_get_group
    by (auto simp: stream_of_def split: if_splits)   with n'(1) pr show ?thesis by (simp add: projection_get_def)
qed

section \<open>Properties\<close>

text \<open>
  Replay computes exactly the reachable states: it returns a state if and only if the stream
  is accepted event by event by the transition function, that state being the result, and it
  returns nothing only for the empty stream.
\<close>

theorem replay_is_reachability:
  "(replay_fact es = Inr (Some s) \<longleftrightarrow> stream_state es s) \<and> (replay_fact es = Inr None \<longleftrightarrow> es = [])"
  by (simp add: replay_fact_Some replay_fact_None)

text \<open>
  Counterfactual replay is total on accepted streams. Whatever an epistemic policy removes,
  re-folding an accepted stream never fails: the fact is absent exactly when its assertion is
  removed, and otherwise replay returns the state of the remaining events, with the fact's
  identity, value, authority, TTL and validity unchanged and closed only if the fact was.
\<close>

theorem counterfactual_replay_total:
  assumes "replay_fact es = Inr (Some s)"
  shows "if admits p (hd es)
    then \<exists>t. replay_fact_with_policy es p = Inr (Some t) \<and> stream_state (filter (admits p) es) t \<and>
      same_core s t
    else replay_fact_with_policy es p = Inr None"
  using assms counterfactual [of es s p] by (auto simp: replay_fact_Some)

text \<open>
  A counterfactual comparison on an accepted stream never reports a fact as appeared and
  never reports a changed value; it reports the fact as disappeared exactly when the policy
  removes the assertion, and a policy that removes nothing changes nothing.
\<close>

theorem counterfactual_diff:
  assumes "replay_fact es = Inr (Some s)" and "replay_fact_with_policy es p = Inr c"
  shows "diff_states (Some s) c \<noteq> Appeared \<and>
    (diff_states (Some s) c = Disappeared \<longleftrightarrow> \<not> admits p (hd es)) \<and>
    (\<forall>l v b d n. diff_states (Some s) c = Changed l v b d n \<longrightarrow> v = None) \<and>
    ((\<forall>e \<in> set es. admits p e) \<longrightarrow> diff_states (Some s) c = Unchanged)"
proof -
  have es: "stream_state es s" using assms(1) by (simp add: replay_fact_Some)
  show ?thesis
  proof (cases "admits p (hd es)")
    case True
    then obtain t where t: "replay_fact (filter (admits p) es) = Inr (Some t)" "same_core s t" "c = Some t"
      using counterfactual [OF es, of p] assms(2) by auto
    moreover have "t = s" if "\<forall>e \<in> set es. admits p e"
      using that t(1) assms(1) by (simp add: filter_id_conv [THEN iffD2])
    ultimately show ?thesis
      using True by (auto simp: diff_states_def Let_def then_some_def same_core_def)
  next
    case False
    then have "c = None" using counterfactual(1) [OF es, of p] assms(2) by simp
    moreover have "hd es \<in> set es" using stream_state_nonempty [OF es] by simp
    ultimately show ?thesis using False by (auto simp: diff_states_def)
  qed
qed

text \<open>
  Subject replay is pointwise. It succeeds exactly when every fact's own stream folds, and
  then a lookup returns precisely the replay of that fact's events: interleaving with the events
  of other facts does not matter, and no fact is lost or invented.
\<close>

theorem replay_subject_pointwise:
  "((\<exists>pr. replay_subject_with_policy es p = Inr pr) \<longleftrightarrow>
      (\<forall>f. \<exists>r. replay_fact_with_policy (stream_of f es) p = Inr r)) \<and>
   (\<forall>pr. replay_subject_with_policy es p = Inr pr \<longrightarrow>
      (\<forall>f. replay_fact_with_policy (stream_of f es) p = Inr (projection_get pr f)))"
  using replay_subject_ok replay_subject_get by (simp add: replay_fact_with_policy_def)

section \<open>Witnesses\<close>

definition sample_stream :: "FactEvent list" where
  "sample_stream = [sample_assert ''event:1'' ''fact:1'' High, sample_reinforce ''sybil'' Low]"

definition distrust :: "string \<Rightarrow> EpistemicPolicy" where
  "distrust src = identity_policy\<lparr>distrusted_sources := {SourceId src}\<rparr>"

lemmas policy_eval = distrust_def identity_policy_def admits_def affects_belief_def
  Confidence_ZERO_def less_Confidence_def

lemma sample_stream_replay: "\<exists>s. replay_fact sample_stream = Inr (Some s)"
  by (simp add: replay_fact_eq sample_stream_def sample_state_defs transition_eval)

theorem counterfactual_replay_total_witness:
  "(\<exists>t. replay_fact_with_policy sample_stream (distrust ''sybil'') = Inr (Some t)) \<and>
   replay_fact_with_policy sample_stream (distrust ''owner'') = Inr None"
proof -
  obtain s where s: "replay_fact sample_stream = Inr (Some s)" using sample_stream_replay by blast
  have "admits (distrust ''sybil'') (hd sample_stream)" "\<not> admits (distrust ''owner'') (hd sample_stream)"
    by (simp_all add: policy_eval sample_stream_def sample_defs Confidence_ASSERTED_def)
  then show ?thesis
    using counterfactual_replay_total [OF s, of "distrust ''sybil''"]
      counterfactual_replay_total [OF s, of "distrust ''owner''"] by auto
qed

theorem counterfactual_diff_witness:
  "\<exists>s. replay_fact sample_stream = Inr (Some s) \<and> diff_states (Some s) None = Disappeared"
proof -
  obtain s where s: "replay_fact sample_stream = Inr (Some s)" using sample_stream_replay by blast
  have no: "\<not> admits (distrust ''owner'') (hd sample_stream)"
    by (simp add: policy_eval sample_stream_def sample_defs Confidence_ASSERTED_def)
  have "replay_fact_with_policy sample_stream (distrust ''owner'') = Inr None"
    using counterfactual(1) no s by (auto simp: replay_fact_Some)
  from counterfactual_diff [OF s this] no s show ?thesis by blast
qed

theorem replay_subject_pointwise_witness:
  "\<exists>pr. replay_subject_with_policy sample_stream identity_policy = Inr pr \<and>
     projection_get pr (FactId ''fact:2'') = None"
proof -
  have "stream_of f sample_stream = (if f = FactId ''fact:1'' then sample_stream else [])" for f
    by (auto simp: stream_of_def sample_stream_def sample_state_defs)
  then have "\<forall>f. \<exists>r. replay_fact_with_policy (stream_of f sample_stream) identity_policy = Inr r"
    using sample_stream_replay by (auto simp: replay_fact_def replay_fact_with_policy_def)
  then obtain pr where pr: "replay_subject_with_policy sample_stream identity_policy = Inr pr"
    using replay_subject_pointwise [of sample_stream identity_policy] by blast
  have "stream_of (FactId ''fact:2'') sample_stream = []"
    by (auto simp: stream_of_def sample_stream_def sample_state_defs)
  with pr replay_subject_pointwise [of sample_stream identity_policy] show ?thesis
    by (metis fold_fact_Nil replay_fact_with_policy_def sum.inject(2))
qed

end
