(* ===== verification/Status.thy ===== *)
theory Status
  imports Replay
begin

text \<open>
  \<open>crates/dent8-cli/src/status.rs\<close>: the machine-readable outcome of an operation and the error
  codes that consumers branch on, their wire spellings, and the classification of the typed
  errors of the core and the store into codes.
\<close>

section \<open>Outcomes\<close>

datatype Status =
  Ok | Accepted | Rejected | Invalid | Contested | IntegrityIssues | Degraded | Failed

fun Status_as_str :: "Status \<Rightarrow> string" where
  "Status_as_str Status.Ok = ''ok''"
| "Status_as_str Status.Accepted = ''accepted''"
| "Status_as_str Status.Rejected = ''rejected''"
| "Status_as_str Status.Invalid = ''invalid''"
| "Status_as_str Status.Contested = ''contested''"
| "Status_as_str Status.IntegrityIssues = ''integrity_issues''"
| "Status_as_str Status.Degraded = ''degraded''"
| "Status_as_str Status.Failed = ''failed''"

section \<open>Error codes\<close>

datatype ErrorCode =
    InvalidArgument
  | Rejected
  | WriteConflict
  | OperationFailed
  | UnknownTool
  | InvalidEvent
  | MissingInitialAssertion
  | DuplicateAssertion
  | FactIdMismatch
  | FactShapeMismatch
  | ReinforcementValueMismatch
  | TerminalFact
  | InsufficientAuthority
  | CanonicalContradiction
  | StoreUnavailable
  | CorruptEvent
  | ReplayFailed
  | CanonicalizationFailed
  | LaunderedAuthority
  | UnbackedSupersession
  | BelowAuthorityFloor
  | UniquenessViolation
  | TtlCeilingExceeded
  | AuthorityCeiling
  | ScopeViolation
  | IdentityRejected
  | UnauthenticatedWrite
  | WeakerEntrenchment
  | ContentRejected
  | CommitFailed

fun ErrorCode_as_str :: "ErrorCode \<Rightarrow> string" where
  "ErrorCode_as_str ErrorCode.InvalidArgument = ''invalid-argument''"
| "ErrorCode_as_str ErrorCode.Rejected = ''rejected''"
| "ErrorCode_as_str ErrorCode.WriteConflict = ''write-conflict''"
| "ErrorCode_as_str ErrorCode.OperationFailed = ''operation-failed''"
| "ErrorCode_as_str ErrorCode.UnknownTool = ''unknown-tool''"
| "ErrorCode_as_str ErrorCode.InvalidEvent = ''invalid-event''"
| "ErrorCode_as_str ErrorCode.MissingInitialAssertion = ''missing-initial-assertion''"
| "ErrorCode_as_str ErrorCode.DuplicateAssertion = ''duplicate-assertion''"
| "ErrorCode_as_str ErrorCode.FactIdMismatch = ''fact-id-mismatch''"
| "ErrorCode_as_str ErrorCode.FactShapeMismatch = ''fact-shape-mismatch''"
| "ErrorCode_as_str ErrorCode.ReinforcementValueMismatch = ''reinforcement-value-mismatch''"
| "ErrorCode_as_str ErrorCode.TerminalFact = ''terminal-fact''"
| "ErrorCode_as_str ErrorCode.InsufficientAuthority = ''insufficient-authority''"
| "ErrorCode_as_str ErrorCode.CanonicalContradiction = ''canonical-contradiction''"
| "ErrorCode_as_str ErrorCode.StoreUnavailable = ''store-unavailable''"
| "ErrorCode_as_str ErrorCode.CorruptEvent = ''corrupt-event''"
| "ErrorCode_as_str ErrorCode.ReplayFailed = ''replay-failed''"
| "ErrorCode_as_str ErrorCode.CanonicalizationFailed = ''canonicalization-failed''"
| "ErrorCode_as_str ErrorCode.LaunderedAuthority = ''laundered-authority''"
| "ErrorCode_as_str ErrorCode.UnbackedSupersession = ''unbacked-supersession''"
| "ErrorCode_as_str ErrorCode.BelowAuthorityFloor = ''below-authority-floor''"
| "ErrorCode_as_str ErrorCode.UniquenessViolation = ''uniqueness-violation''"
| "ErrorCode_as_str ErrorCode.TtlCeilingExceeded = ''ttl-ceiling-exceeded''"
| "ErrorCode_as_str ErrorCode.AuthorityCeiling = ''authority-ceiling''"
| "ErrorCode_as_str ErrorCode.ScopeViolation = ''scope-violation''"
| "ErrorCode_as_str ErrorCode.IdentityRejected = ''identity-rejected''"
| "ErrorCode_as_str ErrorCode.UnauthenticatedWrite = ''unauthenticated-write''"
| "ErrorCode_as_str ErrorCode.WeakerEntrenchment = ''weaker-entrenchment''"
| "ErrorCode_as_str ErrorCode.ContentRejected = ''content-rejected''"
| "ErrorCode_as_str ErrorCode.CommitFailed = ''commit-failed''"

definition ErrorCode_ALL :: "ErrorCode list" where
  "ErrorCode_ALL =
     [ErrorCode.InvalidArgument,
      ErrorCode.Rejected,
      ErrorCode.WriteConflict,
      ErrorCode.OperationFailed,
      ErrorCode.UnknownTool,
      ErrorCode.InvalidEvent,
      ErrorCode.MissingInitialAssertion,
      ErrorCode.DuplicateAssertion,
      ErrorCode.FactIdMismatch,
      ErrorCode.FactShapeMismatch,
      ErrorCode.ReinforcementValueMismatch,
      ErrorCode.TerminalFact,
      ErrorCode.InsufficientAuthority,
      ErrorCode.CanonicalContradiction,
      ErrorCode.StoreUnavailable,
      ErrorCode.CorruptEvent,
      ErrorCode.ReplayFailed,
      ErrorCode.CanonicalizationFailed,
      ErrorCode.LaunderedAuthority,
      ErrorCode.UnbackedSupersession,
      ErrorCode.BelowAuthorityFloor,
      ErrorCode.UniquenessViolation,
      ErrorCode.TtlCeilingExceeded,
      ErrorCode.AuthorityCeiling,
      ErrorCode.ScopeViolation,
      ErrorCode.IdentityRejected,
      ErrorCode.UnauthenticatedWrite,
      ErrorCode.WeakerEntrenchment,
      ErrorCode.ContentRejected,
      ErrorCode.CommitFailed]"

definition from_wire :: "string \<Rightarrow> ErrorCode option" where
  "from_wire token = find (\<lambda>code. ErrorCode_as_str code = token) ErrorCode_ALL"

definition for_transition_error :: "TransitionError \<Rightarrow> ErrorCode" where
  "for_transition_error e = (case e of
      TransitionError.InvalidEvent _ \<Rightarrow> ErrorCode.InvalidEvent
    | TransitionError.MissingInitialAssertion \<Rightarrow> ErrorCode.MissingInitialAssertion
    | TransitionError.DuplicateAssertion \<Rightarrow> ErrorCode.DuplicateAssertion
    | TransitionError.FactIdMismatch \<Rightarrow> ErrorCode.FactIdMismatch
    | TransitionError.FactShapeMismatch \<Rightarrow> ErrorCode.FactShapeMismatch
    | TransitionError.ReinforcementValueMismatch \<Rightarrow> ErrorCode.ReinforcementValueMismatch
    | TerminalStateMutation _ \<Rightarrow> TerminalFact
    | TransitionError.InsufficientAuthority _ _ \<Rightarrow> ErrorCode.InsufficientAuthority
    | TransitionError.CanonicalContradiction \<Rightarrow> ErrorCode.CanonicalContradiction)"

definition for_store_error :: "StoreError \<Rightarrow> ErrorCode" where
  "for_store_error e = (case e of
      Conflict _ \<Rightarrow> WriteConflict
    | Unavailable _ \<Rightarrow> StoreUnavailable
    | StoreError.CorruptEvent _ \<Rightarrow> ErrorCode.CorruptEvent
    | Replay _ \<Rightarrow> ReplayFailed
    | Canonicalization _ \<Rightarrow> CanonicalizationFailed
    | StoreError.Rejected t \<Rightarrow> for_transition_error t
    | StoreError.LaunderedAuthority _ _ \<Rightarrow> ErrorCode.LaunderedAuthority
    | StoreError.UnbackedSupersession _ \<Rightarrow> ErrorCode.UnbackedSupersession
    | StoreError.BelowAuthorityFloor _ _ _ \<Rightarrow> ErrorCode.BelowAuthorityFloor
    | StoreError.UniquenessViolation _ \<Rightarrow> ErrorCode.UniquenessViolation
    | StoreError.TtlCeilingExceeded _ _ _ \<Rightarrow> ErrorCode.TtlCeilingExceeded)"

section \<open>Property\<close>

lemma ErrorCode_ALL_complete: "code \<in> set ErrorCode_ALL"
  by (cases code) (simp_all add: ErrorCode_ALL_def)

lemma from_wire_round: "from_wire (ErrorCode_as_str code) = Some code"
  by (cases code) (simp_all add: from_wire_def ErrorCode_ALL_def)

text \<open>
  The wire vocabulary is unambiguous and closed: every code parses back from its own spelling,
  only spellings parse, no two codes share one, and no code is missing from the advertised list.
\<close>

theorem wire_codes_roundtrip:
  "(from_wire token = Some code \<longleftrightarrow> token = ErrorCode_as_str code) \<and>
   distinct (map ErrorCode_as_str ErrorCode_ALL) \<and> set ErrorCode_ALL = UNIV"
proof (intro conjI)
  show "from_wire token = Some code \<longleftrightarrow> token = ErrorCode_as_str code"
  proof
    assume "from_wire token = Some code"
    then show "token = ErrorCode_as_str code" by (auto simp: from_wire_def find_Some_iff)
  qed (simp add: from_wire_round)
  show "set ErrorCode_ALL = UNIV" using ErrorCode_ALL_complete by blast
  have "inj ErrorCode_as_str" by (metis injI from_wire_round option.inject)
  then show "distinct (map ErrorCode_as_str ErrorCode_ALL)"
    by (simp add: distinct_map inj_on_subset) (simp add: ErrorCode_ALL_def)
qed

end
