(* ===== verification/Op_Error.thy ===== *)
theory Op_Error
  imports Status
begin

text \<open>
  The failures of the operation layer (\<open>crates/dent8-cli/src/ops.rs\<close>,
  \<open>crates/dent8-cli/src/main.rs\<close>): a request is invalid, refused, or lost a race. Each carries
  the wire code of \<open>status.rs\<close>; the exit code and the wire status are functions of it.
\<close>

datatype OpError =
    Invalid ErrorCode string
  | Rejected ErrorCode string
  | Conflict string

definition invalid_as :: "ErrorCode \<Rightarrow> string \<Rightarrow> OpError" where
  "invalid_as c m = OpError.Invalid c m"

definition op_invalid :: "string \<Rightarrow> OpError" where
  "op_invalid m = invalid_as InvalidArgument m"

definition rejected_as :: "ErrorCode \<Rightarrow> string \<Rightarrow> OpError" where
  "rejected_as c m = OpError.Rejected c m"

definition op_rejected :: "string \<Rightarrow> OpError" where
  "op_rejected m = rejected_as ErrorCode.Rejected m"

fun message :: "OpError \<Rightarrow> string" where
  "message (OpError.Invalid _ m) = m"
| "message (OpError.Rejected _ m) = m"
| "message (OpError.Conflict m) = m"

fun code :: "OpError \<Rightarrow> ErrorCode" where
  "code (OpError.Invalid c _) = c"
| "code (OpError.Rejected c _) = c"
| "code (OpError.Conflict _) = WriteConflict"

fun op_error_exit_code :: "OpError \<Rightarrow> int" where
  "op_error_exit_code (OpError.Invalid _ _) = 2"
| "op_error_exit_code (OpError.Rejected _ _) = 1"
| "op_error_exit_code (OpError.Conflict _) = 1"

fun op_error_status :: "OpError \<Rightarrow> Status" where
  "op_error_status (OpError.Invalid _ _) = Status.Status.Invalid"
| "op_error_status (OpError.Rejected _ _) = Status.Status.Rejected"
| "op_error_status (OpError.Conflict _) = Status.Status.Rejected"

section \<open>Failures of the durable log\<close>

datatype WriteError = Conflict string | Other string

fun reserve_error_to_op :: "WriteError \<Rightarrow> OpError" where
  "reserve_error_to_op (WriteError.Conflict m) = OpError.Conflict m"
| "reserve_error_to_op (Other m) = op_rejected (''could not reserve event ids: '' @ m)"

fun write_error_to_op :: "WriteError \<Rightarrow> OpError" where
  "write_error_to_op (WriteError.Conflict m) = OpError.Conflict m"
| "write_error_to_op (Other m) = rejected_as CommitFailed (''could not commit the write: '' @ m)"

lemmas op_error_defs = invalid_as_def op_invalid_def rejected_as_def op_rejected_def

end
