(* ===== verification/Process_Env.thy ===== *)
theory Process_Env
  imports Prelude
begin

text \<open>
  What the command line reads from its process (\<open>crates/dent8-cli/src/main.rs\<close>): the outcomes of
  an environment variable and of a file, and boolean flags.
\<close>

definition to_ascii_lowercase :: "string \<Rightarrow> string" where
  "to_ascii_lowercase s = map (\<lambda>c. if 65 \<le> byte_of c \<and> byte_of c \<le> 90 then char_of (byte_of c + 32) else c) s"

definition parse_flag :: "string \<Rightarrow> string \<Rightarrow> string + bool" where
  "parse_flag name v =
     (let w = to_ascii_lowercase (trim v) in
      if w \<in> {''1'', ''true'', ''yes'', ''on''} then Inr True
      else if w \<in> {'''', ''0'', ''false'', ''no'', ''off''} then Inr False
      else Inl (name @ '' must be a boolean flag: use 1/true/yes/on or 0/false/no/off''))"

text \<open>The outcomes of \<open>std::env::var\<close> and of \<open>std::fs::read_to_string\<close>.\<close>

datatype EnvVar = Present string | NotPresent | NotUnicode

datatype ReadOutcome = Contents string | NotFound | ReadError string

fun env_flag :: "string \<Rightarrow> EnvVar \<Rightarrow> string + bool" where
  "env_flag name (Present v) = parse_flag name v"
| "env_flag name NotPresent = Inr False"
| "env_flag name NotUnicode = Inl (name @ '' must be valid UTF-8'')"

end
