(* ===== verification/Authority_Gate.thy ===== *)
theory Authority_Gate
  imports Op_Error Process_Env
begin

text \<open>
  The write-boundary authority gate (\<open>crates/dent8-cli/src/main.rs\<close>): the registry of source
  grants, the check of a write against the grant of its source and of every registered issuer
  behind it, and the operator commands that add and remove grants. The issuer chain is walked
  with a set of visited links. The specification is on the graph of issuers: a chain is grounded
  when it ends, and a write is authorized when its chain is grounded and every registered link
  on it covers the subject at the requested level. Files and the signed identity
  (\<open>identity.rs\<close>) are parameters.
\<close>

section \<open>Registry and write request\<close>

record SourceGrant =
  max_authority :: AuthorityLevel
  issuer :: "string option"
  scope :: "string option"

record SourceRegistry =
  sources :: "(string, SourceGrant) btree"

definition registry_empty :: SourceRegistry where
  "registry_empty = \<lparr>sources = []\<rparr>"

definition ceiling :: "SourceRegistry \<Rightarrow> string \<Rightarrow> AuthorityLevel" where
  "ceiling R s = (case btm_get (sources R) s of None \<Rightarrow> Unknown | Some g \<Rightarrow> max_authority g)"

definition source_registry_ceiling :: "SourceRegistry \<Rightarrow> string \<Rightarrow> AuthorityLevel option" where
  "source_registry_ceiling R s = map_option max_authority (btm_get (sources R) s)"

record WriteAuth =
  subject_kind :: string
  subject_key :: string
  authority :: AuthorityLevel
  source :: string

definition auth_subject :: "WriteAuth \<Rightarrow> string" where
  "auth_subject w = WriteAuth.subject_kind w @ '':'' @ WriteAuth.subject_key w"

definition scope_covers :: "string option \<Rightarrow> string \<Rightarrow> bool" where
  "scope_covers sc sj = (case sc of None \<Rightarrow> True | Some x \<Rightarrow> x = ''*'' \<or> x = sj)"

section \<open>The gate\<close>

text \<open>
  The loop over the chain. A link already visited is a cycle; a link that is not registered is
  an operator-level root.
\<close>

function grant_walk :: "SourceRegistry \<Rightarrow> WriteAuth \<Rightarrow> string set \<Rightarrow> string \<Rightarrow> OpError + unit" where
  "grant_walk R w visited link =
     (if link \<in> visited
      then Inl (rejected_as AuthorityCeiling
        (''authority grant: the issuer chain for source '' @ show_debug (WriteAuth.source w) @
         '' cycles at '' @ show_debug link @ '' '' @ em_dash @
         '' a grant cannot ground its own authority (no self-escalation); re-issue it from an operator with `dent8 authority add`''))
      else case btm_get (sources R) link of
        None \<Rightarrow> Inr ()
      | Some g \<Rightarrow>
          if \<not> scope_covers (scope g) (auth_subject w)
          then Inl (rejected_as ScopeViolation
            (''authority scope: source '' @ show_debug link @
             (if link = WriteAuth.source w then ''''
              else '' (issuing '' @ show_debug (WriteAuth.source w) @ CHR 0x27 # ''s grant)'') @
             '' is scoped to '' @ show_debug (case scope g of None \<Rightarrow> ''*'' | Some s \<Rightarrow> s) @
             '', which does not cover write subject '' @ show_debug (auth_subject w)))
          else if max_authority g < WriteAuth.authority w
          then Inl (rejected_as AuthorityCeiling
            (''authority ceiling: source '' @ show_debug (WriteAuth.source w) @
             '' was granted by issuer '' @ show_debug link @ '', whose own ceiling is '' @
             show_AuthorityLevel (max_authority g) @ '', but requested '' @
             show_AuthorityLevel (WriteAuth.authority w) @ '' '' @ em_dash @
             '' an issuer cannot delegate authority it does not hold''))
          else (case issuer g of
              None \<Rightarrow> Inr ()
            | Some i \<Rightarrow> grant_walk R w (insert link visited) i))"
  by pat_completeness auto
termination
proof (relation "measure (\<lambda>(R, w, visited, link). card (fst ` set (sources R) - visited))")
  fix R :: SourceRegistry and w :: WriteAuth and visited :: "string set" and link g i
  assume "link \<notin> visited" and "btm_get (sources R) link = Some g"
  then have "fst ` set (sources R) - insert link visited \<subset> fst ` set (sources R) - visited"
    by (force dest: btm_get_in_set)
  then show "((R, w, insert link visited, i), R, w, visited, link)
      \<in> measure (\<lambda>(R, w, visited, link). card (fst ` set (sources R) - visited))"
    by (simp add: psubset_card_mono)
qed simp

declare grant_walk.simps [simp del]

definition registry_grant_check :: "SourceRegistry option \<Rightarrow> WriteAuth \<Rightarrow> OpError + unit" where
  "registry_grant_check reg w = (case reg of
      None \<Rightarrow> Inr ()
    | Some R \<Rightarrow>
        let c = ceiling R (WriteAuth.source w) in
        if c < WriteAuth.authority w
        then Inl (rejected_as AuthorityCeiling
          (''authority ceiling: source '' @ show_debug (WriteAuth.source w) @
           '' may assert at most '' @ show_AuthorityLevel c @ '', but requested '' @
           show_AuthorityLevel (WriteAuth.authority w) @ '' (grant it with `dent8 authority add '' @
           WriteAuth.source w @ '' <max>`)''))
        else grant_walk R w {} (WriteAuth.source w))"

text \<open>The doctor's probe: the first literal scope on the chain.\<close>

function probe_walk :: "SourceRegistry \<Rightarrow> string set \<Rightarrow> string \<Rightarrow> string option" where
  "probe_walk R visited link =
     (if link \<in> visited then None
      else case btm_get (sources R) link of
        None \<Rightarrow> None
      | Some g \<Rightarrow>
          (case scope g of
             Some s \<Rightarrow> if s \<noteq> ''*'' then Some s
               else (case issuer g of None \<Rightarrow> None | Some i \<Rightarrow> probe_walk R (insert link visited) i)
           | None \<Rightarrow> (case issuer g of None \<Rightarrow> None | Some i \<Rightarrow> probe_walk R (insert link visited) i)))"
  by pat_completeness auto
termination
proof (relation "measure (\<lambda>(R, visited, link). card (fst ` set (sources R) - visited))")
  fix R :: SourceRegistry and visited :: "string set" and link g i
  assume "link \<notin> visited" and "btm_get (sources R) link = Some g"
  then have "fst ` set (sources R) - insert link visited \<subset> fst ` set (sources R) - visited"
    by (force dest: btm_get_in_set)
  then have m: "((R, insert link visited, i), R, visited, link)
      \<in> measure (\<lambda>(R, visited, link). card (fst ` set (sources R) - visited))"
    by (simp add: psubset_card_mono)
  show "((R, insert link visited, i), R, visited, link)
      \<in> measure (\<lambda>(R, visited, link). card (fst ` set (sources R) - visited))"
    and "((R, insert link visited, i), R, visited, link)
      \<in> measure (\<lambda>(R, visited, link). card (fst ` set (sources R) - visited))"
    by (rule m)+
qed simp

declare probe_walk.simps [simp del]

definition scoped_probe_subject :: "SourceRegistry \<Rightarrow> string \<Rightarrow> string option" where
  "scoped_probe_subject R s = probe_walk R {} s"

section \<open>Operator commands\<close>

record CliSubject =
  cli_kind :: string
  cli_key :: string

text \<open>\<open>str::split_once\<close> and \<open>CliSubject::from_str\<close>\<close>

definition split_once :: "char \<Rightarrow> string \<Rightarrow> (string \<times> string) option" where
  "split_once c s =
     (if c \<in> set s then Some (takeWhile (\<lambda>x. x \<noteq> c) s, tl (dropWhile (\<lambda>x. x \<noteq> c) s)) else None)"

definition CliSubject_from_str :: "string \<Rightarrow> string + CliSubject" where
  "CliSubject_from_str raw = (case split_once (CHR '':'') raw of
      None \<Rightarrow> Inl (''invalid subject '' @ quoted raw @ '' (expected <kind>:<key>, e.g. person:alice)'')
    | Some (k, key) \<Rightarrow>
        and_then (map_err (\<lambda>e. ''invalid subject '' @ quoted raw @ '' (expected <kind>:<key>): '' @ show_ValidationError e)
            (Subject_new k key)) (\<lambda>_. Inr \<lparr>cli_kind = k, cli_key = key\<rparr>))"

text \<open>
  The loop of \<open>validate_authority_grant\<close>: from the issuer up, refusing a chain that reaches the
  grant being added, a link below the requested level, and a link with a narrower scope.
\<close>

function validate_walk ::
    "SourceRegistry \<Rightarrow> string \<Rightarrow> AuthorityLevel \<Rightarrow> string \<Rightarrow> string option \<Rightarrow> string set \<Rightarrow> string \<Rightarrow> string + unit" where
  "validate_walk R src lvl first sc visited link =
     (if link = src \<or> link \<in> visited
      then Inl (''issuer '' @ show_debug first @ '' would create an issuer cycle through '' @
        show_debug link @ '' '' @ em_dash @ '' a grant cannot ground its own authority (no self-escalation)'')
      else case btm_get (sources R) link of
        None \<Rightarrow> Inr ()
      | Some g \<Rightarrow>
          if max_authority g < lvl
          then Inl (''issuer '' @ show_debug link @ '' may grant at most '' @
            show_AuthorityLevel (max_authority g) @ '', but the new grant requests '' @
            show_AuthorityLevel lvl @ '' '' @ em_dash @ '' an issuer cannot delegate authority it does not hold'')
          else (case scope g of
              Some s \<Rightarrow>
                if s \<noteq> ''*'' \<and> sc \<noteq> Some s
                then Inl (''issuer '' @ show_debug link @ '' is scoped to '' @ show_debug s @
                  '', so the new grant'' @ CHR 0x27 # ''s scope must be exactly '' @ show_debug s @ '' '' @ em_dash @
                  '' an issuer cannot delegate scope it does not hold'')
                else (case issuer g of
                    None \<Rightarrow> Inr ()
                  | Some i \<Rightarrow> validate_walk R src lvl first sc (insert link visited) i)
            | None \<Rightarrow> (case issuer g of
                    None \<Rightarrow> Inr ()
                  | Some i \<Rightarrow> validate_walk R src lvl first sc (insert link visited) i)))"
  by pat_completeness auto
termination
proof (relation "measure (\<lambda>(R, src, lvl, first, sc, visited, link). card (fst ` set (sources R) - visited))")
  fix R :: SourceRegistry and src first lvl sc and visited :: "string set" and link g i
  assume "\<not> (link = src \<or> link \<in> visited)" and "btm_get (sources R) link = Some g"
  then have "fst ` set (sources R) - insert link visited \<subset> fst ` set (sources R) - visited"
    by (force dest: btm_get_in_set)
  then have m: "((R, src, lvl, first, sc, insert link visited, i), R, src, lvl, first, sc, visited, link)
      \<in> measure (\<lambda>(R, src, lvl, first, sc, visited, link). card (fst ` set (sources R) - visited))"
    by (simp add: psubset_card_mono)
  show "((R, src, lvl, first, sc, insert link visited, i), R, src, lvl, first, sc, visited, link)
      \<in> measure (\<lambda>(R, src, lvl, first, sc, visited, link). card (fst ` set (sources R) - visited))"
    and "((R, src, lvl, first, sc, insert link visited, i), R, src, lvl, first, sc, visited, link)
      \<in> measure (\<lambda>(R, src, lvl, first, sc, visited, link). card (fst ` set (sources R) - visited))"
    by (rule m)+
qed simp

declare validate_walk.simps [simp del]

definition validate_authority_grant ::
    "SourceRegistry \<Rightarrow> string \<Rightarrow> AuthorityLevel \<Rightarrow> string option \<Rightarrow> string option \<Rightarrow> string + unit" where
  "validate_authority_grant R src lvl iss sc =
     and_then (case sc of
         Some s \<Rightarrow>
           if s \<noteq> ''*'' \<and> \<not> is_ok (CliSubject_from_str s)
           then Inl (''invalid scope '' @ show_debug s @ '': expected '' @ show_debug ''*'' @
             '' or an exact subject <kind>:<key> (e.g. repo:dent8)'')
           else Inr ()
       | None \<Rightarrow> Inr ()) (\<lambda>_.
      case iss of
        None \<Rightarrow> Inr ()
      | Some i \<Rightarrow>
          if i = src
          then Inl (''a grant for '' @ show_debug src @ '' cannot name itself as issuer '' @ em_dash @
            '' a grant cannot ground its own authority (no self-escalation)'')
          else validate_walk R src lvl i sc {} i)"

definition or_default :: "SourceRegistry option \<Rightarrow> SourceRegistry" where
  "or_default loaded = (case loaded of None \<Rightarrow> registry_empty | Some R \<Rightarrow> R)"

text \<open>
  The edit of \<open>cmd_authority_add\<close>: the registry to save, \<open>unwrap_or_default\<close> of the loaded one
  with the validated grant inserted.
\<close>

definition authority_add ::
    "SourceRegistry option \<Rightarrow> string \<Rightarrow> AuthorityLevel \<Rightarrow> string option \<Rightarrow> string option \<Rightarrow> string + SourceRegistry" where
  "authority_add loaded src lvl iss sc =
     (let R = or_default loaded in
      and_then (validate_authority_grant R src lvl iss sc) (\<lambda>_.
        Inr (R\<lparr>sources := btm_insert src \<lparr>max_authority = lvl, issuer = iss, scope = sc\<rparr> (sources R)\<rparr>)))"

text \<open>The loop \<open>while let Some(name) = link\<close> of \<open>issuer_chain_reaches\<close>.\<close>

definition next_link :: "SourceRegistry \<Rightarrow> string \<Rightarrow> string option" where
  "next_link R l = (case btm_get (sources R) l of None \<Rightarrow> None | Some g \<Rightarrow> issuer g)"

function reach_walk :: "SourceRegistry \<Rightarrow> string \<Rightarrow> string set \<Rightarrow> string option \<Rightarrow> bool" where
  "reach_walk R target visited None = False"
| "reach_walk R target visited (Some name) =
     (if name = target then True
      else if name \<in> visited then False
      else reach_walk R target (insert name visited) (next_link R name))"
  by pat_completeness auto
termination
proof (relation "measures [\<lambda>(R, target, visited, link). card (fst ` set (sources R) - visited),
    \<lambda>(R, target, visited, link). (case link of None \<Rightarrow> 0 | Some _ \<Rightarrow> 1)]")
  fix R :: SourceRegistry and target :: string and visited :: "string set" and name
  assume fresh: "name \<notin> visited"
  show "((R, target, insert name visited, next_link R name), R, target, visited, Some name)
      \<in> measures [\<lambda>(R, target, visited, link). card (fst ` set (sources R) - visited),
        \<lambda>(R, target, visited, link). (case link of None \<Rightarrow> 0 | Some _ \<Rightarrow> 1)]"
  proof (cases "name \<in> fst ` set (sources R)")
    case True
    with fresh have "fst ` set (sources R) - insert name visited \<subset> fst ` set (sources R) - visited"
      by blast
    then show ?thesis by (simp add: psubset_card_mono)
  next
    case False
    then have "next_link R name = None" by (simp add: next_link_def btm_get_None [THEN iffD2])
    moreover have "fst ` set (sources R) - insert name visited = fst ` set (sources R) - visited"
      using False by blast
    ultimately show ?thesis by simp
  qed
qed simp

definition issuer_chain_reaches :: "SourceRegistry \<Rightarrow> SourceGrant \<Rightarrow> string \<Rightarrow> bool" where
  "issuer_chain_reaches R g target = reach_walk R target {} (issuer g)"

definition dependent_grants :: "SourceRegistry \<Rightarrow> string \<Rightarrow> string list" where
  "dependent_grants R src =
     map fst (filter (\<lambda>(name, g). name \<noteq> src \<and> issuer_chain_reaches R g src) (sources R))"

text \<open>The edit of \<open>cmd_authority_remove\<close>: the exit code and message of a refusal, or the registry to save.\<close>

definition authority_remove ::
    "SourceRegistry option \<Rightarrow> string \<Rightarrow> bool \<Rightarrow> (int \<times> string) + SourceRegistry" where
  "authority_remove loaded src force = (case loaded of
      None \<Rightarrow> Inl (1, ''no authority registry to remove from'')
    | Some R \<Rightarrow>
        if btm_get (sources R) src = None
        then Inl (1, src @ '' is not in the authority registry'')
        else let dependents = dependent_grants R src in
          if dependents \<noteq> [] \<and> \<not> force
          then Inl (2, ''cannot remove '' @ src @ '': '' @ show_nat (length dependents) @
            '' dependent grant(s) chain their authority through it ('' @ join '', '' dependents @ '') '' @ em_dash @
            '' deleting the issuer would loosen them to an operator-level root; pass --force to revoke the dependent grant(s) too, then re-parent them with `dent8 authority add <source> <max> [issuer]`'')
          else Inr (R\<lparr>sources := foldl (\<lambda>m d. btm_remove d m) (btm_remove src (sources R)) dependents\<rparr>))"

section \<open>Loading the registry and the whole gate\<close>

definition load_authority_registry_at ::
    "(string \<Rightarrow> string + SourceRegistry) \<Rightarrow> string \<Rightarrow> bool \<Rightarrow> ReadOutcome \<Rightarrow> string + SourceRegistry option" where
  "load_authority_registry_at parse path required r = (case r of
      Contents c \<Rightarrow> map_err (\<lambda>e. path @ '': corrupt authority registry: '' @ e) (map_ok Some (parse c))
    | NotFound \<Rightarrow>
        if required
        then Inl (''authority registry required by DENT8_REQUIRE_AUTHORITY, but '' @ path @
          '' does not exist; create it with `dent8 authority add <source> <max>` or unset DENT8_REQUIRE_AUTHORITY'')
        else Inr None
    | ReadError e \<Rightarrow> Inl (''cannot read '' @ path @ '': '' @ e))"

definition enforce_registry_grant ::
    "(string \<Rightarrow> string + SourceRegistry) \<Rightarrow> string \<Rightarrow> EnvVar \<Rightarrow> ReadOutcome \<Rightarrow> WriteAuth \<Rightarrow> OpError + unit" where
  "enforce_registry_grant parse path flag r w =
     and_then (map_err op_invalid (and_then (env_flag ''DENT8_REQUIRE_AUTHORITY'' flag)
         (\<lambda>required. load_authority_registry_at parse path required r)))
       (\<lambda>reg. registry_grant_check reg w)"

text \<open>
  Where the identity of a write comes from. The context and its check of a write are
  \<open>identity.rs\<close>'s: the parameters \<open>from_env\<close> and \<open>enforce_write\<close>.
\<close>

datatype 'i WriteIdentity = Env | Unauthenticated | Connection 'i

definition UNAUTHENTICATED_WRITE_ERROR :: string where
  "UNAUTHENTICATED_WRITE_ERROR = ''write reached the identity seam without a proven connection identity''"

fun enforce_source_identity ::
    "string + 'i \<Rightarrow> ('i \<Rightarrow> WriteAuth \<Rightarrow> string + unit) \<Rightarrow> WriteAuth \<Rightarrow> 'i WriteIdentity \<Rightarrow> string + unit" where
  "enforce_source_identity from_env enforce_write w Env = and_then from_env (\<lambda>ctx. enforce_write ctx w)"
| "enforce_source_identity from_env enforce_write w (Connection ctx) = enforce_write ctx w"
| "enforce_source_identity from_env enforce_write w Unauthenticated = Inl UNAUTHENTICATED_WRITE_ERROR"

definition enforce_write_authority ::
    "OpError + unit \<Rightarrow> string + 'i \<Rightarrow> ('i \<Rightarrow> WriteAuth \<Rightarrow> string + unit) \<Rightarrow> WriteAuth \<Rightarrow> 'i WriteIdentity \<Rightarrow>
       OpError + unit" where
  "enforce_write_authority registry_grant from_env enforce_write w i =
     and_then registry_grant (\<lambda>_.
       map_err (\<lambda>m. invalid_as (if m = UNAUTHENTICATED_WRITE_ERROR then UnauthenticatedWrite else IdentityRejected) m)
         (enforce_source_identity from_env enforce_write w i))"

section \<open>The issuer graph\<close>

text \<open>
  A link is grounded when its chain ends: at an unregistered name or at a grant with no issuer.
\<close>

inductive grounded :: "('a \<Rightarrow> 'a option) \<Rightarrow> 'a \<Rightarrow> bool" for nxt where
  root: "nxt a = None \<Longrightarrow> grounded nxt a"
| step: "nxt a = Some b \<Longrightarrow> grounded nxt b \<Longrightarrow> grounded nxt a"

inductive_simps grounded_simps: "grounded nxt a"

definition links :: "('a \<Rightarrow> 'a option) \<Rightarrow> ('a \<times> 'a) set" where
  "links nxt = {(a, b). nxt a = Some b}"

lemma links_iff [simp]: "(a, b) \<in> links nxt \<longleftrightarrow> nxt a = Some b"
  by (simp add: links_def)

lemma links_from:
  "(a, c) \<in> (links nxt)\<^sup>* \<longleftrightarrow> a = c \<or> (\<exists>b. nxt a = Some b \<and> (b, c) \<in> (links nxt)\<^sup>*)"
  by (auto intro: converse_rtrancl_into_rtrancl elim: converse_rtranclE)

text \<open>A grounded link is on no cycle: its successors never lead back to it.\<close>

lemma grounded_acyclic:
  "grounded nxt a \<Longrightarrow> nxt a = Some b \<Longrightarrow> (b, a) \<notin> (links nxt)\<^sup>*"
proof (induction arbitrary: b rule: grounded.induct)
  case (step a c)
  show ?case
  proof
    assume loop: "(b, a) \<in> (links nxt)\<^sup>*"
    from step have "c = b" by simp
    show False
    proof (cases "b = a")
      case True
      with step.IH step.hyps \<open>c = b\<close> show False by blast
    next
      case False
      with loop obtain d where d: "nxt b = Some d" "(d, a) \<in> (links nxt)\<^sup>*"
        by (auto simp: links_from [of b a])
      have "(d, b) \<in> (links nxt)\<^sup>*"
        using d(2) step.hyps(1) \<open>c = b\<close> by (meson links_iff rtrancl.rtrancl_into_rtrancl)
      with step.IH [of d] d(1) \<open>c = b\<close> show False by simp
    qed
  qed
qed simp

lemma grounded_reach: "(a, b) \<in> (links nxt)\<^sup>* \<Longrightarrow> grounded nxt a \<Longrightarrow> grounded nxt b"
proof (induction rule: rtrancl_induct)
  case (step b c)
  then show ?case by (simp add: grounded_simps [of nxt b])
qed

text \<open>What every registered link of a chain must satisfy for a write.\<close>

definition link_allows :: "SourceRegistry \<Rightarrow> WriteAuth \<Rightarrow> string \<Rightarrow> bool" where
  "link_allows R w l = (case btm_get (sources R) l of
      None \<Rightarrow> True
    | Some g \<Rightarrow> scope_covers (scope g) (auth_subject w) \<and> WriteAuth.authority w \<le> max_authority g)"

definition chain_all :: "('a \<Rightarrow> 'a option) \<Rightarrow> ('a \<Rightarrow> bool) \<Rightarrow> 'a \<Rightarrow> bool" where
  "chain_all nxt P s \<longleftrightarrow> grounded nxt s \<and> (\<forall>l. (s, l) \<in> (links nxt)\<^sup>* \<longrightarrow> P l)"

definition chain_allows :: "SourceRegistry \<Rightarrow> WriteAuth \<Rightarrow> string \<Rightarrow> bool" where
  "chain_allows R w s \<longleftrightarrow> chain_all (next_link R) (link_allows R w) s"

lemma chain_all_step:
  "chain_all nxt P s \<longleftrightarrow> P s \<and> (case nxt s of None \<Rightarrow> True | Some i \<Rightarrow> chain_all nxt P i)"
  by (auto simp: chain_all_def grounded_simps [of nxt s] links_from [of s] split: option.splits)

lemmas chain_allows_step = chain_all_step [of "next_link R" "link_allows R w" for R w,
    folded chain_allows_def]

text \<open>A chain transfers to a graph that agrees with it on the links of the chain.\<close>

lemma chain_all_transfer:
  assumes "chain_all nxt P s" and "\<And>l. P l \<Longrightarrow> nxt' l = nxt l" and "\<And>l. P l \<Longrightarrow> Q l"
  shows "chain_all nxt' Q s"
proof -
  have "grounded nxt s" using assms(1) by (simp add: chain_all_def)
  then show ?thesis using assms(1)
  proof (induction rule: grounded.induct)
    case (root a)
    then have "P a" by (simp add: chain_all_step [of nxt P a])
    then show ?case using root.hyps assms(2,3) by (simp add: chain_all_step [of nxt' Q a])
  next
    case (step a b)
    then have "P a" "chain_all nxt P b" by (simp_all add: chain_all_step [of nxt P a])
    then show ?case using step assms(2,3) by (simp add: chain_all_step [of nxt' Q a])
  qed
qed

lemma grant_walk_sound: "grant_walk R w visited link = Inr () \<Longrightarrow> chain_allows R w link"
proof (induction R w visited link rule: grant_walk.induct)
  case (1 R w visited link)
  show ?case
  proof (cases "btm_get (sources R) link")
    case None
    then show ?thesis by (simp add: chain_allows_step link_allows_def next_link_def)
  next
    case (Some g)
    with 1 show ?thesis
      by (subst chain_allows_step)
        (auto simp: grant_walk.simps [of R w visited link] link_allows_def next_link_def
           split: if_splits option.splits)
  qed
qed

lemma grant_walk_complete:
  assumes "chain_allows R w link" and "\<And>l. (link, l) \<in> (links (next_link R))\<^sup>* \<Longrightarrow> l \<notin> visited"
  shows "grant_walk R w visited link = Inr ()"
proof -
  have "grounded (next_link R) link" using assms(1) by (simp add: chain_allows_def chain_all_def)
  then show ?thesis using assms
  proof (induction arbitrary: visited rule: grounded.induct)
    case (root l)
    then show ?case
      using root.prems(2) [of l]
      by (auto simp: grant_walk.simps [of R w visited l] chain_allows_step [of R w l] link_allows_def
          next_link_def split: option.splits)
  next
    case (step l i)
    from step.hyps(1) obtain g where g: "btm_get (sources R) l = Some g" "issuer g = Some i"
      by (auto simp: next_link_def split: option.splits)
    have allow: "link_allows R w l" "chain_allows R w i"
      using step.prems(1) step.hyps(1) by (simp_all add: chain_allows_step [of R w l])
    have "grant_walk R w (insert l visited) i = Inr ()"
    proof (rule step.IH [OF allow(2)])
      fix m
      assume m: "(i, m) \<in> (links (next_link R))\<^sup>*"
      have "m \<noteq> l"
        using grounded_acyclic [OF grounded.step [OF step.hyps] step.hyps(1)] m by blast
      moreover have "m \<notin> visited"
        using step.prems(2) step.hyps(1) m by (simp add: links_from [of l])
      ultimately show "m \<notin> insert l visited" by simp
    qed
    moreover have "l \<notin> visited" using step.prems(2) by blast
    ultimately show ?case
      using allow(1) g by (auto simp: grant_walk.simps [of R w visited l] link_allows_def)
  qed
qed

lemma registry_grant_check_iff:
  "registry_grant_check (Some R) w = Inr () \<longleftrightarrow>
     WriteAuth.authority w \<le> ceiling R (WriteAuth.source w) \<and> chain_allows R w (WriteAuth.source w)"
  using grant_walk_sound [of R w "{}" "WriteAuth.source w"] grant_walk_complete [of R w "WriteAuth.source w" "{}"]
  by (auto simp: registry_grant_check_def Let_def not_less)

section \<open>Adding and removing grants\<close>

definition registry_ok :: "SourceRegistry \<Rightarrow> bool" where
  "registry_ok R \<longleftrightarrow> btm_ok (sources R)"

text \<open>What \<open>validate_authority_grant\<close> establishes of each link above the new grant.\<close>

definition link_backs :: "SourceRegistry \<Rightarrow> string \<Rightarrow> AuthorityLevel \<Rightarrow> string option \<Rightarrow> string \<Rightarrow> bool" where
  "link_backs R src lvl sc l \<longleftrightarrow> l \<noteq> src \<and>
     (case btm_get (sources R) l of
        None \<Rightarrow> True
      | Some g \<Rightarrow> lvl \<le> max_authority g \<and> (scope g = None \<or> scope g = Some ''*'' \<or> sc = scope g))"

lemma validate_walk_sound:
  "validate_walk R src lvl first sc visited link = Inr () \<Longrightarrow>
     chain_all (next_link R) (link_backs R src lvl sc) link"
proof (induction R src lvl first sc visited link rule: validate_walk.induct)
  case (1 R src lvl first sc visited link)
  show ?case
  proof (cases "btm_get (sources R) link")
    case None
    with 1(3) show ?thesis
      by (simp add: chain_all_step [of _ _ link] validate_walk.simps [of R src lvl first sc visited link]
          link_backs_def [of R src lvl sc link] next_link_def [of R link] split: if_splits)
  next
    case (Some g)
    with 1 show ?thesis
      by (subst chain_all_step)
        (auto simp: validate_walk.simps [of R src lvl first sc visited link] link_backs_def [of R src lvl sc link]
           next_link_def [of R link] split: if_splits option.splits)
  qed
qed

lemma validate_sound:
  "validate_authority_grant R src lvl iss sc = Inr () \<Longrightarrow> iss = Some i \<Longrightarrow>
     chain_all (next_link R) (link_backs R src lvl sc) i"
  by (auto simp: validate_authority_grant_def validate_walk_sound split: if_splits)

lemma authority_add_facts:
  assumes "authority_add loaded src lvl iss sc = Inr R'" and "registry_ok (or_default loaded)"
  shows "registry_ok R'" and "validate_authority_grant (or_default loaded) src lvl iss sc = Inr ()"
    and "btm_get (sources R') l = (if l = src then Some \<lparr>max_authority = lvl, issuer = iss, scope = sc\<rparr>
       else btm_get (sources (or_default loaded)) l)"
    and "next_link R' l = (if l = src then iss else next_link (or_default loaded) l)"
proof -
  let ?R = "or_default loaded"
  have R': "R' = ?R\<lparr>sources := btm_insert src \<lparr>max_authority = lvl, issuer = iss, scope = sc\<rparr> (sources ?R)\<rparr>"
    and v: "validate_authority_grant ?R src lvl iss sc = Inr ()"
    using assms(1) by (simp_all add: authority_add_def Let_def)
  show "validate_authority_grant ?R src lvl iss sc = Inr ()" by (rule v)
  show "registry_ok R'" using assms(2) by (simp add: R' registry_ok_def)
  show get: "btm_get (sources R') l = (if l = src then Some \<lparr>max_authority = lvl, issuer = iss, scope = sc\<rparr>
       else btm_get (sources ?R) l)"
    using assms(2) by (simp add: R' btm_get_insert registry_ok_def)
  show "next_link R' l = (if l = src then iss else next_link ?R l)"
    by (simp add: next_link_def get)
qed

text \<open>The grants above a validated one, seen in the registry that holds it.\<close>

lemma backing_chain:
  assumes "chain_all (next_link R) (link_backs R src lvl sc) i"
    and "\<And>l. l \<noteq> src \<Longrightarrow> next_link R' l = next_link R l"
    and "\<And>l. l \<noteq> src \<Longrightarrow> btm_get (sources R') l = btm_get (sources R) l"
    and "WriteAuth.authority w \<le> lvl" and "scope_covers sc (auth_subject w)"
  shows "chain_allows R' w i"
  unfolding chain_allows_def
proof (rule chain_all_transfer [OF assms(1)])
  fix l
  assume l: "link_backs R src lvl sc l"
  then show "next_link R' l = next_link R l" using assms(2) by (simp add: link_backs_def)
  show "link_allows R' w l"
    using l assms(3-5) by (auto simp: link_backs_def link_allows_def scope_covers_def split: option.splits)
qed

inductive managed :: "SourceRegistry \<Rightarrow> bool" where
  fresh: "authority_add None src lvl iss sc = Inr R \<Longrightarrow> managed R"
| add: "managed R \<Longrightarrow> authority_add (Some R) src lvl iss sc = Inr R' \<Longrightarrow> managed R'"
| remove: "managed R \<Longrightarrow> authority_remove (Some R) src force = Inr R' \<Longrightarrow> managed R'"

lemma grounded_override:
  assumes "grounded nxt a" and "\<And>l. nxt' l = (if l = s then i else nxt l)"
    and "\<And>b. i = Some b \<Longrightarrow> grounded nxt' b"
  shows "grounded nxt' a"
  using assms(1)
proof (induction rule: grounded.induct)
  case (root a)
  then show ?case using assms(2) [of a] assms(3) by (cases "a = s"; cases i) (auto intro: grounded.intros)
next
  case (step a b)
  then show ?case using assms(2) [of a] assms(3) by (cases "a = s"; cases i) (auto intro: grounded.intros)
qed

lemma authority_add_keeps:
  assumes "authority_add loaded src lvl iss sc = Inr R'" and "registry_ok (or_default loaded)"
    and "\<And>s. grounded (next_link (or_default loaded)) s"
  shows "registry_ok R'" and "grounded (next_link R') s"
proof -
  note facts = authority_add_facts [OF assms(1,2)]
  show "registry_ok R'" by (rule facts)
  show "grounded (next_link R') s"
  proof (rule grounded_override [OF assms(3) facts(4)])
    fix b
    assume b: "iss = Some b"
    have "chain_all (next_link R') (\<lambda>_. True) b"
      by (rule chain_all_transfer [OF validate_sound [OF facts(2) b]]) (simp_all add: facts(4) link_backs_def)
    then show "grounded (next_link R') b" by (simp add: chain_all_def)
  qed
qed

lemma added_grant_decides:
  assumes "authority_add loaded src lvl iss sc = Inr R'" and "registry_ok (or_default loaded)"
    and "WriteAuth.source w = src"
  shows "registry_grant_check (Some R') w = Inr () \<longleftrightarrow>
    WriteAuth.authority w \<le> lvl \<and> scope_covers sc (auth_subject w)"
proof -
  note facts = authority_add_facts [OF assms(1,2)]
  have link: "link_allows R' w src \<longleftrightarrow> scope_covers sc (auth_subject w) \<and> WriteAuth.authority w \<le> lvl"
    by (simp add: link_allows_def facts(3))
  have "chain_allows R' w src"
    if a: "WriteAuth.authority w \<le> lvl" and c: "scope_covers sc (auth_subject w)"
  proof -
    have "chain_allows R' w i" if i: "iss = Some i" for i
      by (rule backing_chain [OF validate_sound [OF facts(2) i] _ _ a c]) (simp_all add: facts(3,4))
    then show ?thesis
      using a c by (simp add: chain_allows_step [of R' w src] facts(4) link split: option.split)
  qed
  moreover have "ceiling R' src = lvl" by (simp add: ceiling_def facts(3))
  ultimately show ?thesis
    using link assms(3) by (auto simp: registry_grant_check_iff chain_allows_step [of R' w src])
qed

section \<open>Revocation\<close>

text \<open>
  The walk of \<open>issuer_chain_reaches\<close> decides reachability. Every visited link has its successor
  visited or current, so a walk that comes back to a visited link has seen everything.
\<close>

lemma reach_walk_iff:
  assumes "\<And>v m. v \<in> visited \<Longrightarrow> next_link R v = Some m \<Longrightarrow> m \<in> visited \<or> link = Some m"
    and "target \<notin> visited"
  shows "reach_walk R target visited link \<longleftrightarrow>
    (\<exists>n. link = Some n \<and> (n, target) \<in> (links (next_link R))\<^sup>*)"
  using assms
proof (induction R target visited link rule: reach_walk.induct)
  case (2 R target visited name)
  have closed: "m \<in> visited" if "name \<in> visited" "(v, m) \<in> (links (next_link R))\<^sup>*" "v \<in> visited" for v m
    using that(2,3)
  proof (induction rule: rtrancl_induct)
    case (step y z)
    then show ?case using "2.prems"(1) [of y z] that(1) by auto
  qed
  show ?case
  proof (cases "name = target \<or> name \<in> visited")
    case True
    then show ?thesis using closed [of name target] "2.prems"(2) by auto
  next
    case False
    have "reach_walk R target (insert name visited) (next_link R name) \<longleftrightarrow>
      (\<exists>n. next_link R name = Some n \<and> (n, target) \<in> (links (next_link R))\<^sup>*)"
      by (rule "2.IH") (use False "2.prems" in auto)
    then show ?thesis using False by (simp add: links_from [of name])
  qed
qed simp

lemma issuer_chain_reaches_iff:
  "issuer_chain_reaches R g target \<longleftrightarrow> (\<exists>n. issuer g = Some n \<and> (n, target) \<in> (links (next_link R))\<^sup>*)"
  unfolding issuer_chain_reaches_def by (rule reach_walk_iff) simp_all

lemma dependent_grants_iff:
  assumes "registry_ok R"
  shows "d \<in> set (dependent_grants R src) \<longleftrightarrow> d \<noteq> src \<and> (d, src) \<in> (links (next_link R))\<^sup>*"
proof -
  have "d \<in> set (dependent_grants R src) \<longleftrightarrow>
    (\<exists>g. btm_get (sources R) d = Some g \<and> d \<noteq> src \<and> issuer_chain_reaches R g src)"
    using assms by (force simp: dependent_grants_def btm_in_set registry_ok_def)
  also have "\<dots> \<longleftrightarrow> d \<noteq> src \<and> (\<exists>n. next_link R d = Some n \<and> (n, src) \<in> (links (next_link R))\<^sup>*)"
    by (auto simp: issuer_chain_reaches_iff next_link_def [of R d] split: option.splits)
  also have "\<dots> \<longleftrightarrow> d \<noteq> src \<and> (d, src) \<in> (links (next_link R))\<^sup>*"
    by (auto simp: links_from [of d])
  finally show ?thesis .
qed

lemma removed_all:
  "btm_get (foldl (\<lambda>m d. btm_remove d m) m ds) l = (if l \<in> set ds then None else btm_get m l)"
  "btm_ok m \<Longrightarrow> btm_ok (foldl (\<lambda>m d. btm_remove d m) m ds)"
  by (induction ds arbitrary: m) (simp_all add: btm_get_remove)

lemma authority_remove_facts:
  assumes "authority_remove (Some R) src force = Inr R'" and "registry_ok R"
  shows "registry_ok R'"
    and "btm_get (sources R') l =
      (if (l, src) \<in> (links (next_link R))\<^sup>* then None else btm_get (sources R) l)"
    and "next_link R' l = (if (l, src) \<in> (links (next_link R))\<^sup>* then None else next_link R l)"
proof -
  have R': "R' = R\<lparr>sources := foldl (\<lambda>m d. btm_remove d m) (btm_remove src (sources R)) (dependent_grants R src)\<rparr>"
    using assms(1) by (auto simp: authority_remove_def Let_def split: if_splits)
  show "registry_ok R'" using assms(2) by (simp add: R' registry_ok_def removed_all)
  show get: "btm_get (sources R') l =
      (if (l, src) \<in> (links (next_link R))\<^sup>* then None else btm_get (sources R) l)"
    using dependent_grants_iff [OF assms(2), of l src] by (auto simp: R' removed_all btm_get_remove)
  show "next_link R' l = (if (l, src) \<in> (links (next_link R))\<^sup>* then None else next_link R l)"
    by (simp add: next_link_def get)
qed

text \<open>A chain that survives a revocation is the chain it was before.\<close>

lemma surviving_chain:
  assumes "authority_remove (Some R) src force = Inr R'" and "registry_ok R"
    and "chain_allows R' w s" and "(s, src) \<notin> (links (next_link R))\<^sup>*"
  shows "chain_allows R w s"
proof -
  note facts = authority_remove_facts [OF assms(1,2)]
  have away: "(s, l) \<in> (links (next_link R'))\<^sup>* \<Longrightarrow> (l, src) \<notin> (links (next_link R))\<^sup>*" for l
  proof (induction rule: rtrancl_induct)
    case base
    show ?case by (rule assms(4))
  next
    case (step y z)
    then show ?case by (simp add: facts(3) links_from [of y src] split: if_splits)
  qed
  have "chain_all (next_link R') (\<lambda>l. link_allows R' w l \<and> (l, src) \<notin> (links (next_link R))\<^sup>*) s"
    using assms(3) away by (simp add: chain_allows_def chain_all_def)
  then show ?thesis
    unfolding chain_allows_def
    by (rule chain_all_transfer) (simp_all add: facts(2,3) link_allows_def split: if_splits)
qed

lemma revocation_tightens:
  assumes "authority_remove (Some R) src force = Inr R'" and "registry_ok R"
    and "registry_grant_check (Some R') w = Inr ()" and "Unknown < WriteAuth.authority w"
  shows "registry_grant_check (Some R) w = Inr ()" and "(WriteAuth.source w, src) \<notin> (links (next_link R))\<^sup>*"
proof -
  let ?s = "WriteAuth.source w"
  note facts = authority_remove_facts [OF assms(1,2)]
  have c: "WriteAuth.authority w \<le> ceiling R' ?s" and chain: "chain_allows R' w ?s"
    using assms(3) by (simp_all add: registry_grant_check_iff)
  from c assms(4) have "btm_get (sources R') ?s \<noteq> None"
    by (cases "btm_get (sources R') ?s") (simp_all add: ceiling_def not_less [symmetric])
  then show away: "(?s, src) \<notin> (links (next_link R))\<^sup>*"
    by (simp add: facts(2) split: if_splits)
  show "registry_grant_check (Some R) w = Inr ()"
    using surviving_chain [OF assms(1,2) chain away] c away
    by (simp add: registry_grant_check_iff ceiling_def facts(2))
qed

lemma grounded_remove:
  assumes "grounded nxt a" and "\<And>l. nxt' l = None \<or> nxt' l = nxt l"
  shows "grounded nxt' a"
  using assms(1)
proof (induction rule: grounded.induct)
  case (root a)
  then show ?case using assms(2) [of a] by (auto intro: grounded.root)
next
  case (step a b)
  then show ?case using assms(2) [of a] by (auto intro: grounded.intros)
qed

lemma registry_ok_empty [simp]: "registry_ok registry_empty"
  by (simp add: registry_ok_def registry_empty_def)

lemma grounded_empty [simp]: "grounded (next_link registry_empty) s"
  by (rule grounded.root) (simp add: next_link_def registry_empty_def)

lemma managed_inv: "managed R \<Longrightarrow> registry_ok R \<and> (\<forall>s. grounded (next_link R) s)"
proof (induction rule: managed.induct)
  case (fresh src lvl iss sc R)
  then show ?case
    using authority_add_keeps [OF fresh] by (simp add: or_default_def)
next
  case (add R src lvl iss sc R')
  then show ?case
    using authority_add_keeps [OF add.hyps(2)] by (simp add: or_default_def)
next
  case (remove R src force R')
  note facts = authority_remove_facts [OF remove.hyps(2) conjunct1 [OF remove.IH]]
  have "grounded (next_link R') s" for s
    by (rule grounded_remove [of "next_link R"]) (use remove.IH facts(3) in auto)
  then show ?case using facts(1) by simp
qed

section \<open>Properties\<close>

text \<open>
  C17: The authority gate is exactly its specification. Without a registry every write passes.
  With one, a write passes if and only if its level is at most the ceiling of its source, the
  issuer chain of the source ends (no link leads back to itself), and every registered link of
  that chain covers the subject of the write at the requested level. In particular the walk
  terminates on every registry, and a cyclic or self-issued chain authorizes nothing.
\<close>

theorem grant_gate_decides:
  "registry_grant_check reg w = Inr () \<longleftrightarrow>
    (case reg of
       None \<Rightarrow> True
     | Some R \<Rightarrow> WriteAuth.authority w \<le> ceiling R (WriteAuth.source w) \<and>
         chain_all (next_link R) (link_allows R w) (WriteAuth.source w))"
  by (cases reg) (simp_all add: registry_grant_check_iff chain_allows_def, simp add: registry_grant_check_def)

text \<open>
  A grant that the operator command accepts is worth exactly what it says: after
  \<open>authority add\<close>, a write by the granted source passes the gate if and only if its level is
  at most the granted one and the granted scope covers its subject. The checks at add time thus
  leave nothing for the issuer chain to refuse, and nothing for it to add.
\<close>

theorem added_grant_is_effective:
  assumes "authority_add loaded src lvl iss sc = Inr R'" and "registry_ok (or_default loaded)"
    and "WriteAuth.source w = src"
  shows "registry_grant_check (Some R') w = Inr () \<longleftrightarrow>
    WriteAuth.authority w \<le> lvl \<and> scope_covers sc (auth_subject w)"
  by (rule added_grant_decides [OF assms])

text \<open>
  Revocation never loosens. If a write above the floor passes the gate after
  \<open>authority remove\<close>, with or without \<open>--force\<close>, it passed before, and its source did not
  chain its authority through the removed one. The hypothesis on the level is that of the
  command line, which cannot request the level \<open>Unknown\<close>.
\<close>

theorem revocation_never_loosens:
  assumes "authority_remove (Some R) src force = Inr R'" and "registry_ok R"
    and "registry_grant_check (Some R') w = Inr ()" and "Unknown < WriteAuth.authority w"
  shows "registry_grant_check (Some R) w = Inr () \<and> (WriteAuth.source w, src) \<notin> (links (next_link R))\<^sup>*"
  using revocation_tightens [OF assms] by simp

text \<open>
  In a registry built by the commands alone (\<open>authority add\<close> from nothing, then any
  sequence of adds and removes) every issuer chain is grounded, whatever the order of the
  commands and re-grants of an existing source included: the cycle refusal of the gate is
  reachable only in a registry edited by hand.
\<close>

theorem managed_registry_is_grounded:
  assumes "managed R"
  shows "grounded (next_link R) s"
  using managed_inv [OF assms] by simp

section \<open>Witnesses\<close>

definition sample_issuer_registry :: SourceRegistry where
  "sample_issuer_registry = \<lparr>sources =
     [(''a'', \<lparr>max_authority = High, issuer = None, scope = Some ''repo:x''\<rparr>)]\<rparr>"

definition sample_write :: WriteAuth where
  "sample_write = \<lparr>subject_kind = ''repo'', subject_key = ''x'', authority = Medium, source = ''b''\<rparr>"

definition sample_delegated :: SourceRegistry where
  "sample_delegated = \<lparr>sources =
     [(''a'', \<lparr>max_authority = High, issuer = None, scope = Some ''repo:x''\<rparr>),
      (''b'', \<lparr>max_authority = Medium, issuer = Some ''a'', scope = Some ''repo:x''\<rparr>)]\<rparr>"

lemmas sample_gate_defs = sample_issuer_registry_def sample_delegated_def sample_write_def
  authority_add_def or_default_def validate_authority_grant_def CliSubject_from_str_def
  split_once_def Subject_new_def trim_eval validate_walk.simps btm_insert_def Let_def
  less_AuthorityLevel_def

lemma sample_add:
  "authority_add None ''a'' High None (Some ''repo:x'') = Inr sample_issuer_registry"
  by (simp add: sample_gate_defs registry_empty_def)

lemma sample_delegate:
  "authority_add (Some sample_issuer_registry) ''b'' Medium (Some ''a'') (Some ''repo:x'') =
     Inr sample_delegated"
  by (simp add: sample_gate_defs)

lemma sample_managed: "managed sample_delegated"
  by (rule managed.add [OF managed.fresh [OF sample_add] sample_delegate])

lemma sample_ok: "registry_ok sample_delegated" "registry_ok (or_default (Some sample_issuer_registry))"
  using managed_inv [OF sample_managed] by (simp_all add: or_default_def registry_ok_def sample_issuer_registry_def)

theorem added_grant_is_effective_witness:
  "registry_grant_check (Some sample_delegated) sample_write = Inr ()"
  using added_grant_is_effective [OF sample_delegate sample_ok(2), of sample_write]
  by (simp add: sample_write_def scope_covers_def auth_subject_def)

lemma sample_revoke: "authority_remove (Some sample_delegated) ''b'' False = Inr sample_issuer_registry"
  by (simp add: authority_remove_def sample_delegated_def sample_issuer_registry_def dependent_grants_def
      issuer_chain_reaches_def Let_def btm_remove_def)

definition sample_issuer_write :: WriteAuth where
  "sample_issuer_write = \<lparr>subject_kind = ''repo'', subject_key = ''x'', authority = High, source = ''a''\<rparr>"

theorem revocation_never_loosens_witness:
  "registry_grant_check (Some sample_delegated) sample_issuer_write = Inr ()"
proof -
  have "registry_grant_check (Some sample_issuer_registry) sample_issuer_write = Inr ()"
    using added_grant_decides [OF sample_add, of sample_issuer_write]
    by (simp add: or_default_def sample_issuer_write_def scope_covers_def auth_subject_def)
  then show ?thesis
    using revocation_never_loosens [OF sample_revoke sample_ok(1), of sample_issuer_write]
    by (simp add: sample_issuer_write_def less_AuthorityLevel_def)
qed

theorem managed_registry_is_grounded_witness: "grounded (next_link sample_delegated) ''b''"
  by (rule managed_registry_is_grounded [OF sample_managed])

end
