(* ===== verification/Projection.thy ===== *)
theory Projection
  imports Replay
begin

text \<open>
  \<open>crates/dent8-store/src/lib.rs\<close>, the methods of \<open>SubjectProjection\<close>: believed and
  contested facts, the traversal that finds supersession cycles, the lineage check and the
  entrenchment audit. The specification of the traversal is the graph of \<open>superseded_by\<close>
  edges inside the subject: it must return exactly the facts that reach themselves.
\<close>

section \<open>Operations\<close>

definition believed :: "SubjectProjection \<Rightarrow> FactState list" where
  "believed pr = filter (\<lambda>s. \<not> is_terminal (lifecycle s)) (btm_values (facts pr))"

definition contested :: "SubjectProjection \<Rightarrow> FactState list" where
  "contested pr = filter (\<lambda>s. lifecycle s = Contested) (btm_values (facts pr))"

text \<open>
  The inner loop of \<open>supersession_cycle_members\<close>: \<open>index\<close> gives the position of each visited
  fact in \<open>path\<close>. A node met again closes a cycle; a node already known to be on a cycle, or
  one whose successor is absent, ends the walk.
\<close>

function cycle_walk ::
    "(FactId, FactState) btree \<Rightarrow> FactId set \<Rightarrow> (FactId, usize) btree \<Rightarrow> FactId list \<Rightarrow> FactId \<Rightarrow> FactId set" where
  "cycle_walk m on_cycle index path node =
     (case btm_get index node of
        Some first \<Rightarrow> on_cycle \<union> set (drop first path)
      | None \<Rightarrow>
          if node \<in> on_cycle then on_cycle
          else (case Option.bind (btm_get m node) superseded_by of
              None \<Rightarrow> on_cycle
            | Some nxt \<Rightarrow>
                if btm_get m nxt \<noteq> None
                then cycle_walk m on_cycle (btm_insert node (length path) index) (path @ [node]) nxt
                else on_cycle))"
  by pat_completeness auto
termination
proof (relation "measure (\<lambda>(m, oc, index, path, node). card (fst ` set m - fst ` set index))")
  fix m :: "(FactId, FactState) btree" and oc :: "FactId set" and index :: "(FactId, usize) btree"
    and path :: "FactId list" and node nxt
  assume new: "btm_get index node = None" and nx: "Option.bind (btm_get m node) superseded_by = Some nxt"
  have keys: "fst ` set (btm_insert node (length path) index) = insert node (fst ` set index)"
    using btm_upsert_keys [of "\<lambda>_. length path" "length path" node index] by (simp add: btm_insert_def)
  have "btm_get m node \<noteq> None" using nx by (cases "btm_get m node") auto
  then have "node \<in> fst ` set m - fst ` set index" using new by (auto simp: btm_get_None)
  then have "fst ` set m - insert node (fst ` set index) \<subset> fst ` set m - fst ` set index" by blast
  then have "card (fst ` set m - insert node (fst ` set index)) < card (fst ` set m - fst ` set index)"
    by (intro psubset_card_mono) simp_all
  then show "((m, oc, btm_insert node (length path) index, path @ [node], nxt), m, oc, index, path, node)
      \<in> measure (\<lambda>(m, oc, index, path, node). card (fst ` set m - fst ` set index))"
    unfolding in_measure prod.case keys .
qed simp

declare cycle_walk.simps [simp del]

definition supersession_cycle_members :: "SubjectProjection \<Rightarrow> FactId set" where
  "supersession_cycle_members pr =
     foldl (\<lambda>on_cycle start. if start \<in> on_cycle then on_cycle
                             else cycle_walk (facts pr) on_cycle [] [] start)
       {} (btm_keys (facts pr))"

datatype LineageIssue =
    DanglingSupersession FactId FactId
  | SupersededByInvalidated FactId FactId FactLifecycle
  | SupersessionCycle FactId

text \<open>The body of the loop of \<open>lineage_issues\<close> for one state: the issue it pushes, if any.\<close>

definition lineage_issue :: "SubjectProjection \<Rightarrow> FactId set \<Rightarrow> FactState \<Rightarrow> LineageIssue option" where
  "lineage_issue pr on_cycle s =
     (if fact_id s \<in> on_cycle then Some (SupersessionCycle (fact_id s))
      else case superseded_by s of
          None \<Rightarrow> None
        | Some target \<Rightarrow> (case btm_get (facts pr) target of
              None \<Rightarrow> Some (DanglingSupersession (fact_id s) target)
            | Some t \<Rightarrow>
                if lifecycle t = FactLifecycle.Retracted \<or> lifecycle t = FactLifecycle.Expired
                then Some (SupersededByInvalidated (fact_id s) target (lifecycle t))
                else None))"

definition lineage_issues :: "SubjectProjection \<Rightarrow> LineageIssue list" where
  "lineage_issues pr =
     List.map_filter (lineage_issue pr (supersession_cycle_members pr)) (btm_values (facts pr))"

datatype UnearnedSupersession =
    AuthorityDowngrade FactId FactId AuthorityLevel AuthorityLevel
  | WeakerEntrenchment FactId FactId usize usize

definition unearned_supersession ::
    "SubjectProjection \<Rightarrow> FactId set \<Rightarrow> FactState \<Rightarrow> UnearnedSupersession option" where
  "unearned_supersession pr on_cycle s =
     (if fact_id s \<in> on_cycle then None
      else case superseded_by s of
          None \<Rightarrow> None
        | Some target \<Rightarrow> (case btm_get (facts pr) target of
              None \<Rightarrow> None
            | Some by_state \<Rightarrow>
                if state_level by_state < state_level s
                then Some (AuthorityDowngrade (fact_id s) target (state_level s) (state_level by_state))
                else if state_level by_state = state_level s
                then (let l = state_level s;
                          inc = earned_entrenchment_at_or_above s l;
                          ch = earned_entrenchment_at_or_above by_state l
                      in if ch < inc then Some (WeakerEntrenchment (fact_id s) target inc ch) else None)
                else None))"

definition unearned_supersessions :: "SubjectProjection \<Rightarrow> UnearnedSupersession list" where
  "unearned_supersessions pr =
     List.map_filter (unearned_supersession pr (supersession_cycle_members pr)) (btm_values (facts pr))"

section \<open>The supersession graph\<close>

definition supersession_edges :: "(FactId, FactState) btree \<Rightarrow> (FactId \<times> FactId) set" where
  "supersession_edges m = {(f, g). \<exists>s. btm_get m f = Some s \<and> superseded_by s = Some g \<and> btm_get m g \<noteq> None}"

definition on_cycle :: "('a \<times> 'a) set \<Rightarrow> 'a set" where
  "on_cycle r = {a. (a, a) \<in> r\<^sup>+}"

definition closed_under :: "('a \<times> 'a) set \<Rightarrow> 'a set \<Rightarrow> bool" where
  "closed_under r A \<longleftrightarrow> (\<forall>a b. a \<in> A \<longrightarrow> (a, b) \<in> r \<longrightarrow> b \<in> A)"

lemma closed_under_rtrancl:
  assumes "(a, b) \<in> r\<^sup>*" and "closed_under r A" and "a \<in> A"
  shows "b \<in> A"
  using assms by (induction rule: rtrancl_induct) (auto simp: closed_under_def)

lemma edges_functional: "single_valued (supersession_edges m)"
  by (auto simp: supersession_edges_def single_valued_def)

lemma edges_next:
  "(f, g) \<in> supersession_edges m \<longleftrightarrow> Option.bind (btm_get m f) superseded_by = Some g \<and> btm_get m g \<noteq> None"
  by (cases "btm_get m f") (auto simp: supersession_edges_def)

text \<open>In a graph with at most one successor, what a node on a cycle reaches leads back to it.\<close>

lemma cycle_returns:
  assumes functional: "single_valued r"
    and "a \<in> on_cycle r" and "(a, x) \<in> r\<^sup>*"
  shows "(x, a) \<in> r\<^sup>*"
  using assms(3)
proof (induction rule: rtrancl_induct)
  case (step y z)
  have "(y, a) \<in> r\<^sup>+"
    using step.IH assms(2) by (auto simp: on_cycle_def rtrancl_eq_or_trancl)
  then obtain w where "(y, w) \<in> r" "(w, a) \<in> r\<^sup>*" by (meson tranclD)
  then show ?case using single_valuedD [OF functional] step.hyps(2) by blast
qed simp

section \<open>The walk is correct\<close>

text \<open>What holds when the walk is at \<open>node\<close>: the visited path leads there along the edges.\<close>

definition walk_inv ::
    "('a \<times> 'a) set \<Rightarrow> ('a::linorder, usize) btree \<Rightarrow> 'a list \<Rightarrow> 'a \<Rightarrow> 'a \<Rightarrow> bool" where
  "walk_inv r index path start node \<longleftrightarrow> btm_ok index \<and>
     (\<forall>n i. btm_get index n = Some i \<longrightarrow> i < length path \<and> path ! i = n) \<and>
     (\<forall>i < length path. (path ! i, (path @ [node]) ! Suc i) \<in> r) \<and>
     (path @ [node]) ! 0 = start"

lemma walk_inv_start: "walk_inv r [] [] start start"
  by (simp add: walk_inv_def)

lemma walk_inv_step:
  assumes "walk_inv r index path start node" and "btm_get index node = None" and "(node, nxt) \<in> r"
  shows "walk_inv r (btm_insert node (length path) index) (path @ [node]) start nxt"
proof -
  have "(((path @ [node]) ! i), ((path @ [node]) @ [nxt]) ! Suc i) \<in> r" if "i < length (path @ [node])" for i
  proof (cases "i < length path")
    case True
    then have "((path @ [node]) @ [nxt]) ! Suc i = (path @ [node]) ! Suc i" "(path @ [node]) ! i = path ! i"
      by (simp_all add: nth_append)
    then show ?thesis using assms(1) True unfolding walk_inv_def by metis
  next
    case False
    with that have "i = length path" by simp
    then show ?thesis using assms(3) by (simp add: nth_append)
  qed
  moreover have "(path @ [node]) ! i = n" "i < length (path @ [node])"
    if "btm_get (btm_insert node (length path) index) n = Some i" for n i
    using that assms(1)
    by (auto simp: walk_inv_def btm_get_insert nth_append intro: less_SucI split: if_splits)
  moreover have "((path @ [node]) @ [nxt]) ! 0 = start"
    using assms(1) by (cases path) (simp_all add: walk_inv_def)
  ultimately show ?thesis using assms(1) by (simp add: walk_inv_def)
qed

lemma walk_reaches:
  assumes "walk_inv r index path start node" and "i \<le> j" and "j \<le> length path"
  shows "((path @ [node]) ! i, (path @ [node]) ! j) \<in> r\<^sup>*"
  using assms(2,3)
proof (induction j)
  case (Suc j)
  show ?case
  proof (cases "i = Suc j")
    case False
    then have "((path @ [node]) ! i, (path @ [node]) ! j) \<in> r\<^sup>*" using Suc by simp
    moreover have "((path @ [node]) ! j, (path @ [node]) ! Suc j) \<in> r"
      using assms(1) Suc.prems by (simp add: walk_inv_def nth_append)
    ultimately show ?thesis by simp
  qed simp
qed simp

lemma walk_cycle:
  assumes inv: "walk_inv r index path start node" and hit: "btm_get index node = Some first"
    and functional: "single_valued r"
  shows "set (drop first path) \<subseteq> on_cycle r" and "closed_under r (set (drop first path))"
    and "node \<in> set (drop first path)"
proof -
  have first: "first < length path" "path ! first = node" using inv hit by (auto simp: walk_inv_def)
  have elem: "x \<in> set (drop first path) \<longleftrightarrow> (\<exists>j. first \<le> j \<and> j < length path \<and> path ! j = x)" for x
  proof
    assume "x \<in> set (drop first path)"
    then obtain k where "k < length path - first" "path ! (first + k) = x"
      by (auto simp: in_set_conv_nth)
    then show "\<exists>j. first \<le> j \<and> j < length path \<and> path ! j = x"
      by (intro exI [of _ "first + k"]) simp
  next
    assume "\<exists>j. first \<le> j \<and> j < length path \<and> path ! j = x"
    then obtain j where "first \<le> j" "j < length path" "path ! j = x" by blast
    then show "x \<in> set (drop first path)"
      by (auto simp: in_set_conv_nth intro!: exI [of _ "j - first"])
  qed
  show "node \<in> set (drop first path)" using first elem by blast
  show "set (drop first path) \<subseteq> on_cycle r"
  proof
    fix x
    assume "x \<in> set (drop first path)"
    then obtain j where j: "first \<le> j" "j < length path" "path ! j = x" using elem by blast
    have "(x, (path @ [node]) ! Suc j) \<in> r" using inv j by (auto simp: walk_inv_def)
    moreover have "((path @ [node]) ! Suc j, node) \<in> r\<^sup>*"
      using walk_reaches [OF inv, of "Suc j" "length path"] j by (simp add: nth_append)
    moreover have "(node, x) \<in> r\<^sup>*"
      using walk_reaches [OF inv j(1)] j first by (simp add: nth_append)
    ultimately have "(x, x) \<in> r\<^sup>+" by (meson rtrancl_into_trancl2 rtrancl_trans)
    then show "x \<in> on_cycle r" by (simp add: on_cycle_def)
  qed
  show "closed_under r (set (drop first path))"
    unfolding closed_under_def
  proof (intro allI impI)
    fix a b
    assume "a \<in> set (drop first path)" and ab: "(a, b) \<in> r"
    then obtain j where j: "first \<le> j" "j < length path" "path ! j = a" using elem by blast
    have "(a, (path @ [node]) ! Suc j) \<in> r" using inv j by (auto simp: walk_inv_def)
    then have b: "b = (path @ [node]) ! Suc j" using single_valuedD [OF functional] ab by blast
    show "b \<in> set (drop first path)"
    proof (cases "Suc j < length path")
      case True
      then have "b = path ! Suc j" using b by (simp add: nth_append)
      then show ?thesis unfolding elem using True j(1) by (intro exI [of _ "Suc j"]) simp
    next
      case False
      then have "b = node" using b j(2) by (simp add: nth_append)
      then show ?thesis using first elem by blast
    qed
  qed
qed

lemma cycle_walk_correct:
  assumes "walk_inv (supersession_edges m) index path start node"
    and "closed_under (supersession_edges m) oc"
  defines "r \<equiv> cycle_walk m oc index path node"
  shows "oc \<subseteq> r \<and> r \<subseteq> oc \<union> on_cycle (supersession_edges m) \<and>
    closed_under (supersession_edges m) r \<and>
    (start \<in> on_cycle (supersession_edges m) \<longrightarrow> start \<in> r)"
  using assms(1,2) unfolding r_def
proof (induction m oc index path node rule: cycle_walk.induct)
  case (1 m oc index path node)
  let ?E = "supersession_edges m"
  have ret: "(node, start) \<in> ?E\<^sup>*" if "start \<in> on_cycle ?E"
  proof -
    have "(start, node) \<in> ?E\<^sup>*"
      using walk_reaches [OF "1.prems"(1), of 0 "length path"] "1.prems"(1)
      by (simp add: walk_inv_def nth_append split: if_splits)
    with edges_functional that show ?thesis by (rule cycle_returns)
  qed
  show ?case
  proof (cases "btm_get index node")
    case (Some i)
    note c = walk_cycle [OF "1.prems"(1) Some edges_functional]
    have "start \<in> set (drop i path)" if "start \<in> on_cycle ?E"
      using closed_under_rtrancl [OF ret [OF that] c(2,3)] .
    then show ?thesis
      using Some c "1.prems"(2) by (auto simp: cycle_walk.simps [of m oc] closed_under_def)
  next
    case None
    show ?thesis
    proof (cases "node \<in> oc")
      case True
      then have "start \<in> oc" if "start \<in> on_cycle ?E"
        using closed_under_rtrancl [OF ret [OF that] "1.prems"(2)] by blast
      then show ?thesis using None True "1.prems"(2) by (simp add: cycle_walk.simps [of m oc])
    next
      case False
      show ?thesis
      proof (cases "\<exists>nxt. (node, nxt) \<in> ?E")
        case True
        then obtain nxt where nxt: "(node, nxt) \<in> ?E" by blast
        then have e: "Option.bind (btm_get m node) superseded_by = Some nxt" "btm_get m nxt \<noteq> None"
          by (simp_all add: edges_next)
        show ?thesis
          using "1.IH" [OF None False e walk_inv_step [OF "1.prems"(1) None nxt] "1.prems"(2)] None False e
          by (simp add: cycle_walk.simps [of m oc index])
      next
        case no: False
        have "start \<notin> on_cycle ?E"
        proof
          assume s: "start \<in> on_cycle ?E"
          have "(node, start) \<in> ?E\<^sup>*" by (rule ret [OF s])
          then show False
            using s no by (auto simp: on_cycle_def rtrancl_eq_or_trancl dest: tranclD)
        qed
        moreover have "cycle_walk m oc index path node = oc"
          using None False no
          by (auto simp: cycle_walk.simps [of m oc] edges_next split: option.split)
        ultimately show ?thesis using "1.prems"(2) by simp
      qed
    qed
  qed
qed

lemma cycle_members_fold:
  assumes "closed_under (supersession_edges m) oc" and "oc \<subseteq> on_cycle (supersession_edges m)"
    and "r = foldl (\<lambda>oc start. if start \<in> oc then oc else cycle_walk m oc [] [] start) oc ks"
  shows "oc \<subseteq> r \<and> r \<subseteq> on_cycle (supersession_edges m) \<and>
    on_cycle (supersession_edges m) \<inter> set ks \<subseteq> r"
  using assms(1,2) unfolding assms(3)
proof (induction ks arbitrary: oc)
  case (Cons k ks)
  let ?o = "if k \<in> oc then oc else cycle_walk m oc [] [] k"
  note w = cycle_walk_correct [OF walk_inv_start Cons.prems(1), of k]
  have o: "oc \<subseteq> ?o" "closed_under (supersession_edges m) ?o" "?o \<subseteq> on_cycle (supersession_edges m)"
    "k \<in> on_cycle (supersession_edges m) \<longrightarrow> k \<in> ?o"
    using w Cons.prems by auto
  from Cons.IH [OF o(2,3)] o(1,4) show ?case by auto
qed simp

lemma supersession_cycle_members_eq:
  "supersession_cycle_members pr = on_cycle (supersession_edges (facts pr))"
proof -
  have "on_cycle (supersession_edges (facts pr)) \<subseteq> set (btm_keys (facts pr))"
  proof
    fix f
    assume "f \<in> on_cycle (supersession_edges (facts pr))"
    then obtain g where "(f, g) \<in> supersession_edges (facts pr)"
      by (auto simp: on_cycle_def dest: tranclD)
    then have "btm_get (facts pr) f \<noteq> None" by (auto simp: supersession_edges_def)
    then show "f \<in> set (btm_keys (facts pr))" by (simp add: btm_get_None btm_keys_def)
  qed
  then show ?thesis
    using cycle_members_fold [of "facts pr" "{}" _ "btm_keys (facts pr)"]
    by (auto simp: supersession_cycle_members_def closed_under_def)
qed

section \<open>Lineage\<close>

lemma map_filter_Nil: "List.map_filter f xs = [] \<longleftrightarrow> (\<forall>x \<in> set xs. f x = None)"
  by (auto simp: List.map_filter_def filter_empty_conv)

lemma set_map_filter: "set (List.map_filter f xs) = {y. \<exists>x \<in> set xs. f x = Some y}"
  by (force simp: List.map_filter_def image_iff)

lemma replay_subject_states:
  assumes "replay_subject es = Inr pr" and "btm_get (facts pr) f = Some s"
  shows "stream_state (stream_of f es) s" and "fact_id s = f" and "state_inv s"
proof -
  have "fold_fact (stream_of f es) identity_policy = Inr (Some s)"
    using replay_subject_get assms by (auto simp: replay_subject_def projection_get_def)
  then show st: "stream_state (stream_of f es) s"
    using replay_fact_Some by (simp add: replay_fact_def replay_fact_with_policy_def)
  show "fact_id s = f" by (rule stream_state_of [OF st])
  show "state_inv s" using st by (rule stream_state_inv)
qed

lemma replay_subject_values:
  "replay_subject es = Inr pr \<Longrightarrow> s \<in> set (btm_values (facts pr)) \<longleftrightarrow> (\<exists>f. btm_get (facts pr) f = Some s)"
  using replay_subject_get [of es identity_policy pr] btm_values_get [of "facts pr"]
  by (simp add: replay_subject_def)

lemma btm_get_key: "btm_get m k = Some v \<Longrightarrow> k \<in> set (btm_keys m)"
  by (metis btm_get_None btm_keys_def list.set_map option.distinct(1))

lemma edges_acyclic_wf:
  assumes "on_cycle (supersession_edges m) = {}"
  shows "wf ((supersession_edges m)\<inverse>)"
proof (rule finite_acyclic_wf_converse)
  have "supersession_edges m \<subseteq> set (btm_keys m) \<times> set (btm_keys m)"
    by (auto simp: supersession_edges_def dest: btm_get_key)
  then show "finite (supersession_edges m)" by (rule finite_subset) simp
  show "acyclic (supersession_edges m)" using assms by (auto simp: acyclic_def on_cycle_def)
qed

lemma lineage_resolves:
  assumes replay: "replay_subject es = Inr pr" and clean: "lineage_issues pr = []"
    and "btm_get (facts pr) f = Some s" and "lifecycle s = FactLifecycle.Superseded"
  shows "\<exists>g t. (f, g) \<in> (supersession_edges (facts pr))\<^sup>+ \<and> btm_get (facts pr) g = Some t \<and>
    \<not> is_terminal (lifecycle t)"
proof -
  let ?E = "supersession_edges (facts pr)"
  have none: "lineage_issue pr (on_cycle ?E) s = None" if "btm_get (facts pr) f = Some s" for f s
    using that clean replay_subject_values [OF replay, of s]
    by (auto simp: lineage_issues_def map_filter_Nil supersession_cycle_members_eq)
  have "on_cycle ?E = {}"
  proof (rule ccontr)
    assume "on_cycle ?E \<noteq> {}"
    then obtain h where h: "h \<in> on_cycle ?E" by blast
    then obtain g where "(h, g) \<in> ?E" by (auto simp: on_cycle_def dest: tranclD)
    then obtain t where "btm_get (facts pr) h = Some t" by (auto simp: supersession_edges_def)
    with none [OF this] h replay_subject_states(2) [OF replay this] show False
      by (simp add: lineage_issue_def)
  qed
  then have "wf (?E\<inverse>)" by (rule edges_acyclic_wf)
  then show ?thesis using assms(3,4)
  proof (induction f arbitrary: s rule: wf_induct_rule)
    case (less f)
    have "superseded_by s \<noteq> None"
      using replay_subject_states(3) [OF replay less.prems(1)] less.prems(2) by (simp add: state_inv_def)
    then obtain g where g: "superseded_by s = Some g" by blast
    obtain t where t: "btm_get (facts pr) g = Some t"
      "lifecycle t \<noteq> FactLifecycle.Retracted" "lifecycle t \<noteq> FactLifecycle.Expired"
      using none [OF less.prems(1)] g by (auto simp: lineage_issue_def split: if_splits option.splits)
    have e: "(f, g) \<in> ?E" using less.prems(1) g t(1) by (simp add: supersession_edges_def)
    show ?case
    proof (cases "is_terminal (lifecycle t)")
      case False
      with e t(1) show ?thesis by blast
    next
      case True
      then have "lifecycle t = FactLifecycle.Superseded" using t(2,3) by (cases "lifecycle t") auto
      from less.IH [OF _ t(1) this] e show ?thesis by (meson converseI trancl_into_trancl2)
    qed
  qed
qed

lemma lineage_clean:
  assumes replay: "replay_subject es = Inr pr"
    and resolves: "\<And>f s. btm_get (facts pr) f = Some s \<Longrightarrow> lifecycle s = FactLifecycle.Superseded \<Longrightarrow>
      \<exists>g t. (f, g) \<in> (supersession_edges (facts pr))\<^sup>+ \<and> btm_get (facts pr) g = Some t \<and>
        \<not> is_terminal (lifecycle t)"
  shows "lineage_issues pr = []"
  unfolding lineage_issues_def map_filter_Nil supersession_cycle_members_eq
proof
  let ?E = "supersession_edges (facts pr)"
  have stuck: "superseded_by t = None" if "btm_get (facts pr) g = Some t" "lifecycle t \<noteq> FactLifecycle.Superseded" for g t
    using replay_subject_states(3) [OF replay that(1)] that(2) by (auto simp: state_inv_def)
  fix s
  assume "s \<in> set (btm_values (facts pr))"
  then obtain f where f: "btm_get (facts pr) f = Some s" using replay_subject_values [OF replay] by blast
  have id: "fact_id s = f" by (rule replay_subject_states(2) [OF replay f])
  show "lineage_issue pr (on_cycle ?E) s = None"
  proof (cases "lifecycle s = FactLifecycle.Superseded")
    case False
    then have "f \<notin> on_cycle ?E"
      using stuck [OF f] f by (auto simp: on_cycle_def supersession_edges_def dest!: tranclD)
    with stuck [OF f False] id show ?thesis by (simp add: lineage_issue_def)
  next
    case True
    obtain g t where g: "(f, g) \<in> ?E\<^sup>+" "btm_get (facts pr) g = Some t" "\<not> is_terminal (lifecycle t)"
      using resolves [OF f True] by blast
    have live: "superseded_by t = None" by (rule stuck [OF g(2)]) (use g(3) in auto)
    have off: "f \<notin> on_cycle ?E"
    proof
      assume "f \<in> on_cycle ?E"
      from cycle_returns [OF edges_functional this trancl_into_rtrancl [OF g(1)]]
      have "(g, g) \<in> ?E\<^sup>+" using g(1) by simp
      then show False using g(2) live by (auto simp: supersession_edges_def dest!: tranclD)
    qed
    obtain h where h: "(f, h) \<in> ?E" "(h, g) \<in> ?E\<^sup>*" using g(1) by (meson tranclD)
    then obtain u where u: "superseded_by s = Some h" "btm_get (facts pr) h = Some u"
      using f by (auto simp: supersession_edges_def)
    have "lifecycle u \<noteq> FactLifecycle.Retracted \<and> lifecycle u \<noteq> FactLifecycle.Expired"
    proof (cases "h = g")
      case True
      then show ?thesis using g(2,3) u(2) by auto
    next
      case False
      then obtain k where "(h, k) \<in> ?E" using h(2) by (meson converse_rtranclE)
      then have "lifecycle u = FactLifecycle.Superseded"
        using stuck [OF u(2)] u(2) by (auto simp: supersession_edges_def)
      then show ?thesis by simp
    qed
    with off id u show ?thesis by (simp add: lineage_issue_def)
  qed
qed

section \<open>Properties\<close>

text \<open>
  C24: The traversal terminates and is exact: it returns precisely the facts that reach themselves
  along supersession edges within the subject, for every projection, well-formed or not.
\<close>

theorem cycle_members_exact:
  "supersession_cycle_members pr = {f. (f, f) \<in> (supersession_edges (facts pr))\<^sup>+}"
  by (simp add: supersession_cycle_members_eq on_cycle_def)

text \<open>
  The lineage check means what it promises. On a replayed subject it reports no issue exactly
  when every superseded fact has a believed final successor, reached along the supersession chain
  within the subject.
\<close>

theorem lineage_issues_iff_resolves:
  assumes "replay_subject es = Inr pr"
  shows "lineage_issues pr = [] \<longleftrightarrow>
    (\<forall>f s. projection_get pr f = Some s \<longrightarrow> lifecycle s = FactLifecycle.Superseded \<longrightarrow>
      (\<exists>g t. (f, g) \<in> (supersession_edges (facts pr))\<^sup>+ \<and> projection_get pr g = Some t \<and>
         t \<in> set (believed pr)))"
proof -
  have "t \<in> set (believed pr) \<longleftrightarrow> \<not> is_terminal (lifecycle t)" if "btm_get (facts pr) g = Some t" for g t
    using that replay_subject_values [OF assms] by (auto simp: believed_def)
  then show ?thesis
    using lineage_resolves [OF assms] lineage_clean [OF assms] unfolding projection_get_def by metis
qed

section \<open>Witnesses\<close>

definition sample_lineage :: "FactEvent list" where
  "sample_lineage = [sample_assert ''event:1'' ''fact:1'' High, sample_assert ''event:3'' ''fact:2'' High,
     sample_supersede High]"

lemmas replay_eval = replay_subject_def replay_subject_with_policy_def btm_group_def fold_fact_def
  btm_insert_def less_FactId_def sample_lineage_def sample_state_defs transition_eval level_order

theorem lineage_issues_iff_resolves_witness:
  "\<exists>pr. replay_subject sample_lineage = Inr pr \<and> lineage_issues pr = [] \<and>
     (\<exists>s. projection_get pr (FactId ''fact:1'') = Some s \<and> lifecycle s = FactLifecycle.Superseded)"
proof -
  obtain pr s t where pr: "replay_subject sample_lineage = Inr pr"
    and facts: "facts pr = [(FactId ''fact:1'', s), (FactId ''fact:2'', t)]"
    and s: "lifecycle s = FactLifecycle.Superseded" "superseded_by s = Some (FactId ''fact:2'')"
    and t: "lifecycle t = Active"
    by (simp add: replay_eval)
  have "(FactId ''fact:1'', FactId ''fact:2'') \<in> supersession_edges (facts pr)"
    by (simp add: supersession_edges_def facts s)
  then have "lineage_issues pr = []"
    using lineage_issues_iff_resolves [OF pr] s t
    by (auto simp: projection_get_def facts believed_def btm_values_def split: if_splits)
  with pr s show ?thesis by (auto simp: projection_get_def facts)
qed

end
