(* ===== verification/Firewall.thy ===== *)
theory Firewall
  imports Projection
begin

text \<open>
  \<open>crates/dent8-store/src/firewall.rs\<close> and the trait \<open>EventStore\<close>: arbitration of a candidate
  event against the streams it touches. The trait's contract is the locale \<open>event_store\<close>: what
  a load returns, and that an append arbitrates first, adds exactly the event, or changes
  nothing. The guarantees of the firewall are proved there once, for every store.
\<close>

section \<open>Arbitration\<close>

text \<open>A call of the code may also panic (\<open>expect\<close>, an index out of range).\<close>

datatype 'e fault = Panic | Fail 'e

fun fault_map :: "('e \<Rightarrow> 'f) \<Rightarrow> 'e fault \<Rightarrow> 'f fault" where
  "fault_map h Panic = Panic"
| "fault_map h (Fail e) = Fail (h e)"

definition arbitrate_events ::
    "FactEvent \<Rightarrow> FactEvent list \<Rightarrow> FactEvent list option \<Rightarrow> StoreError fault + unit" where
  "arbitrate_events candidate existing replacing =
     and_then (map_err (\<lambda>e. Fail (Replay e)) (replay_fact existing)) (\<lambda>current.
       let incumbent_authority = map_option state_level current in
       and_then (map_err (\<lambda>e. Fail (Rejected e)) (apply_event current candidate)) (\<lambda>_.
         case FactEvent.kind candidate of
           FactEventKind.Superseded g _ \<Rightarrow>
             (case incumbent_authority of
                None \<Rightarrow> Inl Panic
              | Some inc \<Rightarrow>
                  and_then (case replacing of
                      Some events \<Rightarrow> map_err (\<lambda>e. Fail (Replay e)) (replay_fact events)
                    | None \<Rightarrow> Inr None) (\<lambda>target.
                    case target of
                      None \<Rightarrow> Inl (Fail (UnbackedSupersession g))
                    | Some s \<Rightarrow>
                        if state_level s < inc
                        then Inl (Fail (LaunderedAuthority inc (state_level s)))
                        else Inr ()))
         | _ \<Rightarrow> Inr ()))"

text \<open>\<open>arbitrate\<close> over a store given by its \<open>load_fact_events\<close>.\<close>

definition arbitrate ::
    "(FactId \<Rightarrow> StoreError fault + FactEvent list) \<Rightarrow> FactEvent \<Rightarrow> StoreError fault + unit" where
  "arbitrate load candidate =
     and_then (load (FactEvent.fact_id candidate)) (\<lambda>existing.
       and_then (case FactEvent.kind candidate of
           FactEventKind.Superseded g _ \<Rightarrow> map_ok Some (load g)
         | _ \<Rightarrow> Inr None)
         (\<lambda>replacing. arbitrate_events candidate existing replacing))"

section \<open>What arbitration admits\<close>

text \<open>
  The decision as a predicate on the two streams: the candidate's own stream accepts it, and a
  supersession is backed by a fact that exists and is not below the incumbent.
\<close>

definition firewall_admits :: "FactEvent \<Rightarrow> FactEvent list \<Rightarrow> FactEvent list option \<Rightarrow> bool" where
  "firewall_admits candidate existing replacing \<longleftrightarrow>
     (\<exists>current. replay_fact existing = Inr current \<and>
        (\<exists>t. apply_event current candidate = Inr t) \<and>
        (\<forall>g r. FactEvent.kind candidate = FactEventKind.Superseded g r \<longrightarrow>
           (\<exists>s events b. current = Some s \<and> replacing = Some events \<and> replay_fact events = Inr (Some b) \<and>
              state_level s \<le> state_level b)))"

lemma apply_event_opens: "apply_event None e = Inr t \<Longrightarrow> FactEvent.kind e = Asserted"
  by (auto dest: apply_initial_iff)

lemma arbitrate_events_Inr: "arbitrate_events e ex re = Inr () \<longleftrightarrow> firewall_admits e ex re"
proof (cases "replay_fact ex")
  case (Inr current)
  show ?thesis
  proof (cases "apply_event current e")
    case (Inl err)
    then show ?thesis using Inr by (simp add: arbitrate_events_def firewall_admits_def)
  next
    case ok: (Inr t)
    show ?thesis
    proof (cases "\<exists>g r. FactEvent.kind e = FactEventKind.Superseded g r")
      case False
      then show ?thesis using Inr ok
        by (auto simp: arbitrate_events_def firewall_admits_def split: FactEventKind.split)
    next
      case True
      then obtain g r where k: "FactEvent.kind e = FactEventKind.Superseded g r" by blast
      then obtain s where s: "current = Some s"
        using ok apply_event_opens [of e t] by (cases current) auto
      show ?thesis
      proof (cases re)
        case None
        then show ?thesis using Inr ok k s by (simp add: arbitrate_events_def firewall_admits_def)
      next
        case (Some events)
        show ?thesis
        proof (cases "replay_fact events")
          case (Inl err)
          then show ?thesis using Inr ok k s Some
            by (simp add: arbitrate_events_def firewall_admits_def)
        next
          case target: (Inr target)
          then show ?thesis using Inr ok k s Some
            by (cases target) (auto simp: arbitrate_events_def firewall_admits_def not_less
              simp del: apply_event_Some)
        qed
      qed
    qed
  qed
qed (simp add: arbitrate_events_def firewall_admits_def)

lemma arbitrate_events_no_panic: "arbitrate_events e ex re \<noteq> Inl Panic"
proof
  assume p: "arbitrate_events e ex re = Inl Panic"
  then obtain current t where c: "replay_fact ex = Inr current" and t: "apply_event current e = Inr t"
    and k: "\<exists>g r. FactEvent.kind e = FactEventKind.Superseded g r"
    by (cases "replay_fact ex"; cases "FactEvent.kind e")
      (auto simp: arbitrate_events_def and_then_Inl simp del: apply_event_None apply_event_Some)
  then obtain s where "current = Some s" using apply_event_opens [of e t] by (cases current) auto
  with p c t k show False
    by (auto simp: arbitrate_events_def and_then_Inl split: option.splits if_splits)
qed

section \<open>The contract of a store\<close>

text \<open>The invariant of an arbitrated log.\<close>

definition fact_state :: "FactEvent list \<Rightarrow> FactId \<Rightarrow> FactState option" where
  "fact_state es f = (case replay_fact (stream_of f es) of Inr (Some s) \<Rightarrow> Some s | _ \<Rightarrow> None)"

definition log_inv :: "FactEvent list \<Rightarrow> bool" where
  "log_inv es \<longleftrightarrow> (\<forall>f. \<exists>r. replay_fact (stream_of f es) = Inr r) \<and>
     (\<forall>f s g. fact_state es f = Some s \<longrightarrow> superseded_by s = Some g \<longrightarrow>
        (\<exists>t. fact_state es g = Some t \<and> state_level s \<le> state_level t))"

lemma log_inv_Nil [inv_intro]: "log_inv []"
  by (simp add: log_inv_def stream_of_def fact_state_def)

lemma stream_of_snoc:
  "stream_of f (es @ [e]) = (if f = FactEvent.fact_id e then stream_of f es @ [e] else stream_of f es)"
  by (simp add: stream_of_def)

lemma next_superseded_by:
  "apply_next_event s e = Inr t \<Longrightarrow> superseded_by t =
     (case FactEvent.kind e of FactEventKind.Superseded g _ \<Rightarrow> Some g | _ \<Rightarrow> superseded_by s)"
  by (auto simp: apply_next_Inr apply_kind_def split: FactEventKind.splits if_splits option.splits)

lemma log_inv_snoc [inv_intro]:
  assumes inv: "log_inv es"
    and adm: "firewall_admits e (stream_of (FactEvent.fact_id e) es)
      (case FactEvent.kind e of FactEventKind.Superseded g _ \<Rightarrow> Some (stream_of g es) | _ \<Rightarrow> None)"
  shows "log_inv (es @ [e])"
proof -
  let ?f = "FactEvent.fact_id e"
  obtain current t where c: "replay_fact (stream_of ?f es) = Inr current" and t: "apply_event current e = Inr t"
    and backed: "\<And>g r. FactEvent.kind e = FactEventKind.Superseded g r \<Longrightarrow>
      \<exists>s b. current = Some s \<and> fact_state es g = Some b \<and> state_level s \<le> state_level b"
    using adm by (fastforce simp: firewall_admits_def fact_state_def)
  have new: "replay_fact (stream_of ?f (es @ [e])) = Inr (Some t)"
    using replay_fact_snoc [OF c, of e] t by (simp add: stream_of_snoc)
  have old: "replay_fact (stream_of f (es @ [e])) = replay_fact (stream_of f es)" if "f \<noteq> ?f" for f
    using that by (simp add: stream_of_snoc)
  have state: "fact_state (es @ [e]) f = (if f = ?f then Some t else fact_state es f)" for f
    using new old by (simp add: fact_state_def)
  have cur: "fact_state es ?f = current" using c by (auto simp: fact_state_def split: option.split)
  have level: "state_level t = state_level s" if "current = Some s" for s
    using t that by (auto dest: apply_next_frame)
  have keep: "\<exists>u. fact_state (es @ [e]) g = Some u \<and> l \<le> state_level u"
    if "fact_state es g = Some u" "l \<le> state_level u" for g u l
    using that cur level by (auto simp: state)
  have "\<exists>u. fact_state (es @ [e]) g = Some u \<and> state_level s \<le> state_level u"
    if s: "fact_state (es @ [e]) f = Some s" "superseded_by s = Some g" for f s g
  proof (cases "f = ?f")
    case False
    then have "fact_state es f = Some s" using s(1) by (simp add: state)
    with s(2) inv obtain u where "fact_state es g = Some u" "state_level s \<le> state_level u"
      unfolding log_inv_def by blast
    then show ?thesis by (rule keep)
  next
    case True
    with s state have st: "s = t" by simp
    show ?thesis
    proof (cases current)
      case None
      then show ?thesis using t s(2) st by (auto dest: apply_initial_iff)
    next
      case (Some s0)
      have by_kind: "superseded_by t = (case FactEvent.kind e of
          FactEventKind.Superseded g _ \<Rightarrow> Some g | _ \<Rightarrow> superseded_by s0)"
        using t Some by (auto dest: next_superseded_by)
      show ?thesis
      proof (cases "\<exists>r. FactEvent.kind e = FactEventKind.Superseded g r")
        case True
        then show ?thesis using backed Some keep level st by fastforce
      next
        case False
        then have "superseded_by s0 = Some g"
          using by_kind s(2) st by (auto split: FactEventKind.splits)
        then show ?thesis using inv cur Some keep level st by (fastforce simp: log_inv_def)
      qed
    qed
  qed
  moreover have "\<exists>r. replay_fact (stream_of f (es @ [e])) = Inr r" for f
    using inv new old by (cases "f = ?f") (auto simp: log_inv_def)
  ultimately show ?thesis by (simp add: log_inv_def)
qed

locale event_store =
  fixes load :: "'s \<Rightarrow> FactId \<Rightarrow> StoreError fault + FactEvent list"
    and append :: "'s \<Rightarrow> FactEvent \<Rightarrow> 's \<times> (StoreError fault + 'r)"
    and log_of :: "'s \<Rightarrow> FactEvent list"
    and ok :: "'s \<Rightarrow> bool"
  assumes load_stream: "ok s \<Longrightarrow> load s f = Inr (stream_of f (log_of s))"
    and append_moves: "ok s \<Longrightarrow> append s e = (s', r) \<Longrightarrow>
      ok s' \<and> (log_of s' = log_of s \<or> arbitrate (load s) e = Inr () \<and> log_of s' = log_of s @ [e])"
    and append_reported: "ok s \<Longrightarrow> append s e = (s', Inr x) \<Longrightarrow> log_of s' = log_of s @ [e]"
begin

lemma append_extends: "ok s \<Longrightarrow> append s e = (s', Inr x) \<Longrightarrow> ok s' \<and> log_of s' = log_of s @ [e]"
  using append_moves append_reported by blast

lemma append_arbitrated: "ok s \<Longrightarrow> append s e = (s', Inr x) \<Longrightarrow> arbitrate (load s) e = Inr ()"
  using append_moves append_reported by (metis append_self_conv list.distinct(1))

lemma arbitrate_load:
  "ok s \<Longrightarrow> arbitrate (load s) e = arbitrate_events e (stream_of (FactEvent.fact_id e) (log_of s))
     (case FactEvent.kind e of FactEventKind.Superseded g _ \<Rightarrow> Some (stream_of g (log_of s)) | _ \<Rightarrow> None)"
  by (simp add: arbitrate_def load_stream split: FactEventKind.split)

lemma append_keeps_log_inv:
  assumes "ok s" and "log_inv (log_of s)" and "append s e = (s', r)"
  shows "ok s' \<and> log_inv (log_of s')"
proof -
  from append_moves [OF assms(1,3)] consider "ok s'" "log_of s' = log_of s"
    | "ok s'" "arbitrate (load s) e = Inr ()" "log_of s' = log_of s @ [e]" by blast
  then show ?thesis
  proof cases
    case 2
    then have "firewall_admits e (stream_of (FactEvent.fact_id e) (log_of s))
        (case FactEvent.kind e of FactEventKind.Superseded g _ \<Rightarrow> Some (stream_of g (log_of s)) | _ \<Rightarrow> None)"
      by (simp add: arbitrate_load [OF assms(1)] arbitrate_events_Inr)
    with 2 log_inv_snoc [OF assms(2)] show ?thesis by simp
  qed (use assms in simp)
qed

text \<open>A session: a list of appends, each admitted or refused.\<close>

abbreviation session :: "'s \<Rightarrow> FactEvent list \<Rightarrow> 's" where
  "session s es \<equiv> foldl (\<lambda>s e. fst (append s e)) s es"

lemma session_keeps:
  "ok s \<Longrightarrow> log_inv (log_of s) \<Longrightarrow> ok (session s es) \<and> log_inv (log_of (session s es))"
proof (induction es arbitrary: s)
  case (Cons e es)
  obtain s' r where a: "append s e = (s', r)" by force
  have "ok s'" "log_inv (log_of s')" using append_keeps_log_inv [OF Cons.prems a] by blast+
  from Cons.IH [OF this] a show ?case by simp
qed simp

lemma session_appends: "ok s \<Longrightarrow> \<exists>fs. log_of (session s es) = log_of s @ fs \<and> set fs \<subseteq> set es"
proof (induction es arbitrary: s)
  case (Cons e es)
  obtain s' r where a: "append s e = (s', r)" by force
  from append_moves [OF Cons.prems a] have "ok s'" "\<exists>gs. log_of s' = log_of s @ gs \<and> set gs \<subseteq> {e}" by force+
  with Cons.IH [of s'] a show ?case by fastforce
qed simp

end

section \<open>Properties\<close>

text \<open>
  The firewall decision, exactly. It never panics, and it admits a candidate if and only if
  the candidate's own stream replays and accepts it and, for a supersession, the replacing fact's
  stream replays to a fact whose actual authority is not below the incumbent's; the authority the
  supersession event claims for itself does not matter beyond the per-fact gate.
\<close>

theorem firewall_decision:
  "arbitrate_events e existing replacing \<noteq> Inl Panic \<and>
   (arbitrate_events e existing replacing = Inr () \<longleftrightarrow>
     (\<exists>current. replay_fact existing = Inr current \<and> (\<exists>t. apply_event current e = Inr t) \<and>
        (\<forall>g r. FactEvent.kind e = FactEventKind.Superseded g r \<longrightarrow>
           (\<exists>s events b. current = Some s \<and> replacing = Some events \<and>
              replay_fact events = Inr (Some b) \<and> state_level s \<le> state_level b))))"
  using arbitrate_events_Inr [of e existing replacing] arbitrate_events_no_panic [of e existing replacing]
  unfolding firewall_admits_def by (rule conjI [rotated])

text \<open>
  Authority laundering is refused by name. When the event's own stated authority passes the
  per-fact gate, a supersession by a weaker fact is rejected with both real levels, and one by a
  fact without events is rejected as unbacked.
\<close>

theorem laundering_refused:
  assumes "FactEvent.kind e = FactEventKind.Superseded g r"
    and "replay_fact existing = Inr (Some s)" and "apply_event (Some s) e = Inr t"
  shows "(\<forall>events b. replay_fact events = Inr (Some b) \<and> state_level b < state_level s \<longrightarrow>
      arbitrate_events e existing (Some events) =
        Inl (Fail (LaunderedAuthority (state_level s) (state_level b)))) \<and>
    arbitrate_events e existing (Some []) = Inl (Fail (UnbackedSupersession g))"
  using assms by (auto simp: arbitrate_events_def simp del: apply_event_Some)

definition self_supersession :: FactEvent where
  "self_supersession =
     sample_mark ''event:2'' ''fact:1'' (FactEventKind.Superseded (FactId ''fact:1'') UserCorrection) Low"

text \<open>
  What the firewall does not rule out, although its description asks for a fact that
  out-ranks the incumbent: a fact may supersede itself. The event is admitted, and the resulting
  log has a supersession cycle and no believed fact.
\<close>

theorem firewall_admits_self_supersession:
  "arbitrate_events self_supersession [sample_assert ''event:1'' ''fact:1'' Low]
     (Some [sample_assert ''event:1'' ''fact:1'' Low]) = Inr () \<and>
   (\<exists>pr. replay_subject [sample_assert ''event:1'' ''fact:1'' Low, self_supersession] = Inr pr \<and>
     believed pr = [] \<and> lineage_issues pr = [SupersessionCycle (FactId ''fact:1'')])"
proof
  show "arbitrate_events self_supersession [sample_assert ''event:1'' ''fact:1'' Low]
     (Some [sample_assert ''event:1'' ''fact:1'' Low]) = Inr ()"
    by (simp add: arbitrate_events_def replay_fact_eq self_supersession_def sample_defs transition_eval
        Let_def)
  obtain pr s where pr: "replay_subject [sample_assert ''event:1'' ''fact:1'' Low, self_supersession] = Inr pr"
    and facts: "facts pr = [(FactId ''fact:1'', s)]" and s: "fact_id s = FactId ''fact:1''"
    "lifecycle s = FactLifecycle.Superseded" "superseded_by s = Some (FactId ''fact:1'')"
    by (simp add: self_supersession_def replay_eval)
  have "(FactId ''fact:1'', FactId ''fact:1'') \<in> supersession_edges (facts pr)"
    by (simp add: supersession_edges_def facts s)
  then have "FactId ''fact:1'' \<in> supersession_cycle_members pr"
    by (auto simp: supersession_cycle_members_eq on_cycle_def)
  then have "lineage_issues pr = [SupersessionCycle (FactId ''fact:1'')]" "believed pr = []"
    by (simp_all add: lineage_issues_def facts btm_values_def List.map_filter_def lineage_issue_def
        s believed_def)
  with pr show "\<exists>pr. replay_subject [sample_assert ''event:1'' ''fact:1'' Low, self_supersession] = Inr pr \<and>
     believed pr = [] \<and> lineage_issues pr = [SupersessionCycle (FactId ''fact:1'')]" by blast
qed

section \<open>Witnesses\<close>

lemma sample_assert_replay: "replay_fact [sample_assert ''event:1'' ''fact:1'' l] = Inr (Some (sample_open l))"
  by (simp add: replay_fact_eq sample_open_eq del: apply_event_None)

lemma sample_assert_level: "\<exists>b. replay_fact [sample_assert eid fid l] = Inr (Some b) \<and> state_level b = l"
  by (simp add: replay_fact_eq sample_defs transition_eval)

lemma sample_supersede_ok: "l \<le> k \<Longrightarrow> \<exists>t. apply_event (Some (sample_open l)) (sample_supersede k) = Inr t"
  by (simp add: sample_state_defs transition_eval)

theorem firewall_decision_witness:
  "arbitrate_events (sample_supersede High) [sample_assert ''event:1'' ''fact:1'' High]
     (Some [sample_assert ''event:3'' ''fact:2'' Canonical]) = Inr ()"
proof -
  obtain t where t: "apply_event (Some (sample_open High)) (sample_supersede High) = Inr t"
    using sample_supersede_ok by blast
  obtain b where "replay_fact [sample_assert ''event:3'' ''fact:2'' Canonical] = Inr (Some b)"
    "state_level b = Canonical" using sample_assert_level by blast
  then show ?thesis
    using firewall_decision [of "sample_supersede High" "[sample_assert ''event:1'' ''fact:1'' High]"
        "Some [sample_assert ''event:3'' ''fact:2'' Canonical]"] t sample_assert_replay
    using le_Canonical(1) by metis
qed

theorem laundering_refused_witness:
  "arbitrate_events (sample_supersede High) [sample_assert ''event:1'' ''fact:1'' High]
     (Some [sample_assert ''event:3'' ''fact:2'' Low]) = Inl (Fail (LaunderedAuthority High Low))"
proof -
  obtain t where t: "apply_event (Some (sample_open High)) (sample_supersede High) = Inr t"
    using sample_supersede_ok by blast
  have k: "FactEvent.kind (sample_supersede High) = FactEventKind.Superseded (FactId ''fact:2'') UserCorrection"
    by (simp add: sample_state_defs)
  obtain b where b: "replay_fact [sample_assert ''event:3'' ''fact:2'' Low] = Inr (Some b)"
    "state_level b = Low" using sample_assert_level by blast
  have lv: "state_level (sample_open High) = High" by (simp add: sample_open_def)
  show ?thesis
    using laundering_refused [OF k sample_assert_replay t, THEN conjunct1, rule_format, of _ b] b lv
    by (simp add: level_order)
qed

end
