(* ===== verification/Hash_Chain.thy ===== *)
theory Hash_Chain
  imports State
begin

text \<open>
  \<open>crates/dent8-core/src/hash.rs\<close>: the canonical encoding of an event, the length-framed leaf
  hash and the chain. The crates the code calls are parameters, collected in a record:
  \<open>serde_json\<close>'s two steps (\<open>to_value\<close>, whose object keys come out sorted, and
  \<open>to_vec\<close>), \<open>sha2\<close>'s SHA-256 and the crate \<open>hex\<close>. What the code relies on is
  \<open>externs_ok\<close>: a digest has 32 bytes and decoding undoes encoding. Nothing is assumed about
  collisions: the theorems produce one from the two inputs.
\<close>

section \<open>Bytes\<close>

definition as_bytes :: "string \<Rightarrow> u8 list" where
  "as_bytes s = map (\<lambda>c. word_of_nat (byte_of c)) s"

text \<open>\<open>u64::to_be_bytes\<close>\<close>

definition to_be_bytes :: "u64 \<Rightarrow> u8 list" where
  "to_be_bytes w =
     [ucast (drop_bit 56 w), ucast (drop_bit 48 w), ucast (drop_bit 40 w), ucast (drop_bit 32 w),
      ucast (drop_bit 24 w), ucast (drop_bit 16 w), ucast (drop_bit 8 w), ucast w]"

lemma byte_of_lt: "byte_of c < 256"
  by (simp add: byte_of_def)

lemma as_bytes_inj: "as_bytes s = as_bytes t \<longleftrightarrow> s = t"
proof
  assume eq: "as_bytes s = as_bytes t"
  have "inj (\<lambda>c. word_of_nat (byte_of c) :: u8)"
  proof (rule injI)
    fix c d
    assume "(word_of_nat (byte_of c) :: u8) = word_of_nat (byte_of d)"
    then have "unat (word_of_nat (byte_of c) :: u8) = unat (word_of_nat (byte_of d) :: u8)" by simp
    then have "byte_of c = byte_of d"
      using byte_of_lt [of c] byte_of_lt [of d] by (simp add: unat_of_nat)
    then show "c = d" by (simp add: byte_of_def)
  qed
  then show "s = t" using eq by (auto simp: as_bytes_def dest: map_injective)
qed simp

lemma as_bytes_length [simp]: "length (as_bytes s) = length s"
  by (simp add: as_bytes_def)

lemma to_be_bytes_length [simp]: "length (to_be_bytes w) = 8"
  by (simp add: to_be_bytes_def)

lemma ucast_byte_bit:
  "(ucast (drop_bit k v) :: u8) = ucast (drop_bit k (w :: u64)) \<Longrightarrow> r < 8 \<Longrightarrow>
     bit v (k + r) = bit w (k + r)"
  by (drule arg_cong [where f = "\<lambda>b. bit b r"]) (simp add: bit_ucast_iff bit_drop_bit_eq)

lemma to_be_bytes_inj: "to_be_bytes v = to_be_bytes w \<Longrightarrow> v = w"
proof (rule bit_word_eqI)
  fix n
  assume eq: "to_be_bytes v = to_be_bytes w" and n: "n < LENGTH(64)"
  define k r where "k = 8 * (n div 8)" and "r = n mod 8"
  then have n': "n = k + r" "r < 8" by simp_all
  have "n div 8 < 8" using n by simp
  then have "n div 8 = 0 \<or> n div 8 = 1 \<or> n div 8 = 2 \<or> n div 8 = 3 \<or>
      n div 8 = 4 \<or> n div 8 = 5 \<or> n div 8 = 6 \<or> n div 8 = 7"
    by arith
  then have "(ucast (drop_bit k v) :: u8) = ucast (drop_bit k w)"
    unfolding k_def by (elim disjE) (use eq in \<open>simp_all add: to_be_bytes_def\<close>)
  then show "bit v n = bit w n"
    unfolding n'(1) by (rule ucast_byte_bit) (rule n'(2))
qed

section \<open>The parameters\<close>

record 'j Externs =
  to_value :: "FactEvent \<Rightarrow> string + 'j"
  to_vec :: "'j \<Rightarrow> string + u8 list"
  sha256 :: "u8 list \<Rightarrow> u8 list"
  hex_encode :: "u8 list \<Rightarrow> string"
  hex_decode :: "string \<Rightarrow> u8 list option"

definition externs_ok :: "'j Externs \<Rightarrow> bool" where
  "externs_ok X \<longleftrightarrow> (\<forall>bs. length (sha256 X bs) = 32) \<and>
     (\<forall>bs. hex_decode X (hex_encode X bs) = Some bs)"

section \<open>Canonical bytes and leaf hashes\<close>

definition CANON_VERSION :: u8 where "CANON_VERSION = 2"
definition LEAF_PREFIX :: u8 where "LEAF_PREFIX = 0"
definition DIGEST_LEN :: usize where "DIGEST_LEN = 32"

datatype CanonError = Serialize string | InvalidPreviousHash string

definition show_CanonError :: "CanonError \<Rightarrow> string" where
  "show_CanonError err = (case err of
      Serialize e \<Rightarrow> ''canonicalization failed: '' @ e
    | InvalidPreviousHash v \<Rightarrow> ''previous hash is not a 64-char hex digest: '' @ show_debug v)"

definition canonical_bytes :: "'j Externs \<Rightarrow> FactEvent \<Rightarrow> CanonError + u8 list" where
  "canonical_bytes X e =
     and_then (map_err Serialize (to_value X e)) (\<lambda>v. map_err Serialize (to_vec X v))"

definition ATTESTATION_DOMAIN :: "u8 list" where
  "ATTESTATION_DOMAIN = as_bytes ''dent8.event-attestation.v1'' @ [0]"

definition strip_attestation :: "FactEvent \<Rightarrow> FactEvent" where
  "strip_attestation e = e\<lparr>provenance := (provenance e)\<lparr>attestation := None\<rparr>\<rparr>"

definition attestation_message :: "'j Externs \<Rightarrow> FactEvent \<Rightarrow> CanonError + u8 list" where
  "attestation_message X e =
     and_then (canonical_bytes X (strip_attestation e))
       (\<lambda>body. Inr (ATTESTATION_DOMAIN @ to_be_bytes (of_nat (length body)) @ body))"

definition decode_digest :: "'j Externs \<Rightarrow> string \<Rightarrow> CanonError + u8 list" where
  "decode_digest X s = (case hex_decode X s of
      Some bs \<Rightarrow> if length bs = DIGEST_LEN then Inr bs else Inl (InvalidPreviousHash s)
    | None \<Rightarrow> Inl (InvalidPreviousHash s))"

text \<open>The bytes fed to the hasher by \<open>hash_leaf\<close>, in the order of its \<open>update\<close> calls.\<close>

definition leaf_input :: "u8 list \<Rightarrow> u8 list option \<Rightarrow> u8 list" where
  "leaf_input canonical previous =
     [LEAF_PREFIX, CANON_VERSION] @ to_be_bytes (of_nat (length canonical)) @ canonical @
     (case previous of None \<Rightarrow> [0] | Some p \<Rightarrow> 1 # p)"

definition hash_leaf :: "'j Externs \<Rightarrow> u8 list \<Rightarrow> u8 list option \<Rightarrow> string" where
  "hash_leaf X canonical previous = hex_encode X (sha256 X (leaf_input canonical previous))"

definition event_hash :: "'j Externs \<Rightarrow> FactEvent \<Rightarrow> string option \<Rightarrow> CanonError + string" where
  "event_hash X e previous =
     and_then (canonical_bytes X e) (\<lambda>canonical.
       and_then (case previous of None \<Rightarrow> Inr None | Some h \<Rightarrow> map_ok Some (decode_digest X h))
         (\<lambda>p. Inr (hash_leaf X canonical p)))"

fun hash_chain_from :: "'j Externs \<Rightarrow> string option \<Rightarrow> FactEvent list \<Rightarrow> CanonError + string list" where
  "hash_chain_from X previous [] = Inr []"
| "hash_chain_from X previous (e # es) =
     and_then (event_hash X e previous)
       (\<lambda>h. map_ok (\<lambda>hs. h # hs) (hash_chain_from X (Some h) es))"

definition hash_chain :: "'j Externs \<Rightarrow> FactEvent list \<Rightarrow> CanonError + string list" where
  "hash_chain X es = hash_chain_from X None es"

section \<open>Framing\<close>

lemma of_nat_u64_inj: "(of_nat m :: u64) = of_nat n \<Longrightarrow> m < 2 ^ 64 \<Longrightarrow> n < 2 ^ 64 \<Longrightarrow> m = n"
  by (drule arg_cong [where f = unat]) (simp add: unat_of_nat)

lemma framed_inj:
  assumes "to_be_bytes (of_nat (length c)) @ c @ s = to_be_bytes (of_nat (length d)) @ d @ t"
    and "length c < 2 ^ 64" and "length d < 2 ^ 64"
  shows "c = d \<and> s = t"
proof -
  have "(of_nat (length c) :: u64) = of_nat (length d)"
    using assms(1) by (intro to_be_bytes_inj) (metis append_eq_append_conv to_be_bytes_length)
  then have "length c = length d" using assms(2,3) by (rule of_nat_u64_inj)
  with assms(1) show ?thesis by simp
qed

lemma leaf_input_inj:
  assumes "leaf_input c p = leaf_input d q" and "length c < 2 ^ 64" and "length d < 2 ^ 64"
  shows "c = d \<and> p = q"
proof -
  from assms(1) have "c = d \<and>
      (case p of None \<Rightarrow> [0] | Some p \<Rightarrow> 1 # p) = (case q of None \<Rightarrow> [0] | Some p \<Rightarrow> 1 # p)"
    by (intro framed_inj [OF _ assms(2,3)]) (simp add: leaf_input_def)
  then show ?thesis by (auto split: option.splits)
qed

section \<open>The chain over canonical bytes\<close>

text \<open>What is hashed along a chain: each leaf input carries the digest of the one before.\<close>

fun leaf_inputs :: "(u8 list \<Rightarrow> u8 list) \<Rightarrow> u8 list option \<Rightarrow> u8 list list \<Rightarrow> u8 list list" where
  "leaf_inputs h p [] = []"
| "leaf_inputs h p (c # cs) = leaf_input c p # leaf_inputs h (Some (h (leaf_input c p))) cs"

lemma leaf_inputs_length [simp]: "length (leaf_inputs h p cs) = length cs"
  by (induction cs arbitrary: p) auto

lemma leaf_inputs_Nil [simp]: "leaf_inputs h p cs = [] \<longleftrightarrow> cs = []"
  by (cases cs) auto

lemma leaf_inputs_snoc:
  "leaf_inputs h p (cs @ [c]) = leaf_inputs h p cs @
     [leaf_input c (if cs = [] then p else Some (h (last (leaf_inputs h p cs))))]"
  by (induction cs arbitrary: p) auto

lemma leaf_inputs_take: "take n (leaf_inputs h p cs) = leaf_inputs h p (take n cs)"
proof (induction cs arbitrary: n p)
  case (Cons c cs)
  then show ?case by (cases n) auto
qed simp

lemma decode_digest_sha:
  "externs_ok X \<Longrightarrow> decode_digest X (hex_encode X (sha256 X bs)) = Inr (sha256 X bs)"
  by (simp add: decode_digest_def externs_ok_def DIGEST_LEN_def)

lemma hash_chain_from_eq:
  assumes "externs_ok X"
    and "(case previous of None \<Rightarrow> Inr None | Some s \<Rightarrow> map_ok Some (decode_digest X s)) = Inr p"
  shows "hash_chain_from X previous es =
    map_ok (\<lambda>cs. map (\<lambda>i. hex_encode X (sha256 X i)) (leaf_inputs (sha256 X) p cs))
      (try_map (canonical_bytes X) es)"
  using assms(2)
proof (induction es arbitrary: previous p)
  case (Cons e es)
  show ?case
  proof (cases "canonical_bytes X e")
    case (Inr c)
    have "event_hash X e previous = Inr (hash_leaf X c p)"
      using Cons.prems Inr by (simp add: event_hash_def)
    moreover have "hash_chain_from X (Some (hash_leaf X c p)) es =
        map_ok (\<lambda>cs. map (\<lambda>i. hex_encode X (sha256 X i))
            (leaf_inputs (sha256 X) (Some (sha256 X (leaf_input c p))) cs))
          (try_map (canonical_bytes X) es)"
      by (rule Cons.IH) (simp add: hash_leaf_def decode_digest_sha [OF assms(1)])
    ultimately show ?thesis
      using Inr by (cases "try_map (canonical_bytes X) es") (simp_all add: hash_leaf_def)
  qed (simp add: event_hash_def)
qed simp

lemma hash_chain_eq:
  "externs_ok X \<Longrightarrow> hash_chain X es =
    map_ok (\<lambda>cs. map (\<lambda>i. hex_encode X (sha256 X i)) (leaf_inputs (sha256 X) None cs))
      (try_map (canonical_bytes X) es)"
  unfolding hash_chain_def by (rule hash_chain_from_eq) auto

lemma hash_chain_Inr:
  "externs_ok X \<Longrightarrow> hash_chain X es = Inr hs \<longleftrightarrow> (\<exists>cs. try_map (canonical_bytes X) es = Inr cs \<and>
     hs = map (\<lambda>i. hex_encode X (sha256 X i)) (leaf_inputs (sha256 X) None cs))"
  by (auto simp: hash_chain_eq)

lemma hash_chain_length: "externs_ok X \<Longrightarrow> hash_chain X es = Inr hs \<Longrightarrow> length hs = length es"
  by (auto simp: hash_chain_Inr dest: try_map_length)

lemma hex_encode_inj: "externs_ok X \<Longrightarrow> hex_encode X a = hex_encode X b \<longleftrightarrow> a = b"
  by (metis externs_ok_def option.inject)

text \<open>
  Two different inputs with one digest, both among the given ones. A chain's head commits to
  its whole content up to such a pair.
\<close>

definition collision_among :: "(u8 list \<Rightarrow> u8 list) \<Rightarrow> u8 list set \<Rightarrow> u8 list set \<Rightarrow> bool" where
  "collision_among h xs ys \<longleftrightarrow> (\<exists>x \<in> xs. \<exists>y \<in> ys. x \<noteq> y \<and> h x = h y)"

lemma collision_among_mono:
  "collision_among h xs ys \<Longrightarrow> xs \<subseteq> xs' \<Longrightarrow> ys \<subseteq> ys' \<Longrightarrow> collision_among h xs' ys'"
  by (auto simp: collision_among_def)

lemma collision_among_insert:
  "collision_among h xs ys \<Longrightarrow> collision_among h (insert a xs) (insert b ys)"
  by (auto simp: collision_among_def)

lemma leaf_inputs_commit:
  assumes "cs \<noteq> []" and "ds \<noteq> []"
    and "h (last (leaf_inputs h None cs)) = h (last (leaf_inputs h None ds))"
    and "\<forall>c \<in> set cs \<union> set ds. length c < 2 ^ 64"
  shows "cs = ds \<or>
    collision_among h (set (leaf_inputs h None cs)) (set (leaf_inputs h None ds))"
  using assms
proof (induction cs arbitrary: ds rule: rev_induct)
  case (snoc c cs)
  obtain ds' d where ds: "ds = ds' @ [d]" using snoc.prems(2) by (cases ds rule: rev_cases) auto
  define q where "q as = (if as = [] then None else Some (h (last (leaf_inputs h None as))))" for as
  have eqs: "leaf_inputs h None (cs @ [c]) = leaf_inputs h None cs @ [leaf_input c (q cs)]"
    "leaf_inputs h None ds = leaf_inputs h None ds' @ [leaf_input d (q ds')]"
    by (simp_all add: ds leaf_inputs_snoc q_def)
  show ?case
  proof (cases "leaf_input c (q cs) = leaf_input d (q ds')")
    case False
    then show ?thesis using snoc.prems(3) unfolding eqs by (auto simp: collision_among_def)
  next
    case True
    have cd: "c = d \<and> q cs = q ds'"
      by (rule leaf_input_inj [OF True]) (use snoc.prems(4) ds in auto)
    show ?thesis
    proof (cases "cs = []")
      case True
      then show ?thesis using cd by (auto simp: q_def ds split: if_splits)
    next
      case False
      with cd have ne: "ds' \<noteq> []" and e: "h (last (leaf_inputs h None cs)) = h (last (leaf_inputs h None ds'))"
        by (auto simp: q_def split: if_splits)
      have "cs = ds' \<or> collision_among h (set (leaf_inputs h None cs)) (set (leaf_inputs h None ds'))"
        by (rule snoc.IH [OF False ne e]) (use snoc.prems(4) ds in auto)
      then show ?thesis
        unfolding eqs using cd ds by (auto intro: collision_among_insert)
    qed
  qed
qed simp

text \<open>
  A vector in memory is shorter than \<open>2 ^ 64\<close> bytes, so \<open>len() as u64\<close> is exact.
\<close>

definition canon_bounded :: "'j Externs \<Rightarrow> bool" where
  "canon_bounded X \<longleftrightarrow> (\<forall>e b. canonical_bytes X e = Inr b \<longrightarrow> length b < 2 ^ 64)"

definition chain_inputs :: "'j Externs \<Rightarrow> FactEvent list \<Rightarrow> u8 list list" where
  "chain_inputs X es = (case try_map (canonical_bytes X) es of
      Inl _ \<Rightarrow> [] | Inr cs \<Rightarrow> leaf_inputs (sha256 X) None cs)"

lemma try_map_map: "try_map f xs = Inr ys \<Longrightarrow> map f xs = map Inr ys"
  by (induction xs arbitrary: ys) auto

lemma try_map_take: "try_map f xs = Inr ys \<Longrightarrow> try_map f (take n xs) = Inr (take n ys)"
proof (induction xs arbitrary: ys n)
  case (Cons x xs)
  then show ?case by (cases n) auto
qed simp

lemma try_map_bound: "canon_bounded X \<Longrightarrow> try_map (canonical_bytes X) es = Inr cs \<Longrightarrow>
    c \<in> set cs \<Longrightarrow> length c < 2 ^ 64"
proof (induction es arbitrary: cs)
  case (Cons e es)
  then show ?case unfolding canon_bounded_def by auto
qed simp

lemma prefix_commit:
  assumes "externs_ok X" and "canon_bounded X"
    and "hash_chain X es = Inr hs" and "hash_chain X fs = Inr ks"
    and "j < length es" and "k < length fs" and "hs ! j = ks ! k"
  shows "map (canonical_bytes X) (take (Suc j) es) = map (canonical_bytes X) (take (Suc k) fs) \<or>
    collision_among (sha256 X) (set (chain_inputs X es)) (set (chain_inputs X fs))"
proof -
  let ?h = "sha256 X"
  obtain cs where cs: "try_map (canonical_bytes X) es = Inr cs" "length cs = length es"
    and hs: "hs = map (\<lambda>i. hex_encode X (?h i)) (leaf_inputs ?h None cs)"
    using assms(3) hash_chain_Inr [OF assms(1)] by (auto dest: try_map_length)
  obtain ds where ds: "try_map (canonical_bytes X) fs = Inr ds" "length ds = length fs"
    and ks: "ks = map (\<lambda>i. hex_encode X (?h i)) (leaf_inputs ?h None ds)"
    using assms(4) hash_chain_Inr [OF assms(1)] by (auto dest: try_map_length)
  have last: "last (leaf_inputs ?h None (take (Suc n) as)) = leaf_inputs ?h None as ! n"
    if "n < length as" for n as
    unfolding leaf_inputs_take [symmetric] using that by (simp add: take_Suc_conv_app_nth)
  have "?h (leaf_inputs ?h None cs ! j) = ?h (leaf_inputs ?h None ds ! k)"
    using assms(5-7) cs(2) ds(2) hs ks by (simp add: hex_encode_inj [OF assms(1)])
  then have "take (Suc j) cs = take (Suc k) ds \<or>
      collision_among ?h (set (leaf_inputs ?h None (take (Suc j) cs)))
        (set (leaf_inputs ?h None (take (Suc k) ds)))"
    using assms(5,6) cs(2) ds(2) try_map_bound [OF assms(2)] cs(1) ds(1)
    by (intro leaf_inputs_commit) (auto simp: last dest: in_set_takeD)
  then show ?thesis
  proof
    assume "take (Suc j) cs = take (Suc k) ds"
    then show ?thesis
      using try_map_map [OF try_map_take [OF cs(1)]] try_map_map [OF try_map_take [OF ds(1)]] by simp
  next
    assume "collision_among ?h (set (leaf_inputs ?h None (take (Suc j) cs)))
        (set (leaf_inputs ?h None (take (Suc k) ds)))"
    then show ?thesis
      unfolding leaf_inputs_take [symmetric] chain_inputs_def cs(1) ds(1)
      by (simp, blast intro: collision_among_mono [OF _ set_take_subset set_take_subset])
  qed
qed

section \<open>Properties\<close>

text \<open>
  C19: Tamper evidence. If a hash at position \<open>j\<close> of one log's chain equals a hash at position
  \<open>k\<close> of another's, then both logs have the same canonical bytes up to there (so \<open>j = k\<close> and no
  earlier event was altered, dropped, inserted or reordered), or the two chains themselves
  contain two different inputs with the same SHA-256 digest.
\<close>

theorem hash_commits_to_prefix:
  assumes "externs_ok X" and "canon_bounded X"
    and "hash_chain X es = Inr hs" and "hash_chain X fs = Inr ks"
    and "j < length es" and "k < length fs" and "hs ! j = ks ! k"
  shows "map (canonical_bytes X) (take (Suc j) es) = map (canonical_bytes X) (take (Suc k) fs) \<or>
    collision_among (sha256 X) (set (chain_inputs X es)) (set (chain_inputs X fs))"
  using assms by (rule prefix_commit)

text \<open>
  The chain is append-only and fails only where serialization does: it exists exactly when
  every event serializes, has one hash per event, and appending events leaves the hashes of the
  events before them unchanged.
\<close>

theorem hash_chain_append_only:
  assumes "externs_ok X"
  shows "(is_ok (hash_chain X es) \<longleftrightarrow> (\<forall>e \<in> set es. is_ok (canonical_bytes X e))) \<and>
    (\<forall>hs. hash_chain X (es @ fs) = Inr hs \<longrightarrow>
      length hs = length es + length fs \<and> hash_chain X es = Inr (take (length es) hs))"
proof -
  have "is_ok (map_ok f r) = is_ok r" for f :: "u8 list list \<Rightarrow> string list" and r :: "CanonError + u8 list list"
    by (cases r) auto
  moreover have "is_ok (try_map (canonical_bytes X) es) \<longleftrightarrow> (\<forall>e \<in> set es. is_ok (canonical_bytes X e))"
    by (induction es) (auto simp: is_ok_iff)
  moreover have "hash_chain X es = Inr (take (length es) hs)" if hs: "hash_chain X (es @ fs) = Inr hs" for hs
  proof -
    obtain cs where "try_map (canonical_bytes X) (es @ fs) = Inr cs"
      "hs = map (\<lambda>i. hex_encode X (sha256 X i)) (leaf_inputs (sha256 X) None cs)"
      using hs hash_chain_Inr [OF assms] by blast
    then show ?thesis
      using try_map_take [of "canonical_bytes X" "es @ fs" cs "length es"]
      by (auto simp: hash_chain_Inr [OF assms] take_map leaf_inputs_take)
  qed
  ultimately show ?thesis
    using hash_chain_length [OF assms] by (auto simp: hash_chain_eq [OF assms])
qed

text \<open>
  A write attestation signs everything of the event but itself: an event has the same signed
  message as another exactly when they agree, attestation stripped, in canonical bytes; in
  particular attaching or replacing the attestation leaves the message.
\<close>

theorem attestation_message_covers:
  assumes "canon_bounded X" and "attestation_message X e = Inr m"
  shows "(attestation_message X f = Inr m \<longleftrightarrow>
      canonical_bytes X (strip_attestation f) = canonical_bytes X (strip_attestation e)) \<and>
    attestation_message X (e\<lparr>provenance := (provenance e)\<lparr>attestation := a\<rparr>\<rparr>) = Inr m"
proof -
  obtain b where b: "canonical_bytes X (strip_attestation e) = Inr b"
    and m: "m = ATTESTATION_DOMAIN @ to_be_bytes (of_nat (length b)) @ b"
    using assms(2) by (auto simp: attestation_message_def)
  have "canonical_bytes X (strip_attestation f) = Inr b" if f: "attestation_message X f = Inr m"
  proof -
    obtain c where c: "canonical_bytes X (strip_attestation f) = Inr c"
      and "to_be_bytes (of_nat (length c)) @ c @ [] = to_be_bytes (of_nat (length b)) @ b @ []"
      using f m by (auto simp: attestation_message_def)
    then have "c = b"
      using framed_inj [of c "[]" b "[]"] assms(1) b unfolding canon_bounded_def by blast
    with c show ?thesis by simp
  qed
  moreover have "attestation_message X f = Inr m"
    if "canonical_bytes X (strip_attestation f) = Inr b"
    using that m by (simp add: attestation_message_def)
  ultimately show ?thesis
    using b m by (auto simp: attestation_message_def strip_attestation_def)
qed

section \<open>Witnesses\<close>

text \<open>
  A concrete instance of the parameters: an event is written as its identifier, the digest is
  the input padded or cut to 32 bytes, and the hex coding is the real one.
\<close>

definition hex_bytes :: "u8 list \<Rightarrow> string" where
  "hex_bytes bs = concat (map (\<lambda>b. [hex_digit (unat b div 16), hex_digit (unat b mod 16)]) bs)"

definition hex_val :: "char \<Rightarrow> nat option" where
  "hex_val c = (let n = byte_of c in
     if 48 \<le> n \<and> n \<le> 57 then Some (n - 48) else if 97 \<le> n \<and> n \<le> 102 then Some (n - 87)
     else if 65 \<le> n \<and> n \<le> 70 then Some (n - 55) else None)"

fun unhex :: "string \<Rightarrow> u8 list option" where
  "unhex [] = Some []"
| "unhex [c] = None"
| "unhex (c # d # cs) = (case (hex_val c, hex_val d, unhex cs) of
      (Some a, Some b, Some bs) \<Rightarrow> Some (word_of_nat (16 * a + b) # bs)
    | _ \<Rightarrow> None)"

lemma hex_val_digit: "n < 16 \<Longrightarrow> hex_val (hex_digit n) = Some n"
  by (auto simp: hex_val_def hex_digit_def byte_of_def of_char_of)

lemma unhex_hex_bytes: "unhex (hex_bytes bs) = Some bs"
proof (induction bs)
  case (Cons b bs)
  have "unat b div 16 < 16" using unsigned_less [of b, where 'a = nat] by simp
  then show ?case using Cons.IH by (simp add: hex_bytes_def hex_val_digit)
qed (simp add: hex_bytes_def)

definition pad_digest :: "u8 list \<Rightarrow> u8 list" where
  "pad_digest bs = take 32 (drop 10 bs @ replicate 32 0)"

definition sample_externs :: "string Externs" where
  "sample_externs = \<lparr>to_value = \<lambda>e. Inr (event_str (event_id e)), to_vec = \<lambda>s. Inr (as_bytes (take 64 s)),
     sha256 = pad_digest, hex_encode = hex_bytes, hex_decode = unhex\<rparr>"

lemma sample_externs_ok: "externs_ok sample_externs" "canon_bounded sample_externs"
  by (auto simp: externs_ok_def sample_externs_def unhex_hex_bytes pad_digest_def canon_bounded_def
      canonical_bytes_def)

lemma sample_canonical: "canonical_bytes sample_externs e = Inr (as_bytes (take 64 (event_str (event_id e))))"
  by (simp add: canonical_bytes_def sample_externs_def)

theorem hash_commits_to_prefix_witness:
  "\<exists>hs. hash_chain sample_externs [sample_assert ''a'' ''f'' Low, sample_assert ''b'' ''g'' Low] = Inr hs \<and>
     (map (canonical_bytes sample_externs) [sample_assert ''a'' ''f'' Low] =
        map (canonical_bytes sample_externs) [sample_assert ''a'' ''f'' High] \<or>
      collision_among (sha256 sample_externs)
        (set (chain_inputs sample_externs [sample_assert ''a'' ''f'' Low, sample_assert ''b'' ''g'' Low]))
        (set (chain_inputs sample_externs [sample_assert ''a'' ''f'' High])))"
proof -
  let ?es = "[sample_assert ''a'' ''f'' Low, sample_assert ''b'' ''g'' Low]"
  let ?fs = "[sample_assert ''a'' ''f'' High]"
  obtain hs where hs: "hash_chain sample_externs ?es = Inr hs"
    by (simp add: hash_chain_eq sample_externs_ok sample_canonical)
  obtain ks where ks: "hash_chain sample_externs ?fs = Inr ks"
    by (simp add: hash_chain_eq sample_externs_ok sample_canonical)
  have "hs ! 0 = ks ! 0"
    using hs ks by (auto simp: hash_chain_eq sample_externs_ok sample_canonical sample_defs)
  with hash_commits_to_prefix [OF sample_externs_ok hs ks, of 0 0] hs show ?thesis by simp
qed

theorem hash_chain_append_only_witness:
  "is_ok (hash_chain sample_externs [sample_assert ''a'' ''f'' Low])"
  using hash_chain_append_only [OF sample_externs_ok(1), of "[sample_assert ''a'' ''f'' Low]" "[]"]
  by (simp add: sample_canonical)

theorem attestation_message_covers_witness:
  "\<exists>m. attestation_message sample_externs (sample_assert ''a'' ''f'' Low) = Inr m \<and>
     attestation_message sample_externs (sample_assert ''b'' ''f'' Low) \<noteq> Inr m"
proof -
  obtain m where m: "attestation_message sample_externs (sample_assert ''a'' ''f'' Low) = Inr m"
    by (simp add: attestation_message_def sample_canonical)
  have "canonical_bytes sample_externs (strip_attestation (sample_assert ''b'' ''f'' Low)) \<noteq>
      canonical_bytes sample_externs (strip_attestation (sample_assert ''a'' ''f'' Low))"
    by (simp add: sample_canonical as_bytes_inj strip_attestation_def sample_defs)
  with attestation_message_covers [OF sample_externs_ok(2) m] m show ?thesis by auto
qed

end
