(* ===== verification/Anchor.thy ===== *)
theory Anchor
  imports Hash_Chain
begin

text \<open>
  \<open>crates/dent8-core/src/anchor.rs\<close>: external commitments to the head of the chain. The
  HMAC construction and the constant-time comparison are the code's own, over the parameter
  \<open>sha256\<close>; signing and strict verification of Ed25519 are parameters (\<open>sign\<close>,
  \<open>verify\<close>), with \<open>keypair_ok\<close> the documented contract of a key pair.
\<close>

section \<open>Messages and MACs\<close>

definition ANCHOR_PREFIX :: u8 where "ANCHOR_PREFIX = 2"
definition BLOCK_LEN :: usize where "BLOCK_LEN = 64"

record ChainAnchor =
  event_count :: u64
  head :: "string option"
  mac :: string

definition anchor_message :: "u64 \<Rightarrow> string option \<Rightarrow> u8 list" where
  "anchor_message count h = [ANCHOR_PREFIX, CANON_VERSION] @ to_be_bytes count @
     (case h of
        None \<Rightarrow> [0]
      | Some d \<Rightarrow> [1] @ to_be_bytes (of_nat (length d)) @ as_bytes d)"

definition hmac_block :: "(u8 list \<Rightarrow> u8 list) \<Rightarrow> u8 list \<Rightarrow> u8 list" where
  "hmac_block h key =
     (let k = (if BLOCK_LEN < length key then h key else key)
      in k @ replicate (BLOCK_LEN - length k) 0)"

definition hmac_sha256 :: "(u8 list \<Rightarrow> u8 list) \<Rightarrow> u8 list \<Rightarrow> u8 list \<Rightarrow> u8 list" where
  "hmac_sha256 h key message =
     (let block = hmac_block h key;
          ipad = map (\<lambda>b. xor 0x36 b) block;
          opad = map (\<lambda>b. xor 0x5C b) block
      in h (opad @ h (ipad @ message)))"

definition constant_time_eq :: "u8 list \<Rightarrow> u8 list \<Rightarrow> bool" where
  "constant_time_eq a b =
     (if length a \<noteq> length b then False
      else foldl (\<lambda>diff (x, y). or diff (xor x y)) 0 (zip a b) = 0)"

section \<open>The keyed anchor\<close>

text \<open>\<open>hash_chain(events)?.pop()\<close>\<close>

definition chain_head :: "'j Externs \<Rightarrow> FactEvent list \<Rightarrow> CanonError + string option" where
  "chain_head X es =
     and_then (hash_chain X es) (\<lambda>hs. Inr (if hs = [] then None else Some (last hs)))"

definition anchor_head :: "'j Externs \<Rightarrow> FactEvent list \<Rightarrow> u8 list \<Rightarrow> CanonError + ChainAnchor" where
  "anchor_head X es key =
     and_then (chain_head X es) (\<lambda>h.
       let count = of_nat (length es) in
       Inr \<lparr>event_count = count, head = h,
            mac = hex_encode X (hmac_sha256 (sha256 X) key (anchor_message count h))\<rparr>)"

definition verify_anchor ::
    "'j Externs \<Rightarrow> FactEvent list \<Rightarrow> ChainAnchor \<Rightarrow> u8 list \<Rightarrow> CanonError + bool" where
  "verify_anchor X es anchor key =
     and_then (chain_head X es) (\<lambda>h.
       let count = of_nat (length es);
           expected = hex_encode X (hmac_sha256 (sha256 X) key (anchor_message count h))
       in Inr (count = event_count anchor \<and> h = head anchor \<and>
               constant_time_eq (as_bytes expected) (as_bytes (mac anchor))))"

section \<open>The signed tree head\<close>

record SignedTreeHead =
  event_count :: u64
  head :: "string option"
  signature :: string

definition sign_head ::
    "'j Externs \<Rightarrow> ('sk \<Rightarrow> u8 list \<Rightarrow> u8 list) \<Rightarrow> FactEvent list \<Rightarrow> 'sk \<Rightarrow> CanonError + SignedTreeHead" where
  "sign_head X sign es sk =
     and_then (chain_head X es) (\<lambda>h.
       let count = of_nat (length es) in
       Inr \<lparr>SignedTreeHead.event_count = count, head = h,
            signature = hex_encode X (sign sk (anchor_message count h))\<rparr>)"

definition verify_signed_head ::
    "'j Externs \<Rightarrow> ('vk \<Rightarrow> u8 list \<Rightarrow> u8 list \<Rightarrow> bool) \<Rightarrow> FactEvent list \<Rightarrow> SignedTreeHead \<Rightarrow> 'vk \<Rightarrow>
       CanonError + bool" where
  "verify_signed_head X verify es th vk =
     and_then (chain_head X es) (\<lambda>recomputed.
       let count = of_nat (length es) in
       if count \<noteq> SignedTreeHead.event_count th \<or> recomputed \<noteq> SignedTreeHead.head th then Inr False
       else case hex_decode X (SignedTreeHead.signature th) of
          None \<Rightarrow> Inr False
        | Some bytes \<Rightarrow>
            if length bytes \<noteq> 64 then Inr False
            else Inr (verify vk (anchor_message count recomputed) bytes))"

text \<open>What Ed25519 promises of a key pair: its signatures have 64 bytes and verify.\<close>

definition keypair_ok ::
    "('sk \<Rightarrow> u8 list \<Rightarrow> u8 list) \<Rightarrow> ('vk \<Rightarrow> u8 list \<Rightarrow> u8 list \<Rightarrow> bool) \<Rightarrow> 'sk \<Rightarrow> 'vk \<Rightarrow> bool" where
  "keypair_ok sign verify sk vk \<longleftrightarrow> (\<forall>m. length (sign sk m) = 64 \<and> verify vk m (sign sk m))"

section \<open>Lemmas\<close>

lemma or_eq_0: "or a b = 0 \<longleftrightarrow> a = 0 \<and> b = (0 :: u8)"
  by (rule or_eq_0_iff)

lemma xor_eq_0: "xor a b = 0 \<longleftrightarrow> a = (b :: u8)"
  by (auto simp: bit_eq_iff bit_xor_iff)

lemma ct_fold:
  "length a = length b \<Longrightarrow>
     foldl (\<lambda>diff (x, y). or diff (xor x y)) d (zip a b) = (0 :: u8) \<longleftrightarrow> d = 0 \<and> a = b"
  by (induction a b arbitrary: d rule: list_induct2) (auto simp: or_eq_0 xor_eq_0)

lemma constant_time_eq_iff: "constant_time_eq a b \<longleftrightarrow> a = b"
  by (auto simp: constant_time_eq_def ct_fold)

lemma chain_head_Inr:
  assumes "externs_ok X"
  shows "chain_head X es = Inr h \<longleftrightarrow>
    (\<exists>hs. hash_chain X es = Inr hs \<and> h = (if es = [] then None else Some (hs ! (length es - 1))))"
proof -
  have "(if hs = [] then None else Some (last hs)) =
      (if es = [] then None else Some (hs ! (length es - 1)))" if "hash_chain X es = Inr hs" for hs
    using hash_chain_length [OF assms that] by (auto simp: last_conv_nth)
  then show ?thesis by (auto simp: chain_head_def)
qed

lemma chain_head_binds:
  assumes "externs_ok X" and "canon_bounded X"
    and "chain_head X es = Inr h" and "chain_head X fs = Inr h"
  shows "map (canonical_bytes X) es = map (canonical_bytes X) fs \<or>
    collision_among (sha256 X) (set (chain_inputs X es)) (set (chain_inputs X fs))"
proof -
  obtain hs ks where hs: "hash_chain X es = Inr hs" and ks: "hash_chain X fs = Inr ks"
    and eq: "(if es = [] then None else Some (hs ! (length es - 1))) =
        (if fs = [] then None else Some (ks ! (length fs - 1)))"
    using assms(3,4) chain_head_Inr [OF assms(1)] by metis
  show ?thesis
  proof (cases "es = []")
    case True
    then show ?thesis using eq by (auto split: if_splits)
  next
    case False
    then have "fs \<noteq> []" "hs ! (length es - 1) = ks ! (length fs - 1)"
      using eq by (auto split: if_splits)
    with False prefix_commit [OF assms(1,2) hs ks, of "length es - 1" "length fs - 1"]
    show ?thesis by simp
  qed
qed

lemma anchor_message_inj:
  assumes "anchor_message c h = anchor_message d k"
    and "\<forall>s. h = Some s \<longrightarrow> length s < 2 ^ 64" and "\<forall>s. k = Some s \<longrightarrow> length s < 2 ^ 64"
  shows "c = d \<and> h = k"
proof -
  have "to_be_bytes c = to_be_bytes d"
    using assms(1) by (simp add: anchor_message_def append_eq_append_conv)
  then have cd: "c = d" by (rule to_be_bytes_inj)
  show ?thesis
  proof (cases h; cases k)
    fix s t
    assume hk: "h = Some s" "k = Some t"
    then have "to_be_bytes (of_nat (length (as_bytes s))) @ as_bytes s @ [] =
        to_be_bytes (of_nat (length (as_bytes t))) @ as_bytes t @ []"
      using assms(1) cd by (simp add: anchor_message_def)
    from framed_inj [OF this] assms(2,3) hk have "as_bytes s = as_bytes t" by simp
    with cd hk show ?thesis by (simp add: as_bytes_inj)
  qed (use assms(1) cd in \<open>auto simp: anchor_message_def\<close>)
qed

section \<open>Properties\<close>

text \<open>
  Verification of an anchor is recomputation. It answers true exactly when anchoring these
  events under this key would produce this very anchor (the constant-time comparison loses and
  adds nothing), and otherwise false; it fails exactly when the events do not serialize.
\<close>

theorem verify_anchor_iff:
  "verify_anchor X es a key =
     and_then (anchor_head X es key) (\<lambda>b. Inr (b = a))"
proof (cases "chain_head X es")
  case (Inr h)
  then show ?thesis
    by (auto simp: verify_anchor_def anchor_head_def Let_def constant_time_eq_iff as_bytes_inj)
qed (simp add: verify_anchor_def anchor_head_def)

text \<open>
  Tamper resistance. An anchor issued for one log verifies against another log only if both
  have the same canonical events, or the two chains contain a SHA-256 collision: rewriting
  history and re-hashing it forward does not satisfy an anchor issued before.
\<close>

theorem anchor_binds_history:
  assumes "externs_ok X" and "canon_bounded X"
    and "anchor_head X es key = Inr a" and "verify_anchor X fs a key = Inr True"
  shows "map (canonical_bytes X) es = map (canonical_bytes X) fs \<or>
    collision_among (sha256 X) (set (chain_inputs X es)) (set (chain_inputs X fs))"
proof -
  have "chain_head X es = Inr (ChainAnchor.head a)" "chain_head X fs = Inr (ChainAnchor.head a)"
    using assms(3,4) by (auto simp: anchor_head_def verify_anchor_def Let_def)
  then show ?thesis by (rule chain_head_binds [OF assms(1,2)])
qed

text \<open>
  The bytes under a MAC or signature determine count and head, and are never the bytes of an
  event leaf: an authenticated commitment cannot be reinterpreted as another one, nor as a hash
  input of the chain.
\<close>

theorem anchor_message_unambiguous:
  assumes "\<forall>s. h = Some s \<longrightarrow> length s < 2 ^ 64" and "\<forall>s. k = Some s \<longrightarrow> length s < 2 ^ 64"
  shows "(anchor_message c h = anchor_message d k \<longleftrightarrow> c = d \<and> h = k) \<and>
    anchor_message c h \<noteq> leaf_input body p"
  using anchor_message_inj [OF _ assms]
  by (auto simp: anchor_message_def leaf_input_def ANCHOR_PREFIX_def LEAF_PREFIX_def)

text \<open>
  A signed tree head verifies against the log it was signed for, and against another log
  only if the canonical events agree or the two chains contain a SHA-256 collision.
\<close>

theorem signed_head_sound:
  assumes "externs_ok X" and "canon_bounded X" and "keypair_ok sign verify sk vk"
    and "sign_head X sign es sk = Inr th"
  shows "verify_signed_head X verify es th vk = Inr True \<and>
    (verify_signed_head X verify fs th vk = Inr True \<longrightarrow>
       map (canonical_bytes X) es = map (canonical_bytes X) fs \<or>
       collision_among (sha256 X) (set (chain_inputs X es)) (set (chain_inputs X fs)))"
proof -
  have es: "chain_head X es = Inr (SignedTreeHead.head th)"
    using assms(4) by (auto simp: sign_head_def Let_def)
  have "verify_signed_head X verify es th vk = Inr True"
    using assms(1,3,4)
    by (auto simp: sign_head_def verify_signed_head_def Let_def externs_ok_def keypair_ok_def)
  moreover have "chain_head X fs = Inr (SignedTreeHead.head th)"
    if "verify_signed_head X verify fs th vk = Inr True"
    using that by (auto simp: verify_signed_head_def Let_def split: if_splits option.splits)
  ultimately show ?thesis using chain_head_binds [OF assms(1,2) es] by blast
qed

section \<open>Witnesses\<close>

definition sample_log :: "FactEvent list" where
  "sample_log = [sample_assert ''a'' ''f'' Low]"

lemma sample_chain_head:
  "\<exists>h. chain_head sample_externs sample_log = Inr h"
proof -
  obtain hs where "hash_chain sample_externs sample_log = Inr hs"
    by (simp add: hash_chain_eq sample_externs_ok sample_canonical sample_log_def)
  then show ?thesis using chain_head_Inr [OF sample_externs_ok(1)] by blast
qed

theorem anchor_binds_history_witness:
  "\<exists>a. anchor_head sample_externs sample_log [1, 2, 3] = Inr a \<and>
     verify_anchor sample_externs sample_log a [1, 2, 3] = Inr True \<and>
     (map (canonical_bytes sample_externs) sample_log = map (canonical_bytes sample_externs) sample_log \<or>
      collision_among (sha256 sample_externs) (set (chain_inputs sample_externs sample_log))
        (set (chain_inputs sample_externs sample_log)))"
proof -
  obtain a where a: "anchor_head sample_externs sample_log [1, 2, 3] = Inr a"
    using sample_chain_head by (auto simp: anchor_head_def Let_def)
  then have "verify_anchor sample_externs sample_log a [1, 2, 3] = Inr True"
    by (auto simp: anchor_head_def verify_anchor_def Let_def constant_time_eq_iff)
  with a anchor_binds_history [OF sample_externs_ok a this] show ?thesis by blast
qed

theorem anchor_message_unambiguous_witness:
  "anchor_message 1 None \<noteq> anchor_message 1 (Some ''ab'')"
  using anchor_message_unambiguous [of None "Some ''ab''" 1 1] by simp

definition toy_sign :: "u8 \<Rightarrow> u8 list \<Rightarrow> u8 list" where
  "toy_sign k m = take 64 (k # drop 2 m @ replicate 64 0)"

definition toy_verify :: "u8 \<Rightarrow> u8 list \<Rightarrow> u8 list \<Rightarrow> bool" where
  "toy_verify k m s \<longleftrightarrow> s = toy_sign k m"

theorem signed_head_sound_witness:
  "\<exists>th. sign_head sample_externs toy_sign sample_log 7 = Inr th \<and>
     verify_signed_head sample_externs toy_verify sample_log th 7 = Inr True"
proof -
  have k: "keypair_ok toy_sign toy_verify 7 7"
    by (auto simp: keypair_ok_def toy_verify_def toy_sign_def min_def)
  obtain th where th: "sign_head sample_externs toy_sign sample_log 7 = Inr th"
    using sample_chain_head by (auto simp: sign_head_def Let_def)
  from signed_head_sound [OF sample_externs_ok k th] th show ?thesis by blast
qed

end
