(* ===== verification/Memory_Store.thy ===== *)
theory Memory_Store
  imports Firewall Anchor
begin

text \<open>
  \<open>crates/dent8-store/src/memory.rs\<close>: the in-memory store, its append, trusted load, scans,
  chain verification, anchoring and the integrity receipts of the read side. The store is a
  record; an operation on it returns the store as it stands and a result. \<open>memory_ok\<close> is its
  representation invariant. The store provides the contract \<open>event_store\<close>, so the firewall's
  guarantees hold of every store that appends built.
\<close>

section \<open>State\<close>

record StoredEvent =
  global_sequence :: u64
  event :: FactEvent
  event_hash :: string

record InMemoryEventStore =
  log :: "StoredEvent list"
  by_fact :: "(FactId, usize list) btree"
  event_ids :: "string set"
  last_hash :: "string option"

record AppendReceipt =
  global_sequence :: u64
  receipt_event_id :: FactEventId
  receipt_hash :: string

record EventFilter =
  filter_fact_id :: "FactId option"
  filter_subject :: "Subject option"
  filter_predicate :: "Predicate option"
  after_sequence :: "u64 option"
  limit :: "32 word option"

definition EventFilter_default :: EventFilter where
  "EventFilter_default = \<lparr>filter_fact_id = None, filter_subject = None, filter_predicate = None,
     after_sequence = None, limit = None\<rparr>"

definition new_store :: InMemoryEventStore where
  "new_store = \<lparr>log = [], by_fact = [], event_ids = {}, last_hash = None\<rparr>"

definition all_events :: "InMemoryEventStore \<Rightarrow> FactEvent list" where
  "all_events st = map event (log st)"

definition store_len :: "InMemoryEventStore \<Rightarrow> usize" where
  "store_len st = length (log st)"

definition store_is_empty :: "InMemoryEventStore \<Rightarrow> bool" where
  "store_is_empty st \<longleftrightarrow> log st = []"

section \<open>Writing\<close>

definition persist ::
    "'j Externs \<Rightarrow> InMemoryEventStore \<Rightarrow> FactEvent \<Rightarrow>
       InMemoryEventStore \<times> (StoreError fault + AppendReceipt)" where
  "persist X st e =
     (if event_str (event_id e) \<in> event_ids st
      then (st, Inl (Fail (Conflict (''duplicate event_id '' @ event_str (event_id e)))))
      else case Hash_Chain.event_hash X e (last_hash st) of
          Inl err \<Rightarrow> (st, Inl (Fail (Canonicalization (show_CanonError err))))
        | Inr h \<Rightarrow>
            (let sq = of_nat (length (log st));
                 index = length (log st);
                 receipt = \<lparr>AppendReceipt.global_sequence = sq, receipt_event_id = event_id e, receipt_hash = h\<rparr>
             in (\<lparr>log = log st @ [\<lparr>StoredEvent.global_sequence = sq, event = e, event_hash = h\<rparr>],
                  by_fact = btm_upsert (\<lambda>l. l @ [index]) [index] (FactEvent.fact_id e) (by_fact st),
                  event_ids = insert (event_str (event_id e)) (event_ids st),
                  last_hash = Some h\<rparr>, Inr receipt)))"

fun persist_all ::
    "'j Externs \<Rightarrow> InMemoryEventStore \<Rightarrow> FactEvent list \<Rightarrow> StoreError fault + InMemoryEventStore" where
  "persist_all X st [] = Inr st"
| "persist_all X st (e # es) = (case persist X st e of
      (_, Inl err) \<Rightarrow> Inl err
    | (st', Inr _) \<Rightarrow> persist_all X st' es)"

definition from_trusted_events ::
    "'j Externs \<Rightarrow> FactEvent list \<Rightarrow> StoreError fault + InMemoryEventStore" where
  "from_trusted_events X es = persist_all X new_store es"

text \<open>\<open>self.log[i]\<close> panics out of range.\<close>

definition log_at :: "InMemoryEventStore \<Rightarrow> usize \<Rightarrow> 'e fault + StoredEvent" where
  "log_at st i = (if i < length (log st) then Inr (log st ! i) else Inl Panic)"

definition load_fact_events ::
    "InMemoryEventStore \<Rightarrow> FactId \<Rightarrow> StoreError fault + FactEvent list" where
  "load_fact_events st f = (case btm_get (by_fact st) f of
      None \<Rightarrow> Inr []
    | Some indices \<Rightarrow> try_map (\<lambda>i. map_ok event (log_at st i)) indices)"

definition append ::
    "'j Externs \<Rightarrow> InMemoryEventStore \<Rightarrow> FactEvent \<Rightarrow>
       InMemoryEventStore \<times> (StoreError fault + AppendReceipt)" where
  "append X st e = (case arbitrate (load_fact_events st) e of
      Inl err \<Rightarrow> (st, Inl err)
    | Inr _ \<Rightarrow> persist X st e)"

text \<open>A session of appends, each admitted or refused, as the write path runs them.\<close>

definition append_session :: "'j Externs \<Rightarrow> InMemoryEventStore \<Rightarrow> FactEvent list \<Rightarrow> InMemoryEventStore" where
  "append_session X st es = foldl (\<lambda>s e. fst (append X s e)) st es"

section \<open>Reading\<close>

definition opt_matches :: "'a option \<Rightarrow> 'a \<Rightarrow> bool" where
  "opt_matches w x = (case w of None \<Rightarrow> True | Some y \<Rightarrow> y = x)"

definition scan_events :: "InMemoryEventStore \<Rightarrow> EventFilter \<Rightarrow> FactEvent list" where
  "scan_events st fl =
     (let ms = map event (filter (\<lambda>s.
          opt_matches (filter_fact_id fl) (FactEvent.fact_id (event s)) \<and>
          opt_matches (filter_subject fl) (FactEvent.subject (event s)) \<and>
          opt_matches (filter_predicate fl) (FactEvent.predicate (event s)) \<and>
          (case after_sequence fl of None \<Rightarrow> True | Some q \<Rightarrow> q < StoredEvent.global_sequence s)) (log st))
      in case limit fl of None \<Rightarrow> ms | Some n \<Rightarrow> take (unat n) ms)"

definition subjects :: "InMemoryEventStore \<Rightarrow> (Subject \<times> Predicate) list" where
  "subjects st = snd (foldl (\<lambda>(seen, out) s.
      let pair = (FactEvent.subject (event s), FactEvent.predicate (event s)) in
      if pair \<in> seen then (seen, out) else (insert pair seen, out @ [pair])) ({}, []) (log st))"

definition verify_chain :: "'j Externs \<Rightarrow> InMemoryEventStore \<Rightarrow> bool" where
  "verify_chain X st = (case hash_chain X (all_events st) of
      Inr recomputed \<Rightarrow> length recomputed = length (log st) \<and>
        (\<forall>(h, s) \<in> set (zip recomputed (log st)). h = event_hash s)
    | Inl _ \<Rightarrow> False)"

definition store_anchor :: "'j Externs \<Rightarrow> InMemoryEventStore \<Rightarrow> u8 list \<Rightarrow> StoreError fault + ChainAnchor" where
  "store_anchor X st key =
     map_err (\<lambda>e. Fail (Canonicalization (show_CanonError e))) (anchor_head X (all_events st) key)"

definition verify_against_anchor ::
    "'j Externs \<Rightarrow> InMemoryEventStore \<Rightarrow> ChainAnchor \<Rightarrow> u8 list \<Rightarrow> StoreError fault + bool" where
  "verify_against_anchor X st a key =
     map_err (\<lambda>e. Fail (Canonicalization (show_CanonError e))) (verify_anchor X (all_events st) a key)"

record IntegrityReceipt =
  fact_id :: FactId
  subject :: Subject
  predicate :: Predicate
  val :: FactValue
  lifecycle :: FactLifecycle
  receipt_authority :: AuthorityLevel
  fresh :: bool
  not_yet_valid :: bool
  valid_from :: "TimestampMillis option"
  receipt_expires_at :: "TimestampMillis option"
  evidence_count :: usize
  receipt_corroboration :: usize
  receipt_survived :: usize
  superseded_by :: "FactId option"
  contradicted_by :: "FactId list"
  replay_position :: u64
  last_event_hash :: string
  chain_verified :: bool

definition receipt_of ::
    "FactState \<Rightarrow> StoredEvent \<Rightarrow> TimestampMillis \<Rightarrow> bool \<Rightarrow> IntegrityReceipt" where
  "receipt_of s last_ev now chain = \<lparr>
     fact_id = FactState.fact_id s, subject = FactState.subject s, predicate = FactState.predicate s,
     val = FactState.val s, lifecycle = FactState.lifecycle s, receipt_authority = state_level s,
     fresh = is_fresh_at s now, not_yet_valid = is_not_yet_valid_at s now,
     valid_from = FactState.valid_from s, receipt_expires_at = expires_at s,
     evidence_count = FactState.evidence_count s, receipt_corroboration = corroboration s,
     receipt_survived = survived_challenge_count s, superseded_by = FactState.superseded_by s,
     contradicted_by = FactState.contradicted_by s,
     replay_position = StoredEvent.global_sequence last_ev, last_event_hash = event_hash last_ev,
     chain_verified = chain\<rparr>"

definition explain_with ::
    "'j Externs \<Rightarrow> InMemoryEventStore \<Rightarrow> FactId \<Rightarrow> TimestampMillis \<Rightarrow> bool \<Rightarrow>
       ReplayError fault + IntegrityReceipt option" where
  "explain_with X st f now check = (case btm_get (by_fact st) f of
      None \<Rightarrow> Inr None
    | Some [] \<Rightarrow> Inr None
    | Some indices \<Rightarrow>
        and_then (try_map (\<lambda>i. map_ok event (log_at st i)) indices) (\<lambda>events.
          and_then (map_err Fail (replay_fact events)) (\<lambda>r.
            case r of
              None \<Rightarrow> Inr None
            | Some s \<Rightarrow> and_then (log_at st (last indices)) (\<lambda>l.
                Inr (Some (receipt_of s l now (check \<and> verify_chain X st)))))))"

definition explain ::
    "'j Externs \<Rightarrow> InMemoryEventStore \<Rightarrow> FactId \<Rightarrow> TimestampMillis \<Rightarrow>
       ReplayError fault + IntegrityReceipt option" where
  "explain X st f now = explain_with X st f now True"

definition pair_filter :: "Subject \<Rightarrow> Predicate \<Rightarrow> EventFilter" where
  "pair_filter sj pd = EventFilter_default\<lparr>filter_subject := Some sj, filter_predicate := Some pd\<rparr>"

definition or_else :: "'a option \<Rightarrow> 'a option \<Rightarrow> 'a option" where
  "or_else a b = (case a of Some x \<Rightarrow> Some x | None \<Rightarrow> b)"

definition first_of :: "'a list \<Rightarrow> 'a option" where
  "first_of xs = (case xs of [] \<Rightarrow> None | x # _ \<Rightarrow> Some x)"

text \<open>
  The choice among believed facts that \<open>latest_fact_id\<close> and \<open>explain_subject\<close> both make: a
  contested one that has not expired, else one that has not expired, else any.
\<close>

definition pick_believed :: "SubjectProjection \<Rightarrow> TimestampMillis \<Rightarrow> FactState option" where
  "pick_believed pr now =
     or_else (find (\<lambda>s. FactState.lifecycle s = Contested \<and> \<not> is_expired_at s now) (believed pr))
       (or_else (find (\<lambda>s. \<not> is_expired_at s now) (believed pr)) (first_of (believed pr)))"

text \<open>\<open>max_by_key\<close> returns the last of several maxima.\<close>

fun max_by_key :: "('a \<Rightarrow> 'k::linorder) \<Rightarrow> 'a list \<Rightarrow> 'a option" where
  "max_by_key k [] = None"
| "max_by_key k (x # xs) = (case max_by_key k xs of
      None \<Rightarrow> Some x
    | Some y \<Rightarrow> if k y < k x then Some x else Some y)"

definition latest_fact_id ::
    "InMemoryEventStore \<Rightarrow> Subject \<Rightarrow> Predicate \<Rightarrow> TimestampMillis \<Rightarrow> StoreError fault + FactId option" where
  "latest_fact_id st sj pd now =
     and_then (map_err (\<lambda>e. Fail (Replay e)) (replay_subject (scan_events st (pair_filter sj pd)))) (\<lambda>pr.
       case pick_believed pr now of
         Some s \<Rightarrow> Inr (Some (FactState.fact_id s))
       | None \<Rightarrow> Inr (map_option FactState.fact_id (max_by_key updated_at (btm_values (facts pr)))))"

definition latest_freshness ::
    "'j Externs \<Rightarrow> InMemoryEventStore \<Rightarrow> Subject \<Rightarrow> Predicate \<Rightarrow> TimestampMillis \<Rightarrow>
       StoreError fault + IntegrityReceipt option" where
  "latest_freshness X st sj pd now =
     and_then (latest_fact_id st sj pd now) (\<lambda>id.
       case id of
         Some f \<Rightarrow> map_err (fault_map Replay) (explain_with X st f now False)
       | None \<Rightarrow> Inr None)"

definition believed_fact_ids ::
    "InMemoryEventStore \<Rightarrow> Subject \<Rightarrow> Predicate \<Rightarrow> StoreError fault + FactId list" where
  "believed_fact_ids st sj pd =
     and_then (map_err (\<lambda>e. Fail (Replay e)) (replay_subject (scan_events st (pair_filter sj pd))))
       (\<lambda>pr. Inr (map FactState.fact_id (believed pr)))"

definition explain_latest ::
    "'j Externs \<Rightarrow> InMemoryEventStore \<Rightarrow> Subject \<Rightarrow> Predicate \<Rightarrow> TimestampMillis \<Rightarrow>
       StoreError fault + IntegrityReceipt option" where
  "explain_latest X st sj pd now =
     and_then (latest_fact_id st sj pd now) (\<lambda>id.
       case id of
         Some f \<Rightarrow> map_err (fault_map Replay) (explain X st f now)
       | None \<Rightarrow> Inr None)"

definition explain_subject ::
    "'j Externs \<Rightarrow> InMemoryEventStore \<Rightarrow> Subject \<Rightarrow> Predicate \<Rightarrow> TimestampMillis \<Rightarrow>
       StoreError fault + IntegrityReceipt option" where
  "explain_subject X st sj pd now =
     and_then (map_err (\<lambda>e. Fail (Replay e)) (replay_subject (scan_events st (pair_filter sj pd)))) (\<lambda>pr.
       case map_option FactState.fact_id (pick_believed pr now) of
         Some f \<Rightarrow> map_err (fault_map Replay) (explain X st f now)
       | None \<Rightarrow> Inr None)"

section \<open>The representation invariant\<close>

definition fact_indices :: "StoredEvent list \<Rightarrow> FactId \<Rightarrow> usize list" where
  "fact_indices l f = filter (\<lambda>i. FactEvent.fact_id (event (l ! i)) = f) [0..<length l]"

definition memory_ok :: "'j Externs \<Rightarrow> InMemoryEventStore \<Rightarrow> bool" where
  "memory_ok X st \<longleftrightarrow> btm_ok (by_fact st) \<and>
     (\<forall>f. btm_get (by_fact st) f =
        (if fact_indices (log st) f = [] then None else Some (fact_indices (log st) f))) \<and>
     event_ids st = set (map (\<lambda>e. event_str (event_id e)) (all_events st)) \<and>
     distinct (map (\<lambda>e. event_str (event_id e)) (all_events st)) \<and>
     (\<forall>i < length (log st). StoredEvent.global_sequence (log st ! i) = of_nat i) \<and>
     hash_chain X (all_events st) = Inr (map event_hash (log st)) \<and>
     last_hash st = (if log st = [] then None else Some (event_hash (last (log st))))"

lemma fact_indices_snoc:
  "fact_indices (l @ [s]) f =
     fact_indices l f @ (if FactEvent.fact_id (event s) = f then [length l] else [])"
proof -
  have "filter (\<lambda>i. FactEvent.fact_id (event ((l @ [s]) ! i)) = f) [0..<length l] = fact_indices l f"
    unfolding fact_indices_def by (rule filter_cong) (auto simp: nth_append)
  then show ?thesis by (simp add: fact_indices_def)
qed

lemma nth_filter_indices: "map ((!) xs) (filter (\<lambda>i. P (xs ! i)) [0..<length xs]) = filter P xs"
proof -
  have "filter P (map ((!) xs) [0..<length xs]) = map ((!) xs) (filter (P \<circ> (!) xs) [0..<length xs])"
    by (rule filter_map)
  then show ?thesis by (simp add: map_nth comp_def)
qed

lemma fact_indices_stream:
  "map (\<lambda>i. event (log st ! i)) (fact_indices (log st) f) = stream_of f (all_events st)"
proof -
  have "map event (map ((!) (log st)) (fact_indices (log st) f)) =
      map event (filter (\<lambda>s. FactEvent.fact_id (event s) = f) (log st))"
    unfolding fact_indices_def
    by (simp only: nth_filter_indices [of "log st" "\<lambda>s. FactEvent.fact_id (event s) = f"])
  then show ?thesis by (simp add: stream_of_def all_events_def filter_map comp_def)
qed

lemma fact_indices_bound: "i \<in> set (fact_indices l f) \<Longrightarrow> i < length l"
  by (simp add: fact_indices_def)

lemma fact_indices_Nil: "fact_indices (log st) f = [] \<longleftrightarrow> stream_of f (all_events st) = []"
  by (simp flip: fact_indices_stream)

lemma indices_load:
  "try_map (\<lambda>i. map_ok event (log_at st i)) (fact_indices (log st) f) = Inr (stream_of f (all_events st))"
proof -
  have "try_map (\<lambda>i. map_ok event (log_at st i)) (fact_indices (log st) f) =
      Inr (map (\<lambda>i. event (log st ! i)) (fact_indices (log st) f))"
    by (rule try_map_all_ok) (simp add: log_at_def fact_indices_bound)
  then show ?thesis by (simp add: fact_indices_stream)
qed

lemma load_ok: "memory_ok X st \<Longrightarrow> load_fact_events st f = Inr (stream_of f (all_events st))"
  by (cases "fact_indices (log st) f = []")
    (simp_all add: load_fact_events_def memory_ok_def indices_load fact_indices_Nil)

lemma hash_chain_from_snoc:
  "hash_chain_from X p (es @ [e]) = and_then (hash_chain_from X p es)
     (\<lambda>hs. map_ok (\<lambda>h. hs @ [h]) (Hash_Chain.event_hash X e (if hs = [] then p else Some (last hs))))"
proof (induction es arbitrary: p)
  case Nil
  show ?case by (cases "Hash_Chain.event_hash X e p") simp_all
next
  case (Cons d es)
  show ?case
  proof (cases "Hash_Chain.event_hash X d p")
    case (Inr h)
    show ?thesis
    proof (cases "hash_chain_from X (Some h) es")
      case (Inr hs)
      then show ?thesis using Cons.IH [of "Some h"] \<open>Hash_Chain.event_hash X d p = Inr h\<close>
        by (cases "hs = []") simp_all
    qed (use Cons.IH [of "Some h"] Inr in simp)
  qed simp
qed

lemma memory_ok_new [inv_intro]: "memory_ok X new_store"
  by (simp add: memory_ok_def new_store_def all_events_def fact_indices_def hash_chain_def)

lemma last_event_hash:
  "memory_ok X st \<Longrightarrow> last_hash st = (if map event_hash (log st) = [] then None else Some (last (map event_hash (log st))))"
  by (simp add: memory_ok_def last_map)

lemma persist_Inr:
  assumes ok: "memory_ok X st" and p: "persist X st e = (st', Inr r)"
  shows "memory_ok X st'" and "all_events st' = all_events st @ [e]"
    and "event_str (event_id e) \<notin> event_ids st"
    and "AppendReceipt.global_sequence r = of_nat (length (log st))" and "receipt_event_id r = event_id e"
    and "last_hash st' = Some (receipt_hash r)"
proof -
  from p obtain h where new: "event_str (event_id e) \<notin> event_ids st"
    and h: "Hash_Chain.event_hash X e (last_hash st) = Inr h"
    by (auto simp: persist_def split: if_splits sum.splits)
  let ?s = "\<lparr>StoredEvent.global_sequence = of_nat (length (log st)), event = e, event_hash = h\<rparr>"
  from p new h have st': "st' = \<lparr>log = log st @ [?s],
      by_fact = btm_upsert (\<lambda>l. l @ [length (log st)]) [length (log st)] (FactEvent.fact_id e) (by_fact st),
      event_ids = insert (event_str (event_id e)) (event_ids st), last_hash = Some h\<rparr>"
    and r: "r = \<lparr>AppendReceipt.global_sequence = of_nat (length (log st)), receipt_event_id = event_id e,
      receipt_hash = h\<rparr>"
    by (auto simp: persist_def Let_def)
  show all: "all_events st' = all_events st @ [e]" by (simp add: st' all_events_def)
  have "hash_chain X (all_events st @ [e]) = Inr (map event_hash (log st) @ [h])"
    using ok h last_event_hash [OF ok] by (simp add: hash_chain_def hash_chain_from_snoc memory_ok_def)
  moreover have "btm_get (by_fact st') f =
      (if fact_indices (log st') f = [] then None else Some (fact_indices (log st') f))" for f
    using ok by (auto simp: st' memory_ok_def btm_get_upsert fact_indices_snoc)
  moreover have "btm_ok (by_fact st')" using ok by (simp add: st' memory_ok_def)
  moreover have "log st' = log st @ [?s]" "event_ids st' = insert (event_str (event_id e)) (event_ids st)"
    "last_hash st' = Some h" by (simp_all add: st')
  ultimately show "memory_ok X st'"
    using ok new unfolding memory_ok_def all by (auto simp: nth_append less_Suc_eq)
  show "event_str (event_id e) \<notin> event_ids st" by (rule new)
  show "AppendReceipt.global_sequence r = of_nat (length (log st))" "receipt_event_id r = event_id e"
    "last_hash st' = Some (receipt_hash r)" by (simp_all add: r st')
qed

lemma persist_Inl: "persist X st e = (st', Inl err) \<Longrightarrow> st' = st \<and> err \<noteq> Panic"
  by (auto simp: persist_def Let_def split: if_splits sum.splits)

lemma persist_succeeds:
  assumes "memory_ok X st"
  shows "(\<exists>st' r. persist X st e = (st', Inr r)) \<longleftrightarrow>
    event_str (event_id e) \<notin> event_ids st \<and> is_ok (hash_chain X (all_events st @ [e]))"
proof -
  have "is_ok (hash_chain X (all_events st @ [e])) \<longleftrightarrow> is_ok (Hash_Chain.event_hash X e (last_hash st))"
    using assms last_event_hash [OF assms]
    by (simp add: hash_chain_def hash_chain_from_snoc memory_ok_def is_ok_iff)
  then show ?thesis
    by (cases "Hash_Chain.event_hash X e (last_hash st)") (auto simp: persist_def Let_def)
qed

section \<open>The store provides the contract\<close>

lemma append_Inr:
  assumes "memory_ok X st" and "append X st e = (st', Inr r)"
  shows "arbitrate (load_fact_events st) e = Inr ()" and "persist X st e = (st', Inr r)"
  using assms(2) by (auto simp: append_def split: sum.splits)

lemma append_Inl: "append X st e = (st', Inl err) \<Longrightarrow> st' = st"
  by (auto simp: append_def split: sum.splits dest: persist_Inl)

interpretation mem: event_store load_fact_events "append X" all_events "memory_ok X" for X
proof unfold_locales
  fix s f
  assume "memory_ok X s"
  then show "load_fact_events s f = Inr (stream_of f (all_events s))" by (rule load_ok)
next
  fix s e s' and r :: "StoreError fault + AppendReceipt"
  assume ok: "memory_ok X s" "append X s e = (s', r)"
  show "memory_ok X s' \<and> (all_events s' = all_events s \<or>
      arbitrate (load_fact_events s) e = Inr () \<and> all_events s' = all_events s @ [e])"
  proof (cases r)
    case (Inl err)
    then show ?thesis using append_Inl ok by metis
  next
    case (Inr x)
    then show ?thesis using append_Inr [OF ok(1)] persist_Inr [OF ok(1)] ok by blast
  qed
next
  fix s e s' and x :: AppendReceipt
  assume ok: "memory_ok X s" "append X s e = (s', Inr x)"
  show "all_events s' = all_events s @ [e]" using persist_Inr(2) [OF ok(1) append_Inr(2) [OF ok]] .
qed

lemma session_ok:
  "memory_ok X (append_session X new_store es) \<and> log_inv (all_events (append_session X new_store es))"
proof -
  have "log_inv (all_events new_store)" by (simp add: all_events_def new_store_def log_inv_Nil)
  from mem.session_keeps [OF memory_ok_new this] show ?thesis by (simp add: append_session_def)
qed

lemma verify_chain_ok: "memory_ok X st \<Longrightarrow> verify_chain X st"
  by (simp add: verify_chain_def memory_ok_def) (auto simp: set_zip)

section \<open>Reload\<close>

lemma memory_ok_unique:
  assumes "memory_ok X st" and "memory_ok X st'" and ev: "all_events st = all_events st'"
  shows "st = st'"
proof -
  have len: "length (log st) = length (log st')" using arg_cong [OF ev, of length] by (simp add: all_events_def)
  have hashes: "map event_hash (log st) = map event_hash (log st')"
    using assms by (simp add: memory_ok_def)
  have log: "log st = log st'"
  proof (rule nth_equalityI [OF len])
    fix i
    assume i: "i < length (log st)"
    have "event (log st ! i) = event (log st' ! i)"
      using arg_cong [OF ev, of "\<lambda>l. l ! i"] i len by (simp add: all_events_def)
    moreover have "event_hash (log st ! i) = event_hash (log st' ! i)"
      using arg_cong [OF hashes, of "\<lambda>l. l ! i"] i len by simp
    moreover have "StoredEvent.global_sequence (log st ! i) = StoredEvent.global_sequence (log st' ! i)"
      using assms i len by (simp add: memory_ok_def)
    ultimately show "log st ! i = log st' ! i" by simp
  qed
  have "by_fact st = by_fact st'"
    by (rule btm.entries_unique) (use assms log in \<open>simp_all add: memory_ok_def\<close>)
  with log assms ev show ?thesis by (simp add: memory_ok_def)
qed

lemma persist_all_append:
  "persist_all X st (es @ fs) = and_then (persist_all X st es) (\<lambda>s. persist_all X s fs)"
  by (induction es arbitrary: st) (auto split: prod.split sum.split)

lemma persist_all_ok:
  "memory_ok X st \<Longrightarrow> persist_all X st es = Inr st' \<Longrightarrow>
     memory_ok X st' \<and> all_events st' = all_events st @ es"
proof (induction es arbitrary: st)
  case (Cons e es)
  from Cons.prems(2) obtain s1 r where p: "persist X st e = (s1, Inr r)" "persist_all X s1 es = Inr st'"
    by (auto split: prod.splits sum.splits)
  note q = persist_Inr [OF Cons.prems(1) p(1)]
  from Cons.IH [OF q(1) p(2)] q(2) show ?case by simp
qed simp

lemma from_trusted_succeeds:
  "(\<exists>st. from_trusted_events X es = Inr st) \<longleftrightarrow>
     distinct (map (\<lambda>e. event_str (event_id e)) es) \<and> is_ok (hash_chain X es)"
proof (induction es rule: rev_induct)
  case Nil
  show ?case by (simp add: from_trusted_events_def hash_chain_def)
next
  case (snoc e es)
  have chain: "is_ok (hash_chain X (es @ [e])) \<Longrightarrow> is_ok (hash_chain X es)"
    by (auto simp: hash_chain_def hash_chain_from_snoc is_ok_iff)
  show ?case
  proof (cases "\<exists>st. from_trusted_events X es = Inr st")
    case False
    then have "\<not> (\<exists>st. from_trusted_events X (es @ [e]) = Inr st)"
      by (simp add: from_trusted_events_def persist_all_append)
    with False snoc chain show ?thesis by auto
  next
    case True
    then obtain st where st: "persist_all X new_store es = Inr st" by (auto simp: from_trusted_events_def)
    have ok: "memory_ok X st" "all_events st = es"
      using persist_all_ok [OF memory_ok_new st] by (simp_all add: all_events_def new_store_def)
    have "(\<exists>s. from_trusted_events X (es @ [e]) = Inr s) \<longleftrightarrow> (\<exists>s r. persist X st e = (s, Inr r))"
      using st by (auto simp: from_trusted_events_def persist_all_append split: prod.splits sum.splits)
    also have "\<dots> \<longleftrightarrow> event_str (event_id e) \<notin> event_ids st \<and> is_ok (hash_chain X (es @ [e]))"
      using persist_succeeds [OF ok(1)] ok(2) by simp
    finally show ?thesis using ok snoc True by (auto simp: memory_ok_def)
  qed
qed

lemma from_trusted_reload:
  assumes "memory_ok X st"
  shows "from_trusted_events X (all_events st) = Inr st"
proof -
  obtain st' where st': "from_trusted_events X (all_events st) = Inr st'"
    using from_trusted_succeeds [of X "all_events st"] assms by (auto simp: memory_ok_def)
  then have "memory_ok X st'" "all_events st' = all_events st"
    using persist_all_ok [OF memory_ok_new, of X "all_events st" st']
    by (auto simp: from_trusted_events_def all_events_def new_store_def)
  with memory_ok_unique [OF this(1) assms] st' show ?thesis by simp
qed

section \<open>Receipts and scans\<close>

lemma last_fact_indices:
  "fact_indices (log st) f \<noteq> [] \<Longrightarrow> log_at st (last (fact_indices (log st) f)) =
     Inr (last (filter (\<lambda>s. FactEvent.fact_id (event s) = f) (log st)))"
proof -
  assume ne: "fact_indices (log st) f \<noteq> []"
  have m: "map ((!) (log st)) (fact_indices (log st) f) = filter (\<lambda>s. FactEvent.fact_id (event s) = f) (log st)"
    unfolding fact_indices_def
    by (simp only: nth_filter_indices [of "log st" "\<lambda>s. FactEvent.fact_id (event s) = f"])
  have "last (fact_indices (log st) f) < length (log st)"
    using fact_indices_bound [OF last_in_set [OF ne]] .
  then show ?thesis using last_map [OF ne, of "(!) (log st)"] m by (simp add: log_at_def)
qed

lemma explain_with_ok:
  assumes ok: "memory_ok X st"
  shows "explain_with X st f now check =
    and_then (map_err Fail (replay_fact (stream_of f (all_events st)))) (\<lambda>r.
      Inr (map_option (\<lambda>s. receipt_of s (last (filter (\<lambda>s. FactEvent.fact_id (event s) = f) (log st))) now check) r))"
proof (cases "fact_indices (log st) f = []")
  case True
  then show ?thesis using ok by (simp add: explain_with_def memory_ok_def fact_indices_Nil)
next
  case False
  then obtain i js where i: "fact_indices (log st) f = i # js" by (cases "fact_indices (log st) f") auto
  have get: "btm_get (by_fact st) f = Some (i # js)" using ok i by (simp add: memory_ok_def)
  have "explain_with X st f now check =
      and_then (try_map (\<lambda>i. map_ok event (log_at st i)) (fact_indices (log st) f)) (\<lambda>events.
        and_then (map_err Fail (replay_fact events)) (\<lambda>r. case r of None \<Rightarrow> Inr None
          | Some s \<Rightarrow> and_then (log_at st (last (fact_indices (log st) f))) (\<lambda>l.
              Inr (Some (receipt_of s l now (check \<and> verify_chain X st))))))"
    by (simp only: explain_with_def get i option.case list.case)
  then show ?thesis
    unfolding indices_load last_fact_indices [OF False]
    by (cases "replay_fact (stream_of f (all_events st))")
      (auto simp: verify_chain_ok [OF ok] split: option.split)
qed

text \<open>A scan by subject and predicate sees each fact's whole stream or nothing of it.\<close>

definition has_shape :: "Subject \<Rightarrow> Predicate \<Rightarrow> FactState \<Rightarrow> bool" where
  "has_shape sj pd s \<longleftrightarrow> FactState.subject s = sj \<and> FactState.predicate s = pd"

lemma scan_pair:
  "scan_events st (pair_filter sj pd) =
     filter (\<lambda>e. FactEvent.subject e = sj \<and> FactEvent.predicate e = pd) (all_events st)"
proof -
  have eq: "opt_matches (Some a) b \<longleftrightarrow> b = a" for a b :: 'b by (auto simp: opt_matches_def)
  have none: "opt_matches None b" for b :: 'b by (simp add: opt_matches_def)
  show ?thesis
    by (simp add: scan_events_def pair_filter_def EventFilter_default_def eq none all_events_def
        filter_map comp_def)
qed

lemma stream_of_filter:
  assumes "log_inv es"
    and fs_def: "fs = filter (\<lambda>e. FactEvent.subject e = sj \<and> FactEvent.predicate e = pd) es"
  shows "stream_of f fs = (case fact_state es f of
      Some s \<Rightarrow> if has_shape sj pd s then stream_of f es else [] | None \<Rightarrow> [])"
proof -
  have swap: "stream_of f fs =
      filter (\<lambda>e. FactEvent.subject e = sj \<and> FactEvent.predicate e = pd) (stream_of f es)"
    unfolding fs_def stream_of_def filter_filter by (rule filter_cong) auto
  obtain r where r: "replay_fact (stream_of f es) = Inr r" using assms(1) log_inv_def by blast
  show ?thesis
  proof (cases r)
    case None
    then have "stream_of f es = []" using r by (simp add: replay_fact_None)
    then show ?thesis using swap by (simp add: fact_state_def)
  next
    case (Some s)
    then have st: "stream_state (stream_of f es) s" using r by (simp add: replay_fact_Some)
    have fs: "fact_state es f = Some s" using r Some by (simp add: fact_state_def)
    show ?thesis
    proof (cases "has_shape sj pd s")
      case True
      then have "\<forall>e \<in> set (stream_of f es). FactEvent.subject e = sj \<and> FactEvent.predicate e = pd"
        using stream_state_ids [OF st] by (simp add: has_shape_def)
      then show ?thesis using swap fs True by (simp add: filter_id_conv [THEN iffD2])
    next
      case False
      then have "\<forall>e \<in> set (stream_of f es). \<not> (FactEvent.subject e = sj \<and> FactEvent.predicate e = pd)"
        using stream_state_ids [OF st] by (auto simp: has_shape_def)
      then show ?thesis using swap fs False by (simp add: filter_False)
    qed
  qed
qed

lemma pair_projection:
  assumes inv: "log_inv (all_events st)"
  obtains pr where "replay_subject (scan_events st (pair_filter sj pd)) = Inr pr"
    and "btm_ok (facts pr)"
    and "\<And>f s. btm_get (facts pr) f = Some s \<longleftrightarrow> fact_state (all_events st) f = Some s \<and> has_shape sj pd s"
proof -
  let ?es = "all_events st" and ?fs = "scan_events st (pair_filter sj pd)"
  have str: "replay_fact (stream_of f ?fs) = Inr (case fact_state ?es f of
      Some s \<Rightarrow> if has_shape sj pd s then Some s else None | None \<Rightarrow> None)" for f
    unfolding stream_of_filter [OF inv scan_pair]
    by (auto simp: fact_state_def split: option.split sum.splits)
  then have "\<forall>f. \<exists>r. fold_fact (stream_of f ?fs) identity_policy = Inr r"
    by (simp add: replay_fact_def replay_fact_with_policy_def)
  then obtain pr where pr: "replay_subject ?fs = Inr pr"
    using replay_subject_ok [of ?fs identity_policy] by (auto simp: replay_subject_def)
  note get = replay_subject_get [OF pr [unfolded replay_subject_def]]
  have "btm_get (facts pr) f = (case fact_state ?es f of
      Some s \<Rightarrow> if has_shape sj pd s then Some s else None | None \<Rightarrow> None)" for f
    using get [THEN conjunct2, rule_format, of f] str [of f]
    by (simp add: replay_fact_def replay_fact_with_policy_def projection_get_def)
  then have "btm_get (facts pr) f = Some s \<longleftrightarrow> fact_state ?es f = Some s \<and> has_shape sj pd s" for f s
    by (auto split: option.split)
  with get that [OF pr] show ?thesis by blast
qed

lemma fact_state_stream: "fact_state es f = Some s \<longleftrightarrow> stream_state (stream_of f es) s"
  by (auto simp: fact_state_def replay_fact_Some [symmetric] split: sum.splits option.splits)

lemma fact_state_id: "fact_state es f = Some s \<Longrightarrow> FactState.fact_id s = f"
  unfolding fact_state_stream by (rule stream_state_of)

definition believed_in :: "FactEvent list \<Rightarrow> Subject \<Rightarrow> Predicate \<Rightarrow> FactState set" where
  "believed_in es sj pd =
     {s. \<exists>f. fact_state es f = Some s \<and> has_shape sj pd s \<and> \<not> is_terminal (FactState.lifecycle s)}"

lemma believed_set:
  assumes "btm_ok (facts pr)"
    and "\<And>f s. btm_get (facts pr) f = Some s \<longleftrightarrow> fact_state es f = Some s \<and> has_shape sj pd s"
  shows "set (believed pr) = believed_in es sj pd"
  using assms(2) by (auto simp: believed_def believed_in_def btm_values_get [OF assms(1)])

lemma believed_sorted:
  assumes "btm_ok (facts pr)"
    and "\<And>f s. btm_get (facts pr) f = Some s \<Longrightarrow> FactState.fact_id s = f"
  shows "sorted_wrt (<) (map FactState.fact_id (believed pr))"
proof -
  have "map FactState.fact_id (btm_values (facts pr)) = map fst (facts pr)"
    unfolding btm_values_def using assms(2) btm_in_set [OF assms(1)] by auto
  then have "sorted_wrt (<) (map FactState.fact_id (btm_values (facts pr)))"
    using assms(1) by (simp add: btm_ok_def)
  then show ?thesis unfolding believed_def sorted_wrt_map by (rule sorted_wrt_filter)
qed

lemma pick_believed_None: "pick_believed pr now = None \<longleftrightarrow> believed pr = []"
  by (auto simp: pick_believed_def or_else_def first_of_def find_None_iff split: option.splits list.splits)

lemma pick_believed_Some:
  assumes "pick_believed pr now = Some s"
  shows "s \<in> set (believed pr)"
    and "t \<in> set (believed pr) \<Longrightarrow> FactState.lifecycle t = Contested \<Longrightarrow> \<not> is_expired_at t now \<Longrightarrow>
      FactState.lifecycle s = Contested \<and> \<not> is_expired_at s now"
    and "t \<in> set (believed pr) \<Longrightarrow> \<not> is_expired_at t now \<Longrightarrow> \<not> is_expired_at s now"
  using assms
  by (auto simp: pick_believed_def or_else_def first_of_def find_None_iff find_Some_iff
      split: option.splits list.splits)

lemma append_cases:
  assumes ok: "memory_ok X st" and a: "append X st e = (st', r)"
  shows "(case r of
      Inr rc \<Rightarrow> all_events st' = all_events st @ [e] \<and> last_hash st' = Some (receipt_hash rc)
    | Inl err \<Rightarrow> st' = st \<and> err \<noteq> Panic) \<and>
    (is_ok r \<longleftrightarrow>
       firewall_admits e (stream_of (FactEvent.fact_id e) (all_events st))
         (case FactEvent.kind e of
            FactEventKind.Superseded g _ \<Rightarrow> Some (stream_of g (all_events st)) | _ \<Rightarrow> None) \<and>
       event_str (event_id e) \<notin> event_ids st \<and> is_ok (hash_chain X (all_events st @ [e])))"
proof -
  note arb = mem.arbitrate_load [OF ok, of e]
  show ?thesis
  proof (cases "arbitrate (load_fact_events st) e")
    case (Inl err)
    then have d: "arbitrate_events e (stream_of (FactEvent.fact_id e) (all_events st))
       (case FactEvent.kind e of
          FactEventKind.Superseded g _ \<Rightarrow> Some (stream_of g (all_events st)) | _ \<Rightarrow> None) = Inl err"
      by (simp only: arb)
    then have "\<not> firewall_admits e (stream_of (FactEvent.fact_id e) (all_events st))
       (case FactEvent.kind e of
          FactEventKind.Superseded g _ \<Rightarrow> Some (stream_of g (all_events st)) | _ \<Rightarrow> None)"
      unfolding arbitrate_events_Inr [symmetric] by simp
    moreover have "err \<noteq> Panic" using d arbitrate_events_no_panic by blast
    moreover have "st' = st" "r = Inl err" using Inl a by (simp_all add: append_def)
    ultimately show ?thesis by simp
  next
    case (Inr u)
    then have "firewall_admits e (stream_of (FactEvent.fact_id e) (all_events st))
       (case FactEvent.kind e of
          FactEventKind.Superseded g _ \<Rightarrow> Some (stream_of g (all_events st)) | _ \<Rightarrow> None)"
      by (simp flip: arbitrate_events_Inr arb)
    moreover have p: "persist X st e = (st', r)" using Inr a by (simp add: append_def)
    moreover have "is_ok r \<longleftrightarrow>
        event_str (event_id e) \<notin> event_ids st \<and> is_ok (hash_chain X (all_events st @ [e]))"
      using persist_succeeds [OF ok, of e] p by (auto simp: is_ok_iff)
    ultimately show ?thesis
      using persist_Inr [OF ok] persist_Inl [of X st e st'] by (cases r) auto
  qed
qed

lemma session_replays:
  assumes "log_inv es"
  obtains pr where "replay_subject es = Inr pr" and "btm_ok (facts pr)"
    and "\<And>f s. btm_get (facts pr) f = Some s \<longleftrightarrow> fact_state es f = Some s"
proof -
  have "\<forall>f. \<exists>r. fold_fact (stream_of f es) identity_policy = Inr r"
    using assms by (simp add: log_inv_def replay_fact_def replay_fact_with_policy_def)
  then obtain pr where pr: "replay_subject es = Inr pr"
    using replay_subject_ok [of es identity_policy] by (auto simp: replay_subject_def)
  note get = replay_subject_get [OF pr [unfolded replay_subject_def]]
  have "btm_get (facts pr) f = Some s \<longleftrightarrow> fact_state es f = Some s" for f s
    using get [THEN conjunct2, rule_format, of f]
    by (simp add: fact_state_def replay_fact_def replay_fact_with_policy_def projection_get_def
        split: option.split)
  with get pr that show ?thesis by blast
qed

section \<open>Properties\<close>

text \<open>
  C5: Append is the firewall and is atomic. On every store built by appends, an append succeeds
  exactly when the firewall admits the event against the log as it stands, its identifier is new
  and it can be hashed; then the log gains exactly this event. Otherwise the store is unchanged,
  and no append panics.
\<close>

theorem append_is_firewalled:
  assumes "st = append_session X new_store es" and "append X st e = (st', r)"
  shows "(is_ok r \<longleftrightarrow>
      firewall_admits e (stream_of (FactEvent.fact_id e) (all_events st))
        (case FactEvent.kind e of
           FactEventKind.Superseded g _ \<Rightarrow> Some (stream_of g (all_events st)) | _ \<Rightarrow> None) \<and>
      event_str (event_id e) \<notin> (\<lambda>e. event_str (event_id e)) ` set (all_events st) \<and>
      is_ok (hash_chain X (all_events st @ [e]))) \<and>
    (is_ok r \<longrightarrow> all_events st' = all_events st @ [e]) \<and>
    (\<not> is_ok r \<longrightarrow> st' = st \<and> r \<noteq> Inl Panic)"
proof -
  have ok: "memory_ok X st" using session_ok assms(1) by blast
  then have "event_ids st = (\<lambda>e. event_str (event_id e)) ` set (all_events st)"
    by (simp add: memory_ok_def)
  with append_cases [OF ok assms(2)] show ?thesis by (cases r) auto
qed

text \<open>
  C4: No laundering and no dangling lineage in any arbitrated log. Whatever events are offered to
  a store in whatever order, every fact stream of the resulting log replays, every recorded
  successor exists and is not below the fact it replaced, and accordingly the audits never report
  a dangling supersession or an authority downgrade.
\<close>

theorem arbitrated_log_sound:
  assumes "st = append_session X new_store es"
  shows "\<exists>pr. replay_subject (all_events st) = Inr pr \<and>
    (\<forall>f s g. projection_get pr f = Some s \<and> FactState.superseded_by s = Some g \<longrightarrow>
       (\<exists>t. projection_get pr g = Some t \<and> state_level s \<le> state_level t)) \<and>
    (\<forall>f g. DanglingSupersession f g \<notin> set (lineage_issues pr)) \<and>
    (\<forall>f g i c. AuthorityDowngrade f g i c \<notin> set (unearned_supersessions pr))"
proof -
  have inv: "log_inv (all_events st)" using session_ok assms by blast
  obtain pr where pr: "replay_subject (all_events st) = Inr pr" "btm_ok (facts pr)"
    and get: "\<And>f s. btm_get (facts pr) f = Some s \<longleftrightarrow> fact_state (all_events st) f = Some s"
    by (rule session_replays [OF inv]) blast
  have succ: "\<exists>t. btm_get (facts pr) g = Some t \<and> state_level s \<le> state_level t"
    if "btm_get (facts pr) f = Some s" "FactState.superseded_by s = Some g" for f s g
    using that inv unfolding get log_inv_def by blast
  have vals: "\<exists>f. btm_get (facts pr) f = Some s" if "s \<in> set (btm_values (facts pr))" for s
    using that btm_values_get [OF pr(2)] by blast
  have "lineage_issue pr oc s \<noteq> Some (DanglingSupersession f g)" if "s \<in> set (btm_values (facts pr))" for s f g oc
    using vals [OF that] succ by (fastforce simp: lineage_issue_def split: option.splits if_splits)
  moreover have "unearned_supersession pr oc s \<noteq> Some (AuthorityDowngrade f g i c)"
    if "s \<in> set (btm_values (facts pr))" for s f g i c oc
    using vals [OF that] succ
    by (fastforce simp: unearned_supersession_def Let_def split: option.splits if_splits)
  ultimately show ?thesis
    using pr(1) succ unfolding projection_get_def lineage_issues_def unearned_supersessions_def set_map_filter
    by blast
qed

text \<open>
  The stored chain is consistent and the log is the whole state: a store built by appends
  passes its own chain verification, and reloading its events through the trusted path rebuilds
  the very same store, index, identifiers, sequence numbers and hashes included.
\<close>

theorem reload_roundtrip:
  assumes "st = append_session X new_store es"
  shows "verify_chain X st \<and> from_trusted_events X (all_events st) = Inr st"
  using session_ok assms verify_chain_ok from_trusted_reload by blast

text \<open>
  A trusted load accepts exactly the logs with distinct event identifiers whose chain can be
  computed, and what it builds has these events and passes verification; it never panics.
\<close>

theorem trusted_load:
  "((\<exists>st. from_trusted_events X es = Inr st) \<longleftrightarrow>
      distinct (map (\<lambda>e. event_str (event_id e)) es) \<and> is_ok (hash_chain X es)) \<and>
   (\<forall>st. from_trusted_events X es = Inr st \<longrightarrow> all_events st = es \<and> verify_chain X st)"
  using from_trusted_succeeds [of X es] persist_all_ok [OF memory_ok_new, of X es]
  by (auto simp: from_trusted_events_def verify_chain_ok) (auto simp: all_events_def new_store_def)

text \<open>
  Reads of an arbitrated store never fail and never lie about its chain. A receipt exists
  exactly for the facts with events, reports the replayed state's value, lifecycle and authority
  and its freshness at the asked instant, and says the chain is verified.
\<close>

theorem explain_total:
  assumes "st = append_session X new_store es"
  shows "(fact_state (all_events st) f = None \<longrightarrow> explain X st f now = Inr None) \<and>
    (\<forall>s. fact_state (all_events st) f = Some s \<longrightarrow>
      (\<exists>rc. explain X st f now = Inr (Some rc) \<and> fact_id rc = f \<and> val rc = FactState.val s \<and>
         lifecycle rc = FactState.lifecycle s \<and> receipt_authority rc = state_level s \<and>
         fresh rc = is_fresh_at s now \<and> chain_verified rc))"
proof -
  have ok: "memory_ok X st" and inv: "log_inv (all_events st)" using session_ok assms by blast+
  obtain r where r: "replay_fact (stream_of f (all_events st)) = Inr r" using inv log_inv_def by blast
  then have "fact_state (all_events st) f = r" by (simp add: fact_state_def split: option.split)
  with r show ?thesis
    using fact_state_id [of "all_events st" f] verify_chain_ok [OF ok]
    by (cases r) (auto simp: explain_def explain_with_ok [OF ok] explain_with_ok receipt_of_def)
qed

text \<open>
  What \<open>supersede\<close> must revise. On an arbitrated store the believed fact ids of a subject and
  predicate are computed without failure, strictly sorted, and are exactly the facts of that
  shape whose replayed lifecycle is not terminal.
\<close>

theorem believed_fact_ids_exact:
  assumes "st = append_session X new_store es"
  shows "\<exists>ids. believed_fact_ids st sj pd = Inr ids \<and> sorted_wrt (<) ids \<and>
    (\<forall>f. f \<in> set ids \<longleftrightarrow> (\<exists>s. fact_state (all_events st) f = Some s \<and>
       FactState.subject s = sj \<and> FactState.predicate s = pd \<and> \<not> is_terminal (FactState.lifecycle s)))"
proof -
  have inv: "log_inv (all_events st)" using session_ok assms by blast
  obtain pr where pr: "replay_subject (scan_events st (pair_filter sj pd)) = Inr pr" "btm_ok (facts pr)"
    and get: "\<And>f s. btm_get (facts pr) f = Some s \<longleftrightarrow> fact_state (all_events st) f = Some s \<and> has_shape sj pd s"
    by (rule pair_projection [OF inv]) blast
  have "sorted_wrt (<) (map FactState.fact_id (believed pr))"
    by (rule believed_sorted [OF pr(2)]) (auto simp: get dest: fact_state_id)
  moreover have "f \<in> set (map FactState.fact_id (believed pr)) \<longleftrightarrow>
      (\<exists>s. fact_state (all_events st) f = Some s \<and> FactState.subject s = sj \<and>
         FactState.predicate s = pd \<and> \<not> is_terminal (FactState.lifecycle s))" for f
    using fact_state_id
    by (auto simp: believed_set [OF pr(2) get] believed_in_def has_shape_def image_iff)
  ultimately show ?thesis using pr(1) by (simp add: believed_fact_ids_def)
qed

text \<open>
  A conflict is never hidden behind a tidy answer. On an arbitrated store the current-fact
  read of a subject and predicate does not fail; it answers nothing only when nothing is believed;
  otherwise it reports a believed fact, and one that is contested and unexpired whenever such a
  fact exists, and one that is unexpired whenever such a fact exists.
\<close>

theorem explain_subject_priority:
  assumes "st = append_session X new_store es"
  shows "\<exists>r. explain_subject X st sj pd now = Inr r \<and>
    (r = None \<longleftrightarrow> believed_in (all_events st) sj pd = {}) \<and>
    (\<forall>rc. r = Some rc \<longrightarrow> (\<exists>s \<in> believed_in (all_events st) sj pd.
       rc = receipt_of s (last (filter (\<lambda>v. FactEvent.fact_id (event v) = fact_id rc) (log st))) now True \<and>
       ((\<exists>t \<in> believed_in (all_events st) sj pd.
           FactState.lifecycle t = Contested \<and> \<not> is_expired_at t now) \<longrightarrow>
          lifecycle rc = Contested \<and> \<not> is_expired_at s now) \<and>
       ((\<exists>t \<in> believed_in (all_events st) sj pd. \<not> is_expired_at t now) \<longrightarrow> \<not> is_expired_at s now)))"
proof -
  have ok: "memory_ok X st" and inv: "log_inv (all_events st)" using session_ok assms by blast+
  obtain pr where pr: "replay_subject (scan_events st (pair_filter sj pd)) = Inr pr" "btm_ok (facts pr)"
    and get: "\<And>f s. btm_get (facts pr) f = Some s \<longleftrightarrow> fact_state (all_events st) f = Some s \<and> has_shape sj pd s"
    by (rule pair_projection [OF inv]) blast
  note bel = believed_set [OF pr(2) get]
  show ?thesis
  proof (cases "pick_believed pr now")
    case None
    then have "believed pr = []" by (simp add: pick_believed_None)
    then show ?thesis using None pr(1) bel by (auto simp: explain_subject_def)
  next
    case (Some s)
    note pick = pick_believed_Some [OF Some, unfolded bel]
    obtain f where f: "fact_state (all_events st) f = Some s" using pick(1) by (auto simp: believed_in_def)
    have id: "FactState.fact_id s = f" by (rule fact_state_id [OF f])
    have "replay_fact (stream_of f (all_events st)) = Inr (Some s)"
      using f by (simp add: fact_state_stream replay_fact_Some)
    then have "explain_subject X st sj pd now =
        Inr (Some (receipt_of s (last (filter (\<lambda>v. FactEvent.fact_id (event v) = f) (log st))) now True))"
      using pr(1) Some id by (simp add: explain_subject_def explain_def explain_with_ok [OF ok])
    then show ?thesis using pick id by (auto simp: receipt_of_def)
  qed
qed

section \<open>Witnesses\<close>

text \<open>A session in which an admitted supersession is preceded by a laundered one.\<close>

definition sample_session :: "FactEvent list" where
  "sample_session = [sample_assert ''event:1'' ''fact:1'' High, sample_assert ''event:3'' ''fact:2'' High,
     sample_supersede High]"

lemma sample_firewall:
  "firewall_admits (sample_assert ''event:1'' ''fact:1'' l) [] None"
  by (simp add: firewall_admits_def sample_defs transition_eval)

lemma sample_hashable: "is_ok (hash_chain sample_externs es)"
proof -
  have "try_map (canonical_bytes sample_externs) es = Inr (map (\<lambda>e. as_bytes (take 64 (event_str (event_id e)))) es)"
    by (rule try_map_all_ok) (rule sample_canonical)
  then show ?thesis by (simp add: hash_chain_eq [OF sample_externs_ok(1)])
qed

lemma new_store_session: "new_store = append_session X new_store []"
  by (simp add: append_session_def)

theorem append_is_firewalled_witness:
  "\<exists>st' r. append sample_externs new_store (sample_assert ''event:1'' ''fact:1'' High) = (st', r) \<and> is_ok r \<and>
     all_events st' = [sample_assert ''event:1'' ''fact:1'' High]"
proof -
  obtain st' r where a: "append sample_externs new_store (sample_assert ''event:1'' ''fact:1'' High) = (st', r)"
    by force
  have k: "FactEvent.kind (sample_assert ''event:1'' ''fact:1'' High) = Asserted" by (simp add: sample_defs)
  have "all_events new_store = []" by (simp add: all_events_def new_store_def)
  then show ?thesis
    using append_is_firewalled [OF new_store_session a] a sample_hashable k sample_firewall
    by (simp add: stream_of_def)
qed

lemma sample_first_append:
  "\<exists>st. append_session sample_externs new_store [sample_assert ''event:1'' ''fact:1'' High] = st \<and>
     all_events st = [sample_assert ''event:1'' ''fact:1'' High]"
proof -
  obtain st' r where a: "append sample_externs new_store (sample_assert ''event:1'' ''fact:1'' High) = (st', r)"
    by force
  have k: "FactEvent.kind (sample_assert ''event:1'' ''fact:1'' High) = Asserted" by (simp add: sample_defs)
  have e: "all_events new_store = []" "event_ids new_store = {}" by (simp_all add: all_events_def new_store_def)
  have "is_ok r"
    using append_cases [OF memory_ok_new a] sample_hashable k sample_firewall e
    by (simp add: stream_of_def)
  then have "all_events st' = [sample_assert ''event:1'' ''fact:1'' High]"
    using append_cases [OF memory_ok_new a] e by (cases r) auto
  with a show ?thesis by (simp add: append_session_def)
qed

theorem arbitrated_log_sound_witness:
  "\<exists>pr. replay_subject (all_events (append_session sample_externs new_store sample_session)) = Inr pr"
  using arbitrated_log_sound [OF refl, of sample_externs sample_session] by blast

theorem reload_roundtrip_witness:
  "verify_chain sample_externs (append_session sample_externs new_store sample_session)"
  using reload_roundtrip [OF refl, of sample_externs sample_session] by blast

theorem trusted_load_witness:
  "\<exists>st. from_trusted_events sample_externs sample_session = Inr st \<and> all_events st = sample_session"
  using trusted_load [of sample_externs sample_session] sample_hashable
  by (auto simp: sample_session_def sample_state_defs)

lemma sample_first_state:
  "fact_state [sample_assert ''event:1'' ''fact:1'' High] (FactId ''fact:1'') = Some (sample_open High)"
  by (simp add: fact_state_def stream_of_def sample_assert_replay) (simp add: sample_defs)

theorem explain_total_witness:
  "\<exists>rc. explain sample_externs
      (append_session sample_externs new_store [sample_assert ''event:1'' ''fact:1'' High]) (FactId ''fact:1'') (TimestampMillis 5) =
     Inr (Some rc) \<and> receipt_authority rc = High"
  using explain_total [OF refl, of sample_externs "[sample_assert ''event:1'' ''fact:1'' High]" "FactId ''fact:1''" "TimestampMillis 5"]
    sample_first_append sample_first_state by (auto simp: sample_open_def)

theorem believed_fact_ids_exact_witness:
  "\<exists>ids. believed_fact_ids
      (append_session sample_externs new_store [sample_assert ''event:1'' ''fact:1'' High])
      (Subject ''repo'' ''dent8'') (Predicate ''database'') = Inr ids \<and> FactId ''fact:1'' \<in> set ids"
  using believed_fact_ids_exact [OF refl, of sample_externs "[sample_assert ''event:1'' ''fact:1'' High]"
      "Subject ''repo'' ''dent8''" "Predicate ''database''"] sample_first_append sample_first_state
  by (auto simp: sample_open_def)

theorem explain_subject_priority_witness:
  "\<exists>rc. explain_subject sample_externs
      (append_session sample_externs new_store [sample_assert ''event:1'' ''fact:1'' High])
      (Subject ''repo'' ''dent8'') (Predicate ''database'') (TimestampMillis 5) = Inr (Some rc)"
proof -
  have "sample_open High \<in> believed_in [sample_assert ''event:1'' ''fact:1'' High]
      (Subject ''repo'' ''dent8'') (Predicate ''database'')"
    using sample_first_state by (auto simp: believed_in_def has_shape_def sample_open_def)
  with explain_subject_priority [OF refl, of sample_externs "[sample_assert ''event:1'' ''fact:1'' High]"
      "Subject ''repo'' ''dent8''" "Predicate ''database''" "TimestampMillis 5"] sample_first_append
  show ?thesis by (metis empty_iff not_None_eq)
qed

end
