(* ===== verification/Registry.thy ===== *)
theory Registry
  imports Memory_Store
begin

text \<open>
  \<open>crates/dent8-store/src/registry.rs\<close>: the predicate registry and the policy layer above the
  firewall: authority floors for assertions, retention ceilings on finite freshness claims, and
  uniqueness of the fresh belief. \<open>enforce_policy\<close> reads the store only through a scan, which
  is its argument here.
\<close>

section \<open>The registry\<close>

definition DEFAULT_MAX_TTL_MS :: u64 where
  "DEFAULT_MAX_TTL_MS = 90 * 24 * 60 * 60 * 1000"

definition VOLATILE_RETENTION_CEILING_MS :: u64 where
  "VOLATILE_RETENTION_CEILING_MS = 7 * 24 * 60 * 60 * 1000"

datatype Volatility = Stable | Volatile

definition retention_ceiling :: "Volatility \<Rightarrow> Ttl option" where
  "retention_ceiling v = (case v of
      Volatile \<Rightarrow> Some (DurationMillis VOLATILE_RETENTION_CEILING_MS) | Stable \<Rightarrow> None)"

record PredicatePolicy =
  assert_floor :: AuthorityLevel
  default_ttl :: Ttl
  unique :: bool
  volatility :: Volatility
  max_ttl :: "Ttl option"

record PredicateRegistry =
  policies :: "(string \<times> string, PredicatePolicy) btree"
  registry_max_ttl :: Ttl

definition registry_default :: PredicateRegistry where
  "registry_default = \<lparr>policies = [], registry_max_ttl = DurationMillis DEFAULT_MAX_TTL_MS\<rparr>"

definition register ::
    "string \<Rightarrow> string \<Rightarrow> AuthorityLevel \<Rightarrow> Ttl \<Rightarrow> bool \<Rightarrow> Volatility \<Rightarrow> PredicateRegistry \<Rightarrow> PredicateRegistry" where
  "register k p fl t u v R = R\<lparr>policies := btm_insert (k, p)
     \<lparr>assert_floor = fl, default_ttl = t, unique = u, volatility = v, max_ttl = None\<rparr> (policies R)\<rparr>"

definition coding_agent :: PredicateRegistry where
  "coding_agent =
     register ''user'' ''preference'' Medium Never True Stable
     (register ''branch'' ''status'' Low (DurationMillis 3600000) True Volatile
     (register ''dependency'' ''version'' Medium Never True Volatile
     (register ''repo'' ''test_command'' Medium Never True Stable
     (register ''repo'' ''database'' High Never True Stable registry_default))))"

definition policy_for :: "PredicateRegistry \<Rightarrow> Subject \<Rightarrow> Predicate \<Rightarrow> PredicatePolicy option" where
  "policy_for R sj pd = btm_get (policies R) (subject_kind sj, predicate_str pd)"

definition with_max_ttl :: "Ttl \<Rightarrow> PredicateRegistry \<Rightarrow> PredicateRegistry" where
  "with_max_ttl t R = R\<lparr>registry_max_ttl := t\<rparr>"

definition set_max_ttl :: "Ttl \<Rightarrow> PredicateRegistry \<Rightarrow> PredicateRegistry" where
  "set_max_ttl t R = R\<lparr>registry_max_ttl := t\<rparr>"

definition set_predicate_max_ttl ::
    "string \<Rightarrow> string \<Rightarrow> Ttl option \<Rightarrow> PredicateRegistry \<Rightarrow> PredicateRegistry" where
  "set_predicate_max_ttl k p t R = (case btm_get (policies R) (k, p) of
      None \<Rightarrow> R
    | Some pol \<Rightarrow> R\<lparr>policies := btm_insert (k, p) (pol\<lparr>max_ttl := t\<rparr>) (policies R)\<rparr>)"

definition display_key :: "Subject \<Rightarrow> Predicate \<Rightarrow> string" where
  "display_key sj pd = subject_kind sj @ ''.'' @ predicate_str pd"

section \<open>Freshness claims\<close>

definition delta_ms :: "TimestampMillis \<Rightarrow> TimestampMillis \<Rightarrow> u64" where
  "delta_ms at anchor =
     (case u64_try_from_i64 (i64_saturating_sub (as_unix_millis at) (as_unix_millis anchor)) of
        Some d \<Rightarrow> d | None \<Rightarrow> 0)"

definition bounded_ttl_ms :: "FactEvent \<Rightarrow> u64 option" where
  "bounded_ttl_ms e = (case FactEvent.ttl e of
      Never \<Rightarrow> None
    | DurationMillis d \<Rightarrow> Some d
    | ExpiresAt at \<Rightarrow>
        Some (delta_ms at (case FactEvent.valid_from e of Some t \<Rightarrow> t | None \<Rightarrow> recorded_at (provenance e))))"

definition bounded_valid_to_ms :: "FactEvent \<Rightarrow> u64 option" where
  "bounded_valid_to_ms e = (case FactEvent.valid_to e of
      None \<Rightarrow> None
    | Some v \<Rightarrow> Some (delta_ms v (case or_else (FactEvent.valid_from e) (observed_at e) of
          Some t \<Rightarrow> t | None \<Rightarrow> recorded_at (provenance e))))"

definition ceiling_ms :: "Ttl \<Rightarrow> u64 option" where
  "ceiling_ms c = (case c of DurationMillis d \<Rightarrow> Some d | Never \<Rightarrow> None | ExpiresAt _ \<Rightarrow> None)"

section \<open>The policy layer\<close>

definition apply_policy_defaults :: "PredicateRegistry \<Rightarrow> FactEvent \<Rightarrow> FactEvent" where
  "apply_policy_defaults R e =
     (case policy_for R (FactEvent.subject e) (FactEvent.predicate e) of
        Some pol \<Rightarrow>
          if FactEvent.kind e = Asserted \<and> FactEvent.ttl e = Never then e\<lparr>FactEvent.ttl := default_ttl pol\<rparr> else e
      | None \<Rightarrow> e)"

text \<open>\<open>if let (Some(c), Some(t)) = (ceiling, claim) && t > c\<close>\<close>

definition exceeds :: "u64 option \<Rightarrow> u64 option \<Rightarrow> (u64 \<times> u64) option" where
  "exceeds ceiling claim = (case (ceiling, claim) of
      (Some c, Some t) \<Rightarrow> if c < t then Some (t, c) else None | _ \<Rightarrow> None)"

definition policy_ceiling :: "PredicatePolicy \<Rightarrow> Ttl option" where
  "policy_ceiling pol = or_else (max_ttl pol) (retention_ceiling (volatility pol))"

definition effective_ceiling :: "PredicateRegistry \<Rightarrow> PredicatePolicy option \<Rightarrow> Ttl" where
  "effective_ceiling R policy = (case Option.bind policy policy_ceiling of
      Some c \<Rightarrow> c | None \<Rightarrow> registry_max_ttl R)"

definition enforce_policy ::
    "PredicateRegistry \<Rightarrow> (EventFilter \<Rightarrow> StoreError fault + FactEvent list) \<Rightarrow> FactEvent \<Rightarrow>
       TimestampMillis \<Rightarrow> StoreError fault + unit" where
  "enforce_policy R scan e now =
     (let policy = policy_for R (FactEvent.subject e) (FactEvent.predicate e);
          asserted = (FactEvent.kind e = Asserted);
          key = display_key (FactEvent.subject e) (FactEvent.predicate e);
          unique_check = (\<lambda>pol.
            and_then (scan (pair_filter (FactEvent.subject e) (FactEvent.predicate e))) (\<lambda>events.
              and_then (map_err (\<lambda>err. Fail (Replay err)) (replay_subject events)) (\<lambda>pr.
                if \<exists>s \<in> set (filter (\<lambda>s. \<not> is_expired_at s now) (believed pr)).
                     FactState.fact_id s \<noteq> FactEvent.fact_id e
                then Inl (Fail (UniquenessViolation key))
                else Inr ())))
      in case policy of
          Some pol \<Rightarrow>
            if asserted \<and> event_level e < assert_floor pol
            then Inl (Fail (BelowAuthorityFloor key (assert_floor pol) (event_level e)))
            else (case (if asserted
                        then exceeds (ceiling_ms (effective_ceiling R policy)) (bounded_ttl_ms e)
                        else None) of
                Some (t, c) \<Rightarrow> Inl (Fail (TtlCeilingExceeded key t c))
              | None \<Rightarrow>
                  (case (if asserted
                         then exceeds (Option.bind (policy_ceiling pol) ceiling_ms) (bounded_valid_to_ms e)
                         else None) of
                     Some (t, c) \<Rightarrow> Inl (Fail (TtlCeilingExceeded key t c))
                   | None \<Rightarrow> if unique pol \<and> asserted then unique_check pol else Inr ()))
        | None \<Rightarrow>
            (case (if asserted
                   then exceeds (ceiling_ms (effective_ceiling R policy)) (bounded_ttl_ms e)
                   else None) of
                Some (t, c) \<Rightarrow> Inl (Fail (TtlCeilingExceeded key t c))
              | None \<Rightarrow> Inr ()))"

section \<open>Uniqueness of a folded projection\<close>

definition accounted_ids :: "FactState list \<Rightarrow> FactId list" where
  "accounted_ids grp = concat (map (\<lambda>s.
     if FactState.lifecycle s = Contested then FactState.fact_id s # FactState.contradicted_by s else []) grp)"

fun unique_loop ::
    "PredicateRegistry \<Rightarrow> FactState list \<Rightarrow> (string \<times> string \<times> string) set \<Rightarrow> FactState list \<Rightarrow> StoreError + unit" where
  "unique_loop R live checked [] = Inr ()"
| "unique_loop R live checked (s # rest) =
     (let key = (subject_kind (FactState.subject s), subject_key (FactState.subject s),
                 predicate_str (FactState.predicate s))
      in if key \<in> checked then unique_loop R live checked rest
         else let checked' = insert key checked in
           (case policy_for R (FactState.subject s) (FactState.predicate s) of
              None \<Rightarrow> unique_loop R live checked' rest
            | Some pol \<Rightarrow>
                if \<not> unique pol then unique_loop R live checked' rest
                else let grp = filter (has_shape (FactState.subject s) (FactState.predicate s)) live in
                  if length grp \<le> 1 then unique_loop R live checked' rest
                  else if \<exists>c \<in> set grp. FactState.fact_id c \<notin> set (accounted_ids grp)
                  then Inl (UniquenessViolation (display_key (FactState.subject s) (FactState.predicate s)))
                  else unique_loop R live checked' rest))"

definition validate_unique_projection ::
    "PredicateRegistry \<Rightarrow> FactEvent list \<Rightarrow> TimestampMillis \<Rightarrow> StoreError + unit" where
  "validate_unique_projection R es now =
     and_then (map_err Replay (replay_subject es)) (\<lambda>pr.
       let live = filter (\<lambda>s. \<not> is_expired_at s now) (believed pr) in unique_loop R live {} live)"

section \<open>Lemmas\<close>

lemma exceeds_None: "exceeds c t = None \<longleftrightarrow> (\<forall>x y. c = Some x \<longrightarrow> t = Some y \<longrightarrow> y \<le> x)"
  by (auto simp: exceeds_def split: option.split)

lemma exceeds_Some: "exceeds c t = Some (y, x) \<longleftrightarrow> c = Some x \<and> t = Some y \<and> x < y"
  by (auto simp: exceeds_def split: option.split)

text \<open>The uniqueness scan against an arbitrated in-memory store.\<close>

definition scan_of :: "InMemoryEventStore \<Rightarrow> EventFilter \<Rightarrow> StoreError fault + FactEvent list" where
  "scan_of st fl = Inr (scan_events st fl)"

definition fresh_rival :: "FactEvent list \<Rightarrow> FactEvent \<Rightarrow> TimestampMillis \<Rightarrow> FactState \<Rightarrow> bool" where
  "fresh_rival es e now s \<longleftrightarrow>
     s \<in> believed_in es (FactEvent.subject e) (FactEvent.predicate e) \<and> \<not> is_expired_at s now \<and>
     FactState.fact_id s \<noteq> FactEvent.fact_id e"

lemma unique_scan:
  assumes "log_inv (all_events st)"
  shows "and_then (scan_of st (pair_filter (FactEvent.subject e) (FactEvent.predicate e))) (\<lambda>events.
      and_then (map_err (\<lambda>err. Fail (Replay err)) (replay_subject events)) (\<lambda>pr.
        if \<exists>s \<in> set (filter (\<lambda>s. \<not> is_expired_at s now) (believed pr)).
             FactState.fact_id s \<noteq> FactEvent.fact_id e
        then Inl (Fail (UniquenessViolation key)) else Inr ())) =
    (if \<exists>s. fresh_rival (all_events st) e now s then Inl (Fail (UniquenessViolation key)) else Inr ())"
proof -
  obtain pr where pr: "replay_subject (scan_events st (pair_filter (FactEvent.subject e) (FactEvent.predicate e))) = Inr pr"
    "btm_ok (facts pr)"
    and get: "\<And>f s. btm_get (facts pr) f = Some s \<longleftrightarrow>
      fact_state (all_events st) f = Some s \<and> has_shape (FactEvent.subject e) (FactEvent.predicate e) s"
    by (rule pair_projection [OF assms]) blast
  show ?thesis
    by (auto simp: scan_of_def pr(1) believed_set [OF pr(2) get] fresh_rival_def)
qed

lemma delta_ms_int:
  "uint (delta_ms at anchor) = max 0 (min 9223372036854775807 (ms at - ms anchor))"
proof (cases "u64_try_from_i64 (i64_saturating_sub (as_unix_millis at) (as_unix_millis anchor))")
  case None
  then have "sint (i64_saturating_sub (as_unix_millis at) (as_unix_millis anchor)) < 0"
    by (simp add: u64_try_from_i64_def split: if_splits)
  then show ?thesis using None by (simp add: delta_ms_def sint_i64_saturating_sub ms_def)
next
  case (Some d)
  then have "uint d = sint (i64_saturating_sub (as_unix_millis at) (as_unix_millis anchor))"
    by (rule u64_try_from_i64_Some)
  moreover have "0 \<le> uint d" by simp
  ultimately show ?thesis using Some by (simp add: delta_ms_def sint_i64_saturating_sub ms_def)
qed

text \<open>A claim within a ceiling that \<open>i64\<close> can hold is within it as an integer.\<close>

lemma delta_bound:
  assumes "delta_ms at anchor \<le> c" and "uint c < 9223372036854775807"
  shows "ms at \<le> ms anchor + uint c"
proof -
  have "uint (delta_ms at anchor) \<le> uint c" using assms(1) by (simp add: word_le_def)
  then show ?thesis using assms(2) by (simp add: delta_ms_int)
qed

lemma Ttl_expires_duration:
  "Ttl_expires_at (DurationMillis d) anchor = Some x \<Longrightarrow> ms x = ms anchor + uint d"
  by (auto simp: ms_def from_unix_millis_def i64_checked_add_Some dest: i64_try_from_u64_Some
      split: bind_splits)

lemma assertion_checks:
  assumes "enforce_policy R scan e now = Inr ()" and "FactEvent.kind e = Asserted"
  shows "exceeds (ceiling_ms (effective_ceiling R (policy_for R (FactEvent.subject e) (FactEvent.predicate e))))
      (bounded_ttl_ms e) = None"
    and "policy_for R (FactEvent.subject e) (FactEvent.predicate e) = Some pol \<Longrightarrow>
      assert_floor pol \<le> event_level e \<and>
      exceeds (Option.bind (policy_ceiling pol) ceiling_ms) (bounded_valid_to_ms e) = None"
  using assms by (auto simp: enforce_policy_def Let_def split: option.splits if_splits)

lemma enforce_asserted:
  assumes "log_inv (all_events st)" and "FactEvent.kind e = Asserted"
    and policy: "policy = policy_for R (FactEvent.subject e) (FactEvent.predicate e)"
  shows "enforce_policy R (scan_of st) e now = Inr () \<longleftrightarrow>
    exceeds (ceiling_ms (effective_ceiling R policy)) (bounded_ttl_ms e) = None \<and>
    (\<forall>pol. policy = Some pol \<longrightarrow> assert_floor pol \<le> event_level e \<and>
       exceeds (Option.bind (policy_ceiling pol) ceiling_ms) (bounded_valid_to_ms e) = None \<and>
       (unique pol \<longrightarrow> \<not> (\<exists>s. fresh_rival (all_events st) e now s)))"
proof (cases policy)
  case None
  then show ?thesis
    using assms(2) by (simp add: enforce_policy_def Let_def policy [symmetric] split: option.split)
next
  case (Some pol)
  then have p: "policy_for R (FactEvent.subject e) (FactEvent.predicate e) = Some pol" by (simp add: policy)
  show ?thesis
    using assms(2) unfolding enforce_policy_def Let_def unique_scan [OF assms(1)] p Some
    by (auto simp: not_less split: option.split)
qed

section \<open>The loop over fresh beliefs\<close>

definition unique_key :: "FactState \<Rightarrow> string \<times> string \<times> string" where
  "unique_key s = (subject_kind (FactState.subject s), subject_key (FactState.subject s),
     predicate_str (FactState.predicate s))"

lemma unique_key_shape:
  "unique_key s = unique_key t \<longleftrightarrow> has_shape (FactState.subject s) (FactState.predicate s) t"
  by (cases "FactState.subject s"; cases "FactState.subject t"; cases "FactState.predicate s";
      cases "FactState.predicate t") (auto simp: unique_key_def has_shape_def)

text \<open>What the loop demands of a state's grp.\<close>

definition group_ok :: "PredicateRegistry \<Rightarrow> FactState list \<Rightarrow> FactState \<Rightarrow> bool" where
  "group_ok R live s \<longleftrightarrow>
     (\<forall>pol. policy_for R (FactState.subject s) (FactState.predicate s) = Some pol \<longrightarrow> unique pol \<longrightarrow>
        (let grp = filter (has_shape (FactState.subject s) (FactState.predicate s)) live in
         length grp \<le> 1 \<or> (\<forall>c \<in> set grp. FactState.fact_id c \<in> set (accounted_ids grp))))"

lemma group_ok_key: "unique_key s = unique_key t \<Longrightarrow> group_ok R live s = group_ok R live t"
proof -
  assume "unique_key s = unique_key t"
  then have "FactState.subject t = FactState.subject s" "FactState.predicate t = FactState.predicate s"
    by (simp_all add: unique_key_shape has_shape_def)
  then show ?thesis by (simp add: group_ok_def)
qed

lemma unique_loop_step:
  "unique_loop R live checked (s # rest) =
     (if unique_key s \<in> checked then unique_loop R live checked rest
      else if group_ok R live s then unique_loop R live (insert (unique_key s) checked) rest
      else Inl (UniquenessViolation (display_key (FactState.subject s) (FactState.predicate s))))"
  by (auto simp: unique_key_def group_ok_def Let_def split: option.split)

declare unique_loop.simps(2) [simp del]

lemma unique_loop_ok:
  "unique_loop R live checked ss = Inr () \<longleftrightarrow>
     (\<forall>s \<in> set ss. unique_key s \<notin> checked \<longrightarrow> group_ok R live s)"
proof (induction ss arbitrary: checked)
  case (Cons s ss)
  show ?case
    by (auto simp: unique_loop_step Cons.IH dest: group_ok_key)
qed simp

lemma accounted_ids_set:
  "f \<in> set (accounted_ids grp) \<longleftrightarrow>
     (\<exists>s \<in> set grp. FactState.lifecycle s = Contested \<and>
        (f = FactState.fact_id s \<or> f \<in> set (FactState.contradicted_by s)))"
  by (auto simp: accounted_ids_def split: if_splits)

section \<open>Properties\<close>

text \<open>
  The registry decides an assertion exactly by its four rules, and never gates dissent. For a
  store built by appends, any event that is not an assertion passes; an assertion passes if and
  only if it reaches the predicate's authority floor, its finite TTL claim is within the
  effective ceiling, its validity window is within a deliberate ceiling, and, for a unique
  predicate, no other believed fact of the same shape is unexpired.
\<close>

theorem enforce_policy_decides:
  assumes "st = append_session X new_store es"
    and "policy = policy_for R (FactEvent.subject e) (FactEvent.predicate e)"
  shows "enforce_policy R (scan_of st) e now = Inr () \<longleftrightarrow>
    (FactEvent.kind e = Asserted \<longrightarrow>
       (\<forall>c t. ceiling_ms (effective_ceiling R policy) = Some c \<longrightarrow> bounded_ttl_ms e = Some t \<longrightarrow> t \<le> c) \<and>
       (\<forall>pol. policy = Some pol \<longrightarrow>
          assert_floor pol \<le> event_level e \<and>
          (\<forall>c t. Option.bind (policy_ceiling pol) ceiling_ms = Some c \<longrightarrow>
             bounded_valid_to_ms e = Some t \<longrightarrow> t \<le> c) \<and>
          (unique pol \<longrightarrow> \<not> (\<exists>s. fresh_rival (all_events st) e now s))))"
proof -
  show ?thesis
  proof (cases "FactEvent.kind e = Asserted")
    case False
    then show ?thesis
      by (simp add: enforce_policy_def Let_def assms(2) [symmetric] split: option.split)
  next
    case True
    have "log_inv (all_events st)" using session_ok assms(1) by blast
    from enforce_asserted [OF this True assms(2)] True show ?thesis by (simp only: exceeds_None simp_thms)
  qed
qed

text \<open>
  The retention ceiling bounds the folded fact. If an assertion passes with a finite effective
  ceiling and a finite TTL, then the TTL of the state it opens ends no later than the ceiling
  after the anchor the fact is folded with, or after the recorded instant for an absolute expiry:
  the saturating subtraction and the conversion to \<open>u64\<close> lose nothing below the bound.
\<close>

theorem ceiling_bounds_freshness:
  assumes "enforce_policy R scan e now = Inr ()" and "FactEvent.kind e = Asserted"
    and "ceiling_ms (effective_ceiling R (policy_for R (FactEvent.subject e) (FactEvent.predicate e))) = Some c"
    and "uint c < 9223372036854775807"
    and "apply_event None e = Inr s"
    and "Ttl_expires_at (FactState.ttl s) (freshness_anchor s) = Some x"
  shows "ms x \<le> max (ms (freshness_anchor s))
      (case FactEvent.valid_from e of Some v \<Rightarrow> ms v | None \<Rightarrow> ms (recorded_at (provenance e))) + uint c"
proof -
  have ttl: "FactState.ttl s = FactEvent.ttl e" using assms(5) by (auto dest: apply_initial_iff)
  have lim: "bounded_ttl_ms e = Some t \<Longrightarrow> t \<le> c" for t
    using assertion_checks(1) [OF assms(1,2)] assms(3) by (simp add: exceeds_None)
  show ?thesis
  proof (cases "FactEvent.ttl e")
    case Never
    then show ?thesis using assms(6) ttl by simp
  next
    case (ExpiresAt at)
    let ?a = "case FactEvent.valid_from e of Some v \<Rightarrow> v | None \<Rightarrow> recorded_at (provenance e)"
    have "delta_ms at ?a \<le> c" by (rule lim) (simp add: bounded_ttl_ms_def ExpiresAt)
    from delta_bound [OF this assms(4)] have "ms at \<le> ms ?a + uint c" .
    moreover have "x = at" using assms(6) ttl ExpiresAt by simp
    ultimately show ?thesis by (cases "FactEvent.valid_from e") auto
  next
    case (DurationMillis d)
    then have "d \<le> c" by (intro lim) (simp add: bounded_ttl_ms_def)
    then have "uint d \<le> uint c" by (simp add: word_le_def)
    moreover have "ms x = ms (freshness_anchor s) + uint d"
      using assms(6) ttl DurationMillis by (intro Ttl_expires_duration) simp
    ultimately show ?thesis by simp
  qed
qed

text \<open>
  The commit-time check of a whole projection. It passes exactly when, in every group of
  unexpired believed facts of one registered unique subject and predicate, there is at most one
  fact or every fact is accounted for by an explicit contest: contested itself or named as the
  contradictor of a contested fact of the group.
\<close>

theorem unique_projection_decides:
  assumes "replay_subject es = Inr pr"
    and "live = filter (\<lambda>s. \<not> is_expired_at s now) (believed pr)"
  shows "validate_unique_projection R es now = Inr () \<longleftrightarrow>
    (\<forall>s \<in> set live. \<forall>pol. policy_for R (FactState.subject s) (FactState.predicate s) = Some pol \<longrightarrow>
       unique pol \<longrightarrow>
       (let grp = filter (has_shape (FactState.subject s) (FactState.predicate s)) live in
        length grp \<le> 1 \<or>
        (\<forall>c \<in> set grp. \<exists>d \<in> set grp. FactState.lifecycle d = Contested \<and>
           (FactState.fact_id c = FactState.fact_id d \<or>
            FactState.fact_id c \<in> set (FactState.contradicted_by d)))))"
proof -
  have "validate_unique_projection R es now = Inr () \<longleftrightarrow> (\<forall>s \<in> set live. group_ok R live s)"
    by (simp add: validate_unique_projection_def assms(1) assms(2) [symmetric] Let_def unique_loop_ok)
  then show ?thesis by (simp only: group_ok_def Let_def accounted_ids_set)
qed

text \<open>
  Only a caller's own claim can exceed a ceiling: with the built-in registry, an assertion that
  leaves TTL and \<open>valid_to\<close> unset gets the predicate's default and is never rejected for retention.
\<close>

theorem defaults_below_ceilings:
  assumes "FactEvent.ttl e = Never" and "FactEvent.valid_to e = None"
  shows "enforce_policy coding_agent scan (apply_policy_defaults coding_agent e) now \<noteq>
    Inl (Fail (TtlCeilingExceeded key t c)) \<or> (\<exists>fl. scan fl = Inl (Fail (TtlCeilingExceeded key t c)))"
proof -
  have shape: "FactEvent.subject (apply_policy_defaults R d) = FactEvent.subject d"
    "FactEvent.predicate (apply_policy_defaults R d) = FactEvent.predicate d" for R d
    by (simp_all add: apply_policy_defaults_def split: option.split)
  let ?e = "apply_policy_defaults coding_agent e"
  let ?pol = "policy_for coding_agent (FactEvent.subject e) (FactEvent.predicate e)"
  have vt: "bounded_valid_to_ms ?e = None"
    using assms(2) by (simp add: bounded_valid_to_ms_def apply_policy_defaults_def split: option.split)
  have ok: "exceeds (ceiling_ms (effective_ceiling coding_agent ?pol)) (bounded_ttl_ms ?e) = None"
  proof (cases ?pol)
    case None
    then show ?thesis
      using assms(1) by (simp add: apply_policy_defaults_def bounded_ttl_ms_def exceeds_def split: option.split)
  next
    case (Some pol)
    then have "pol \<in> snd ` set (policies coding_agent)"
      by (force simp: policy_for_def dest: btm_get_in_set)
    then have "default_ttl pol = Never \<or> default_ttl pol = DurationMillis 3600000 \<and>
        policy_ceiling pol = Some (DurationMillis VOLATILE_RETENTION_CEILING_MS)"
      by (auto simp: coding_agent_def register_def registry_default_def btm_insert_def policy_ceiling_def
          or_else_def retention_ceiling_def)
    then show ?thesis
      using assms(1) Some
      by (auto simp: apply_policy_defaults_def bounded_ttl_ms_def exceeds_def effective_ceiling_def
          ceiling_ms_def VOLATILE_RETENTION_CEILING_MS_def split: option.split)
  qed
  show ?thesis
    using vt ok
    by (auto simp: enforce_policy_def Let_def shape exceeds_def and_then_Inl
        split: option.splits if_splits)
qed

section \<open>Witnesses\<close>

definition sample_registry :: PredicateRegistry where
  "sample_registry = register ''repo'' ''database'' High Never True Volatile registry_default"

theorem enforce_policy_decides_witness:
  "enforce_policy sample_registry (scan_of new_store) (sample_assert ''event:1'' ''fact:1'' High) (TimestampMillis 5) = Inr () \<and>
   enforce_policy sample_registry (scan_of new_store) (sample_assert ''event:1'' ''fact:1'' Low) (TimestampMillis 5) \<noteq> Inr ()"
proof -
  have pol: "policy_for sample_registry (FactEvent.subject (sample_assert ''event:1'' ''fact:1'' l))
      (FactEvent.predicate (sample_assert ''event:1'' ''fact:1'' l)) =
      Some \<lparr>assert_floor = High, default_ttl = Never, unique = True, volatility = Volatile, max_ttl = None\<rparr>" for l
    by (simp add: policy_for_def sample_registry_def register_def registry_default_def btm_insert_def sample_defs)
  have no: "\<not> fresh_rival (all_events new_store) e now s" for e now s
    by (simp add: fresh_rival_def believed_in_def fact_state_def stream_of_def all_events_def new_store_def)
  have t: "bounded_ttl_ms (sample_assert ''event:1'' ''fact:1'' l) = None"
    "bounded_valid_to_ms (sample_assert ''event:1'' ''fact:1'' l) = None"
    "event_level (sample_assert ''event:1'' ''fact:1'' l) = l"
    "FactEvent.kind (sample_assert ''event:1'' ''fact:1'' l) = Asserted" for l
    by (simp_all add: bounded_ttl_ms_def bounded_valid_to_ms_def sample_defs)
  show ?thesis
    using enforce_policy_decides [OF new_store_session refl, of sample_registry "sample_assert ''event:1'' ''fact:1'' High"]
      enforce_policy_decides [OF new_store_session refl, of sample_registry "sample_assert ''event:1'' ''fact:1'' Low"]
    by (simp add: pol no t level_order)
qed

definition sample_ttl :: FactEvent where
  "sample_ttl = (sample_assert ''event:1'' ''fact:1'' High)\<lparr>FactEvent.ttl := DurationMillis 1000\<rparr>"

theorem ceiling_bounds_freshness_witness:
  "\<exists>s x. apply_event None sample_ttl = Inr s \<and>
     Ttl_expires_at (FactState.ttl s) (freshness_anchor s) = Some x \<and> ms x \<le> 1 + 604800000"
proof -
  have pass: "enforce_policy sample_registry (scan_of new_store) sample_ttl (TimestampMillis 5) = Inr ()"
    by (simp add: enforce_policy_def Let_def policy_for_def sample_registry_def register_def
        registry_default_def btm_insert_def sample_ttl_def sample_defs level_order exceeds_def
        bounded_ttl_ms_def bounded_valid_to_ms_def ceiling_ms_def effective_ceiling_def policy_ceiling_def
        or_else_def retention_ceiling_def VOLATILE_RETENTION_CEILING_MS_def scan_of_def scan_pair
        all_events_def new_store_def replay_subject_def replay_subject_with_policy_def btm_group_def
        believed_def btm_values_def)
  have ceil: "ceiling_ms (effective_ceiling sample_registry
      (policy_for sample_registry (FactEvent.subject sample_ttl) (FactEvent.predicate sample_ttl))) = Some 604800000"
    by (simp add: policy_for_def sample_registry_def register_def registry_default_def btm_insert_def
        sample_ttl_def sample_defs ceiling_ms_def effective_ceiling_def policy_ceiling_def or_else_def
        retention_ceiling_def VOLATILE_RETENTION_CEILING_MS_def)
  obtain s x where s: "apply_event None sample_ttl = Inr s"
    "Ttl_expires_at (FactState.ttl s) (freshness_anchor s) = Some x" "freshness_anchor s = TimestampMillis 1"
    by (simp add: sample_ttl_def sample_defs transition_eval i64_try_from_u64_def i64_checked_add_def in_i64_def)
  have k: "FactEvent.kind sample_ttl = Asserted" "FactEvent.valid_from sample_ttl = None"
    "recorded_at (provenance sample_ttl) = TimestampMillis 1"
    by (simp_all add: sample_ttl_def sample_defs)
  from ceiling_bounds_freshness [OF pass k(1) ceil _ s(1,2)] s k show ?thesis
    by (auto simp: ms_def)
qed

theorem unique_projection_decides_witness:
  "\<exists>pr. replay_subject [sample_assert ''event:1'' ''fact:1'' High, sample_assert ''event:3'' ''fact:2'' High] = Inr pr \<and>
     validate_unique_projection sample_registry
       [sample_assert ''event:1'' ''fact:1'' High, sample_assert ''event:3'' ''fact:2'' High] (TimestampMillis 5) \<noteq> Inr ()"
proof -
  obtain pr s t where pr: "replay_subject [sample_assert ''event:1'' ''fact:1'' High,
      sample_assert ''event:3'' ''fact:2'' High] = Inr pr"
    and facts: "facts pr = [(FactId ''fact:1'', s), (FactId ''fact:2'', t)]"
    and st: "FactState.lifecycle s = Active" "FactState.lifecycle t = Active"
      "FactState.subject s = Subject ''repo'' ''dent8''" "FactState.subject t = Subject ''repo'' ''dent8''"
      "FactState.predicate s = Predicate ''database''" "FactState.predicate t = Predicate ''database''"
      "\<not> is_expired_at s (TimestampMillis 5)" "\<not> is_expired_at t (TimestampMillis 5)"
    by (simp add: replay_eval is_expired_at_def expires_at_def)
  have live: "filter (\<lambda>s. \<not> is_expired_at s (TimestampMillis 5)) (believed pr) = [s, t]"
    using st by (simp add: believed_def facts btm_values_def)
  have "policy_for sample_registry (Subject ''repo'' ''dent8'') (Predicate ''database'') =
      Some \<lparr>assert_floor = High, default_ttl = Never, unique = True, volatility = Volatile, max_ttl = None\<rparr>"
    by (simp add: policy_for_def sample_registry_def register_def registry_default_def btm_insert_def)
  then show ?thesis
    using pr unique_projection_decides [OF pr live [symmetric], of sample_registry] st
    by (auto simp: has_shape_def)
qed

theorem defaults_below_ceilings_witness:
  "enforce_policy coding_agent (scan_of new_store)
     (apply_policy_defaults coding_agent (sample_assert ''event:1'' ''fact:1'' High)) (TimestampMillis 5) \<noteq>
   Inl (Fail (TtlCeilingExceeded ''repo.database'' 0 0))"
  using defaults_below_ceilings [of "sample_assert ''event:1'' ''fact:1'' High" "scan_of new_store"
      "TimestampMillis 5" "''repo.database''" 0 0]
  by (simp add: sample_defs scan_of_def)

end
