(* ===== verification/Content_Check.thy ===== *)
theory Content_Check
  imports Model
begin

text \<open>
  \<open>crates/dent8-core/src/content_check.rs\<close>: the pre-admission content check. An external
  scanner judges each candidate event that carries a value. Running the subprocess
  (\<open>run_scanner\<close>), printing a JSON value and parsing the scanner's answer are parameters; the
  subprocess may answer differently each time, so it is also given the number of the call.
  Everything from the payload to the enforcement over a batch is the code's.
\<close>

section \<open>Configuration and verdicts\<close>

datatype FailurePolicy = FailClosed | FailOpen

datatype Duration = Duration (as_nanos: nat)

definition as_millis_dur :: "Duration \<Rightarrow> nat" where
  "as_millis_dur d = as_nanos d div 1000000"

definition DEFAULT_TIMEOUT :: Duration where "DEFAULT_TIMEOUT = Duration 5000000000"

record ContentCheckConfig =
  command :: "string list"
  timeout :: Duration
  failure_policy :: FailurePolicy

definition config_new :: "string list \<Rightarrow> string + ContentCheckConfig" where
  "config_new cmd =
     (if (case cmd of [] \<Rightarrow> True | program # _ \<Rightarrow> is_blank program)
      then Inl ''content check command cannot be empty''
      else Inr \<lparr>command = cmd, timeout = DEFAULT_TIMEOUT, failure_policy = FailClosed\<rparr>)"

definition scanner_name :: "ContentCheckConfig \<Rightarrow> string" where
  "scanner_name cfg = command cfg ! 0"

datatype Verdict = Allow | Reject "string option" | Taint "string option"

datatype ScanError =
    Spawn string
  | Io string
  | Timeout Duration
  | NonZeroExit string
  | MalformedVerdict string

definition show_ScanError :: "ScanError \<Rightarrow> string" where
  "show_ScanError err = (case err of
      Spawn e \<Rightarrow> ''could not spawn the scanner: '' @ e
    | Io e \<Rightarrow> ''scanner I/O failed: '' @ e
    | Timeout t \<Rightarrow> ''the scanner did not answer within '' @ show_nat (as_millis_dur t) @
        '' ms and was killed''
    | NonZeroExit d \<Rightarrow> ''the scanner exited non-zero ('' @ d @ '')''
    | MalformedVerdict d \<Rightarrow> ''the scanner returned a malformed verdict: '' @ d)"

datatype ContentCheckRefusal =
    Rejected string string "string option"
  | ScannerUnavailable ScanError

text \<open>The long dash of the message is its UTF-8 encoding.\<close>

definition show_ContentCheckRefusal :: "ContentCheckRefusal \<Rightarrow> string" where
  "show_ContentCheckRefusal r = (case r of
      Rejected subj pred reason \<Rightarrow> ''content check rejected '' @ subj @ '' '' @ pred @
        (case reason of None \<Rightarrow> [] | Some x \<Rightarrow> '': '' @ x)
    | ScannerUnavailable e \<Rightarrow> ''content check failed closed '' @ [CHR 0xE2, CHR 0x80, CHR 0x94] @ '' '' @
        show_ScanError e @
        '' (the configured scanner must answer, or set DENT8_CONTENT_CHECK_FAIL_OPEN=1 to admit-but-flag)'')"

section \<open>Content flags\<close>

definition CONTENT_CHECK_PROTOCOL :: string where
  "CONTENT_CHECK_PROTOCOL = ''dent8.content-check/1''"

definition CONTENT_FLAG_LOCATOR_PREFIX :: string where
  "CONTENT_FLAG_LOCATOR_PREFIX = ''content-check:''"

definition MAX_REASON_LEN :: usize where "MAX_REASON_LEN = 256"

record ContentFlag =
  scanner :: string
  reason :: string

definition content_flag :: "FactEvent \<Rightarrow> ContentFlag option" where
  "content_flag e =
     find_map (\<lambda>item. map_option
         (\<lambda>sc. \<lparr>scanner = sc, reason = (case summary item of None \<Rightarrow> [] | Some x \<Rightarrow> x)\<rparr>)
         (strip_prefix CONTENT_FLAG_LOCATOR_PREFIX (locator item)))
       (evidence e)"

section \<open>The payload\<close>

text \<open>A \<open>serde_json::Value\<close> as far as the payload uses it; objects are ordered by key.\<close>

datatype Value = Null | Str string | Array "Value list" | Object "(string \<times> Value) list"

definition json_object :: "(string \<times> Value) list \<Rightarrow> Value" where
  "json_object kvs = Object (foldl (\<lambda>m (k, v). btm_insert k v m) [] kvs)"

fun debug_EvidenceKind :: "EvidenceKind \<Rightarrow> string" where
  "debug_EvidenceKind DirectObservation = ''DirectObservation''"
| "debug_EvidenceKind ToolOutput = ''ToolOutput''"
| "debug_EvidenceKind FileSpan = ''FileSpan''"
| "debug_EvidenceKind UserStatement = ''UserStatement''"
| "debug_EvidenceKind DerivedSummary = ''DerivedSummary''"
| "debug_EvidenceKind ExternalDocument = ''ExternalDocument''"
| "debug_EvidenceKind DerivedFrom = ''DerivedFrom''"

definition candidate_payload :: "FactEvent \<Rightarrow> Value" where
  "candidate_payload e =
     (let value = (case FactEvent.val e of
          Some (Text t) \<Rightarrow> json_object [(''kind'', Str ''text''), (''text'', Str t)]
        | Some (Json j) \<Rightarrow> json_object [(''kind'', Str ''json''), (''json'', Str (json_str j))]
        | Some Redacted \<Rightarrow> json_object [(''kind'', Str ''redacted'')]
        | None \<Rightarrow> Null);
        ev = map (\<lambda>item. json_object
          [(''kind'', Str (debug_EvidenceKind (Evidence.kind item))),
           (''locator'', Str (locator item)),
           (''summary'', case summary item of None \<Rightarrow> Null | Some s \<Rightarrow> Str s)]) (evidence e)
      in json_object
        [(''protocol'', Str CONTENT_CHECK_PROTOCOL),
         (''event_id'', Str (event_str (event_id e))),
         (''fact_id'', Str (fact_str (FactEvent.fact_id e))),
         (''event_type'', Str (FactEventKind_name (FactEvent.kind e))),
         (''subject'', json_object [(''kind'', Str (subject_kind (FactEvent.subject e))),
                                   (''key'', Str (subject_key (FactEvent.subject e)))]),
         (''predicate'', Str (predicate_str (FactEvent.predicate e))),
         (''value'', value),
         (''source'', Str (source_str (event_source e))),
         (''authority'', Str (AuthorityLevel_name (event_level e))),
         (''evidence'', Array ev)])"

section \<open>Scanning\<close>

record WireVerdict =
  verdict :: string
  wire_reason :: "string option"

record Scanner =
  run_scanner :: "nat \<Rightarrow> ContentCheckConfig \<Rightarrow> string \<Rightarrow> ScanError + string"
  print_value :: "Value \<Rightarrow> string"
  parse_wire :: "string \<Rightarrow> string + WireVerdict"

text \<open>The appended character is the ellipsis, three bytes in UTF-8.\<close>

definition ellipsis :: string where
  "ellipsis = [CHR 0xE2, CHR 0x80, CHR 0xA6]"

definition truncate_chars :: "string \<Rightarrow> usize \<Rightarrow> string" where
  "truncate_chars s n =
     (if length (chars s) \<le> n then s else concat (take n (chars s)) @ ellipsis)"

definition parse_verdict :: "Scanner \<Rightarrow> string \<Rightarrow> ScanError + Verdict" where
  "parse_verdict W stdout =
     (let trimmed = trim stdout in
      and_then (map_err
          (\<lambda>err. MalformedVerdict (err @ '' (stdout: '' @ truncate_chars trimmed 120 @ '')''))
          (parse_wire W trimmed)) (\<lambda>wire.
        let reason = map_option (\<lambda>r. truncate_chars r MAX_REASON_LEN) (wire_reason wire) in
        if verdict wire = ''allow'' then Inr Allow
        else if verdict wire = ''reject'' then Inr (Reject reason)
        else if verdict wire = ''taint'' then Inr (Taint reason)
        else Inl (MalformedVerdict
          (''unknown verdict '' @ show_debug (verdict wire) @ '' (allow|reject|taint)''))))"

definition scan_event :: "Scanner \<Rightarrow> nat \<Rightarrow> ContentCheckConfig \<Rightarrow> FactEvent \<Rightarrow> ScanError + Verdict" where
  "scan_event W n cfg e =
     and_then (run_scanner W n cfg (print_value W (candidate_payload e))) (parse_verdict W)"

section \<open>Enforcement\<close>

text \<open>
  The code builds the identifier with \<open>EvidenceId::new(..).expect(..)\<close>;
  \<open>flag_evidence_id_valid\<close> shows that it never panics.
\<close>

definition flag_evidence :: "FactEvent \<Rightarrow> string \<Rightarrow> string \<Rightarrow> Evidence" where
  "flag_evidence e sc why = \<lparr>
     evidence_id = EvidenceId (''evidence:content-check:'' @ event_str (event_id e)),
     kind = ToolOutput, locator = CONTENT_FLAG_LOCATOR_PREFIX @ sc, digest = None,
     summary = Some why\<rparr>"

definition add_flag :: "ContentCheckConfig \<Rightarrow> string \<Rightarrow> FactEvent \<Rightarrow> FactEvent" where
  "add_flag cfg why e = e\<lparr>evidence := evidence e @ [flag_evidence e (scanner_name cfg) why]\<rparr>"

definition fail_open_reason :: "ScanError \<Rightarrow> string" where
  "fail_open_reason err =
     truncate_chars (''content check unavailable (fail-open): '' @ show_ScanError err) MAX_REASON_LEN"

text \<open>The body of the loop for one event that carries a value.\<close>

definition enforce_event ::
    "Scanner \<Rightarrow> nat \<Rightarrow> ContentCheckConfig \<Rightarrow> FactEvent \<Rightarrow> ContentCheckRefusal + FactEvent" where
  "enforce_event W n cfg e = (case scan_event W n cfg e of
      Inr Allow \<Rightarrow> Inr e
    | Inr (Reject why) \<Rightarrow>
        Inl (Rejected (subject_kind (FactEvent.subject e) @ '':'' @ subject_key (FactEvent.subject e))
                      (predicate_str (FactEvent.predicate e)) why)
    | Inr (Taint why) \<Rightarrow>
        Inr (add_flag cfg (case why of Some r \<Rightarrow> r | None \<Rightarrow> ''flagged by the content check'') e)
    | Inl err \<Rightarrow> (case failure_policy cfg of
          FailClosed \<Rightarrow> Inl (ScannerUnavailable err)
        | FailOpen \<Rightarrow> Inr (add_flag cfg (fail_open_reason err) e)))"

text \<open>
  The loop over \<open>&mut [FactEvent]\<close>: the events as they stand when it returns, and the result.
\<close>

fun enforce_from ::
    "Scanner \<Rightarrow> nat \<Rightarrow> ContentCheckConfig \<Rightarrow> FactEvent list \<Rightarrow> FactEvent list \<times> (ContentCheckRefusal + unit)" where
  "enforce_from W n cfg [] = ([], Inr ())"
| "enforce_from W n cfg (e # es) =
     (if FactEvent.val e = None
      then (let (fs, r) = enforce_from W n cfg es in (e # fs, r))
      else case enforce_event W n cfg e of
          Inl refusal \<Rightarrow> (e # es, Inl refusal)
        | Inr e' \<Rightarrow> (let (fs, r) = enforce_from W (Suc n) cfg es in (e' # fs, r)))"

definition enforce ::
    "Scanner \<Rightarrow> ContentCheckConfig \<Rightarrow> FactEvent list \<Rightarrow> FactEvent list \<times> (ContentCheckRefusal + unit)" where
  "enforce W cfg es = enforce_from W 0 cfg es"

section \<open>Lemmas\<close>

lemma flag_evidence_id_valid:
  "EvidenceId_new (''evidence:content-check:'' @ s) = Inr (EvidenceId (''evidence:content-check:'' @ s))"
  by (simp add: id_defs not_blank_graph is_graph_def byte_of_def ws1_def)

text \<open>The scanner runs once per event with a value; the call an event gets is its index.\<close>

definition scan_index :: "FactEvent list \<Rightarrow> nat \<Rightarrow> nat" where
  "scan_index es i = length (filter (\<lambda>e. FactEvent.val e \<noteq> None) (take i es))"

lemma scan_index_simps [simp]:
  "scan_index es 0 = 0"
  "scan_index (e # es) (Suc i) = (if FactEvent.val e = None then scan_index es i else Suc (scan_index es i))"
  by (simp_all add: scan_index_def)

definition scan_admits :: "Scanner \<Rightarrow> ContentCheckConfig \<Rightarrow> nat \<Rightarrow> FactEvent \<Rightarrow> bool" where
  "scan_admits W cfg n e = (case scan_event W n cfg e of
      Inr Allow \<Rightarrow> True | Inr (Reject _) \<Rightarrow> False | Inr (Taint _) \<Rightarrow> True
    | Inl _ \<Rightarrow> failure_policy cfg = FailOpen)"

lemma enforce_event_ok: "(\<exists>e'. enforce_event W n cfg e = Inr e') \<longleftrightarrow> scan_admits W cfg n e"
  by (auto simp: enforce_event_def scan_admits_def split: sum.splits Verdict.splits FailurePolicy.splits)

text \<open>The three ways the loop goes on at an event.\<close>

lemma enforce_from_step:
  "FactEvent.val e = None \<Longrightarrow> enforce_from W n cfg (e # es) =
     (e # fst (enforce_from W n cfg es), snd (enforce_from W n cfg es))"
  "FactEvent.val e = Some v \<Longrightarrow> enforce_event W n cfg e = Inl x \<Longrightarrow>
     enforce_from W n cfg (e # es) = (e # es, Inl x)"
  "FactEvent.val e = Some v \<Longrightarrow> enforce_event W n cfg e = Inr e' \<Longrightarrow> enforce_from W n cfg (e # es) =
     (e' # fst (enforce_from W (Suc n) cfg es), snd (enforce_from W (Suc n) cfg es))"
  by (simp_all add: split_beta)

lemma enforce_from_cases:
  obtains (skip) "FactEvent.val e = None"
  | (refuse) v x where "FactEvent.val e = Some v" "enforce_event W n cfg e = Inl x"
      "\<not> scan_admits W cfg n e"
  | (go) v e' where "FactEvent.val e = Some v" "enforce_event W n cfg e = Inr e'"
      "scan_admits W cfg n e"
  using enforce_event_ok [of W n cfg e]
  by (cases "FactEvent.val e"; cases "enforce_event W n cfg e") auto

declare enforce_from.simps(2) [simp del]

lemma enforce_from_ok:
  "snd (enforce_from W n cfg es) = Inr () \<longleftrightarrow>
     (\<forall>i < length es. FactEvent.val (es ! i) \<noteq> None \<longrightarrow>
        scan_admits W cfg (n + scan_index es i) (es ! i))"
proof (induction es arbitrary: n)
  case (Cons e es)
  show ?case
    by (cases rule: enforce_from_cases [where e = e and W = W and n = n and cfg = cfg])
      (simp_all add: enforce_from_step All_less_Suc2 Cons.IH)
qed simp

lemma find_map_some: "x \<in> set xs \<Longrightarrow> f x \<noteq> None \<Longrightarrow> find_map f xs \<noteq> None"
  by (induction xs) (auto split: option.splits)

lemma add_flag_visible: "content_flag (add_flag cfg why e) \<noteq> None"
  unfolding content_flag_def
  by (rule find_map_some [of "flag_evidence e (scanner_name cfg) why"])
    (simp_all add: add_flag_def flag_evidence_def strip_prefix_def)

text \<open>What the check may do to an event: nothing, or append one flag.\<close>

definition flagged :: "ContentCheckConfig \<Rightarrow> FactEvent \<Rightarrow> FactEvent \<Rightarrow> bool" where
  "flagged cfg e e' \<longleftrightarrow> (\<exists>why. e' = add_flag cfg why e)"

lemma flagged_visible: "flagged cfg e e' \<Longrightarrow> content_flag e' \<noteq> None"
  using add_flag_visible by (auto simp: flagged_def)

lemma enforce_event_effect:
  "enforce_event W n cfg e = Inr e' \<Longrightarrow>
     (scan_event W n cfg e = Inr Allow \<and> e' = e) \<or>
     (scan_event W n cfg e \<noteq> Inr Allow \<and> scan_admits W cfg n e \<and> flagged cfg e e')"
  by (auto simp: enforce_event_def scan_admits_def flagged_def
      split: sum.splits Verdict.splits FailurePolicy.splits option.splits)

lemma enforce_from_length: "length (fst (enforce_from W n cfg es)) = length es"
proof (induction es arbitrary: n)
  case (Cons e es)
  show ?case
    by (cases rule: enforce_from_cases [where e = e and W = W and n = n and cfg = cfg]) (simp_all add: enforce_from_step Cons.IH)
qed simp

lemma enforce_from_effect:
  "i < length es \<Longrightarrow> fst (enforce_from W n cfg es) ! i = es ! i \<or>
     FactEvent.val (es ! i) \<noteq> None \<and>
     scan_event W (n + scan_index es i) cfg (es ! i) \<noteq> Inr Allow \<and>
     flagged cfg (es ! i) (fst (enforce_from W n cfg es) ! i)"
proof (induction es arbitrary: n i)
  case (Cons e es)
  show ?case
  proof (cases i)
    case 0
    show ?thesis
      by (cases rule: enforce_from_cases [where e = e and W = W and n = n and cfg = cfg])
        (use 0 in \<open>auto simp: enforce_from_step dest: enforce_event_effect\<close>)
  next
    case (Suc m)
    with Cons.prems have m: "m < length es" by simp
    show ?thesis
      by (cases rule: enforce_from_cases [where e = e and W = W and n = n and cfg = cfg])
        (use Suc Cons.IH [OF m, of n] Cons.IH [OF m, of "Suc n"] in \<open>simp_all add: enforce_from_step\<close>)
  qed
qed simp

lemma enforce_from_marks:
  "snd (enforce_from W n cfg es) = Inr () \<Longrightarrow> i < length es \<Longrightarrow> FactEvent.val (es ! i) = Some v \<Longrightarrow>
     scan_event W (n + scan_index es i) cfg (es ! i) \<noteq> Inr Allow \<Longrightarrow>
     flagged cfg (es ! i) (fst (enforce_from W n cfg es) ! i)"
proof (induction es arbitrary: n i)
  case (Cons e es)
  show ?case
  proof (cases i)
    case 0
    show ?thesis
      by (cases rule: enforce_from_cases [where e = e and W = W and n = n and cfg = cfg])
        (use 0 Cons.prems in \<open>auto simp: enforce_from_step dest: enforce_event_effect\<close>)
  next
    case (Suc m)
    show ?thesis
      by (cases rule: enforce_from_cases [where e = e and W = W and n = n and cfg = cfg])
        (use Suc Cons.prems Cons.IH [of n m] Cons.IH [of "Suc n" m] in \<open>simp_all add: enforce_from_step\<close>)
  qed
qed simp

text \<open>Truncation counts characters, and cuts between them.\<close>

lemma takeWhile_stop: "\<not> p y \<Longrightarrow> (\<forall>x \<in> set xs. p x) \<Longrightarrow>
    takeWhile p (xs @ y # ys) = xs \<and> dropWhile p (xs @ y # ys) = y # ys"
  by (induction xs) auto

lemma chars_head:
  "\<exists>y ys. concat (take n (chars s)) @ d # ds = y # ys \<and> (s = [] \<or> n = 0 \<longrightarrow> y = d) \<and>
     (s \<noteq> [] \<and> n \<noteq> 0 \<longrightarrow> y = hd s)"
  by (cases s; cases n) auto

lemma chars_take_append:
  "\<not> is_continuation d \<Longrightarrow>
     chars (concat (take n (chars s)) @ d # ds) = take n (chars s) @ chars (d # ds)"
proof (induction s arbitrary: n rule: chars.induct)
  case (2 c cs)
  show ?case
  proof (cases n)
    case (Suc m)
    let ?tail = "dropWhile is_continuation cs"
    obtain y ys where y: "concat (take m (chars ?tail)) @ d # ds = y # ys"
      and "?tail = [] \<or> m = 0 \<longrightarrow> y = d" "?tail \<noteq> [] \<and> m \<noteq> 0 \<longrightarrow> y = hd ?tail"
      using chars_head by blast
    then have "\<not> is_continuation y"
      using "2.prems" hd_dropWhile [of is_continuation cs] by (cases "?tail = [] \<or> m = 0") auto
    moreover have "\<forall>x \<in> set (takeWhile is_continuation cs). is_continuation x"
      by (auto dest: set_takeWhileD)
    ultimately have w:
      "takeWhile is_continuation (takeWhile is_continuation cs @ y # ys) = takeWhile is_continuation cs"
      "dropWhile is_continuation (takeWhile is_continuation cs @ y # ys) = y # ys"
      using takeWhile_stop [where p = is_continuation] by blast+
    show ?thesis
      using "2.IH" [OF "2.prems", of m] w by (simp add: Suc y del: takeWhile_append dropWhile_append)
  qed simp
qed simp

lemma truncate_chars_count: "length (chars (truncate_chars s n)) \<le> Suc n"
proof (cases "length (chars s) \<le> n")
  case False
  have "chars (truncate_chars s n) = take n (chars s) @ [ellipsis]"
    using False chars_take_append [of "CHR 0xE2" n s "[CHR 0x80, CHR 0xA6]"]
    by (simp add: truncate_chars_def ellipsis_def is_continuation_def byte_of_def)
  with False show ?thesis by simp
qed (simp add: truncate_chars_def)

section \<open>Properties\<close>

text \<open>
  The batch is admitted exactly when every event that carries a value is judged admissible
  by its own scan: the scanner answered \<open>allow\<close> or \<open>taint\<close>, or it failed and the policy is
  fail-open. So no value goes in unscanned, one \<open>reject\<close> refuses the whole batch, and under the
  default policy a scanner that fails on any event refuses it too.
\<close>

theorem content_check_decides:
  "snd (enforce W cfg es) = Inr () \<longleftrightarrow>
     (\<forall>i < length es. FactEvent.val (es ! i) \<noteq> None \<longrightarrow>
        (case scan_event W (scan_index es i) cfg (es ! i) of
           Inr Allow \<Rightarrow> True | Inr (Reject _) \<Rightarrow> False | Inr (Taint _) \<Rightarrow> True
         | Inl _ \<Rightarrow> failure_policy cfg = FailOpen))"
  using enforce_from_ok [of W 0 cfg es] by (simp add: enforce_def scan_admits_def)

text \<open>
  The check never rewrites content and never admits a doubt invisibly. Whatever it returns,
  each event is either untouched or has exactly one content flag appended to its evidence, and
  when the batch is admitted every event with a value whose scan was not a clean \<open>allow\<close> carries
  a flag that the read side finds.
\<close>

theorem content_check_marks:
  assumes "i < length es"
  shows "(fst (enforce W cfg es) ! i = es ! i \<or>
      (\<exists>why. fst (enforce W cfg es) ! i =
         (es ! i)\<lparr>evidence := evidence (es ! i) @ [flag_evidence (es ! i) (scanner_name cfg) why]\<rparr>)) \<and>
    (snd (enforce W cfg es) = Inr () \<and> FactEvent.val (es ! i) \<noteq> None \<and>
       scan_event W (scan_index es i) cfg (es ! i) \<noteq> Inr Allow \<longrightarrow>
       content_flag (fst (enforce W cfg es) ! i) \<noteq> None)"
proof (intro conjI impI)
  show "content_flag (fst (enforce W cfg es) ! i) \<noteq> None"
    if "snd (enforce W cfg es) = Inr () \<and> FactEvent.val (es ! i) \<noteq> None \<and>
       scan_event W (scan_index es i) cfg (es ! i) \<noteq> Inr Allow"
    using that assms enforce_from_marks [of W 0 cfg es i]
    by (intro flagged_visible) (auto simp: enforce_def)
qed (use enforce_from_effect [OF assms, of W 0 cfg] in \<open>auto simp: enforce_def flagged_def add_flag_def\<close>)

text \<open>
  A scanner cannot stuff the log through its verdict: whatever it prints, the reason of a
  parsed verdict has at most 257 characters (the cap and the ellipsis), however it is encoded.
\<close>

theorem verdict_reason_bounded:
  assumes "parse_verdict W out = Inr (Taint (Some why)) \<or> parse_verdict W out = Inr (Reject (Some why))"
  shows "length (chars why) \<le> 257"
proof -
  obtain r where "why = truncate_chars r MAX_REASON_LEN"
    using assms by (auto simp: parse_verdict_def Let_def split: if_splits)
  then show ?thesis using truncate_chars_count [of r 256] by (simp add: MAX_REASON_LEN_def)
qed

section \<open>Witnesses\<close>

definition sample_scanner :: "WireVerdict \<Rightarrow> Scanner" where
  "sample_scanner w = \<lparr>run_scanner = \<lambda>n cfg s. if n = 0 then Inr ''{}'' else Inl (Timeout (timeout cfg)),
     print_value = \<lambda>v. ''payload'', parse_wire = \<lambda>s. Inr w\<rparr>"

definition sample_config :: "FailurePolicy \<Rightarrow> ContentCheckConfig" where
  "sample_config p = \<lparr>command = [''scan''], timeout = DEFAULT_TIMEOUT, failure_policy = p\<rparr>"

lemmas scan_eval = scan_event_def parse_verdict_def sample_scanner_def sample_config_def Let_def

definition sample_batch :: "FactEvent list" where
  "sample_batch = [sample_assert ''a'' ''f'' Low, sample_assert ''b'' ''g'' Low]"

definition allow_wire :: WireVerdict where
  "allow_wire = \<lparr>verdict = ''allow'', wire_reason = None\<rparr>"

theorem content_check_decides_witness:
  "snd (enforce (sample_scanner allow_wire) (sample_config FailClosed) sample_batch) \<noteq> Inr () \<and>
   snd (enforce (sample_scanner allow_wire) (sample_config FailOpen) sample_batch) = Inr ()"
  using content_check_decides [of "sample_scanner allow_wire" "sample_config FailClosed" sample_batch]
    content_check_decides [of "sample_scanner allow_wire" "sample_config FailOpen" sample_batch]
  by (simp add: All_less_Suc2 sample_batch_def scan_eval sample_defs allow_wire_def)

theorem content_check_marks_witness:
  "content_flag (fst (enforce (sample_scanner allow_wire) (sample_config FailOpen) sample_batch) ! 1) \<noteq> None"
proof -
  have "snd (enforce (sample_scanner allow_wire) (sample_config FailOpen) sample_batch) = Inr ()"
    by (simp add: enforce_def enforce_from_ok scan_admits_def All_less_Suc2 sample_batch_def scan_eval
        sample_defs allow_wire_def)
  with content_check_marks [of 1 sample_batch "sample_scanner allow_wire" "sample_config FailOpen"]
  show ?thesis by (simp add: sample_batch_def scan_eval sample_defs)
qed

theorem verdict_reason_bounded_witness:
  "\<exists>why. parse_verdict (sample_scanner \<lparr>verdict = ''taint'', wire_reason = Some (replicate 300 CHR ''x'')\<rparr>) [] =
       Inr (Taint (Some why)) \<and> length (chars why) \<le> 257"
proof -
  obtain why where "parse_verdict
      (sample_scanner \<lparr>verdict = ''taint'', wire_reason = Some (replicate 300 CHR ''x'')\<rparr>) [] =
       Inr (Taint (Some why))"
    by (simp add: scan_eval)
  then show ?thesis using verdict_reason_bounded by blast
qed

end
