(* ===== verification/Taint.thy ===== *)
theory Taint
  imports Replay
begin

text \<open>
  \<open>crates/dent8-store/src/lib.rs\<close>: retraction taint over the whole log. A believed fact is
  tainted when it derives, transitively, from a retracted or expired fact; dependencies may cross
  subjects. The depth-first search is modelled with its stack and its set of seen facts. Its
  specification is reachability along dependency edges from a fact to an invalidated one.
\<close>

section \<open>The search\<close>

definition dep_targets :: "(FactId, FactId list) btree \<Rightarrow> FactId set" where
  "dep_targets deps = (\<Union>es \<in> snd ` set deps. set es)"

lemma dep_targets_finite [simp]: "finite (dep_targets deps)"
  by (simp add: dep_targets_def)

lemma dep_targets_get: "btm_get deps f = Some es \<Longrightarrow> set es \<subseteq> dep_targets deps"
  using btm_get_in_set by (force simp: dep_targets_def)

text \<open>
  The loop \<open>while let Some(next) = stack.pop()\<close>. The stack is a list whose last element is the
  top, as the code's vector.
\<close>

function root_search ::
    "(FactId, FactId list) btree \<Rightarrow> (FactId \<Rightarrow> bool) \<Rightarrow> FactId set \<Rightarrow> FactId list \<Rightarrow> FactId option" where
  "root_search deps invalidated seen stack =
     (if stack = [] then None
      else (let nxt = last stack; rest = butlast stack in
        if nxt \<in> seen then root_search deps invalidated seen rest
        else if invalidated nxt then Some nxt
        else (case btm_get deps nxt of
            Some further \<Rightarrow> root_search deps invalidated (insert nxt seen) (rest @ further)
          | None \<Rightarrow> root_search deps invalidated (insert nxt seen) rest)))"
  by pat_completeness auto
termination
proof (relation "measures [\<lambda>(deps, bad, seen, stack). card ((set stack \<union> dep_targets deps) - seen),
    \<lambda>(deps, bad, seen, stack). length stack]")
  fix deps :: "(FactId, FactId list) btree" and bad :: "FactId \<Rightarrow> bool"
    and seen :: "FactId set" and stack :: "FactId list" and nxt rest
  assume ne: "stack \<noteq> []" and nr: "nxt = last stack" "rest = butlast stack"
  then have stack: "stack = rest @ [nxt]" by simp
  show "((deps, bad, seen, rest), deps, bad, seen, stack) \<in> measures
      [\<lambda>(deps, bad, seen, stack). card ((set stack \<union> dep_targets deps) - seen),
       \<lambda>(deps, bad, seen, stack). length stack]" if "nxt \<in> seen"
    using that by (simp add: stack insert_Diff_if)
  assume fresh: "nxt \<notin> seen"
  have less: "card ((set st \<union> dep_targets deps) - insert nxt seen) <
      card ((set stack \<union> dep_targets deps) - seen)" if "set st \<subseteq> set rest \<union> dep_targets deps" for st
  proof (rule psubset_card_mono)
    show "(set st \<union> dep_targets deps) - insert nxt seen \<subset> (set stack \<union> dep_targets deps) - seen"
      using that fresh by (auto simp: stack)
  qed simp
  show "((deps, bad, insert nxt seen, rest @ further), deps, bad, seen, stack) \<in> measures
      [\<lambda>(deps, bad, seen, stack). card ((set stack \<union> dep_targets deps) - seen),
       \<lambda>(deps, bad, seen, stack). length stack]" if "btm_get deps nxt = Some further" for further
    using less [of "rest @ further"] dep_targets_get [OF that] by auto
  show "((deps, bad, insert nxt seen, rest), deps, bad, seen, stack) \<in> measures
      [\<lambda>(deps, bad, seen, stack). card ((set stack \<union> dep_targets deps) - seen),
       \<lambda>(deps, bad, seen, stack). length stack]"
    using less [of rest] by simp
qed (rule wf_measures)

declare root_search.simps [simp del]

definition an_invalidated_root ::
    "FactId \<Rightarrow> (FactId, FactId list) btree \<Rightarrow> (FactId \<Rightarrow> bool) \<Rightarrow> FactId option" where
  "an_invalidated_root f deps invalidated =
     root_search deps invalidated {} (case btm_get deps f of Some es \<Rightarrow> es | None \<Rightarrow> [])"

section \<open>Tainted facts\<close>

record TaintedFact =
  fact :: FactId
  root :: FactId
  root_lifecycle :: FactLifecycle

text \<open>The loop over one stream: its state and its dependency edges.\<close>

fun fold_deps ::
    "FactState option \<Rightarrow> FactId list \<Rightarrow> FactEvent list \<Rightarrow> ReplayError + FactState option \<times> FactId list" where
  "fold_deps state edges [] = Inr (state, edges)"
| "fold_deps state edges (e # es) =
     and_then (map_err Transition (apply_event state e))
       (\<lambda>s. fold_deps (Some s) (edges @ dependency_edges e) es)"

fun collect_deps ::
    "(FactId \<times> FactEvent list) list \<Rightarrow> (FactId, FactLifecycle) btree \<Rightarrow> (FactId, FactId list) btree \<Rightarrow>
       ReplayError + (FactId, FactLifecycle) btree \<times> (FactId, FactId list) btree" where
  "collect_deps [] lives deps = Inr (lives, deps)"
| "collect_deps ((f, es) # rest) lives deps =
     and_then (fold_deps None [] es) (\<lambda>(state, edges).
       collect_deps rest
         (case state of Some s \<Rightarrow> btm_insert f (lifecycle s) lives | None \<Rightarrow> lives)
         (btm_insert f edges deps))"

definition invalidated_in :: "(FactId, FactLifecycle) btree \<Rightarrow> FactId \<Rightarrow> bool" where
  "invalidated_in lives f \<longleftrightarrow>
     btm_get lives f = Some FactLifecycle.Retracted \<or> btm_get lives f = Some FactLifecycle.Expired"

text \<open>
  \<open>lifecycle[&root]\<close> panics on an absent key; a found root is invalidated, hence present, which
  is lemma \<open>tainted_entry_no_panic\<close>. The model returns \<open>Active\<close> for the impossible case.
\<close>

definition tainted_entry ::
    "(FactId, FactLifecycle) btree \<Rightarrow> (FactId, FactId list) btree \<Rightarrow> FactId \<times> FactLifecycle \<Rightarrow> TaintedFact option" where
  "tainted_entry lives deps = (\<lambda>(f, l).
     if is_terminal l then None
     else map_option
       (\<lambda>r. \<lparr>fact = f, root = r,
             root_lifecycle = (case btm_get lives r of Some x \<Rightarrow> x | None \<Rightarrow> Active)\<rparr>)
       (an_invalidated_root f deps (invalidated_in lives)))"

definition tainted_facts :: "FactEvent list \<Rightarrow> ReplayError + TaintedFact list" where
  "tainted_facts es =
     and_then (collect_deps (btm_group FactEvent.fact_id es) [] [])
       (\<lambda>(lives, deps). Inr (List.map_filter (tainted_entry lives deps) lives))"

section \<open>The search is correct\<close>

definition dep_edges :: "(FactId, FactId list) btree \<Rightarrow> (FactId \<times> FactId) set" where
  "dep_edges deps = {(f, g). \<exists>es. btm_get deps f = Some es \<and> g \<in> set es}"

text \<open>
  Soundness needs that the stack is reachable from the start; completeness that every seen fact
  is valid and has its dependencies seen or on the stack.
\<close>

lemma root_search_snoc:
  "root_search deps bad seen (rest @ [nxt]) =
     (if nxt \<in> seen then root_search deps bad seen rest
      else if bad nxt then Some nxt
      else (case btm_get deps nxt of
          Some further \<Rightarrow> root_search deps bad (insert nxt seen) (rest @ further)
        | None \<Rightarrow> root_search deps bad (insert nxt seen) rest))"
  by (subst root_search.simps) (simp add: Let_def)

lemma root_search_sound:
  "root_search deps bad seen stack = Some r \<Longrightarrow> bad r \<and> (\<exists>g \<in> set stack. (g, r) \<in> (dep_edges deps)\<^sup>*)"
proof (induction deps bad seen stack rule: root_search.induct)
  case (1 deps bad seen stack)
  show ?case
  proof (cases "stack = []")
    case True
    then show ?thesis using "1.prems" by (simp add: root_search.simps [of deps])
  next
    case ne: False
    define nxt rest where "nxt = last stack" and "rest = butlast stack"
    then have stack: "stack = rest @ [nxt]" using ne by simp
    show ?thesis
    proof (cases "nxt \<in> seen")
      case True
      then have "root_search deps bad seen rest = Some r"
        using "1.prems" by (simp add: root_search_snoc stack)
      from "1.IH"(1) [OF ne nxt_def rest_def True this] show ?thesis by (auto simp: stack)
    next
      case fresh: False
      show ?thesis
      proof (cases "bad nxt")
        case True
        then show ?thesis
          using "1.prems" fresh by (auto simp: root_search_snoc stack)
      next
        case valid: False
        show ?thesis
        proof (cases "btm_get deps nxt")
          case None
          then have "root_search deps bad (insert nxt seen) rest = Some r"
            using "1.prems" fresh valid by (simp add: root_search_snoc stack)
          from "1.IH"(2) [OF ne nxt_def rest_def fresh valid None this] show ?thesis
            by (auto simp: stack)
        next
          case (Some further)
          then have "root_search deps bad (insert nxt seen) (rest @ further) = Some r"
            using "1.prems" fresh valid by (simp add: root_search_snoc stack)
          from "1.IH"(3) [OF ne nxt_def rest_def fresh valid Some this]
          obtain g where "bad r" "g \<in> set rest \<union> set further" "(g, r) \<in> (dep_edges deps)\<^sup>*" by auto
          moreover have "(nxt, g) \<in> dep_edges deps" if "g \<in> set further"
            using that Some by (auto simp: dep_edges_def)
          ultimately show ?thesis by (auto simp: stack intro: converse_rtrancl_into_rtrancl)
        qed
      qed
    qed
  qed
qed

definition search_inv ::
    "(FactId, FactId list) btree \<Rightarrow> (FactId \<Rightarrow> bool) \<Rightarrow> FactId set \<Rightarrow> FactId list \<Rightarrow> bool" where
  "search_inv deps bad seen stack \<longleftrightarrow>
     (\<forall>f \<in> seen. \<not> bad f \<and> (\<forall>g. (f, g) \<in> dep_edges deps \<longrightarrow> g \<in> seen \<union> set stack))"

lemma root_search_complete:
  "root_search deps bad seen stack = None \<Longrightarrow> search_inv deps bad seen stack \<Longrightarrow>
     \<exists>all. seen \<union> set stack \<subseteq> all \<and> (\<forall>f \<in> all. \<not> bad f \<and> (\<forall>g. (f, g) \<in> dep_edges deps \<longrightarrow> g \<in> all))"
proof (induction deps bad seen stack rule: root_search.induct)
  case (1 deps bad seen stack)
  show ?case
  proof (cases "stack = []")
    case True
    then show ?thesis using "1.prems"(2) by (intro exI [of _ seen]) (auto simp: search_inv_def)
  next
    case ne: False
    define nxt rest where "nxt = last stack" and "rest = butlast stack"
    then have stack: "stack = rest @ [nxt]" using ne by simp
    show ?thesis
    proof (cases "nxt \<in> seen")
      case True
      then have "root_search deps bad seen rest = None" "search_inv deps bad seen rest"
        using "1.prems" True unfolding search_inv_def by (simp_all add: root_search_snoc stack) blast
      note ih = "1.IH"(1) [OF ne nxt_def rest_def True this]
      have "seen \<union> set stack = seen \<union> set rest" using True by (auto simp: stack)
      with ih show ?thesis by simp
    next
      case fresh: False
      have valid: "\<not> bad nxt"
        using "1.prems"(1) fresh by (auto simp: root_search_snoc stack)
      show ?thesis
      proof (cases "btm_get deps nxt")
        case None
        then have "root_search deps bad (insert nxt seen) rest = None"
          "search_inv deps bad (insert nxt seen) rest"
          using "1.prems" fresh valid
          by (auto simp: root_search_snoc stack search_inv_def dep_edges_def)
        from "1.IH"(2) [OF ne nxt_def rest_def fresh valid None this] show ?thesis
          by (auto simp: stack)
      next
        case (Some further)
        then have "root_search deps bad (insert nxt seen) (rest @ further) = None"
          "search_inv deps bad (insert nxt seen) (rest @ further)"
          using "1.prems" fresh valid
          by (auto simp: root_search_snoc stack search_inv_def dep_edges_def)
        from "1.IH"(3) [OF ne nxt_def rest_def fresh valid Some this] show ?thesis
          by (auto simp: stack)
      qed
    qed
  qed
qed

section \<open>What the maps hold\<close>

lemma fold_deps_eq:
  "fold_deps state edges es =
     map_ok (\<lambda>s. (s, edges @ concat (map dependency_edges es))) (fold_loop False identity_policy state es)"
proof (induction es arbitrary: state edges)
  case (Cons e es)
  then show ?case by (cases "apply_event state e") (auto simp: map_ok_map_ok)
qed simp

lemma fold_deps_None:
  "fold_deps None [] es = Inr (st, edges) \<longleftrightarrow>
     replay_fact es = Inr st \<and> edges = concat (map dependency_edges es)"
  by (auto simp: fold_deps_eq replay_fact_def replay_fact_with_policy_def fold_fact_plain)

lemma collect_deps_Inr:
  assumes "collect_deps ss lives deps = Inr (lives', deps')" and "btm_ok lives" and "btm_ok deps"
    and "distinct (map fst ss)" and "\<forall>f \<in> set (map fst ss). btm_get lives f = None"
  shows "btm_ok lives' \<and> btm_ok deps' \<and> (\<forall>f. (case map_of ss f of
      None \<Rightarrow> btm_get lives' f = btm_get lives f \<and> btm_get deps' f = btm_get deps f
    | Some es \<Rightarrow> replay_fact es = Inr (None) \<and> btm_get lives' f = None \<and>
          btm_get deps' f = Some (concat (map dependency_edges es)) \<or>
        (\<exists>s. replay_fact es = Inr (Some s) \<and> btm_get lives' f = Some (lifecycle s) \<and>
          btm_get deps' f = Some (concat (map dependency_edges es)))))"
  using assms
proof (induction ss arbitrary: lives deps)
  case (Cons x ss)
  obtain g es where x: "x = (g, es)" by (cases x)
  from Cons.prems(1) x obtain st edges where st: "fold_deps None [] es = Inr (st, edges)"
    and n: "collect_deps ss (case st of Some s \<Rightarrow> btm_insert g (lifecycle s) lives | None \<Rightarrow> lives)
      (btm_insert g edges deps) = Inr (lives', deps')" by auto
  let ?l = "case st of Some s \<Rightarrow> btm_insert g (lifecycle s) lives | None \<Rightarrow> lives"
  have l: "btm_ok ?l" "\<And>f. btm_get ?l f = (if f = g then map_option lifecycle st else btm_get lives f)"
    using Cons.prems(2,5) x by (auto split: option.split simp: btm_get_insert)
  have d: "btm_ok (btm_insert g edges deps)" using Cons.prems(3) by simp
  have fresh: "\<forall>f \<in> set (map fst ss). btm_get ?l f = None"
    using Cons.prems(4,5) x l(2) by auto
  have dist: "distinct (map fst ss)" and g: "map_of ss g = None"
    using Cons.prems(4) x by (auto simp: map_of_eq_None_iff)
  note ih = Cons.IH [OF n l(1) d dist fresh]
  have es: "replay_fact es = Inr st" "edges = concat (map dependency_edges es)"
    using st by (simp_all add: fold_deps_None)
  have "(case map_of (x # ss) f of
      None \<Rightarrow> btm_get lives' f = btm_get lives f \<and> btm_get deps' f = btm_get deps f
    | Some es \<Rightarrow> replay_fact es = Inr (None) \<and> btm_get lives' f = None \<and>
          btm_get deps' f = Some (concat (map dependency_edges es)) \<or>
        (\<exists>s. replay_fact es = Inr (Some s) \<and> btm_get lives' f = Some (lifecycle s) \<and>
          btm_get deps' f = Some (concat (map dependency_edges es))))" for f
  proof (cases "f = g")
    case True
    have "btm_get lives' g = map_option lifecycle st" "btm_get deps' g = Some edges"
      using ih [THEN conjunct2, THEN conjunct2, rule_format, of g] g l(2)
      by (simp_all add: btm_get_insert Cons.prems(3))
    with True es x show ?thesis by (cases st) simp_all
  next
    case False
    then have "map_of (x # ss) f = map_of ss f" "btm_get ?l f = btm_get lives f"
      "btm_get (btm_insert g edges deps) f = btm_get deps f"
      using l(2) x Cons.prems(3) by (simp_all add: btm_get_insert)
    then show ?thesis using ih [THEN conjunct2, THEN conjunct2, rule_format, of f] by (simp only:)
  qed
  with ih show ?case by blast
qed (auto split: option.split)

text \<open>The dependency relation of a log.\<close>

definition derives :: "FactEvent list \<Rightarrow> (FactId \<times> FactId) set" where
  "derives es = {(f, g). \<exists>e \<in> set es. FactEvent.fact_id e = f \<and> g \<in> set (dependency_edges e)}"

definition life_of :: "FactEvent list \<Rightarrow> FactId \<Rightarrow> FactLifecycle option" where
  "life_of es f = (case replay_fact (stream_of f es) of
      Inr (Some s) \<Rightarrow> Some (lifecycle s) | _ \<Rightarrow> None)"

lemma collect_deps_log:
  assumes "collect_deps (btm_group FactEvent.fact_id es) [] [] = Inr (lives, deps)"
  shows "btm_ok lives" and "btm_get lives f = life_of es f" and "dep_edges deps = derives es"
proof -
  have d: "distinct (map fst (btm_group FactEvent.fact_id es))"
    using btm_keys_distinct [OF btm_ok_group] by (simp add: btm_keys_def)
  note c = collect_deps_Inr [OF assms btm_ok_Nil btm_ok_Nil d, simplified]
  show "btm_ok lives" using c by blast
  have get: "btm_get (btm_group FactEvent.fact_id es) f =
      (if stream_of f es = [] then None else Some (stream_of f es))" for f
    by (auto simp: btm_get_group stream_of_def filter_empty_conv)
  have "btm_get lives f = life_of es f \<and> btm_get deps f =
      (if stream_of f es = [] then None else Some (concat (map dependency_edges (stream_of f es))))" for f
    using c [THEN conjunct2, THEN conjunct2, rule_format, of f]
    unfolding btm_get_map_of [symmetric] get
    by (cases "stream_of f es = []") (auto simp: life_of_def btm_get_map_of)
  then have "btm_get lives f = life_of es f"
    and deps: "\<And>f. btm_get deps f =
      (if stream_of f es = [] then None else Some (concat (map dependency_edges (stream_of f es))))"
    by blast+
  then show "btm_get lives f = life_of es f" by simp
  show "dep_edges deps = derives es"
    by (auto simp: dep_edges_def derives_def deps stream_of_def filter_empty_conv split: if_splits)
      blast
qed

lemma invalidated_root_iff:
  "(an_invalidated_root f deps bad = None \<longleftrightarrow> \<not> (\<exists>g. (f, g) \<in> (dep_edges deps)\<^sup>+ \<and> bad g)) \<and>
   (an_invalidated_root f deps bad = Some r \<longrightarrow> (f, r) \<in> (dep_edges deps)\<^sup>+ \<and> bad r)"
proof -
  let ?st = "case btm_get deps f of Some es \<Rightarrow> es | None \<Rightarrow> []"
  have st: "g \<in> set ?st \<longleftrightarrow> (f, g) \<in> dep_edges deps" for g
    by (cases "btm_get deps f") (simp_all add: dep_edges_def)
  have sound: "(f, r) \<in> (dep_edges deps)\<^sup>+ \<and> bad r" if "an_invalidated_root f deps bad = Some r" for r
    using root_search_sound [OF that [unfolded an_invalidated_root_def]] st
    by (meson rtrancl_into_trancl2)
  moreover have "\<not> bad g" if none: "an_invalidated_root f deps bad = None" and g: "(f, g) \<in> (dep_edges deps)\<^sup>+" for g
  proof -
    obtain A where A: "set ?st \<subseteq> A" "\<forall>f \<in> A. \<not> bad f \<and> (\<forall>g. (f, g) \<in> dep_edges deps \<longrightarrow> g \<in> A)"
      using root_search_complete [OF none [unfolded an_invalidated_root_def]]
      by (auto simp: search_inv_def)
    from g have "g \<in> A"
    proof (induction rule: trancl_induct)
      case (base y)
      then show ?case using A(1) st by blast
    next
      case (step y z)
      then show ?case using A(2) by blast
    qed
    with A(2) show ?thesis by blast
  qed
  ultimately show ?thesis by (metis not_None_eq)
qed

lemma tainted_entry_Some:
  assumes lives: "\<And>g. btm_get lives g = life_of es g" and edges: "dep_edges deps = derives es"
    and t: "tainted_entry lives deps (f, l) = Some t"
  shows "fact t = f" and "\<not> is_terminal l" and "(f, root t) \<in> (derives es)\<^sup>+"
    and "life_of es (root t) = Some (root_lifecycle t)"
    and "root_lifecycle t \<in> {FactLifecycle.Retracted, FactLifecycle.Expired}"
proof -
  obtain r where r: "an_invalidated_root f deps (invalidated_in lives) = Some r"
    and l: "\<not> is_terminal l" and teq: "t = \<lparr>fact = f, root = r,
      root_lifecycle = (case btm_get lives r of Some x \<Rightarrow> x | None \<Rightarrow> Active)\<rparr>"
    using t by (auto simp: tainted_entry_def split: if_splits)
  have "(f, r) \<in> (dep_edges deps)\<^sup>+ \<and> invalidated_in lives r" using r invalidated_root_iff by blast
  then show "fact t = f" "\<not> is_terminal l" "(f, root t) \<in> (derives es)\<^sup>+"
    "life_of es (root t) = Some (root_lifecycle t)"
    "root_lifecycle t \<in> {FactLifecycle.Retracted, FactLifecycle.Expired}"
    using l lives [of r] by (auto simp: teq edges invalidated_in_def)
qed

text \<open>The index \<open>lifecycle[&root]\<close> of the code is in range.\<close>

lemma tainted_entry_no_panic:
  "an_invalidated_root f deps (invalidated_in lives) = Some r \<Longrightarrow> btm_get lives r \<noteq> None"
  using invalidated_root_iff [of f deps "invalidated_in lives" r] by (auto simp: invalidated_in_def)

section \<open>Property\<close>

text \<open>
  C23: Poison does not survive in derivatives unseen. On a log that replays, the analysis
  terminates and reports exactly the facts that are still believed and derive, through one or
  more dependency edges across any subjects and through cycles, from a retracted or expired fact;
  each report names such a root with its lifecycle.
\<close>

theorem tainted_facts_exact:
  assumes "tainted_facts es = Inr ts"
  shows "(f \<in> fact ` set ts \<longleftrightarrow>
      (\<exists>l. life_of es f = Some l \<and> \<not> is_terminal l) \<and>
      (\<exists>g. (f, g) \<in> (derives es)\<^sup>+ \<and>
         life_of es g \<in> {Some FactLifecycle.Retracted, Some FactLifecycle.Expired})) \<and>
    (\<forall>t \<in> set ts. (fact t, root t) \<in> (derives es)\<^sup>+ \<and> life_of es (root t) = Some (root_lifecycle t) \<and>
       root_lifecycle t \<in> {FactLifecycle.Retracted, FactLifecycle.Expired})"
proof -
  obtain lives deps where c: "collect_deps (btm_group FactEvent.fact_id es) [] [] = Inr (lives, deps)"
    and ts: "ts = List.map_filter (tainted_entry lives deps) lives"
    using assms by (auto simp: tainted_facts_def)
  note log = collect_deps_log [OF c]
  have mem: "t \<in> set ts \<longleftrightarrow> (\<exists>f l. btm_get lives f = Some l \<and> tainted_entry lives deps (f, l) = Some t)" for t
    using btm_in_set [OF log(1)] by (force simp: ts List.map_filter_def image_iff)
  note entry = tainted_entry_Some [OF log(2,3)]
  have found: "f \<in> fact ` set ts"
    if "life_of es f = Some l" "\<not> is_terminal l" "(f, g) \<in> (derives es)\<^sup>+"
      "life_of es g \<in> {Some FactLifecycle.Retracted, Some FactLifecycle.Expired}" for l g
  proof -
    have "invalidated_in lives g" using that(4) log(2) by (auto simp: invalidated_in_def)
    then have "an_invalidated_root f deps (invalidated_in lives) \<noteq> None"
      using that(3) invalidated_root_iff [of f deps "invalidated_in lives"] log(3) by auto
    then have "tainted_entry lives deps (f, l) \<noteq> None"
      using that(2) by (auto simp: tainted_entry_def)
    then obtain t where t: "tainted_entry lives deps (f, l) = Some t" by blast
    then have "t \<in> set ts" unfolding mem log(2) using that(1) by blast
    with entry(1) [OF t] show ?thesis by blast
  qed
  have sound: "(\<exists>l. life_of es (fact t) = Some l \<and> \<not> is_terminal l) \<and> (fact t, root t) \<in> (derives es)\<^sup>+ \<and>
      life_of es (root t) = Some (root_lifecycle t) \<and>
      root_lifecycle t \<in> {FactLifecycle.Retracted, FactLifecycle.Expired}" if t: "t \<in> set ts" for t
  proof -
    obtain f l where f: "btm_get lives f = Some l" "tainted_entry lives deps (f, l) = Some t"
      using t unfolding mem by blast
    with entry [OF f(2)] log(2) show ?thesis by auto
  qed
  show ?thesis
  proof (intro conjI iffI)
    assume "f \<in> fact ` set ts"
    then obtain t where t: "t \<in> set ts" and f: "f = fact t" by blast
    show "\<exists>l. life_of es f = Some l \<and> \<not> is_terminal l" using sound [OF t] f by blast
    show "\<exists>g. (f, g) \<in> (derives es)\<^sup>+ \<and>
        life_of es g \<in> {Some FactLifecycle.Retracted, Some FactLifecycle.Expired}"
      using sound [OF t] unfolding f by (intro exI [of _ "root t"]) auto
  next
    assume "(\<exists>l. life_of es f = Some l \<and> \<not> is_terminal l) \<and>
      (\<exists>g. (f, g) \<in> (derives es)\<^sup>+ \<and>
         life_of es g \<in> {Some FactLifecycle.Retracted, Some FactLifecycle.Expired})"
    then show "f \<in> fact ` set ts" using found by blast
  qed (use sound in blast)
qed

section \<open>Witness\<close>

definition sample_derived :: FactEvent where
  "sample_derived = (sample_assert ''event:9'' ''fact:2'' Low)\<lparr>evidence :=
     [\<lparr>evidence_id = EvidenceId ''evidence:2'', kind = DerivedFrom, locator = ''fact:1'', digest = None,
       summary = None\<rparr>]\<rparr>"

definition sample_taint :: "FactEvent list" where
  "sample_taint = [sample_assert ''event:1'' ''fact:1'' Low, sample_derived,
     sample_mark ''event:2'' ''fact:1'' (FactEventKind.Retracted PoisoningDetected) Low]"

lemma sample_derived_edges: "dependency_edges sample_derived = [FactId ''fact:1'']"
  by (simp add: dependency_edges_def sample_derived_def List.map_filter_def id_defs not_blank_graph
      is_graph_def byte_of_def ws1_def)

theorem tainted_facts_exact_witness:
  "\<exists>ts. tainted_facts sample_taint = Inr ts \<and> FactId ''fact:2'' \<in> fact ` set ts \<and>
     FactId ''fact:1'' \<notin> fact ` set ts"
proof -
  have e: "dependency_edges (sample_assert a b l) = []" "dependency_edges (sample_mark a b k l) = []" for a b k l
    by (simp_all add: dependency_edges_def sample_defs List.map_filter_def)
  obtain ts where ts: "tainted_facts sample_taint = Inr ts"
    by (simp add: tainted_facts_def sample_taint_def btm_group_def less_FactId_def e sample_derived_edges)
      (simp add: sample_derived_def sample_defs transition_eval level_order less_FactId_def)
  have "life_of sample_taint (FactId ''fact:2'') = Some Active"
    "life_of sample_taint (FactId ''fact:1'') = Some FactLifecycle.Retracted"
    by (simp_all add: life_of_def stream_of_def sample_taint_def sample_derived_def sample_defs
        replay_fact_eq transition_eval level_order)
  moreover have "(FactId ''fact:2'', FactId ''fact:1'') \<in> derives sample_taint"
    by (simp add: derives_def sample_taint_def sample_derived_edges) (simp add: sample_derived_def sample_defs)
  ultimately show ?thesis
    using ts tainted_facts_exact [OF ts, of "FactId ''fact:2''"]
      tainted_facts_exact [OF ts, of "FactId ''fact:1''"] by auto
qed

end
