(* ===== verification/Admission.thy ===== *)
theory Admission
  imports Memory_Store
begin

text \<open>
  Batches of appends to the in-memory store, as every multi-event operation of the command line
  makes them: append until the first refusal. The result is a function of the log alone,
  \<open>log_admits\<close>, which is executable and is what the operations' properties are stated with.
\<close>

section \<open>Appending a batch\<close>

fun append_each ::
    "'j Externs \<Rightarrow> InMemoryEventStore \<Rightarrow> FactEvent list \<Rightarrow>
       InMemoryEventStore \<times> (FactEvent \<times> StoreError fault + unit)" where
  "append_each X st [] = (st, Inr ())"
| "append_each X st (e # es) = (case append X st e of
      (st', Inl err) \<Rightarrow> (st', Inl (e, err))
    | (st', Inr _) \<Rightarrow> append_each X st' es)"

text \<open>The decision on one event against a log, and on a batch.\<close>

definition admits_next :: "FactEvent list \<Rightarrow> FactEvent \<Rightarrow> bool" where
  "admits_next es e \<longleftrightarrow>
     arbitrate_events e (stream_of (FactEvent.fact_id e) es)
       (case FactEvent.kind e of FactEventKind.Superseded g _ \<Rightarrow> Some (stream_of g es) | _ \<Rightarrow> None) = Inr () \<and>
     event_str (event_id e) \<notin> (\<lambda>e. event_str (event_id e)) ` set es"

fun log_admits :: "FactEvent list \<Rightarrow> FactEvent list \<Rightarrow> bool" where
  "log_admits es [] = True"
| "log_admits es (e # fs) = (admits_next es e \<and> log_admits (es @ [e]) fs)"

lemma hash_prefix: "is_ok (hash_chain X (es @ fs)) \<Longrightarrow> is_ok (hash_chain X es)"
proof (induction fs rule: rev_induct)
  case (snoc f fs)
  then show ?case by (auto simp: hash_chain_def hash_chain_from_snoc is_ok_iff simp flip: append_assoc)
qed simp

lemma memory_hashed: "memory_ok X st \<Longrightarrow> is_ok (hash_chain X (all_events st))"
  by (simp add: memory_ok_def)

lemma append_ok_iff:
  assumes "memory_ok X st" and "append X st e = (st', r)"
  shows "is_ok r \<longleftrightarrow> admits_next (all_events st) e \<and> is_ok (hash_chain X (all_events st @ [e]))"
  using append_cases [OF assms] assms(1)
  by (auto simp: admits_next_def arbitrate_events_Inr memory_ok_def)

lemma append_each_spec:
  assumes "memory_ok X st" and "append_each X st es = (st', r)"
  shows "memory_ok X st'"
    and "is_ok r \<longleftrightarrow> log_admits (all_events st) es \<and> is_ok (hash_chain X (all_events st @ es))"
    and "is_ok r \<Longrightarrow> all_events st' = all_events st @ es"
    and "r = Inl (e, err) \<Longrightarrow> err \<noteq> Panic \<and> e \<in> set es"
proof -
  have "memory_ok X st' \<and>
      (is_ok r \<longleftrightarrow> log_admits (all_events st) es \<and> is_ok (hash_chain X (all_events st @ es))) \<and>
      (is_ok r \<longrightarrow> all_events st' = all_events st @ es) \<and>
      (\<forall>e err. r = Inl (e, err) \<longrightarrow> err \<noteq> Panic \<and> e \<in> set es)"
    using assms
  proof (induction es arbitrary: st)
    case Nil
    then show ?case by (auto simp: memory_hashed)
  next
    case (Cons e es)
    obtain st1 r1 where a: "append X st e = (st1, r1)" by force
    note one = append_cases [OF Cons.prems(1) a] and dec = append_ok_iff [OF Cons.prems(1) a]
    show ?case
    proof (cases r1)
      case (Inl err)
      then have "r = Inl (e, err)" "st' = st" using Cons.prems(2) a one by auto
      moreover have "\<not> (admits_next (all_events st) e \<and> is_ok (hash_chain X (all_events st @ [e])))"
        using dec Inl by simp
      ultimately show ?thesis
        using one Inl Cons.prems(1) hash_prefix [of X "all_events st @ [e]" es] by auto
    next
      case (Inr rc)
      then have ev: "all_events st1 = all_events st @ [e]" and rest: "append_each X st1 es = (st', r)"
        using one a Cons.prems(2) by auto
      have "memory_ok X st1"
        using mem.append_extends [OF Cons.prems(1)] a Inr by blast
      from Cons.IH [OF this rest] show ?thesis using dec Inr ev by auto
    qed
  qed
  then show "memory_ok X st'"
    and "is_ok r \<longleftrightarrow> log_admits (all_events st) es \<and> is_ok (hash_chain X (all_events st @ es))"
    and "is_ok r \<Longrightarrow> all_events st' = all_events st @ es"
    and "r = Inl (e, err) \<Longrightarrow> err \<noteq> Panic \<and> e \<in> set es" by blast+
qed

text \<open>A batch admitted from the empty store is a session in which nothing was refused.\<close>

lemma append_each_session: "append_each X st es = (st', Inr u) \<Longrightarrow> append_session X st es = st'"
  by (induction X st es rule: append_each.induct)
    (auto simp: append_session_def split: prod.splits sum.splits)

lemma admitted_session:
  assumes "log_admits [] es" and "is_ok (hash_chain X es)"
  shows "all_events (append_session X new_store es) = es"
proof -
  obtain st' r where a: "append_each X new_store es = (st', r)" by force
  have new: "all_events new_store = []" by (simp add: all_events_def new_store_def)
  have ok: "is_ok r" using append_each_spec(2) [OF memory_ok_new a] assms new by simp
  then have "all_events st' = es" using append_each_spec(3) [OF memory_ok_new a] new by simp
  moreover have "append_session X new_store es = st'"
    using append_each_session a ok by (auto simp: is_ok_iff)
  ultimately show ?thesis by simp
qed

text \<open>An admitted batch keeps the log arbitrated.\<close>

lemma admits_next_inv: "log_inv es \<Longrightarrow> admits_next es e \<Longrightarrow> log_inv (es @ [e])"
  unfolding admits_next_def arbitrate_events_Inr by (rule log_inv_snoc) blast+

lemma log_admits_inv: "log_inv es \<Longrightarrow> log_admits es fs \<Longrightarrow> log_inv (es @ fs)"
  by (induction fs arbitrary: es) (simp, metis admits_next_inv append.assoc append_Cons append_Nil log_admits.simps(2))

lemma log_admits_append: "log_admits es (fs @ gs) \<longleftrightarrow> log_admits es fs \<and> log_admits (es @ fs) gs"
  by (induction fs arbitrary: es) auto

end
