(* ===== verification/Durable_Log.thy ===== *)
theory Durable_Log
  imports Op_Error Process_Env Registry Content_Check Taint Admission
begin

text \<open>
  The durable log of the file store (\<open>crates/dent8-cli/src/main.rs\<close>): its JSON lines, the
  resilient parse that skips corrupt lines, the append in a single write, the trusted reload with
  its integrity gate, the choice of the next event id, and the findings and advisories that
  \<open>verify\<close> reports on a log. \<open>serde_json\<close> is the parameter \<open>Codec\<close>; reading and writing the file
  are outcomes supplied by the environment, a failed write with the bytes that reached the file.
\<close>

section \<open>Lines\<close>

definition cr :: char where
  "cr = CHR 0x0D"

text \<open>\<open>str::lines\<close>: the pieces that end at a line feed, without it and a carriage return before it.\<close>

fun split_inclusive :: "string \<Rightarrow> string list" where
  "split_inclusive [] = []"
| "split_inclusive (c # cs) =
     (if c = nl then [c] # split_inclusive cs
      else case split_inclusive cs of [] \<Rightarrow> [[c]] | l # ls \<Rightarrow> (c # l) # ls)"

definition strip_line_end :: "string \<Rightarrow> string" where
  "strip_line_end l =
     (if l \<noteq> [] \<and> last l = nl
      then (let m = butlast l in if m \<noteq> [] \<and> last m = cr then butlast m else m)
      else l)"

definition str_lines :: "string \<Rightarrow> string list" where
  "str_lines s = map strip_line_end (split_inclusive s)"

section \<open>JSON lines\<close>

record Codec =
  from_line :: "string \<Rightarrow> FactEvent option"
  to_line :: "FactEvent \<Rightarrow> string + string"

text \<open>The loop of \<open>parse_jsonl_events\<close>: the events in file order and the numbers of the skipped lines.\<close>

fun parse_lines :: "Codec \<Rightarrow> nat \<Rightarrow> string list \<Rightarrow> FactEvent list \<times> nat list" where
  "parse_lines K n [] = ([], [])"
| "parse_lines K n (l # ls) =
     (let line = trim l; (events, corrupt) = parse_lines K (Suc n) ls in
      if line = [] then (events, corrupt)
      else case from_line K line of
          Some e \<Rightarrow> (e # events, corrupt)
        | None \<Rightarrow> (events, (n + 1) # corrupt))"

definition parse_jsonl_events :: "Codec \<Rightarrow> string \<Rightarrow> FactEvent list \<times> nat list" where
  "parse_jsonl_events K contents = parse_lines K 0 (str_lines contents)"

text \<open>The buffer of an append: every event serialized, a line feed after each.\<close>

definition jsonl_buffer :: "Codec \<Rightarrow> FactEvent list \<Rightarrow> WriteError + string" where
  "jsonl_buffer K es =
     map_ok concat (try_map (\<lambda>e. map_ok (\<lambda>line. line @ [nl])
       (map_err (\<lambda>err. Other (''serialize: '' @ err)) (to_line K e))) es)"

datatype IoOutcome = Written | OpenFails string | WriteFails nat string

text \<open>The log file, absent before the first write, and the append to it.\<close>

definition file_append :: "string \<Rightarrow> IoOutcome \<Rightarrow> string option \<Rightarrow> string \<Rightarrow> string option \<times> (WriteError + unit)" where
  "file_append path io file buffer =
     (let old = (case file of None \<Rightarrow> [] | Some c \<Rightarrow> c) in
      case io of
        Written \<Rightarrow> (Some (old @ buffer), Inr ())
      | OpenFails e \<Rightarrow> (file, Inl (Other (''cannot open '' @ path @ '': '' @ e)))
      | WriteFails k e \<Rightarrow> (Some (old @ take k buffer), Inl (Other (''cannot write '' @ path @ '': '' @ e))))"

text \<open>
  \<open>append_events\<close>: attestation of the batch first (\<open>attest\<close>, of \<open>identity.rs\<close>), then one write.
  The events come back as the attestation left them.
\<close>

definition append_events ::
    "Codec \<Rightarrow> (FactEvent list \<Rightarrow> string + FactEvent list) \<Rightarrow> string \<Rightarrow> IoOutcome \<Rightarrow> string option \<Rightarrow>
       FactEvent list \<Rightarrow> string option \<times> (WriteError + FactEvent list)" where
  "append_events K attest path io file es =
     (case attest es of
        Inl m \<Rightarrow> (file, Inl (Other m))
      | Inr attested \<Rightarrow>
          (case jsonl_buffer K attested of
             Inl err \<Rightarrow> (file, Inl err)
           | Inr buffer \<Rightarrow> (case file_append path io file buffer of
                 (file', Inl err) \<Rightarrow> (file', Inl err)
               | (file', Inr _) \<Rightarrow> (file', Inr attested))))"

section \<open>Event ids\<close>

text \<open>\<open>str::parse::<usize>\<close>: an optional plus sign and decimal digits, in the range of 64 bits.\<close>

definition is_digit :: "char \<Rightarrow> bool" where
  "is_digit c \<longleftrightarrow> 48 \<le> byte_of c \<and> byte_of c \<le> 57"

fun digits_value :: "int \<Rightarrow> string \<Rightarrow> int" where
  "digits_value acc [] = acc"
| "digits_value acc (c # cs) = digits_value (10 * acc + (int (byte_of c) - 48)) cs"

definition parse_usize :: "string \<Rightarrow> u64 option" where
  "parse_usize s =
     (let ds = (case s of c # cs \<Rightarrow> if c = CHR ''+'' then cs else s | [] \<Rightarrow> s) in
      if ds \<noteq> [] \<and> (\<forall>c \<in> set ds. is_digit c) \<and> digits_value 0 ds < 18446744073709551616
      then Some (word_of_int (digits_value 0 ds)) else None)"

definition event_number :: "FactEvent \<Rightarrow> u64 option" where
  "event_number e = Option.bind (strip_prefix ''event:'' (event_str (event_id e))) parse_usize"

definition max_of :: "u64 list \<Rightarrow> u64 option" where
  "max_of xs = (case xs of [] \<Rightarrow> None | x # rest \<Rightarrow> Some (fold max rest x))"

text \<open>
  \<open>next_seq\<close>: one past the highest number present. The addition is the one of a release build,
  which wraps.
\<close>

definition next_seq :: "InMemoryEventStore \<Rightarrow> u64" where
  "next_seq st = (case max_of (List.map_filter event_number (scan_events st EventFilter_default)) of
      None \<Rightarrow> 0 | Some m \<Rightarrow> m + 1)"

definition reserve_event_seq :: "InMemoryEventStore \<Rightarrow> usize \<Rightarrow> WriteError + u64" where
  "reserve_event_seq st count =
     (if count = 0 then Inl (Other ''cannot reserve zero event ids'') else Inr (next_seq st))"

definition event_id_str :: "u64 \<Rightarrow> string" where
  "event_id_str n = ''event:'' @ show_nat (unat n)"

section \<open>The reload and its integrity gate\<close>

definition debug_FactId :: "FactId \<Rightarrow> string" where
  "debug_FactId f = ''FactId('' @ show_debug (fact_str f) @ '')''"

fun debug_LineageIssue :: "LineageIssue \<Rightarrow> string" where
  "debug_LineageIssue (DanglingSupersession f t) =
     ''DanglingSupersession { fact: '' @ debug_FactId f @ '', target: '' @ debug_FactId t @ '' }''"
| "debug_LineageIssue (SupersededByInvalidated f t l) =
     ''SupersededByInvalidated { fact: '' @ debug_FactId f @ '', target: '' @ debug_FactId t @
       '', target_lifecycle: '' @ show_FactLifecycle l @ '' }''"
| "debug_LineageIssue (SupersessionCycle f) = ''SupersessionCycle { fact: '' @ debug_FactId f @ '' }''"

fun is_broken_lineage :: "LineageIssue \<Rightarrow> bool" where
  "is_broken_lineage (DanglingSupersession _ _) = True"
| "is_broken_lineage (SupersededByInvalidated _ _ _) = False"
| "is_broken_lineage (SupersessionCycle _) = True"

text \<open>The inner loop over the believed facts that have not expired, \<open>live\<close>.\<close>

fun unique_states ::
    "PredicateRegistry \<Rightarrow> Subject \<Rightarrow> FactState list \<Rightarrow> FactState list \<Rightarrow> string + unit" where
  "unique_states R sj live [] = Inr ()"
| "unique_states R sj live (s # rest) =
     (let grp = filter (\<lambda>t. FactState.predicate t = FactState.predicate s) live in
      if length grp \<le> 1 \<or>
         \<not> (case policy_for R sj (FactState.predicate s) of None \<Rightarrow> False | Some pol \<Rightarrow> unique pol)
      then unique_states R sj live rest
      else let unaccounted = length (filter (\<lambda>t. FactState.fact_id t \<notin> set (accounted_ids grp)) grp) in
        if unaccounted > 0
        then Inl (''corrupt log: '' @ subject_kind sj @ ''.'' @ predicate_str (FactState.predicate s) @
          '' has '' @ show_nat unaccounted @
          '' fresh believed fact(s) not explained by a contest for a unique predicate (possible torn write or external edit)'')
        else unique_states R sj live rest)"

definition subject_filter :: "Subject \<Rightarrow> EventFilter" where
  "subject_filter sj = EventFilter_default\<lparr>filter_subject := Some sj\<rparr>"

definition validate_subject :: "InMemoryEventStore \<Rightarrow> TimestampMillis \<Rightarrow> Subject \<Rightarrow> string + unit" where
  "validate_subject st now sj =
     and_then (map_err show_ReplayError (replay_subject (scan_events st (subject_filter sj)))) (\<lambda>pr.
       case find is_broken_lineage (lineage_issues pr) of
         Some i \<Rightarrow> Inl (''corrupt log: '' @ subject_kind sj @ '' subject has a broken supersession lineage ('' @
           debug_LineageIssue i @ '') (possible external edit)'')
       | None \<Rightarrow>
           let live = filter (\<lambda>s. \<not> is_expired_at s now) (believed pr) in
           unique_states coding_agent sj live live)"

fun validate_subjects ::
    "InMemoryEventStore \<Rightarrow> TimestampMillis \<Rightarrow> Subject set \<Rightarrow> FactEvent list \<Rightarrow> string + unit" where
  "validate_subjects st now seen [] = Inr ()"
| "validate_subjects st now seen (e # es) =
     (let sj = FactEvent.subject e in
      if sj \<in> seen then validate_subjects st now seen es
      else and_then (validate_subject st now sj) (\<lambda>_. validate_subjects st now (insert sj seen) es))"

definition validate_unique_log :: "InMemoryEventStore \<Rightarrow> TimestampMillis \<Rightarrow> string + unit" where
  "validate_unique_log st now =
     validate_subjects st now {} (scan_events st EventFilter_default)"

text \<open>\<open>load_store_reporting\<close> for the file store: the store and the skipped lines.\<close>

definition load_store_reporting ::
    "'j Externs \<Rightarrow> Codec \<Rightarrow> string \<Rightarrow> ReadOutcome \<Rightarrow> TimestampMillis \<Rightarrow>
       string fault + InMemoryEventStore \<times> nat list" where
  "load_store_reporting X K path r now =
     and_then (case r of
         Contents c \<Rightarrow> Inr c | NotFound \<Rightarrow> Inr []
       | ReadError e \<Rightarrow> Inl (Fail (''cannot read '' @ path @ '': '' @ e))) (\<lambda>contents.
       let (events, corrupt) = parse_jsonl_events K contents in
       and_then (map_err (fault_map (\<lambda>e. ''cannot load '' @ path @ '': '' @ show_StoreError e))
           (from_trusted_events X events)) (\<lambda>st.
         and_then (map_err (\<lambda>e. Fail (path @ '': '' @ e)) (validate_unique_log st now)) (\<lambda>_.
           Inr (st, corrupt))))"

definition load_store ::
    "'j Externs \<Rightarrow> Codec \<Rightarrow> string \<Rightarrow> ReadOutcome \<Rightarrow> TimestampMillis \<Rightarrow> string fault + InMemoryEventStore" where
  "load_store X K path r now = map_ok fst (load_store_reporting X K path r now)"

text \<open>\<open>load_raw_events\<close>: the witness's view, with no integrity gate.\<close>

definition load_raw_events :: "Codec \<Rightarrow> string \<Rightarrow> ReadOutcome \<Rightarrow> string + FactEvent list" where
  "load_raw_events K path r = (case r of
      Contents c \<Rightarrow> Inr (fst (parse_jsonl_events K c))
    | NotFound \<Rightarrow> Inr (fst (parse_jsonl_events K []))
    | ReadError e \<Rightarrow> Inl (''cannot read '' @ path @ '': '' @ e))"

section \<open>What \<open>verify\<close> reports\<close>

definition content_flag_findings :: "FactEvent list \<Rightarrow> string list" where
  "content_flag_findings es = concat (map (\<lambda>(f, stream).
     case replay_fact stream of
       Inr (Some s) \<Rightarrow>
         if is_terminal (FactState.lifecycle s) then []
         else List.map_filter (\<lambda>e. map_option (\<lambda>fl.
           ''CONTENT-FLAGGED: '' @ fact_str f @ '' '' @ em_dash @ '' '' @ ContentFlag.reason fl @
           '' (scanner: '' @ ContentFlag.scanner fl @ '')'') (content_flag e)) stream
     | Inr None \<Rightarrow> []
     | Inl _ \<Rightarrow> []) (btm_group FactEvent.fact_id es))"

fun unearned_detail :: "UnearnedSupersession \<Rightarrow> string" where
  "unearned_detail (AuthorityDowngrade s b i c) =
     fact_str s @ '' replaced by '' @ fact_str b @ '' at lower authority ('' @ show_AuthorityLevel i @
     '' -> '' @ show_AuthorityLevel c @ '')''"
| "unearned_detail (WeakerEntrenchment s b i c) =
     fact_str s @ '' replaced by '' @ fact_str b @ '' with weaker earned entrenchment ('' @ show_nat c @
     '' < '' @ show_nat i @ '')''"

definition unearned_supersession_advisories :: "FactEvent list \<Rightarrow> string list" where
  "unearned_supersession_advisories es = concat (map (\<lambda>((kind, key, predicate), stream).
     case replay_subject stream of
       Inl _ \<Rightarrow> []
     | Inr pr \<Rightarrow> map (\<lambda>u. ''ADVISORY: '' @ kind @ '':'' @ key @ '' '' @ predicate @ '' '' @ em_dash @
         '' unearned supersession: '' @ unearned_detail u) (unearned_supersessions pr))
     (btm_group (\<lambda>e. (subject_kind (FactEvent.subject e), subject_key (FactEvent.subject e),
        predicate_str (FactEvent.predicate e))) es))"

definition append_advisories :: "string \<Rightarrow> string list \<Rightarrow> string" where
  "append_advisories report advisories =
     (if advisories = [] then report
      else report @ [nl] @ show_nat (length advisories) @
        '' unearned-supersession advisory(ies) (admitted; enable DENT8_ENTRENCHMENT_GATE to reject at write time):'' @
        [nl] @ ''  '' @ join ([nl] @ ''  '') advisories)"

text \<open>
  \<open>verify_log\<close> for the file store. The re-check of the write attestations is \<open>identity.rs\<close>'s:
  \<open>attestations\<close> returns its issues and the clause it adds to a clean report.
\<close>

definition integrity_issues ::
    "InMemoryEventStore \<Rightarrow> (FactEvent list \<Rightarrow> string list \<times> string) \<Rightarrow> string + string list" where
  "integrity_issues st attestations =
     (let lineage = concat (map (\<lambda>(sj, pd).
          case replay_subject (scan_events st (pair_filter sj pd)) of
            Inl _ \<Rightarrow> []
          | Inr pr \<Rightarrow> map (\<lambda>i. subject_kind sj @ '':'' @ subject_key sj @ '' '' @ predicate_str pd @ '' '' @
              em_dash @ '' '' @ debug_LineageIssue i) (lineage_issues pr)) (subjects st));
          everything = scan_events st EventFilter_default in
      and_then (map_err show_ReplayError (tainted_facts everything)) (\<lambda>tainted.
        Inr (lineage @
          map (\<lambda>t. ''TAINTED: '' @ fact_str (TaintedFact.fact t) @ '' derives from '' @ fact_str (TaintedFact.root t) @
            '' (now '' @ show_FactLifecycle (root_lifecycle t) @ '')'') tainted @
          content_flag_findings everything @ fst (attestations everything))))"

definition clean_report :: "InMemoryEventStore \<Rightarrow> (FactEvent list \<Rightarrow> string list \<times> string) \<Rightarrow> string" where
  "clean_report st attestations =
     append_advisories (''OK: '' @ show_nat (store_len st) @ '' event(s) across '' @ show_nat (length (subjects st)) @
       '' subject(s) '' @ em_dash @
       '' STRUCTURAL integrity holds (uniqueness + lineage intact, no retraction taint or content-check flags, all events canonicalize)'' @
       snd (attestations (scan_events st EventFilter_default)) @
       ''. This does NOT detect a content edit to *unattested* events: the file dev store keeps no stored hash to compare against '' @
       em_dash @ '' use `dent8 witness verify` (or the Postgres backend) for tamper-detection.'')
       (unearned_supersession_advisories (scan_events st EventFilter_default))"

definition verify_log ::
    "'j Externs \<Rightarrow> Codec \<Rightarrow> (FactEvent list \<Rightarrow> string list \<times> string) \<Rightarrow> string \<Rightarrow> ReadOutcome \<Rightarrow> TimestampMillis \<Rightarrow>
       string fault + string" where
  "verify_log X K attestations path r now =
     and_then (map_err (fault_map (\<lambda>e. ''INTEGRITY FAILURE: '' @ e)) (load_store_reporting X K path r now))
       (\<lambda>(st, corrupt).
         if corrupt \<noteq> []
         then Inl (Fail (''INTEGRITY FAILURE: '' @ show_nat (length corrupt) @ '' corrupt line(s) in '' @ path @
           '' (lines: '' @ join '', '' (map show_nat corrupt) @ '')''))
         else if \<not> verify_chain X st
         then Inl (Fail (''INTEGRITY FAILURE: an event does not canonicalize ('' @ show_nat (store_len st) @ '' events)''))
         else and_then (map_err Fail (integrity_issues st attestations)) (\<lambda>issues.
           if issues \<noteq> []
           then Inl (Fail (''INTEGRITY ISSUES ('' @ show_nat (length issues) @ '' found):'' @ [nl] @ ''  '' @
             join ([nl] @ ''  '') issues))
           else Inr (clean_report st attestations)))"

section \<open>Lines of a log\<close>

lemma split_inclusive_concat: "concat (split_inclusive s) = s"
  by (induction s) (auto split: list.splits)

lemma split_inclusive_line:
  "nl \<notin> set l \<Longrightarrow> split_inclusive (l @ nl # s) = (l @ [nl]) # split_inclusive s"
  by (induction l) auto

lemma split_inclusive_append:
  "s = [] \<or> last s = nl \<Longrightarrow> split_inclusive (s @ t) = split_inclusive s @ split_inclusive t"
proof (induction s)
  case (Cons c s)
  show ?case
  proof (cases "s = []")
    case True
    with Cons.prems show ?thesis by simp
  next
    case False
    then have IH: "split_inclusive (s @ t) = split_inclusive s @ split_inclusive t"
      using Cons by simp
    have "split_inclusive s \<noteq> []"
      using False split_inclusive_concat [of s] by force
    then show ?thesis by (cases "split_inclusive s") (simp_all add: IH)
  qed
qed simp

lemma split_inclusive_tail: "nl \<notin> set l \<Longrightarrow> l \<noteq> [] \<Longrightarrow> split_inclusive l = [l]"
proof (induction l)
  case (Cons c l)
  then show ?case by (cases "l = []") auto
qed simp

lemma str_lines_append: "s = [] \<or> last s = nl \<Longrightarrow> str_lines (s @ t) = str_lines s @ str_lines t"
  by (simp add: str_lines_def split_inclusive_append)

lemma parse_lines_append:
  "parse_lines K n (xs @ ys) =
     (fst (parse_lines K n xs) @ fst (parse_lines K (n + length xs) ys),
      snd (parse_lines K n xs) @ snd (parse_lines K (n + length xs) ys))"
  by (induction xs arbitrary: n) (auto simp: Let_def split_beta split: option.split)

text \<open>The skipped lines do not depend on the events, only on their place.\<close>

lemma parse_lines_all:
  assumes "\<And>l. l \<in> set ls \<Longrightarrow> trim l \<noteq> [] \<and> from_line K (trim l) = Some (g l)"
  shows "parse_lines K n ls = (map g ls, [])"
  using assms
proof (induction ls arbitrary: n)
  case (Cons l ls)
  then have "parse_lines K (Suc n) ls = (map g ls, [])" by simp
  moreover have "trim l \<noteq> []" "from_line K (trim l) = Some (g l)" using Cons.prems [of l] by simp_all
  ultimately show ?case by simp
qed simp

text \<open>
  What a line of \<open>serde_json\<close> looks like: no line feed in it, braces around it, and it reads back
  as the event.
\<close>

definition line_ok :: "Codec \<Rightarrow> FactEvent \<Rightarrow> bool" where
  "line_ok K e \<longleftrightarrow> (\<exists>body. to_line K e = Inr (CHR 0x7B # body @ [CHR 0x7D]) \<and> nl \<notin> set body \<and>
     from_line K (CHR 0x7B # body @ [CHR 0x7D]) = Some e)"

lemma trim_braces: "trim (CHR 0x7B # body @ [CHR 0x7D]) = CHR 0x7B # body @ [CHR 0x7D]"
proof -
  let ?s = "CHR 0x7B # body @ [CHR 0x7D]"
  have "ws_prefix ?s = 0"
    by (cases ?s rule: ws_prefix.cases) (auto simp: ws1_def ws2_def ws3_def byte_of_def)
  moreover have "ws_suffix_rev (rev ?s) = 0"
    by (cases "rev ?s" rule: ws_suffix_rev.cases) (auto simp: ws1_def ws2_def ws3_def byte_of_def)
  ultimately show ?thesis
    by (simp add: trim_def trim_start.simps [of ?s] trim_end_rev.simps [of "CHR 0x7D # rev body @ [CHR 0x7B]"])
qed

lemma braced_line:
  assumes "nl \<notin> set body"
  shows "str_lines ((CHR 0x7B # body @ [CHR 0x7D]) @ nl # rest) = (CHR 0x7B # body @ [CHR 0x7D]) # str_lines rest"
  using assms unfolding str_lines_def
  by (subst split_inclusive_line) (auto simp: nl_def cr_def strip_line_end_def Let_def butlast_append)

section \<open>Appending and reading back\<close>

lemma buffer_ok:
  assumes "\<And>e. e \<in> set es \<Longrightarrow> line_ok K e"
  obtains buffer where "jsonl_buffer K es = Inr buffer"
    "\<And>n. parse_lines K n (str_lines buffer) = (es, [])" "buffer = [] \<or> last buffer = nl"
proof -
  have "\<exists>buffer. jsonl_buffer K es = Inr buffer \<and> (\<forall>n. parse_lines K n (str_lines buffer) = (es, [])) \<and>
      (buffer = [] \<or> last buffer = nl)"
    using assms
  proof (induction es)
    case Nil
    show ?case by (simp add: jsonl_buffer_def str_lines_def)
  next
    case (Cons e es)
    then obtain rest where rest: "jsonl_buffer K es = Inr rest"
      "\<And>n. parse_lines K n (str_lines rest) = (es, [])" "rest = [] \<or> last rest = nl" by auto
    from Cons.prems obtain body where body: "to_line K e = Inr (CHR 0x7B # body @ [CHR 0x7D])"
      "nl \<notin> set body" "from_line K (CHR 0x7B # body @ [CHR 0x7D]) = Some e"
      by (auto simp: line_ok_def)
    let ?l = "CHR 0x7B # body @ [CHR 0x7D]"
    have buf: "jsonl_buffer K (e # es) = Inr (?l @ nl # rest)"
      using rest(1) body(1) by (auto simp: jsonl_buffer_def)
    have "str_lines (?l @ nl # rest) = ?l # str_lines rest" by (rule braced_line [OF body(2)])
    then have "parse_lines K n (str_lines (?l @ nl # rest)) = (e # es, [])" for n
      using body(3) rest(2) by (simp add: trim_braces)
    moreover have "last (?l @ nl # rest) = nl" using rest(3) by auto
    ultimately show ?case using buf by blast
  qed
  then show ?thesis using that by blast
qed

lemma append_then_parse:
  assumes "\<And>e. e \<in> set es \<Longrightarrow> line_ok K e" and "old = [] \<or> last old = nl" and "jsonl_buffer K es = Inr buffer"
  shows "parse_jsonl_events K (old @ buffer) =
    (fst (parse_jsonl_events K old) @ es, snd (parse_jsonl_events K old))"
proof -
  obtain b where "jsonl_buffer K es = Inr b" "\<And>n. parse_lines K n (str_lines b) = (es, [])"
    using buffer_ok [OF assms(1)] by metis
  then show ?thesis
    using assms(2,3) by (simp add: parse_jsonl_events_def str_lines_append parse_lines_append)
qed

text \<open>The contents of a log that only successful appends have written end at a line feed.\<close>

lemma append_ends_line:
  assumes "\<And>e. e \<in> set es \<Longrightarrow> line_ok K e" and "old = [] \<or> last old = nl" and "jsonl_buffer K es = Inr buffer"
  shows "old @ buffer = [] \<or> last (old @ buffer) = nl"
  using buffer_ok [OF assms(1)] assms(2,3) by (metis append_Nil2 last_appendR sum.inject(2))

lemma append_events_Inr:
  "append_events K attest path io file es = (file', Inr fs) \<longleftrightarrow>
     (\<exists>buffer. attest es = Inr fs \<and> jsonl_buffer K fs = Inr buffer \<and> io = Written \<and>
        file' = Some ((case file of None \<Rightarrow> [] | Some c \<Rightarrow> c) @ buffer))"
  by (auto simp: append_events_def file_append_def Let_def split: sum.splits IoOutcome.splits prod.splits)

text \<open>
  A log whose last line was torn: the bytes of the next append continue that line.
\<close>

lemma torn_parse:
  assumes "old = [] \<or> last old = nl" and "tail \<noteq> []" and "nl \<notin> set tail" and "line_ok K e"
    and "jsonl_buffer K [e] = Inr buffer"
    and "\<And>line. to_line K e = Inr line \<Longrightarrow> trim (tail @ line) \<noteq> [] \<and> from_line K (trim (tail @ line)) = None"
  shows "fst (parse_jsonl_events K (old @ tail @ buffer)) = fst (parse_jsonl_events K old)"
proof -
  from assms(4) obtain body where body: "to_line K e = Inr (CHR 0x7B # body @ [CHR 0x7D])" "nl \<notin> set body"
    by (auto simp: line_ok_def)
  let ?l = "CHR 0x7B # body @ [CHR 0x7D]"
  have buf: "buffer = ?l @ [nl]" using assms(5) body(1) by (auto simp: jsonl_buffer_def)
  have "nl \<notin> set (tail @ ?l)" using assms(3) body(2) by (auto simp: nl_def)
  then have "split_inclusive (tail @ buffer) = [tail @ ?l @ [nl]]"
    using split_inclusive_line [of "tail @ ?l" "[]"] by (simp add: buf)
  then have "str_lines (tail @ buffer) = [tail @ ?l]"
    by (simp add: str_lines_def strip_line_end_def Let_def butlast_append cr_def)
  then show ?thesis
    using assms(1) assms(6) [OF body(1)]
    by (simp add: parse_jsonl_events_def str_lines_append parse_lines_append)
qed

section \<open>Reserved ids\<close>

lemma scan_everything [simp]: "scan_events st EventFilter_default = all_events st"
  by (simp add: scan_events_def EventFilter_default_def opt_matches_def all_events_def)

lemma digits_value_snoc: "digits_value a (s @ [c]) = 10 * digits_value a s + (int (byte_of c) - 48)"
  by (induction s arbitrary: a) auto

lemma byte_of_digit: "n < 10 \<Longrightarrow> byte_of (char_of (48 + n)) = 48 + n"
  by (simp add: byte_of_def)

lemma show_nat_digits:
  "(\<forall>c \<in> set (show_nat n). is_digit c) \<and> show_nat n \<noteq> [] \<and> digits_value 0 (show_nat n) = int n"
proof (induction n rule: show_nat.induct)
  case (1 n)
  show ?case
  proof (cases "n < 10")
    case True
    then show ?thesis by (simp add: show_nat.simps [of n] is_digit_def byte_of_digit)
  next
    case False
    have "10 * int (n div 10) + int (n mod 10) = int n" by presburger
    then show ?thesis
      using 1 False by (auto simp: show_nat.simps [of n] is_digit_def byte_of_digit digits_value_snoc)
  qed
qed

lemma parse_show: "parse_usize (show_nat (unat (n :: u64))) = Some n"
proof -
  let ?s = "show_nat (unat n)"
  obtain c cs where s: "?s = c # cs" using show_nat_digits [of "unat n"] by (cases ?s) auto
  have "is_digit c" using show_nat_digits [of "unat n"] s by auto
  then have "c \<noteq> CHR ''+''" by (auto simp: is_digit_def byte_of_def)
  moreover have "int (unat n) < 18446744073709551616"
    using unsigned_less [of n] by simp
  ultimately show ?thesis
    using show_nat_digits [of "unat n"] by (simp add: parse_usize_def Let_def s del: set_simps)
qed

lemma event_number_id:
  assumes "event_str (event_id e) = event_id_str n"
  shows "event_number e = Some n"
proof -
  have "strip_prefix ''event:'' (event_id_str n) = Some (show_nat (unat n))"
    by (simp only: strip_prefix_Some event_id_str_def)
  then show ?thesis by (simp only: event_number_def assms bind.bind_lunit parse_show)
qed

lemma event_id_str_inj: "event_id_str m = event_id_str n \<Longrightarrow> m = n"
proof -
  assume "event_id_str m = event_id_str n"
  then have "show_nat (unat m) = show_nat (unat n)" by (simp only: event_id_str_def same_append_eq)
  then have "Some m = Some n" unfolding parse_show [symmetric] by (rule arg_cong)
  then show "m = n" by simp
qed

lemma max_of_ge: "y \<in> set xs \<Longrightarrow> \<exists>m. max_of xs = Some m \<and> y \<le> m \<and> m \<in> set xs"
proof (cases xs)
  case (Cons x rest)
  assume y: "y \<in> set xs"
  have "max_of xs = Some (Max (set xs))"
    by (simp add: max_of_def Cons Max.set_eq_fold del: set_simps)
  then show ?thesis using y by (auto intro: Max_in)
qed simp

lemma unat_offset:
  "unat (m :: u64) + k < 18446744073709551616 \<Longrightarrow> unat (m + of_nat k) = unat m + k"
proof -
  assume a: "unat m + k < 18446744073709551616"
  have "m + of_nat k = of_nat (unat m + k)" by simp
  then have "unat (m + of_nat k) = (unat m + k) mod 2 ^ LENGTH(64)" by (simp only: unat_of_nat take_bit_nat_def)
  then show ?thesis using a by simp
qed

lemma next_seq_above:
  assumes "e \<in> set (all_events st)" and "event_number e = Some n"
  obtains m d where "next_seq st = m + 1" "n \<le> m" "d \<in> set (all_events st)" "event_number d = Some m"
proof -
  have "n \<in> set (List.map_filter event_number (all_events st))"
    using assms by (auto simp: set_map_filter)
  from max_of_ge [OF this] obtain m where m: "max_of (List.map_filter event_number (all_events st)) = Some m"
    "n \<le> m" "m \<in> set (List.map_filter event_number (all_events st))" by auto
  from m(3) obtain d where "d \<in> set (all_events st)" "event_number d = Some m" by (auto simp: set_map_filter)
  with m(1,2) that show thesis by (simp add: next_seq_def)
qed

lemma reserved_fresh:
  assumes "e \<in> set (all_events st)" and "i < count"
    and room: "\<And>d n. d \<in> set (all_events st) \<Longrightarrow> event_number d = Some n \<Longrightarrow>
      unat n + count < 18446744073709551616"
  shows "event_str (event_id e) \<noteq> event_id_str (next_seq st + of_nat i)"
proof
  assume "event_str (event_id e) = event_id_str (next_seq st + of_nat i)"
  then have num: "event_number e = Some (next_seq st + of_nat i)" by (rule event_number_id)
  then obtain m d where m: "next_seq st = m + 1" "next_seq st + of_nat i \<le> m" "d \<in> set (all_events st)"
    "event_number d = Some m" by (rule next_seq_above [OF assms(1)])
  have lt: "unat m + (1 + i) < 18446744073709551616" using room [OF m(3,4)] assms(2) by simp
  have "next_seq st + of_nat i = m + of_nat (1 + i)" by (simp add: m(1) add.assoc)
  then have "unat (next_seq st + of_nat i) = unat m + (1 + i)" by (simp only: unat_offset [OF lt])
  with m(2) show False by (simp add: word_le_nat_alt)
qed

lemma offsets_distinct:
  assumes "(q :: u64) + of_nat i = q + of_nat j" and "i < 18446744073709551616" and "j < 18446744073709551616"
  shows "i = j"
proof -
  have "(of_nat i :: u64) = of_nat j" using assms(1) by simp
  then have "unat (of_nat i :: u64) = unat (of_nat j :: u64)" by simp
  then show ?thesis using assms(2,3) by (simp add: unat_of_nat take_bit_nat_def)
qed

section \<open>The integrity gate\<close>

text \<open>
  What the gate demands of a subject: a projection without a dangling or cyclic supersession, and
  for every unique predicate at most one unexpired believed fact, or every such fact accounted for
  by a contest.
\<close>

definition unique_ok :: "Subject \<Rightarrow> FactState list \<Rightarrow> FactState \<Rightarrow> bool" where
  "unique_ok sj live s \<longleftrightarrow>
     (let grp = filter (\<lambda>t. FactState.predicate t = FactState.predicate s) live in
      length grp \<le> 1 \<or>
      \<not> (case policy_for coding_agent sj (FactState.predicate s) of None \<Rightarrow> False | Some pol \<Rightarrow> unique pol) \<or>
      FactState.fact_id ` set grp \<subseteq> set (accounted_ids grp))"

definition subject_sound :: "FactEvent list \<Rightarrow> TimestampMillis \<Rightarrow> Subject \<Rightarrow> bool" where
  "subject_sound es now sj \<longleftrightarrow>
     (\<exists>pr. replay_subject (filter (\<lambda>e. FactEvent.subject e = sj) es) = Inr pr \<and>
        (\<forall>i \<in> set (lineage_issues pr). \<not> is_broken_lineage i) \<and>
        (let live = filter (\<lambda>s. \<not> is_expired_at s now) (believed pr) in \<forall>s \<in> set live. unique_ok sj live s))"

lemma unique_states_ok: "unique_states coding_agent sj live ss = Inr () \<longleftrightarrow> (\<forall>s \<in> set ss. unique_ok sj live s)"
proof (induction ss)
  case (Cons s ss)
  let ?grp = "filter (\<lambda>t. FactState.predicate t = FactState.predicate s) live"
  have "length (filter (\<lambda>t. FactState.fact_id t \<notin> set (accounted_ids ?grp)) ?grp) = 0 \<longleftrightarrow>
      FactState.fact_id ` set ?grp \<subseteq> set (accounted_ids ?grp)"
    by (auto simp: filter_empty_conv)
  then show ?case
    by (simp add: Let_def Cons.IH unique_ok_def [of sj live s] del: length_0_conv filter_filter)
      (auto simp del: filter_filter)
qed simp

lemma scan_subject: "scan_events st (subject_filter sj) = filter (\<lambda>e. FactEvent.subject e = sj) (all_events st)"
  by (simp add: scan_events_def subject_filter_def EventFilter_default_def opt_matches_def all_events_def
      filter_map comp_def eq_commute)

lemma validate_subject_ok: "validate_subject st now sj = Inr () \<longleftrightarrow> subject_sound (all_events st) now sj"
proof (cases "replay_subject (filter (\<lambda>e. FactEvent.subject e = sj) (all_events st))")
  case (Inr pr)
  have "find is_broken_lineage (lineage_issues pr) = None \<longleftrightarrow>
      (\<forall>i \<in> set (lineage_issues pr). \<not> is_broken_lineage i)"
    by (auto simp: find_None_iff)
  then show ?thesis
    by (cases "find is_broken_lineage (lineage_issues pr)")
      (auto simp: Inr validate_subject_def subject_sound_def scan_subject Let_def unique_states_ok)
qed (simp add: validate_subject_def subject_sound_def scan_subject)

lemma validate_subjects_ok:
  "validate_subjects st now seen es = Inr () \<longleftrightarrow>
     (\<forall>e \<in> set es. FactEvent.subject e \<notin> seen \<longrightarrow> subject_sound (all_events st) now (FactEvent.subject e))"
  by (induction es arbitrary: seen) (auto simp: Let_def validate_subject_ok)

lemma validate_unique_log_ok:
  "validate_unique_log st now = Inr () \<longleftrightarrow>
     (\<forall>e \<in> set (all_events st). subject_sound (all_events st) now (FactEvent.subject e))"
  by (simp add: validate_unique_log_def validate_subjects_ok)

section \<open>Properties\<close>

text \<open>
  An acknowledged append survives the reload. When \<open>append_events\<close> reports success on a log
  that ends at a line feed (or is absent), the file parses afterwards to the events it held before
  followed by exactly the events written, the same corrupt lines are reported as before, and the
  file ends at a line feed again.
\<close>

theorem append_survives_reload:
  assumes "append_events K attest path io file es = (file', Inr fs)"
    and "\<And>e. e \<in> set fs \<Longrightarrow> line_ok K e"
    and "old = (case file of None \<Rightarrow> [] | Some c \<Rightarrow> c)" and "old = [] \<or> last old = nl"
  shows "\<exists>contents. file' = Some contents \<and>
    parse_jsonl_events K contents = (fst (parse_jsonl_events K old) @ fs, snd (parse_jsonl_events K old)) \<and>
    (contents = [] \<or> last contents = nl)"
proof -
  from assms(1,3) obtain buffer where b: "jsonl_buffer K fs = Inr buffer" "file' = Some (old @ buffer)"
    by (auto simp: append_events_Inr)
  show ?thesis
    using append_then_parse [OF assms(2,4) b(1)] append_ends_line [OF assms(2,4) b(1)] b(2) by simp
qed

text \<open>
  C39: A torn line swallows the next write. When a crash left the last line of the log without
  its line feed, \<open>append_events\<close> continues that line: it reports success, but reading the file
  yields only the events before the torn line, without the event just acknowledged (and without
  the torn line's own event, had it been complete). The hypothesis on \<open>from_line\<close> is that two
  concatenated values are not one JSON value.
\<close>

theorem torn_line_swallows_write:
  assumes "append_events K attest path Written (Some (old @ tail)) [e] = (file', Inr [e])"
    and "old = [] \<or> last old = nl" and "tail \<noteq> []" and "nl \<notin> set tail" and "line_ok K e"
    and "\<And>line. to_line K e = Inr line \<Longrightarrow> trim (tail @ line) \<noteq> [] \<and> from_line K (trim (tail @ line)) = None"
  shows "\<exists>contents. file' = Some contents \<and>
    fst (parse_jsonl_events K contents) = fst (parse_jsonl_events K old)"
proof -
  from assms(1) obtain buffer where b: "jsonl_buffer K [e] = Inr buffer" "file' = Some ((old @ tail) @ buffer)"
    by (auto simp: append_events_Inr)
  show ?thesis using torn_parse [OF assms(2-5) b(1) assms(6)] b(2) by simp
qed

text \<open>
  Reserved event ids are fresh and distinct. As long as the highest number in the log leaves
  room in 64 bits, the ids \<open>event:seq\<close>, \<open>event:seq+1\<close>, \<dots> that a command derives from a
  reservation occur in no event of the log and are pairwise different, whatever ids the log holds
  and whichever of its lines were lost.
\<close>

theorem reserved_ids_fresh:
  assumes "reserve_event_seq st count = Inr q" and "i < count" and "j < count"
    and "count < 18446744073709551616"
    and "\<And>d n. d \<in> set (all_events st) \<Longrightarrow> event_number d = Some n \<Longrightarrow> unat n + count < 18446744073709551616"
  shows "(\<forall>e \<in> set (all_events st). event_str (event_id e) \<noteq> event_id_str (q + of_nat i)) \<and>
    (event_id_str (q + of_nat i) = event_id_str (q + of_nat j) \<longrightarrow> i = j)"
proof -
  have q: "q = next_seq st" using assms(1) by (simp add: reserve_event_seq_def split: if_splits)
  have "i = j" if "event_id_str (q + of_nat i) = event_id_str (q + of_nat j)"
    by (rule offsets_distinct [OF event_id_str_inj [OF that]]) (use assms(2-4) in simp_all)
  moreover have "event_str (event_id e) \<noteq> event_id_str (q + of_nat i)" if "e \<in> set (all_events st)" for e
    unfolding q by (rule reserved_fresh [OF that assms(2)]) (rule assms(5))
  ultimately show ?thesis by blast
qed

text \<open>
  The load gate accepts a log if and only if every subject in it is sound: its streams replay,
  no supersession of it dangles or is cyclic, and for each of its unique predicates at most one
  believed fact is unexpired or all of them are accounted for by a contest.
\<close>

theorem load_gate_decides:
  "validate_unique_log st now = Inr () \<longleftrightarrow>
     FactEvent.subject ` set (all_events st) \<subseteq> {sj. subject_sound (all_events st) now sj}"
  unfolding validate_unique_log_ok by blast

text \<open>
  A history of five admitted writes about one unique predicate: an assertion with a TTL of one
  second, and two opposing assertions that each contradict it.
\<close>

definition contest_log :: "FactEvent list" where
  "contest_log =
     [(sample_assert ''event:0'' ''fact:0'' High)\<lparr>FactEvent.ttl := DurationMillis 1000\<rparr>,
      sample_assert ''event:1'' ''fact:1'' High,
      sample_mark ''event:2'' ''fact:0'' (Contradicted (FactId ''fact:1'') SamePredicateDifferentValue) High,
      sample_assert ''event:3'' ''fact:3'' High,
      sample_mark ''event:4'' ''fact:0'' (Contradicted (FactId ''fact:3'') SamePredicateDifferentValue) High]"

lemma contest_session: "all_events (append_session sample_externs new_store contest_log) = contest_log"
proof (rule admitted_session)
  show "log_admits [] contest_log" by code_simp
qed (rule sample_hashable)

definition contest_projection :: SubjectProjection where
  "contest_projection = (case replay_subject contest_log of Inr pr \<Rightarrow> pr | Inl _ \<Rightarrow> \<lparr>facts = []\<rparr>)"

lemma contest_replay: "replay_subject contest_log = Inr contest_projection"
  by code_simp

lemma contest_lineage: "lineage_issues contest_projection = []"
  by code_simp

lemma contest_subject: "filter (\<lambda>e. FactEvent.subject e = Subject ''repo'' ''dent8'') contest_log = contest_log"
  by code_simp

text \<open>Both verdicts reduce to the loop over the unexpired facts of the one subject.\<close>

lemma contest_verdict:
  "validate_unique_log (append_session sample_externs new_store contest_log) now =
     (let live = filter (\<lambda>s. \<not> is_expired_at s now) (believed contest_projection) in
      unique_states coding_agent (Subject ''repo'' ''dent8'') live live)"
proof -
  let ?st = "append_session sample_externs new_store contest_log"
  have "validate_subject ?st now (Subject ''repo'' ''dent8'') =
     (let live = filter (\<lambda>s. \<not> is_expired_at s now) (believed contest_projection) in
      unique_states coding_agent (Subject ''repo'' ''dent8'') live live)"
    by (simp add: validate_subject_def scan_subject contest_session contest_subject contest_replay contest_lineage)
  moreover have "validate_unique_log ?st now = validate_subject ?st now (Subject ''repo'' ''dent8'')"
    unfolding validate_unique_log_def scan_everything contest_session
    by (simp add: contest_log_def sample_defs Let_def)
  ultimately show ?thesis by simp
qed


section \<open>Witnesses\<close>

definition sample_codec :: Codec where
  "sample_codec = \<lparr>
     from_line = \<lambda>s. if s = ''{event:1}'' then Some (sample_assert ''event:1'' ''fact:1'' High) else None,
     to_line = \<lambda>e. Inr (CHR 0x7B # event_str (event_id e) @ [CHR 0x7D])\<rparr>"

lemma sample_line_ok: "line_ok sample_codec (sample_assert ''event:1'' ''fact:1'' High)"
  by (simp add: line_ok_def sample_codec_def sample_defs nl_def)

lemma sample_line_append:
  "append_events sample_codec Inr ''log'' Written (Some old) [sample_assert ''event:1'' ''fact:1'' High] =
     (Some (old @ ''{event:1}'' @ [nl]), Inr [sample_assert ''event:1'' ''fact:1'' High])"
  by (simp add: append_events_def file_append_def jsonl_buffer_def sample_codec_def sample_defs)

theorem append_survives_reload_witness:
  "\<exists>contents. fst (append_events sample_codec Inr ''log'' Written (Some [])
       [sample_assert ''event:1'' ''fact:1'' High]) = Some contents \<and>
     parse_jsonl_events sample_codec contents = ([sample_assert ''event:1'' ''fact:1'' High], [])"
  using append_survives_reload [OF sample_line_append [of "[]"], of "[]"] sample_line_ok
    sample_line_append [of "[]"]
  by (simp add: parse_jsonl_events_def str_lines_def)

theorem torn_line_swallows_write_witness:
  "\<exists>contents. fst (append_events sample_codec Inr ''log'' Written (Some ''{event:1}'')
       [sample_assert ''event:1'' ''fact:1'' High]) = Some contents \<and>
     fst (parse_jsonl_events sample_codec contents) = []"
proof -
  have "from_line sample_codec (trim (''{event:1}'' @ line)) = None \<and> trim (''{event:1}'' @ line) \<noteq> []"
    if "to_line sample_codec (sample_assert ''event:1'' ''fact:1'' High) = Inr line" for line
  proof -
    have "line = ''{event:1}''" using that by (simp add: sample_codec_def sample_defs)
    then have "trim (''{event:1}'' @ line) = ''{event:1}{event:1}''" by (simp add: trim_eval)
    then show ?thesis by (simp add: sample_codec_def)
  qed
  then show ?thesis
    using torn_line_swallows_write [of sample_codec Inr "''log''" "[]" "''{event:1}''"
        "sample_assert ''event:1'' ''fact:1'' High"] sample_line_ok sample_line_append [of "''{event:1}''"]
    by (simp add: nl_def parse_jsonl_events_def str_lines_def)
qed

theorem reserved_ids_fresh_witness:
  "event_id_str (next_seq new_store + of_nat 1) \<noteq> event_id_str (next_seq new_store + of_nat 0)"
  using reserved_ids_fresh [of new_store 2 "next_seq new_store" 1 0]
  by (simp add: reserve_event_seq_def all_events_def new_store_def)

end
