(* ===== verification/Op_Env.thy ===== *)
theory Op_Env
  imports Authority_Gate Durable_Log
begin

text \<open>
  What the operations of \<open>crates/dent8-cli/src/ops.rs\<close> share: their environment (clock, file,
  scanner, signer, gates), an operation as a state transformer that can fail, the event builders,
  the policy-checked append \<open>admit\<close>, the classification and the recording of survived challenges.
  The state is the log file and the number of external calls made so far, which indexes the
  answers of the environment.
\<close>

section \<open>Operations on the world\<close>

record World =
  contents :: "string option"
  tick :: nat

record 'j Env =
  externs :: "'j Externs"
  codec :: Codec
  log_path :: string
  clock :: "nat \<Rightarrow> TimestampMillis"
  read_fault :: "nat \<Rightarrow> string option"
  write_io :: "nat \<Rightarrow> IoOutcome"
  write_gate :: "WriteAuth \<Rightarrow> OpError + unit"
  sign :: "FactEvent list \<Rightarrow> string + FactEvent list"
  content_config :: "string + ContentCheckConfig option"
  content_scanner :: "nat \<Rightarrow> Scanner"
  record_var :: EnvVar
  gate_var :: EnvVar

type_synonym 'a op = "World \<Rightarrow> World \<times> (OpError fault + 'a)"

definition op_return :: "'a \<Rightarrow> 'a op" where
  "op_return x w = (w, Inr x)"

definition op_fail :: "OpError \<Rightarrow> 'a op" where
  "op_fail e w = (w, Inl (Fail e))"

definition op_lift :: "OpError fault + 'a \<Rightarrow> 'a op" where
  "op_lift r w = (w, r)"

definition op_bind :: "'a op \<Rightarrow> ('a \<Rightarrow> 'b op) \<Rightarrow> 'b op" where
  "op_bind m f w = (case m w of (w', Inl e) \<Rightarrow> (w', Inl e) | (w', Inr x) \<Rightarrow> f x w')"

definition next_tick :: "World \<Rightarrow> World" where
  "next_tick w = w\<lparr>tick := Suc (tick w)\<rparr>"

definition read_log :: "'j Env \<Rightarrow> World \<Rightarrow> ReadOutcome" where
  "read_log E w = (case read_fault E (tick w) of
      Some e \<Rightarrow> ReadError e
    | None \<Rightarrow> (case contents w of None \<Rightarrow> NotFound | Some c \<Rightarrow> Contents c))"

definition now_op :: "'j Env \<Rightarrow> TimestampMillis op" where
  "now_op E w = (next_tick w, Inr (clock E (tick w)))"

text \<open>\<open>load_store(path)\<close> reads the file and the clock.\<close>

definition load_raw :: "'j Env \<Rightarrow> World \<Rightarrow> World \<times> (string fault + InMemoryEventStore)" where
  "load_raw E w = (next_tick w,
     load_store (externs E) (codec E) (log_path E) (read_log E w) (clock E (tick w)))"

definition load_op :: "'j Env \<Rightarrow> InMemoryEventStore op" where
  "load_op E w = (case load_raw E w of (w', r) \<Rightarrow> (w', map_err (fault_map op_invalid) r))"

definition write_raw :: "'j Env \<Rightarrow> FactEvent list \<Rightarrow> World \<Rightarrow> World \<times> (WriteError + FactEvent list)" where
  "write_raw E es w = (case append_events (codec E) (sign E) (log_path E) (write_io E (tick w)) (contents w) es of
      (f, r) \<Rightarrow> ((next_tick w)\<lparr>contents := f\<rparr>, r))"

definition write_op :: "'j Env \<Rightarrow> FactEvent list \<Rightarrow> FactEvent list op" where
  "write_op E es w = (case write_raw E es w of (w', r) \<Rightarrow> (w', map_err (\<lambda>e. Fail (write_error_to_op e)) r))"

definition gate_op :: "'j Env \<Rightarrow> WriteAuth \<Rightarrow> unit op" where
  "gate_op E a = op_lift (map_err Fail (write_gate E a))"

definition reserve_op :: "InMemoryEventStore \<Rightarrow> usize \<Rightarrow> u64 op" where
  "reserve_op st n = op_lift (map_err (\<lambda>e. Fail (reserve_error_to_op e)) (reserve_event_seq st n))"

definition content_op :: "'j Env \<Rightarrow> FactEvent list \<Rightarrow> FactEvent list op" where
  "content_op E es w = (case content_config E of
      Inl m \<Rightarrow> (w, Inl (Fail (op_invalid m)))
    | Inr None \<Rightarrow> (w, Inr es)
    | Inr (Some cfg) \<Rightarrow> (case enforce (content_scanner E (tick w)) cfg es of
          (es', Inl refusal) \<Rightarrow>
            (next_tick w, Inl (Fail (rejected_as ContentRejected (''REJECTED: '' @ show_ContentCheckRefusal refusal))))
        | (es', Inr _) \<Rightarrow> (next_tick w, Inr es')))"

definition sign_op :: "'j Env \<Rightarrow> FactEvent list \<Rightarrow> FactEvent list op" where
  "sign_op E es = op_lift (map_err (\<lambda>m. Fail (op_invalid m)) (sign E es))"

definition invalid_op :: "string \<Rightarrow> string + 'a \<Rightarrow> 'a op" where
  "invalid_op what r = op_lift (map_err (\<lambda>m. Fail (op_invalid (what @ '': '' @ m))) r)"

section \<open>Building events\<close>

definition build_event ::
    "string \<Rightarrow> string \<Rightarrow> string \<Rightarrow> string \<Rightarrow> string \<Rightarrow> FactEventKind \<Rightarrow> FactValue option \<Rightarrow> string \<Rightarrow>
       AuthorityLevel \<Rightarrow> TimestampMillis \<Rightarrow> string + FactEvent" where
  "build_event eid fid sk key pred k v src lvl now =
     and_then (map_err (\<lambda>e. ''event id: '' @ show_IdError e) (FactEventId_new eid)) (\<lambda>ei.
     and_then (map_err (\<lambda>e. ''fact id: '' @ show_IdError e) (FactId_new fid)) (\<lambda>fi.
     and_then (map_err (\<lambda>e. ''subject: '' @ show_ValidationError e) (Subject_new sk key)) (\<lambda>sj.
     and_then (map_err (\<lambda>e. ''predicate: '' @ show_ValidationError e) (Predicate_new pred)) (\<lambda>pd.
     and_then (map_err (\<lambda>e. ''source: '' @ show_IdError e) (SourceId_new src)) (\<lambda>so.
     and_then (map_err (\<lambda>e. ''actor: '' @ show_IdError e) (ActorId_new ''actor:cli'')) (\<lambda>ac.
     and_then (map_err (\<lambda>e. ''evidence id: '' @ show_IdError e) (EvidenceId_new ''evidence:cli'')) (\<lambda>vi.
       Inr \<lparr>FactEvent.event_id = ei, FactEvent.fact_id = fi, FactEvent.kind = k, FactEvent.subject = sj,
         FactEvent.predicate = pd, FactEvent.val = v, FactEvent.confidence = Confidence_ASSERTED,
         FactEvent.authority = \<lparr>Authority.level = lvl, Authority.issuer = None, Authority.scope = None\<rparr>,
         FactEvent.ttl = Never,
         FactEvent.provenance = \<lparr>Provenance.source = so, Provenance.actor = ac, Provenance.tool = Some ''dent8'',
           Provenance.run_id = None, Provenance.input_digest = None, Provenance.recorded_at = now,
           Provenance.attestation = None\<rparr>,
         FactEvent.evidence = [\<lparr>Evidence.evidence_id = vi, Evidence.kind = UserStatement,
           Evidence.locator = ''cli:'' @ src, Evidence.digest = None, Evidence.summary = None\<rparr>],
         FactEvent.observed_at = None, FactEvent.valid_from = None, FactEvent.valid_to = None\<rparr>)))))))"

record Validity =
  validity_from :: "i64 option"
  validity_to :: "i64 option"
  validity_ttl :: "u64 option"

definition stamp :: "Validity \<Rightarrow> FactEvent \<Rightarrow> FactEvent" where
  "stamp v e =
     (let e' = e\<lparr>FactEvent.valid_from := map_option from_unix_millis (validity_from v),
                 FactEvent.valid_to := map_option from_unix_millis (validity_to v)\<rparr> in
      case validity_ttl v of None \<Rightarrow> e' | Some d \<Rightarrow> e'\<lparr>FactEvent.ttl := DurationMillis d\<rparr>)"

definition fresh_fact_id :: "string \<Rightarrow> string \<Rightarrow> string \<Rightarrow> u64 \<Rightarrow> string" where
  "fresh_fact_id sk key pred q =
     ''fact:'' @ sk @ '':'' @ key @ '':'' @ pred @ '':'' @ show_nat (unat q)"

definition build_assertion ::
    "u64 \<Rightarrow> string \<Rightarrow> string \<Rightarrow> string \<Rightarrow> string \<Rightarrow> string \<Rightarrow> AuthorityLevel \<Rightarrow> TimestampMillis \<Rightarrow> string + FactEvent" where
  "build_assertion q sk key pred v src lvl now =
     build_event (event_id_str q) (fresh_fact_id sk key pred q) sk key pred Asserted (Some (Text v)) src lvl now"

text \<open>One event per incumbent, numbered from \<open>q\<close>.\<close>

definition build_for_each ::
    "u64 \<Rightarrow> (FactId \<Rightarrow> FactEventKind) \<Rightarrow> FactId list \<Rightarrow> string \<Rightarrow> string \<Rightarrow> string \<Rightarrow> string \<Rightarrow> AuthorityLevel \<Rightarrow>
       TimestampMillis \<Rightarrow> string + FactEvent list" where
  "build_for_each q kind_for ids sk key pred src lvl now =
     try_map (\<lambda>(i, f). build_event (event_id_str (q + of_nat i)) (fact_str f) sk key pred (kind_for f) None src lvl now)
       (enumerate 0 ids)"

definition build_revision ::
    "u64 \<Rightarrow> FactId list \<Rightarrow> string \<Rightarrow> string \<Rightarrow> string \<Rightarrow> string \<Rightarrow> string \<Rightarrow> AuthorityLevel \<Rightarrow> TimestampMillis \<Rightarrow>
       string + FactEvent list \<times> string" where
  "build_revision q incumbents sk key pred v src lvl now =
     (let rid = fresh_fact_id sk key pred q in
      and_then (build_assertion q sk key pred v src lvl now) (\<lambda>replacement.
      and_then (try_map (\<lambda>(i, f).
          and_then (map_err (\<lambda>e. ''fact id: '' @ show_IdError e) (FactId_new rid)) (\<lambda>by_id.
            build_event (event_id_str (q + 1 + of_nat i)) (fact_str f) sk key pred
              (FactEventKind.Superseded by_id UserCorrection) None src lvl now))
          (enumerate 0 incumbents)) (\<lambda>supersessions.
        Inr (replacement # supersessions, rid))))"

definition build_retractions ::
    "u64 \<Rightarrow> FactId list \<Rightarrow> string \<Rightarrow> string \<Rightarrow> string \<Rightarrow> string \<Rightarrow> AuthorityLevel \<Rightarrow> TimestampMillis \<Rightarrow>
       string + FactEvent list" where
  "build_retractions q incumbents sk key pred src lvl now =
     build_for_each q (\<lambda>_. FactEventKind.Retracted UserDeleted) incumbents sk key pred src lvl now"

definition build_contradiction ::
    "u64 \<Rightarrow> string \<Rightarrow> string \<Rightarrow> string \<Rightarrow> string \<Rightarrow> string \<Rightarrow> string \<Rightarrow> AuthorityLevel \<Rightarrow> TimestampMillis \<Rightarrow>
       string + FactEvent list \<times> string" where
  "build_contradiction q target_id sk key pred v src lvl now =
     (let oid = fresh_fact_id sk key pred q in
      and_then (build_assertion q sk key pred v src lvl now) (\<lambda>opposing.
      and_then (map_err (\<lambda>e. ''fact id: '' @ show_IdError e) (FactId_new oid)) (\<lambda>by_id.
      and_then (build_event (event_id_str (q + 1)) target_id sk key pred
          (FactEventKind.Contradicted by_id SamePredicateDifferentValue) None src lvl now) (\<lambda>contradiction.
        Inr ([opposing, contradiction], oid)))))"

section \<open>Admission with policy\<close>

text \<open>\<open>admit\<close>: defaults, predicate policy, then the store's own firewall.\<close>

definition admit ::
    "'j Externs \<Rightarrow> InMemoryEventStore \<Rightarrow> PredicateRegistry \<Rightarrow> FactEvent \<Rightarrow> TimestampMillis \<Rightarrow>
       InMemoryEventStore \<times> (StoreError fault + AppendReceipt)" where
  "admit X st R e now =
     (let e' = apply_policy_defaults R e in
      case enforce_policy R (scan_of st) e' now of
        Inl err \<Rightarrow> (st, Inl err)
      | Inr _ \<Rightarrow> append X st e')"

definition refusal :: "StoreError \<Rightarrow> string \<Rightarrow> OpError" where
  "refusal e note = rejected_as (for_store_error e) (''REJECTED: '' @ show_StoreError e @ note)"

section \<open>Survived challenges\<close>

text \<open>
  Recording is on unless the variable is explicitly false; the gate is off unless it is set. A
  malformed value means true for both.
\<close>

definition flag_or_true :: "string \<Rightarrow> EnvVar \<Rightarrow> bool" where
  "flag_or_true name v = (case env_flag name v of Inr b \<Rightarrow> b | Inl _ \<Rightarrow> True)"

definition challenge_recording_enabled :: "EnvVar \<Rightarrow> bool" where
  "challenge_recording_enabled v = (case v of
      Present s \<Rightarrow> if is_blank s then True else flag_or_true ''DENT8_RECORD_CHALLENGES'' v
    | NotPresent \<Rightarrow> True
    | NotUnicode \<Rightarrow> True)"

definition entrenchment_gate_enabled :: "EnvVar \<Rightarrow> bool" where
  "entrenchment_gate_enabled v = (case v of
      Present s \<Rightarrow> if is_blank s then False else flag_or_true ''DENT8_ENTRENCHMENT_GATE'' v
    | NotPresent \<Rightarrow> False
    | NotUnicode \<Rightarrow> False)"

definition classify_challenge ::
    "FactEvent \<Rightarrow> StoreError \<Rightarrow> (ChallengeKind \<times> FactId option \<times> ChallengeRejection \<times> AuthorityLevel) option" where
  "classify_challenge e err = (case (FactEvent.kind e, err) of
      (FactEventKind.Superseded g _, StoreError.Rejected (TransitionError.InsufficientAuthority _ _)) \<Rightarrow>
        Some (Supersession, Some g, ChallengeRejection.InsufficientAuthority, event_level e)
    | (FactEventKind.Superseded g _, StoreError.LaunderedAuthority _ ch) \<Rightarrow>
        Some (Supersession, Some g, ChallengeRejection.LaunderedAuthority, ch)
    | (FactEventKind.Contradicted g _, StoreError.Rejected TransitionError.CanonicalContradiction) \<Rightarrow>
        Some (Contradiction, Some g, ChallengeRejection.CanonicalContradiction, event_level e)
    | (FactEventKind.Retracted _, StoreError.Rejected (TransitionError.InsufficientAuthority _ _)) \<Rightarrow>
        Some (Retraction, None, ChallengeRejection.InsufficientAuthority, event_level e)
    | (FactEventKind.Expired _, StoreError.Rejected (TransitionError.InsufficientAuthority _ _)) \<Rightarrow>
        Some (Expiration, None, ChallengeRejection.InsufficientAuthority, event_level e)
    | _ \<Rightarrow> None)"

text \<open>
  \<open>persist_challenge_record\<close> runs against a fresh snapshot; its result says whether the record is
  in the log. No failure escapes it.
\<close>

definition persist_challenge_record ::
    "'j Env \<Rightarrow> FactId \<Rightarrow> Subject \<Rightarrow> Predicate \<Rightarrow> ChallengeKind \<Rightarrow> FactId option \<Rightarrow> ChallengeRejection \<Rightarrow>
       string \<Rightarrow> AuthorityLevel \<Rightarrow> World \<Rightarrow> World \<times> bool" where
  "persist_challenge_record E target_id sj pd challenge by_id rejection src effective w =
     (case load_raw E w of
        (w1, Inl _) \<Rightarrow> (w1, False)
      | (w1, Inr st) \<Rightarrow>
          (case reserve_event_seq st 1 of
             Inl _ \<Rightarrow> (w1, False)
           | Inr q \<Rightarrow>
               (let now = clock E (tick w1); w2 = next_tick w1 in
                case build_event (event_id_str q) (fact_str target_id) (Model.subject_kind sj)
                    (Model.subject_key sj) (predicate_str pd)
                    (ChallengeRejected challenge by_id rejection) None src effective now of
                  Inl _ \<Rightarrow> (w2, False)
                | Inr e \<Rightarrow>
                    (case append (externs E) st e of
                       (_, Inl _) \<Rightarrow> (w2, False)
                     | (_, Inr _) \<Rightarrow> (case write_raw E [e] w2 of (w3, r) \<Rightarrow> (w3, is_ok r))))))"

definition CHALLENGE_RECORDED_NOTE :: string where
  "CHALLENGE_RECORDED_NOTE = [nl] @ ''  the incumbent recorded the survived challenge (fact.challenge_rejected)''"

definition record_survived_challenge :: "'j Env \<Rightarrow> FactEvent \<Rightarrow> StoreError \<Rightarrow> World \<Rightarrow> World \<times> string" where
  "record_survived_challenge E e err w =
     (if \<not> challenge_recording_enabled (record_var E) then (w, [])
      else case classify_challenge e err of
        None \<Rightarrow> (w, [])
      | Some (challenge, by_id, rejection, effective) \<Rightarrow>
          (case persist_challenge_record E (FactEvent.fact_id e) (FactEvent.subject e) (FactEvent.predicate e)
               challenge by_id rejection (source_str (event_source e)) effective w of
             (w', recorded) \<Rightarrow> (w', if recorded then CHALLENGE_RECORDED_NOTE else [])))"

text \<open>
  The loop \<open>for event in &events\<close> of the multi-event operations: all appended in memory, or the
  operation is refused and the challenge recorded.
\<close>

definition admit_all :: "'j Env \<Rightarrow> InMemoryEventStore \<Rightarrow> FactEvent list \<Rightarrow> unit op" where
  "admit_all E st es w = (case append_each (externs E) st es of
      (_, Inr _) \<Rightarrow> (w, Inr ())
    | (_, Inl (e, Panic)) \<Rightarrow> (w, Inl Panic)
    | (_, Inl (e, Fail err)) \<Rightarrow>
        (case record_survived_challenge E e err w of (w', note) \<Rightarrow> (w', Inl (Fail (refusal err note)))))"

fun display_value :: "FactValue \<Rightarrow> string" where
  "display_value (Text t) = [CHR 0x22] @ t @ [CHR 0x22]"
| "display_value (Json j) = ''json:'' @ json_str j"
| "display_value Redacted = ''<redacted>''"

text \<open>\<open>short\<close>: the first twelve bytes of a hash and an ellipsis.\<close>

definition short :: "string \<Rightarrow> string" where
  "short h = take 12 h @ ellipsis"

end
