(* ===== verification/Op_Layer.thy ===== *)
theory Op_Layer
  imports Op_Env
begin

text \<open>
  The belief operations of \<open>crates/dent8-cli/src/ops.rs\<close>: assert, derive, supersede, retract,
  contradict, reinforce, expire and the audit records. Each is the code's linear flow: the write
  gate, a fresh snapshot, event ids, the built events, the content gate, the decision in memory,
  and one append to the log.
\<close>

section \<open>Assertions\<close>

text \<open>A store's refusal as the operation reports it.\<close>

definition refuse :: "StoreError fault \<Rightarrow> OpError fault" where
  "refuse err = fault_map (\<lambda>e. refusal e []) err"

definition write_auth :: "string \<Rightarrow> string \<Rightarrow> AuthorityLevel \<Rightarrow> string \<Rightarrow> WriteAuth" where
  "write_auth sk key lvl src = \<lparr>WriteAuth.subject_kind = sk, subject_key = key, authority = lvl, source = src\<rparr>"

definition accepted_line :: "AppendReceipt \<Rightarrow> string" where
  "accepted_line rc = [nl] @ ''  seq='' @ show_nat (unat (AppendReceipt.global_sequence rc)) @ ''  hash='' @
     short (receipt_hash rc)"

text \<open>
  The tail that \<open>op_assert\<close> and \<open>op_derive\<close> share, from the content gate to the commit. The
  signature is taken before \<open>admit\<close>, so the receipt is over the bytes that are persisted.
\<close>

definition commit_assertion ::
    "'j Env \<Rightarrow> InMemoryEventStore \<Rightarrow> FactEvent \<Rightarrow> TimestampMillis \<Rightarrow> AppendReceipt op" where
  "commit_assertion E st e now =
     op_bind (content_op E [e]) (\<lambda>checked.
     op_bind (sign_op E (map (apply_policy_defaults coding_agent) checked)) (\<lambda>attested.
     op_bind (case attested of
         [e'] \<Rightarrow> op_lift (map_err refuse (snd (admit (externs E) st coding_agent e' now)))
       | _ \<Rightarrow> op_lift (Inl Panic)) (\<lambda>receipt.
     op_bind (write_op E attested) (\<lambda>_.
     op_return receipt))))"

definition quoted_value :: "string \<Rightarrow> string" where
  "quoted_value v = [CHR 0x22] @ v @ [CHR 0x22]"

definition op_assert ::
    "'j Env \<Rightarrow> string \<Rightarrow> string \<Rightarrow> string \<Rightarrow> string \<Rightarrow> AuthorityLevel \<Rightarrow> string \<Rightarrow> Validity \<Rightarrow> string op" where
  "op_assert E sk key pred v lvl src validity =
     op_bind (gate_op E (write_auth sk key lvl src)) (\<lambda>_.
     op_bind (load_op E) (\<lambda>st.
     op_bind (now_op E) (\<lambda>now.
     op_bind (reserve_op st 1) (\<lambda>q.
     op_bind (invalid_op ''invalid assertion'' (build_assertion q sk key pred v src lvl now)) (\<lambda>e.
     op_bind (commit_assertion E st (stamp validity e) now) (\<lambda>receipt.
     op_return (''ACCEPTED  '' @ sk @ '':'' @ key @ '' '' @ pred @ '' = '' @ quoted_value v @
       ''  (authority='' @ show_AuthorityLevel lvl @ '')'' @ accepted_line receipt)))))))"

definition derived_evidence :: "nat \<times> FactId \<Rightarrow> IdError + Evidence" where
  "derived_evidence = (\<lambda>(i, f).
     map_ok (\<lambda>ei. \<lparr>Evidence.evidence_id = ei, Evidence.kind = DerivedFrom, Evidence.locator = fact_str f,
         Evidence.digest = None, Evidence.summary = None\<rparr>)
       (EvidenceId_new (''evidence:derived:'' @ show_nat i)))"

definition believed_op :: "InMemoryEventStore \<Rightarrow> Subject \<Rightarrow> Predicate \<Rightarrow> FactId list op" where
  "believed_op st sj pd =
     op_lift (map_err (fault_map (\<lambda>e. op_invalid (show_StoreError e))) (believed_fact_ids st sj pd))"

definition parse_subject :: "string \<Rightarrow> string \<Rightarrow> string \<Rightarrow> Subject op" where
  "parse_subject what sk key = invalid_op what (map_err show_ValidationError (Subject_new sk key))"

definition parse_pred :: "string \<Rightarrow> string \<Rightarrow> Predicate op" where
  "parse_pred what pred = invalid_op what (map_err show_ValidationError (Predicate_new pred))"

definition op_derive ::
    "'j Env \<Rightarrow> string \<Rightarrow> string \<Rightarrow> string \<Rightarrow> string \<Rightarrow> AuthorityLevel \<Rightarrow> string \<Rightarrow> string \<Rightarrow> string \<Rightarrow> string \<Rightarrow>
       Validity \<Rightarrow> string op" where
  "op_derive E sk key pred v lvl src from_kind from_key from_pred validity =
     op_bind (gate_op E (write_auth sk key lvl src)) (\<lambda>_.
     op_bind (load_op E) (\<lambda>st.
     op_bind (parse_subject ''invalid source subject'' from_kind from_key) (\<lambda>fsj.
     op_bind (parse_pred ''invalid source predicate'' from_pred) (\<lambda>fpd.
     op_bind (believed_op st fsj fpd) (\<lambda>srcs.
     if srcs = []
     then op_fail (op_rejected (''nothing to derive from: no believed '' @ from_kind @ '':'' @ from_key @ '' '' @ from_pred))
     else
     op_bind (now_op E) (\<lambda>now.
     op_bind (reserve_op st 1) (\<lambda>q.
     op_bind (invalid_op ''invalid derivation'' (build_assertion q sk key pred v src lvl now)) (\<lambda>e.
     op_bind (invalid_op ''evidence id'' (map_err show_IdError (try_map derived_evidence (enumerate 0 srcs)))) (\<lambda>edges.
     let e' = stamp validity e in
     op_bind (commit_assertion E st (e'\<lparr>FactEvent.evidence := FactEvent.evidence e' @ edges\<rparr>) now) (\<lambda>receipt.
     op_return (''ACCEPTED  '' @ sk @ '':'' @ key @ '' '' @ pred @ '' = '' @ quoted_value v @
       ''  (authority='' @ show_AuthorityLevel lvl @ '', derived from '' @ from_kind @ '':'' @ from_key @ '' '' @
       from_pred @ '')'' @ accepted_line receipt)))))))))))"

section \<open>Supersession\<close>

text \<open>
  \<open>explain_subject(\<dots>).ok().flatten()\<close>: an error counts as nothing found, a panic does not return.
\<close>

definition explained_op :: "'j Env \<Rightarrow> InMemoryEventStore \<Rightarrow> Subject \<Rightarrow> Predicate \<Rightarrow> TimestampMillis \<Rightarrow> IntegrityReceipt option op" where
  "explained_op E st sj pd now =
     op_lift (case explain_subject (externs E) st sj pd now of
         Inr r \<Rightarrow> Inr r | Inl Panic \<Rightarrow> Inl Panic | Inl (Fail _) \<Rightarrow> Inr None)"

fun debug_AuthorityLevel :: "AuthorityLevel \<Rightarrow> string" where
  "debug_AuthorityLevel Unknown = ''Unknown''"
| "debug_AuthorityLevel Low = ''Low''"
| "debug_AuthorityLevel Medium = ''Medium''"
| "debug_AuthorityLevel High = ''High''"
| "debug_AuthorityLevel Canonical = ''Canonical''"

text \<open>
  The earned-supersession gate: an incumbent at the level of the request whose earned
  entrenchment exceeds one cannot be displaced by a fresh replacement.
\<close>

fun entrenchment_gate ::
    "'j Env \<Rightarrow> InMemoryEventStore \<Rightarrow> Subject \<Rightarrow> Predicate \<Rightarrow> FactId \<Rightarrow> string \<Rightarrow> AuthorityLevel \<Rightarrow> FactId list \<Rightarrow> unit op" where
  "entrenchment_gate E st sj pd rid src lvl [] w = (w, Inr ())"
| "entrenchment_gate E st sj pd rid src lvl (f # fs) w =
     (case load_fact_events st f of
        Inl Panic \<Rightarrow> (w, Inl Panic)
      | Inl (Fail _) \<Rightarrow> entrenchment_gate E st sj pd rid src lvl fs w
      | Inr stream \<Rightarrow>
          (case replay_fact stream of
             Inr (Some s) \<Rightarrow>
               (let l = state_level s; n = earned_entrenchment_at_or_above s l in
                if l = lvl \<and> n > 1
                then (case (if challenge_recording_enabled (record_var E)
                            then persist_challenge_record E f sj pd Supersession (Some rid) ChallengeRejection.WeakerEntrenchment src lvl w
                            else (w, False)) of
                    (w', recorded) \<Rightarrow>
                      (w', Inl (Fail (rejected_as ErrorCode.WeakerEntrenchment
                        (''REJECTED: unearned supersession: incumbent '' @ fact_str f @ '' has earned entrenchment '' @
                         show_nat n @ '' at '' @ debug_AuthorityLevel l @ '' ('' @ show_nat (corroboration_at_or_above s l) @
                         '' corroborating source(s) + '' @ show_nat (survived_challenges_at_or_above s l) @
                         '' survived challenge(s)), and a fresh single-source replacement may not displace it (earned-supersession gate, DENT8_ENTRENCHMENT_GATE)'' @
                         (if recorded then CHALLENGE_RECORDED_NOTE else []))))))
                else entrenchment_gate E st sj pd rid src lvl fs w)
           | _ \<Rightarrow> entrenchment_gate E st sj pd rid src lvl fs w))"

definition op_supersede ::
    "'j Env \<Rightarrow> string \<Rightarrow> string \<Rightarrow> string \<Rightarrow> string \<Rightarrow> AuthorityLevel \<Rightarrow> string \<Rightarrow> Validity \<Rightarrow> string op" where
  "op_supersede E sk key pred new_value lvl src validity =
     op_bind (gate_op E (write_auth sk key lvl src)) (\<lambda>_.
     op_bind (load_op E) (\<lambda>st.
     op_bind (parse_subject ''invalid subject'' sk key) (\<lambda>sj.
     op_bind (parse_pred ''invalid predicate'' pred) (\<lambda>pd.
     op_bind (now_op E) (\<lambda>now.
     op_bind (believed_op st sj pd) (\<lambda>incumbents.
     if incumbents = []
     then op_fail (op_rejected (''nothing to supersede: no believed '' @ sk @ '':'' @ key @ '' '' @ pred))
     else
     op_bind (explained_op E st sj pd now) (\<lambda>previous.
     if (case policy_for coding_agent sj pd of None \<Rightarrow> False | Some pol \<Rightarrow> lvl < assert_floor pol)
     then op_fail (rejected_as ErrorCode.BelowAuthorityFloor (''REJECTED: '' @ sk @ ''.'' @ pred @
       '' requires authority '' @ show_AuthorityLevel (case policy_for coding_agent sj pd of
           None \<Rightarrow> Unknown | Some pol \<Rightarrow> assert_floor pol) @ '', got '' @ show_AuthorityLevel lvl))
     else
     op_bind (reserve_op st (1 + length incumbents)) (\<lambda>q.
     op_bind (invalid_op ''invalid supersession'' (build_revision q incumbents sk key pred new_value src lvl now)) (\<lambda>(events, rid).
     let events' = (case events of [] \<Rightarrow> [] | e # es \<Rightarrow> apply_policy_defaults coding_agent (stamp validity e) # es) in
     op_bind (content_op E events') (\<lambda>checked.
     op_bind (if entrenchment_gate_enabled (gate_var E)
              then entrenchment_gate E st sj pd (FactId rid) src lvl incumbents
              else op_return ()) (\<lambda>_.
     op_bind (admit_all E st checked) (\<lambda>_.
     op_bind (write_op E checked) (\<lambda>_.
     op_return (''ACCEPTED  superseded '' @ show_nat (length incumbents) @ '' believed '' @
       (if length incumbents = 1 then ''fact'' else ''facts'') @ '' of '' @ sk @ '':'' @ key @ '' '' @ pred @ '': '' @
       (case previous of None \<Rightarrow> ''?'' | Some r \<Rightarrow> display_value (IntegrityReceipt.val r)) @ '' -> '' @
       quoted_value new_value @ ''  (authority='' @ show_AuthorityLevel lvl @ '')'' @ [nl] @
       ''  new believed fact '' @ rid))))))))))))))"

section \<open>One event per believed fact\<close>

text \<open>\<open>build_per_incumbent\<close>: the shared body of reinforce, expire and the use audit.\<close>

definition build_per_incumbent ::
    "'j Env \<Rightarrow> string \<Rightarrow> string \<Rightarrow> string \<Rightarrow> AuthorityLevel \<Rightarrow> string \<Rightarrow> string \<Rightarrow> (FactId \<Rightarrow> FactEventKind) \<Rightarrow>
       FactEvent list op" where
  "build_per_incumbent E sk key pred lvl src verb kind_for =
     op_bind (gate_op E (write_auth sk key lvl src)) (\<lambda>_.
     op_bind (load_op E) (\<lambda>st.
     op_bind (parse_subject ''invalid subject'' sk key) (\<lambda>sj.
     op_bind (parse_pred ''invalid predicate'' pred) (\<lambda>pd.
     op_bind (believed_op st sj pd) (\<lambda>incumbents.
     if incumbents = []
     then op_fail (op_rejected (''nothing to '' @ verb @ '': no believed '' @ sk @ '':'' @ key @ '' '' @ pred))
     else
     op_bind (now_op E) (\<lambda>now.
     op_bind (reserve_op st (length incumbents)) (\<lambda>q.
     op_bind (invalid_op (''invalid '' @ verb) (build_for_each q kind_for incumbents sk key pred src lvl now)) (\<lambda>events.
     op_bind (admit_all E st events) (\<lambda>_.
     write_op E events)))))))))"

definition op_reinforce :: "'j Env \<Rightarrow> string \<Rightarrow> string \<Rightarrow> string \<Rightarrow> AuthorityLevel \<Rightarrow> string \<Rightarrow> string op" where
  "op_reinforce E sk key pred lvl src =
     op_bind (build_per_incumbent E sk key pred lvl src ''reinforce'' Reinforced) (\<lambda>events.
     op_return (''ACCEPTED  reinforced '' @ show_nat (length events) @ '' believed fact(s) of '' @ sk @ '':'' @ key @
       '' '' @ pred @ ''  (authority='' @ show_AuthorityLevel lvl @ '')''))"

definition op_expire :: "'j Env \<Rightarrow> string \<Rightarrow> string \<Rightarrow> string \<Rightarrow> AuthorityLevel \<Rightarrow> string \<Rightarrow> string op" where
  "op_expire E sk key pred lvl src =
     op_bind (build_per_incumbent E sk key pred lvl src ''expire'' (\<lambda>_. FactEventKind.Expired PolicyRetention)) (\<lambda>events.
     op_return (''ACCEPTED  expired '' @ show_nat (length events) @ '' believed fact(s) of '' @ sk @ '':'' @ key @
       '' '' @ pred))"

definition op_used_in_decision ::
    "'j Env \<Rightarrow> string \<Rightarrow> string \<Rightarrow> string \<Rightarrow> string \<Rightarrow> AuthorityLevel \<Rightarrow> string \<Rightarrow> string op" where
  "op_used_in_decision E sk key pred decision lvl src =
     (let d = trim decision in
      if d = [] then op_fail (op_invalid ''used_in_decision proposal requires a non-empty decision'')
      else op_bind (build_per_incumbent E sk key pred lvl src ''mark used-in-decision'' (\<lambda>_. UsedInDecision d)) (\<lambda>events.
        op_return (''ACCEPTED  recorded decision use ('' @ d @ '') on '' @ show_nat (length events) @
          '' believed fact(s) of '' @ sk @ '':'' @ key @ '' '' @ pred)))"

section \<open>Retraction, contradiction and the read audit\<close>

definition op_retract :: "'j Env \<Rightarrow> string \<Rightarrow> string \<Rightarrow> string \<Rightarrow> AuthorityLevel \<Rightarrow> string \<Rightarrow> string op" where
  "op_retract E sk key pred lvl src =
     op_bind (gate_op E (write_auth sk key lvl src)) (\<lambda>_.
     op_bind (load_op E) (\<lambda>st.
     op_bind (parse_subject ''invalid subject'' sk key) (\<lambda>sj.
     op_bind (parse_pred ''invalid predicate'' pred) (\<lambda>pd.
     op_bind (believed_op st sj pd) (\<lambda>incumbents.
     if incumbents = []
     then op_fail (op_rejected (''nothing to retract: no believed '' @ sk @ '':'' @ key @ '' '' @ pred))
     else
     op_bind (reserve_op st (length incumbents)) (\<lambda>q.
     op_bind (now_op E) (\<lambda>now.
     op_bind (invalid_op ''invalid retraction'' (build_retractions q incumbents sk key pred src lvl now)) (\<lambda>events.
     op_bind (admit_all E st events) (\<lambda>_.
     op_bind (write_op E events) (\<lambda>_.
     op_return (''ACCEPTED  retracted '' @ show_nat (length incumbents) @ '' believed '' @
       (if length incumbents = 1 then ''fact'' else ''facts'') @ '' of '' @ sk @ '':'' @ key @ '' '' @ pred @
       ''  (authority='' @ show_AuthorityLevel lvl @ '')'')))))))))))"

definition op_contradict ::
    "'j Env \<Rightarrow> string \<Rightarrow> string \<Rightarrow> string \<Rightarrow> string \<Rightarrow> AuthorityLevel \<Rightarrow> string \<Rightarrow> Validity \<Rightarrow> string op" where
  "op_contradict E sk key pred opposing lvl src validity =
     op_bind (gate_op E (write_auth sk key lvl src)) (\<lambda>_.
     op_bind (load_op E) (\<lambda>st.
     op_bind (parse_subject ''invalid subject'' sk key) (\<lambda>sj.
     op_bind (parse_pred ''invalid predicate'' pred) (\<lambda>pd.
     op_bind (now_op E) (\<lambda>now.
     op_bind (explained_op E st sj pd now) (\<lambda>found.
     case found of
       None \<Rightarrow> op_fail (op_rejected (''nothing to contradict: no believed '' @ sk @ '':'' @ key @ '' '' @ pred))
     | Some receipt \<Rightarrow>
     op_bind (reserve_op st 2) (\<lambda>q.
     op_bind (invalid_op ''invalid contradiction''
         (build_contradiction q (fact_str (IntegrityReceipt.fact_id receipt)) sk key pred opposing src lvl now)) (\<lambda>(events, oid).
     let events' = (case events of [] \<Rightarrow> [] | e # es \<Rightarrow> apply_policy_defaults coding_agent (stamp validity e) # es) in
     op_bind (content_op E events') (\<lambda>checked.
     op_bind (admit_all E st checked) (\<lambda>_.
     op_bind (write_op E checked) (\<lambda>_.
     op_return (''CONTESTED  '' @ sk @ '':'' @ key @ '' '' @ pred @ '': '' @
       display_value (IntegrityReceipt.val receipt) @ '' (incumbent) vs '' @ quoted_value opposing @
       ''  (authority='' @ show_AuthorityLevel lvl @ '')'' @ [nl] @
       ''  both are now believed; resolve with `supersede` (install a winner) or `retract`. new fact '' @ oid))))))))))))"

record AuditFactRef =
  ref_fact_id :: string
  ref_subject_kind :: string
  ref_subject_key :: string
  ref_predicate :: string

text \<open>The loops of \<open>op_record_retrievals\<close>: the gate for every emitted fact, then one record each.\<close>

fun gate_each :: "'j Env \<Rightarrow> AuthorityLevel \<Rightarrow> string \<Rightarrow> AuditFactRef list \<Rightarrow> unit op" where
  "gate_each E lvl src [] = op_return ()"
| "gate_each E lvl src (r # rs) =
     op_bind (gate_op E (write_auth (ref_subject_kind r) (ref_subject_key r) lvl src)) (\<lambda>_. gate_each E lvl src rs)"

definition build_retrievals ::
    "u64 \<Rightarrow> string \<Rightarrow> AuditFactRef list \<Rightarrow> string \<Rightarrow> AuthorityLevel \<Rightarrow> TimestampMillis \<Rightarrow> string + FactEvent list" where
  "build_retrievals q purpose refs src lvl now =
     try_map (\<lambda>(i, r). build_event (event_id_str (q + of_nat i)) (ref_fact_id r) (ref_subject_kind r)
       (ref_subject_key r) (ref_predicate r) (Retrieved purpose) None src lvl now) (enumerate 0 refs)"

definition admit_records :: "'j Env \<Rightarrow> InMemoryEventStore \<Rightarrow> FactEvent list \<Rightarrow> unit op" where
  "admit_records E st es = op_lift (case append_each (externs E) st es of
      (_, Inr _) \<Rightarrow> Inr ()
    | (_, Inl (_, err)) \<Rightarrow> Inl (fault_map (\<lambda>e.
        rejected_as (for_store_error e) (''could not record retrieval: '' @ show_StoreError e)) err))"

definition op_record_retrievals ::
    "'j Env \<Rightarrow> AuditFactRef list \<Rightarrow> string \<Rightarrow> AuthorityLevel \<Rightarrow> string \<Rightarrow> usize op" where
  "op_record_retrievals E refs purpose lvl src =
     (let p = trim purpose in
      if p = [] then op_fail (op_invalid ''retrieval purpose must not be empty'')
      else if refs = [] then op_return 0
      else
      op_bind (gate_each E lvl src refs) (\<lambda>_.
      op_bind (load_op E) (\<lambda>st.
      op_bind (now_op E) (\<lambda>now.
      op_bind (reserve_op st (length refs)) (\<lambda>q.
      op_bind (invalid_op ''invalid retrieval record'' (build_retrievals q p refs src lvl now)) (\<lambda>events.
      op_bind (admit_records E st events) (\<lambda>_.
      op_bind (write_op E events) (\<lambda>_.
      op_return (length events)))))))))"

section \<open>Retrying a lost race\<close>

text \<open>
  \<open>with_write_retry\<close>: at most 32 attempts; a lease that cannot be had and a conflict both wait and
  try again, any other outcome returns. The lease and the wait are the environment's: \<open>lease\<close> says
  for each attempt whether it was had, and \<open>back_off\<close> is the number of milliseconds slept.
\<close>

definition MAX_ATTEMPTS :: nat where "MAX_ATTEMPTS = 32"

fun retry_from ::
    "(nat \<Rightarrow> string option) \<Rightarrow> 'a op \<Rightarrow> nat \<Rightarrow> string \<Rightarrow> nat \<Rightarrow> 'a op" where
  "retry_from lease m attempt latest 0 w =
     (w, Inl (Fail (op_rejected (''write conflict persisted after '' @ show_nat MAX_ATTEMPTS @ '' attempts (last: '' @
       latest @ ''); a concurrent writer or backend lock kept racing '' @ em_dash @ '' try again''))))"
| "retry_from lease m attempt latest (Suc n) w =
     (case lease attempt of
        Some failed \<Rightarrow> retry_from lease m (Suc attempt) failed n w
      | None \<Rightarrow> (case m w of
            (w', Inl (Fail (OpError.Conflict msg))) \<Rightarrow> retry_from lease m (Suc attempt) msg n w'
          | settled \<Rightarrow> settled))"

definition with_write_retry :: "(nat \<Rightarrow> string option) \<Rightarrow> 'a op \<Rightarrow> 'a op" where
  "with_write_retry lease m = retry_from lease m 0 [] MAX_ATTEMPTS"

definition back_off :: "u64 \<Rightarrow> nat \<Rightarrow> u64" where
  "back_off pid attempt =
     (let exp = push_bit (min attempt 8) 1;
          z = pid + of_nat attempt * 0x9E3779B97F4A7C15;
          z = xor z (drop_bit 30 z) * 0xBF58476D1CE4E5B9;
          z = xor z (drop_bit 27 z) * 0x94D049BB133111EB;
          z = xor z (drop_bit 31 z)
      in exp + z mod (2 * exp + 1))"

end
