(* ===== verification/Belief_Log.thy ===== *)
theory Belief_Log
  imports Admission
begin

text \<open>
  What admitted events do to the beliefs of a log. A log is read as a map from facts to their
  states; an admitted event updates that map at one fact. The lemmas give the effect of an
  assertion, of a batch of closing events and of events that only keep records, and show that
  none of this depends on the write attestation an event carries.
\<close>

section \<open>One event\<close>

lemma fact_state_snoc:
  assumes "log_inv es" and "admits_next es e"
  obtains t where "apply_event (fact_state es (FactEvent.fact_id e)) e = Inr t"
    and "fact_state (es @ [e]) = (fact_state es)(FactEvent.fact_id e \<mapsto> t)"
proof -
  let ?f = "FactEvent.fact_id e"
  obtain current t where cur: "replay_fact (stream_of ?f es) = Inr current" and t: "apply_event current e = Inr t"
    using assms(2) unfolding admits_next_def arbitrate_events_Inr firewall_admits_def
    by (elim conjE exE) (rule that; assumption)
  have "fact_state es ?f = current" using cur by (simp add: fact_state_def split: option.split)
  moreover have "fact_state (es @ [e]) g = ((fact_state es)(?f \<mapsto> t)) g" for g
    using replay_fact_snoc [OF cur, of e] t by (simp add: fact_state_def stream_of_snoc)
  ultimately show thesis using that t by blast
qed

lemma fact_state_fresh:
  "log_inv es \<Longrightarrow> fact_state es f = None \<longleftrightarrow> stream_of f es = []"
  by (auto simp: log_inv_def fact_state_def replay_fact_None split: sum.splits option.splits)
    (metis replay_fact_None sum.inject(2) option.distinct(1) sum.distinct(1))+

text \<open>An admitted assertion opens a fact that had no events.\<close>

lemma asserted_opens:
  assumes "log_inv es" and "admits_next es e" and "FactEvent.kind e = Asserted"
  obtains s where "fact_state es (FactEvent.fact_id e) = None"
    and "apply_initial_event e = Inr s"
    and "fact_state (es @ [e]) = (fact_state es)(FactEvent.fact_id e \<mapsto> s)"
proof -
  obtain t where t: "apply_event (fact_state es (FactEvent.fact_id e)) e = Inr t"
    and upd: "fact_state (es @ [e]) = (fact_state es)(FactEvent.fact_id e \<mapsto> t)"
    using fact_state_snoc [OF assms(1,2)] by blast
  have none: "fact_state es (FactEvent.fact_id e) = None"
  proof (rule ccontr)
    assume "fact_state es (FactEvent.fact_id e) \<noteq> None"
    then obtain s where "fact_state es (FactEvent.fact_id e) = Some s" by blast
    with t show False using assms(3) by (auto simp: apply_next_Inr apply_kind_def)
  qed
  with t have "apply_initial_event e = Inr t" by simp
  with none upd that show thesis by blast
qed

lemma next_event:
  assumes "log_inv es" and "admits_next es e" and "FactEvent.kind e \<noteq> Asserted"
  obtains s t where "fact_state es (FactEvent.fact_id e) = Some s"
    and "apply_next_event s e = Inr t"
    and "fact_state (es @ [e]) = (fact_state es)(FactEvent.fact_id e \<mapsto> t)"
proof -
  obtain t where t: "apply_event (fact_state es (FactEvent.fact_id e)) e = Inr t"
    and upd: "fact_state (es @ [e]) = (fact_state es)(FactEvent.fact_id e \<mapsto> t)"
    using fact_state_snoc [OF assms(1,2)] by blast
  have "fact_state es (FactEvent.fact_id e) \<noteq> None"
    using t apply_event_opens assms(3) by metis
  then show thesis using t upd that by auto
qed

section \<open>Batches\<close>

text \<open>Events that close a fact: afterwards it is terminal, with the same core.\<close>

lemma closing_next:
  "apply_next_event s e = Inr t \<Longrightarrow> is_lifecycle_terminal (FactEvent.kind e) \<Longrightarrow>
     is_terminal (FactState.lifecycle t) \<and> same_core s t \<and> state_level s \<le> event_level e"
  by (auto simp: apply_next_Inr apply_kind_def is_lifecycle_terminal_def same_core_def
      split: FactEventKind.splits if_splits)

lemma closing_batch:
  assumes "log_inv es" and "log_admits es fs" and "\<forall>e \<in> set fs. is_lifecycle_terminal (FactEvent.kind e)"
  shows "fact_state es f = None \<Longrightarrow> fact_state (es @ fs) f = None \<and> f \<notin> FactEvent.fact_id ` set fs"
    and "fact_state es f = Some s \<Longrightarrow> f \<notin> FactEvent.fact_id ` set fs \<Longrightarrow> fact_state (es @ fs) f = Some s"
    and "fact_state es f = Some s \<Longrightarrow> f \<in> FactEvent.fact_id ` set fs \<Longrightarrow>
      \<exists>t. fact_state (es @ fs) f = Some t \<and> is_terminal (FactState.lifecycle t) \<and> same_core s t"
proof -
  have "(case fact_state es f of
      None \<Rightarrow> fact_state (es @ fs) f = None \<and> f \<notin> FactEvent.fact_id ` set fs
    | Some s \<Rightarrow> (\<exists>t. fact_state (es @ fs) f = Some t \<and> same_core s t \<and>
        (if f \<in> FactEvent.fact_id ` set fs then is_terminal (FactState.lifecycle t) else t = s)))"
    using assms
  proof (induction fs arbitrary: es)
    case Nil
    then show ?case by (simp split: option.split)
  next
    case (Cons e fs)
    have adm: "admits_next es e" and close: "is_lifecycle_terminal (FactEvent.kind e)" using Cons.prems by simp_all
    have "FactEvent.kind e \<noteq> Asserted" using close by (auto simp: is_lifecycle_terminal_def)
    then obtain s t where s: "fact_state es (FactEvent.fact_id e) = Some s" "apply_next_event s e = Inr t"
      and upd: "fact_state (es @ [e]) = (fact_state es)(FactEvent.fact_id e \<mapsto> t)"
      using next_event [OF Cons.prems(1) adm] by blast
    note t = closing_next [OF s(2) close]
    have inv: "log_inv (es @ [e])" by (rule admits_next_inv [OF Cons.prems(1) adm])
    have rest: "log_admits (es @ [e]) fs" using Cons.prems(2) by simp
    have closes: "\<forall>d \<in> set fs. is_lifecycle_terminal (FactEvent.kind d)" using Cons.prems(3) by simp
    note IH = Cons.IH [OF inv rest closes]
    show ?case
    proof (cases "f = FactEvent.fact_id e")
      case True
      then show ?thesis using IH upd s(1) t by (auto split: if_splits dest: same_core_trans)
    next
      case False
      then show ?thesis using IH upd by (auto split: option.splits)
    qed
  qed
  then show "fact_state es f = None \<Longrightarrow> fact_state (es @ fs) f = None \<and> f \<notin> FactEvent.fact_id ` set fs"
    and "fact_state es f = Some s \<Longrightarrow> f \<notin> FactEvent.fact_id ` set fs \<Longrightarrow> fact_state (es @ fs) f = Some s"
    and "fact_state es f = Some s \<Longrightarrow> f \<in> FactEvent.fact_id ` set fs \<Longrightarrow>
      \<exists>t. fact_state (es @ fs) f = Some t \<and> is_terminal (FactState.lifecycle t) \<and> same_core s t"
    by auto
qed

text \<open>What is believed of a pair after a closing batch: what it does not name.\<close>

lemma has_shape_core: "same_core s t \<Longrightarrow> has_shape sj pd t \<longleftrightarrow> has_shape sj pd s"
  by (simp add: has_shape_def same_core_def)

lemma believed_iff:
  "s \<in> believed_in es sj pd \<longleftrightarrow> fact_state es (FactState.fact_id s) = Some s \<and> has_shape sj pd s \<and>
     \<not> is_terminal (FactState.lifecycle s)"
  using fact_state_id by (auto simp: believed_in_def)

lemma believed_after_closing:
  assumes "log_inv es" and "log_admits es fs" and "\<forall>e \<in> set fs. is_lifecycle_terminal (FactEvent.kind e)"
  shows "believed_in (es @ fs) sj pd =
    {s \<in> believed_in es sj pd. FactState.fact_id s \<notin> FactEvent.fact_id ` set fs}"
proof (rule set_eqI)
  fix s
  note batch = closing_batch [OF assms, of "FactState.fact_id s"]
  show "s \<in> believed_in (es @ fs) sj pd \<longleftrightarrow>
    s \<in> {s \<in> believed_in es sj pd. FactState.fact_id s \<notin> FactEvent.fact_id ` set fs}"
  proof (cases "fact_state es (FactState.fact_id s)")
    case None
    then show ?thesis using batch(1) [OF None] by (simp add: believed_iff)
  next
    case (Some t)
    then show ?thesis using batch(2) [OF Some] batch(3) [OF Some]
      by (cases "FactState.fact_id s \<in> FactEvent.fact_id ` set fs") (auto simp: believed_iff simp del: image_iff)
  qed
qed

lemma believed_after_assert:
  assumes "log_inv es" and "admits_next es e" and "FactEvent.kind e = Asserted"
    and "FactEvent.subject e = sj" and "FactEvent.predicate e = pd" and "apply_initial_event e = Inr s"
  shows "believed_in (es @ [e]) sj pd = insert s (believed_in es sj pd)"
proof -
  obtain s' where none: "fact_state es (FactEvent.fact_id e) = None" and s': "apply_initial_event e = Inr s'"
    and upd: "fact_state (es @ [e]) = (fact_state es)(FactEvent.fact_id e \<mapsto> s')"
    by (rule asserted_opens [OF assms(1-3)])
  note init = apply_initial_iff [OF assms(6)]
  show ?thesis
    using none s' upd init assms(4-6) by (auto simp: believed_iff has_shape_def split: if_splits)
qed

section \<open>Records that change no belief\<close>

definition same_belief :: "FactState \<Rightarrow> FactState \<Rightarrow> bool" where
  "same_belief s t \<longleftrightarrow> same_core s t \<and> FactState.lifecycle t = FactState.lifecycle s \<and>
     FactState.superseded_by t = FactState.superseded_by s \<and> FactState.contradicted_by t = FactState.contradicted_by s \<and>
     FactState.corroborating_sources t = FactState.corroborating_sources s"

lemma same_belief_refl [simp]: "same_belief s s"
  by (simp add: same_belief_def)

lemma same_belief_trans: "same_belief s t \<Longrightarrow> same_belief t u \<Longrightarrow> same_belief s u"
  by (auto simp: same_belief_def intro: same_core_trans)

definition is_record :: "FactEventKind \<Rightarrow> bool" where
  "is_record k \<longleftrightarrow> is_audit k \<or> (\<exists>c g r. k = ChallengeRejected c g r)"

lemma record_next: "apply_next_event s e = Inr t \<Longrightarrow> is_record (FactEvent.kind e) \<Longrightarrow> same_belief s t"
  by (auto simp: apply_next_Inr apply_kind_def is_record_def is_audit_def same_belief_def same_core_def
      split: FactEventKind.splits)

text \<open>Two logs that believe the same: the same facts, with the same belief about each.\<close>

definition beliefs_kept :: "FactEvent list \<Rightarrow> FactEvent list \<Rightarrow> bool" where
  "beliefs_kept es fs \<longleftrightarrow> (\<forall>f. rel_option same_belief (fact_state es f) (fact_state fs f))"

lemma beliefs_kept_refl [simp]: "beliefs_kept es es"
  by (simp add: beliefs_kept_def option.rel_refl)

lemma beliefs_kept_trans: "beliefs_kept a b \<Longrightarrow> beliefs_kept b c \<Longrightarrow> beliefs_kept a c"
  unfolding beliefs_kept_def by (smt (verit, best) option.rel_sel same_belief_trans)

lemma records_keep:
  "log_inv es \<Longrightarrow> log_admits es fs \<Longrightarrow> (\<And>e. e \<in> set fs \<Longrightarrow> is_record (FactEvent.kind e)) \<Longrightarrow>
     beliefs_kept es (es @ fs)"
proof (induction fs arbitrary: es)
  case (Cons e fs)
  have adm: "admits_next es e" and r: "is_record (FactEvent.kind e)" using Cons.prems by simp_all
  have "FactEvent.kind e \<noteq> Asserted" using r by (auto simp: is_record_def)
  then obtain s t where s: "fact_state es (FactEvent.fact_id e) = Some s" "apply_next_event s e = Inr t"
    and upd: "fact_state (es @ [e]) = (fact_state es)(FactEvent.fact_id e \<mapsto> t)"
    using next_event [OF Cons.prems(1) adm] by blast
  have "beliefs_kept es (es @ [e])"
    using s record_next [OF s(2) r] upd by (auto simp: beliefs_kept_def option.rel_refl)
  moreover have "beliefs_kept (es @ [e]) (es @ e # fs)"
    using Cons.IH [of "es @ [e]"] Cons.prems admits_next_inv [OF Cons.prems(1) adm] by simp
  ultimately show ?case by (rule beliefs_kept_trans)
qed simp

section \<open>Write attestations are invisible\<close>

lemma strip_fields [simp]:
  "FactEvent.event_id (strip_attestation e) = FactEvent.event_id e"
  "FactEvent.fact_id (strip_attestation e) = FactEvent.fact_id e"
  "FactEvent.kind (strip_attestation e) = FactEvent.kind e"
  "FactEvent.subject (strip_attestation e) = FactEvent.subject e"
  "FactEvent.predicate (strip_attestation e) = FactEvent.predicate e"
  "FactEvent.val (strip_attestation e) = FactEvent.val e"
  "FactEvent.authority (strip_attestation e) = FactEvent.authority e"
  "FactEvent.ttl (strip_attestation e) = FactEvent.ttl e"
  "FactEvent.evidence (strip_attestation e) = FactEvent.evidence e"
  "event_source (strip_attestation e) = event_source e"
  by (simp_all add: strip_attestation_def)

lemma strip_window [simp]:
  "FactEvent.valid_from (strip_attestation e) = FactEvent.valid_from e"
  "FactEvent.valid_to (strip_attestation e) = FactEvent.valid_to e"
  "FactEvent.observed_at (strip_attestation e) = FactEvent.observed_at e"
  "recorded_at (provenance (strip_attestation e)) = recorded_at (provenance e)"
  by (simp_all add: strip_attestation_def)

lemmas strip_all_fields = strip_fields strip_window

lemma apply_event_strip [simp]: "apply_event s (strip_attestation e) = apply_event s e"
proof -
  have "validate (strip_attestation e) = validate e" unfolding validate_def by (simp only: strip_all_fields)
  moreover have "apply_initial_event (strip_attestation e) = apply_initial_event e"
    unfolding apply_initial_event_def by (simp only: strip_all_fields)
  moreover have "apply_next_event t (strip_attestation e) = apply_next_event t e" for t
    unfolding apply_next_event_def apply_kind_def by (simp only: strip_all_fields)
  ultimately show ?thesis by (simp add: apply_event_def split: option.split)
qed

lemma run_events_strip [simp]: "run_events s (map strip_attestation es) = run_events s es"
  by (induction es arbitrary: s) (simp_all add: run_events_def cong: option.case_cong)

lemma replay_fact_strip [simp]: "replay_fact (map strip_attestation es) = replay_fact es"
  by (cases es) (simp_all add: replay_fact_eq del: apply_event_None)

lemma stream_of_strip: "stream_of f (map strip_attestation es) = map strip_attestation (stream_of f es)"
  by (simp add: stream_of_def filter_map comp_def)

lemma fact_state_strip [simp]: "fact_state (map strip_attestation es) = fact_state es"
  by (rule ext) (simp add: fact_state_def stream_of_strip)

lemma believed_in_strip [simp]: "believed_in (map strip_attestation es) = believed_in es"
  by (intro ext) (simp add: believed_in_def)

lemma log_inv_strip [simp]: "log_inv (map strip_attestation es) \<longleftrightarrow> log_inv es"
  by (simp add: log_inv_def stream_of_strip)

text \<open>Two logs that differ in attestations only.\<close>

definition same_but_attested :: "FactEvent list \<Rightarrow> FactEvent list \<Rightarrow> bool" where
  "same_but_attested es fs \<longleftrightarrow> map strip_attestation es = map strip_attestation fs"

lemma same_but_attested_refl [simp]: "same_but_attested es es"
  by (simp add: same_but_attested_def)

lemma same_but_attested_append:
  "same_but_attested fs gs \<Longrightarrow> same_but_attested (es @ fs) (es @ gs)"
  by (simp add: same_but_attested_def)

lemma same_but_attested_facts:
  assumes "same_but_attested es fs"
  shows "fact_state es = fact_state fs" and "log_inv es \<longleftrightarrow> log_inv fs" and "believed_in es = believed_in fs"
  using assms fact_state_strip log_inv_strip believed_in_strip unfolding same_but_attested_def by metis+

end
