(* ===== verification/Op_Contract.thy ===== *)
theory Op_Contract
  imports Op_Layer Belief_Log
begin

text \<open>
  The contract that every write operation keeps with the log file. A triple relates the world
  before an operation to the world after its success and after its failure. Against the file
  contents \<open>c\<close> found at the start, every operation either commits one batch that the log of \<open>c\<close>
  admits, or fails and leaves \<open>c\<close> as it was, except for the record of one survived challenge.
\<close>

section \<open>Triples\<close>

definition triple :: "(World \<Rightarrow> bool) \<Rightarrow> 'a op \<Rightarrow> ('a \<Rightarrow> World \<Rightarrow> bool) \<Rightarrow> (World \<Rightarrow> bool) \<Rightarrow> bool" where
  "triple P m Q F \<longleftrightarrow>
     (\<forall>w w' r. P w \<longrightarrow> m w = (w', r) \<longrightarrow> (case r of Inr x \<Rightarrow> Q x w' | Inl _ \<Rightarrow> F w'))"

lemma triple_Inr: "triple P m Q F \<Longrightarrow> P w \<Longrightarrow> m w = (w', Inr x) \<Longrightarrow> Q x w'"
  unfolding triple_def by fastforce

lemma triple_Inl: "triple P m Q F \<Longrightarrow> P w \<Longrightarrow> m w = (w', Inl e) \<Longrightarrow> F w'"
  unfolding triple_def by fastforce

lemma triple_bind:
  assumes "triple P m R F" and "\<And>x. triple (R x) (f x) Q F"
  shows "triple P (op_bind m f) Q F"
  unfolding triple_def
proof (intro allI impI)
  fix w w' r
  assume P: "P w" and b: "op_bind m f w = (w', r)"
  obtain w1 r1 where m: "m w = (w1, r1)" by force
  show "case r of Inr x \<Rightarrow> Q x w' | Inl _ \<Rightarrow> F w'"
  proof (cases r1)
    case (Inl e)
    then show ?thesis using b m triple_Inl [OF assms(1) P] by (auto simp: op_bind_def)
  next
    case (Inr x)
    then have "R x w1" using m triple_Inr [OF assms(1) P] by blast
    then show ?thesis using b m Inr assms(2) by (simp add: op_bind_def triple_def)
  qed
qed

lemma triple_step:
  assumes "triple P m (\<lambda>x w. P w \<and> known x) F" and "\<And>x. known x \<Longrightarrow> triple P (f x) Q F"
  shows "triple P (op_bind m f) Q F"
  by (rule triple_bind [OF assms(1)]) (use assms(2) in \<open>auto simp: triple_def\<close>)

lemma triple_post: "triple P m Q F \<Longrightarrow> (\<And>x w. Q x w \<Longrightarrow> R x w) \<Longrightarrow> triple P m R F"
  by (fastforce simp: triple_def split: sum.splits)

lemma triple_return: "triple (Q x) (op_return x) Q F"
  by (simp add: triple_def op_return_def)

lemma triple_fail: "(\<And>w. P w \<Longrightarrow> F w) \<Longrightarrow> triple P (op_fail e) Q F"
  by (simp add: triple_def op_fail_def)

lemma triple_lift: "(\<And>w. P w \<Longrightarrow> F w) \<Longrightarrow> triple P (op_lift r) (\<lambda>x w. P w \<and> r = Inr x) F"
  by (auto simp: triple_def op_lift_def split: sum.splits)

section \<open>The file and its log\<close>

definition text_of :: "string option \<Rightarrow> string" where
  "text_of c = (case c of None \<Rightarrow> [] | Some s \<Rightarrow> s)"

definition events_at :: "'j Env \<Rightarrow> string option \<Rightarrow> FactEvent list" where
  "events_at E c = fst (parse_jsonl_events (codec E) (text_of c))"

definition ends_line :: "string option \<Rightarrow> bool" where
  "ends_line c \<longleftrightarrow> text_of c = [] \<or> last (text_of c) = nl"

definition at :: "string option \<Rightarrow> World \<Rightarrow> bool" where
  "at c w \<longleftrightarrow> contents w = c"

definition committed :: "'j Env \<Rightarrow> string option \<Rightarrow> FactEvent list \<Rightarrow> World \<Rightarrow> bool" where
  "committed E c es w \<longleftrightarrow> (\<exists>fs buffer. sign E es = Inr fs \<and> jsonl_buffer (codec E) fs = Inr buffer \<and>
     contents w = Some (text_of c @ buffer))"

definition kept :: "'j Env \<Rightarrow> string option \<Rightarrow> World \<Rightarrow> bool" where
  "kept E c w \<longleftrightarrow> at c w \<or> (\<exists>es. log_admits (events_at E c) es \<and> committed E c es w)"

definition unharmed :: "'j Env \<Rightarrow> string option \<Rightarrow> World \<Rightarrow> bool" where
  "unharmed E c w \<longleftrightarrow> at c w \<or>
     (\<exists>e. is_record (FactEvent.kind e) \<and> log_admits (events_at E c) [e] \<and> committed E c [e] w)"

lemma unharmed_at [intro]: "at c w \<Longrightarrow> unharmed E c w"
  by (simp add: unharmed_def)

lemma at_tick [simp]: "at c (next_tick w) \<longleftrightarrow> at c w"
  by (simp add: at_def next_tick_def)

text \<open>
  What the operations rely on: signing a batch sets write attestations only, a line written by
  the JSON codec reads back as its event, and a write reaches the file whole or not at all.
\<close>

definition attests_only :: "'j Env \<Rightarrow> bool" where
  "attests_only E \<longleftrightarrow> (\<forall>es fs. sign E es = Inr fs \<longrightarrow> same_but_attested es fs)"

definition codec_ok :: "Codec \<Rightarrow> bool" where
  "codec_ok K \<longleftrightarrow> (\<forall>e line. to_line K e = Inr line \<longrightarrow> line_ok K e)"

definition whole_writes :: "'j Env \<Rightarrow> bool" where
  "whole_writes E \<longleftrightarrow> (\<forall>n k m. write_io E n \<noteq> WriteFails k m)"

definition env_ok :: "'j Env \<Rightarrow> bool" where
  "env_ok E \<longleftrightarrow> attests_only E \<and> codec_ok (codec E) \<and> whole_writes E"

section \<open>The shared steps\<close>

named_theorems steps

lemma gate_step [steps]: "triple (at c) (gate_op E a) (\<lambda>_ w. at c w \<and> write_gate E a = Inr ()) (unharmed E c)"
  by (auto simp: triple_def gate_op_def op_lift_def split: sum.splits)

lemma now_step [steps]:
  "triple (at c) (now_op E) (\<lambda>now w. at c w \<and> (\<exists>n. now = clock E n)) (unharmed E c)"
  by (auto simp: triple_def now_op_def)

lemma lift_step [steps]: "triple (at c) (op_lift r) (\<lambda>x w. at c w \<and> r = Inr x) (unharmed E c)"
  by (rule triple_lift) blast

lemma reserve_step [steps]:
  "triple (at c) (reserve_op st n) (\<lambda>q w. at c w \<and> reserve_event_seq st n = Inr q) (unharmed E c)"
  by (auto simp: triple_def reserve_op_def op_lift_def split: sum.splits)

lemma invalid_step [steps]: "triple (at c) (invalid_op what r) (\<lambda>x w. at c w \<and> r = Inr x) (unharmed E c)"
  by (auto simp: triple_def invalid_op_def op_lift_def split: sum.splits)

lemma subject_step [steps]:
  "triple (at c) (parse_subject what sk key) (\<lambda>sj w. at c w \<and> Subject_new sk key = Inr sj) (unharmed E c)"
  by (auto simp: triple_def parse_subject_def invalid_op_def op_lift_def split: sum.splits)

lemma pred_step [steps]:
  "triple (at c) (parse_pred what pred) (\<lambda>pd w. at c w \<and> Predicate_new pred = Inr pd) (unharmed E c)"
  by (auto simp: triple_def parse_pred_def invalid_op_def op_lift_def split: sum.splits)

lemma believed_step [steps]:
  "triple (at c) (believed_op st sj pd) (\<lambda>ids w. at c w \<and> believed_fact_ids st sj pd = Inr ids) (unharmed E c)"
  by (auto simp: triple_def believed_op_def op_lift_def split: sum.splits)

lemma explained_step [steps]:
  "triple (at c) (explained_op E st sj pd now)
     (\<lambda>x w. at c w \<and> (\<forall>rc. x = Some rc \<longrightarrow> explain_subject (externs E) st sj pd now = Inr (Some rc))) (unharmed E c)"
  by (auto simp: triple_def explained_op_def op_lift_def split: sum.splits fault.splits)

lemma sign_step [steps]: "triple (at c) (sign_op E es) (\<lambda>fs w. at c w \<and> sign E es = Inr fs) (unharmed E c)"
  by (auto simp: triple_def sign_op_def op_lift_def split: sum.splits)

lemma fail_step [steps]: "triple (at c) (op_fail e) Q (unharmed E c)"
  by (rule triple_fail) blast

lemma triple_if [steps]:
  "(b \<Longrightarrow> triple P m Q F) \<Longrightarrow> (\<not> b \<Longrightarrow> triple P m' Q F) \<Longrightarrow> triple P (if b then m else m') Q F"
  by simp

text \<open>A load finds the log of the file.\<close>

lemma load_store_Inr:
  assumes "load_store X K path (read_log E w) now = Inr st" and "codec E = K"
  shows "memory_ok X st" and "all_events st = events_at E (contents w)"
    and "validate_unique_log st now = Inr ()"
proof -
  obtain es where t: "from_trusted_events X es = Inr st" and v: "validate_unique_log st now = Inr ()"
    and es: "es = events_at E (contents w)"
    using assms
    by (auto simp: load_store_def load_store_reporting_def read_log_def events_at_def text_of_def is_ok_iff
        split: option.splits prod.splits)
  have "memory_ok X st \<and> all_events st = all_events new_store @ es"
    using persist_all_ok [OF memory_ok_new] t by (simp add: from_trusted_events_def)
  then show "memory_ok X st" and "all_events st = events_at E (contents w)"
    and "validate_unique_log st now = Inr ()"
    using es v by (simp_all add: all_events_def new_store_def)
qed

lemma load_raw_Inr:
  "load_raw E w = (w', Inr st) \<Longrightarrow> contents w' = contents w \<and> memory_ok (externs E) st \<and>
     all_events st = events_at E (contents w)"
  using load_store_Inr [of "externs E" "codec E" "log_path E" E w] by (auto simp: load_raw_def next_tick_def)

lemma load_raw_at: "load_raw E w = (w', r) \<Longrightarrow> at c w' \<longleftrightarrow> at c w"
  by (auto simp: load_raw_def)

lemma load_step [steps]:
  "triple (at c) (load_op E)
     (\<lambda>st w. at c w \<and> (memory_ok (externs E) st \<and> all_events st = events_at E c)) (unharmed E c)"
  by (auto simp: triple_def load_op_def at_def dest: load_raw_Inr load_raw_at [of E _ _ _ c]
      split: prod.splits sum.splits)

text \<open>A write that fails leaves the file alone.\<close>

lemma write_raw_cases:
  assumes "whole_writes E" and "write_raw E es w = (w', r)" and "at c w"
  shows "if is_ok r then committed E c es w' else at c w'"
proof -
  have "write_io E (tick w) \<noteq> WriteFails k m" for k m using assms(1) by (simp add: whole_writes_def)
  then show ?thesis
    using assms(2,3)
    by (auto simp: write_raw_def append_events_def file_append_def at_def committed_def text_of_def next_tick_def Let_def
        split: sum.splits IoOutcome.splits prod.splits)
qed

lemma write_step:
  assumes "whole_writes E"
  shows "triple (at c) (write_op E es) (\<lambda>_ w. committed E c es w) (unharmed E c)"
  using write_raw_cases [OF assms]
  by (fastforce simp: triple_def write_op_def is_ok_iff split: prod.splits sum.splits)

section \<open>The content gate\<close>

text \<open>The check keeps every field of an event except its evidence.\<close>

definition checked_from :: "FactEvent list \<Rightarrow> FactEvent list \<Rightarrow> bool" where
  "checked_from es es' \<longleftrightarrow> list_all2 (\<lambda>e e'. \<exists>ev. e' = e\<lparr>FactEvent.evidence := ev\<rparr>) es es'"

lemma evidence_self: "\<exists>ev. e = e\<lparr>FactEvent.evidence := ev\<rparr>"
  by (rule exI [of _ "FactEvent.evidence e"]) simp

lemma checked_from_refl: "checked_from es es"
  unfolding checked_from_def by (rule list_all2_refl) (rule evidence_self)

lemma enforce_checked: "checked_from es (fst (enforce W cfg es))"
proof -
  have "\<exists>ev. fst (enforce_from W 0 cfg es) ! i = (es ! i)\<lparr>FactEvent.evidence := ev\<rparr>" if "i < length es" for i
    using enforce_from_effect [OF that, of W 0 cfg]
  proof
    assume "fst (enforce_from W 0 cfg es) ! i = es ! i"
    then show ?thesis by (simp only: evidence_self)
  qed (auto simp: flagged_def add_flag_def)
  then show ?thesis
    by (simp add: checked_from_def list_all2_conv_all_nth enforce_def enforce_from_length)
qed

lemma content_step [steps]: "triple (at c) (content_op E es) (\<lambda>es' w. at c w \<and> checked_from es es') (unharmed E c)"
  using checked_from_refl [of es] enforce_checked [of es]
  by (auto simp: triple_def content_op_def split: sum.splits option.splits prod.splits)
    (metis fst_conv)

section \<open>Admission and survived challenges\<close>

lemma build_event_Inr:
  assumes "build_event eid fid sk key pred k v src lvl now = Inr e"
  shows "FactEvent.kind e = k" and "FactEvent.val e = v" and "event_level e = lvl"
    and "fact_str (FactEvent.fact_id e) = fid" and "event_str (FactEvent.event_id e) = eid"
    and "Subject_new sk key = Inr (FactEvent.subject e)" and "Predicate_new pred = Inr (FactEvent.predicate e)"
    and "source_str (event_source e) = src" and "FactEvent.ttl e = Never" and "recorded_at (provenance e) = now"
  using assms by (auto simp: build_event_def id_defs split: if_splits)

lemma challenge_unharmed:
  assumes "whole_writes E" and "at c w"
    and "persist_challenge_record E f sj pd ch g why src lvl w = (w', b)"
  shows "unharmed E c w'"
proof -
  obtain w1 r where l: "load_raw E w = (w1, r)" by force
  have w1: "at c w1" using load_raw_at [OF l] assms(2) by blast
  show ?thesis
  proof (cases r)
    case (Inl err)
    then show ?thesis using assms(3) l w1 by (auto simp: persist_challenge_record_def)
  next
    case (Inr st)
    have st: "memory_ok (externs E) st" "all_events st = events_at E c"
      using load_raw_Inr [of E w w1 st] l Inr assms(2) by (auto simp: at_def)
    have q: "reserve_event_seq st 1 = Inr (next_seq st)" by (simp add: reserve_event_seq_def)
    let ?built = "build_event (event_id_str (next_seq st)) (fact_str f) (Model.subject_kind sj)
      (Model.subject_key sj) (predicate_str pd) (ChallengeRejected ch g why) None src lvl (clock E (tick w1))"
    show ?thesis
    proof (cases ?built)
      case (Inl m)
      then show ?thesis using assms(3) l w1 Inr q by (auto simp: persist_challenge_record_def Let_def)
    next
      case (Inr e)
      obtain st' ra where a: "append (externs E) st e = (st', ra)" by force
      show ?thesis
      proof (cases ra)
        case (Inl err)
        then show ?thesis
          using assms(3) l w1 \<open>r = Inr st\<close> q Inr a by (auto simp: persist_challenge_record_def Let_def)
      next
        case (Inr rc)
        have adm: "log_admits (events_at E c) [e]"
          using append_ok_iff [OF st(1) a] Inr st(2) by simp
        have rec: "is_record (FactEvent.kind e)"
          using build_event_Inr(1) [OF \<open>?built = Inr e\<close>] by (simp add: is_record_def)
        obtain w3 rw where wr: "write_raw E [e] (next_tick w1) = (w3, rw)" by force
        have "w' = w3"
          using assms(3) l \<open>r = Inr st\<close> q \<open>?built = Inr e\<close> a Inr wr
          by (auto simp: persist_challenge_record_def Let_def)
        then show ?thesis
          using write_raw_cases [OF assms(1) wr, of c] w1 adm rec by (auto simp: unharmed_def split: if_splits)
      qed
    qed
  qed
qed

lemma record_unharmed:
  assumes "whole_writes E" and "at c w" and "record_survived_challenge E e err w = (w', note)"
  shows "unharmed E c w'"
  using assms(2,3) challenge_unharmed [OF assms(1,2)]
  by (auto simp: record_survived_challenge_def split: if_splits option.splits prod.splits)

lemma admit_step:
  assumes "whole_writes E" and "memory_ok (externs E) st" and "all_events st = events_at E c"
  shows "triple (at c) (admit_all E st es) (\<lambda>_ w. at c w \<and> log_admits (events_at E c) es) (unharmed E c)"
proof -
  obtain st' r where a: "append_each (externs E) st es = (st', r)" by force
  have "is_ok r \<Longrightarrow> log_admits (events_at E c) es"
    using append_each_spec(2) [OF assms(2) a] assms(3) by simp
  then show ?thesis
    using record_unharmed [OF assms(1)]
    by (auto simp: triple_def admit_all_def a split: sum.splits prod.splits fault.splits)
qed

text \<open>Whom the earned-supersession gate protects.\<close>

definition protected :: "FactEvent list \<Rightarrow> AuthorityLevel \<Rightarrow> FactId \<Rightarrow> bool" where
  "protected L lvl f \<longleftrightarrow> (\<exists>s. fact_state L f = Some s \<and> state_level s = lvl \<and> earned_entrenchment_at_or_above s lvl > 1)"

lemma entrenchment_gate_Cons:
  assumes "memory_ok X st" and "all_events st = L"
  shows "entrenchment_gate E st sj pd rid src lvl (f # fs) w =
    (if protected L lvl f
     then (case (if challenge_recording_enabled (record_var E)
                 then persist_challenge_record E f sj pd Supersession (Some rid) ChallengeRejection.WeakerEntrenchment src lvl w
                 else (w, False)) of
         (w', recorded) \<Rightarrow> (w', snd (entrenchment_gate E st sj pd rid src lvl (f # fs) w)))
     else entrenchment_gate E st sj pd rid src lvl fs w) \<and>
    (protected L lvl f \<longrightarrow> \<not> is_ok (snd (entrenchment_gate E st sj pd rid src lvl (f # fs) w)))"
  using load_ok [OF assms(1), of f] assms(2)
  by (auto simp: protected_def fact_state_def Let_def split: sum.splits option.splits prod.splits)

lemma entrenchment_step:
  assumes "whole_writes E" and "memory_ok (externs E) st" and "all_events st = L"
  shows "triple (at c) (entrenchment_gate E st sj pd rid src lvl fs)
    (\<lambda>_ w. at c w \<and> (\<forall>f \<in> set fs. \<not> protected L lvl f)) (unharmed E c)"
proof (induction fs)
  case Nil
  show ?case by (simp add: triple_def)
next
  case (Cons f fs)
  show ?case
    unfolding triple_def
  proof (intro allI impI)
    fix w w' r
    assume w: "at c w" and g: "entrenchment_gate E st sj pd rid src lvl (f # fs) w = (w', r)"
    note step = entrenchment_gate_Cons [OF assms(2,3), of E sj pd rid src lvl f fs w, unfolded g]
    show "case r of Inr x \<Rightarrow> at c w' \<and> (\<forall>f \<in> set (f # fs). \<not> protected L lvl f) | Inl _ \<Rightarrow> unharmed E c w'"
    proof (cases "protected L lvl f")
      case True
      obtain w1 b where c: "(if challenge_recording_enabled (record_var E)
        then persist_challenge_record E f sj pd Supersession (Some rid) ChallengeRejection.WeakerEntrenchment src lvl w
        else (w, False)) = (w1, b)" by force
      then have "unharmed E c w1" using challenge_unharmed [OF assms(1) w] w by (auto split: if_splits)
      moreover have "w' = w1" using step True c by simp
      moreover have "\<not> is_ok r" using step True by simp
      ultimately show ?thesis by (cases r) simp_all
    next
      case False
      then have "entrenchment_gate E st sj pd rid src lvl fs w = (w', r)" using step by simp
      then show ?thesis using Cons.IH w False by (fastforce simp: triple_def split: sum.splits)
    qed
  qed
qed

section \<open>The contract of every operation\<close>

lemma triple_prod [steps]:
  "(\<And>a b. x = (a, b) \<Longrightarrow> triple P (f a b) Q F) \<Longrightarrow> triple P (case x of (a, b) \<Rightarrow> f a b) Q F"
  by (cases x) simp

lemma triple_option [steps]:
  "(x = None \<Longrightarrow> triple P m Q F) \<Longrightarrow> (\<And>a. x = Some a \<Longrightarrow> triple P (f a) Q F) \<Longrightarrow>
     triple P (case x of None \<Rightarrow> m | Some a \<Rightarrow> f a) Q F"
  by (cases x) simp_all

lemma kept_commit: "log_admits (events_at E c) es \<Longrightarrow> committed E c es w \<Longrightarrow> kept E c w"
  by (auto simp: kept_def)

lemma write_kept:
  assumes "whole_writes E" and "log_admits (events_at E c) es"
  shows "triple (at c) (write_op E es) (\<lambda>_ w. kept E c w) (unharmed E c)"
  by (rule triple_post [OF write_step [OF assms(1)]]) (rule kept_commit [OF assms(2)])

lemma commit_kept:
  assumes "whole_writes E" and "log_admits (events_at E c) es"
  shows "triple (at c) (op_bind (write_op E es) (\<lambda>_. op_return x)) (\<lambda>_ w. kept E c w) (unharmed E c)"
  by (rule triple_bind [OF write_kept [OF assms]]) (rule triple_return)

lemmas op_steps = steps triple_step [OF gate_step] triple_step [OF load_step] triple_step [OF subject_step]
  triple_step [OF pred_step] triple_step [OF believed_step] triple_step [OF now_step]
  triple_step [OF reserve_step] triple_step [OF invalid_step] triple_step [OF explained_step]
  triple_step [OF content_step] triple_step [OF admit_step]
  write_kept commit_kept

lemma per_incumbent_contract:
  "whole_writes E \<Longrightarrow> triple (at c) (build_per_incumbent E sk key pred lvl src verb kind_for)
     (\<lambda>_ w. kept E c w) (unharmed E c)"
  unfolding build_per_incumbent_def by (intro op_steps) simp_all

lemma retract_contract:
  "whole_writes E \<Longrightarrow> triple (at c) (op_retract E sk key pred lvl src) (\<lambda>_ w. kept E c w) (unharmed E c)"
  unfolding op_retract_def by (intro op_steps) simp_all

lemma per_incumbent_ops:
  assumes "whole_writes E"
  shows "triple (at c) (op_reinforce E sk key pred lvl src) (\<lambda>_ w. kept E c w) (unharmed E c)"
    and "triple (at c) (op_expire E sk key pred lvl src) (\<lambda>_ w. kept E c w) (unharmed E c)"
    and "triple (at c) (op_used_in_decision E sk key pred d lvl src) (\<lambda>_ w. kept E c w) (unharmed E c)"
  unfolding op_reinforce_def op_expire_def op_used_in_decision_def Let_def
  by (rule triple_bind [OF per_incumbent_contract [OF assms]] triple_return triple_if fail_step)+

lemma contradict_contract:
  "whole_writes E \<Longrightarrow> triple (at c) (op_contradict E sk key pred v lvl src validity) (\<lambda>_ w. kept E c w) (unharmed E c)"
  unfolding op_contradict_def Let_def by (intro op_steps) simp_all

lemma entrenchment_branch:
  "whole_writes E \<Longrightarrow> memory_ok (externs E) st \<Longrightarrow> all_events st = L \<Longrightarrow> triple (at c)
     (if b then entrenchment_gate E st sj pd rid src lvl fs else op_return ())
     (\<lambda>_ w. at c w \<and> (b \<longrightarrow> (\<forall>f \<in> set fs. \<not> protected L lvl f))) (unharmed E c)"
  using entrenchment_step [of E st L c sj pd rid src lvl fs] by (cases b) (simp_all add: triple_def op_return_def)

lemma supersede_contract:
  "whole_writes E \<Longrightarrow> triple (at c) (op_supersede E sk key pred v lvl src validity) (\<lambda>_ w. kept E c w) (unharmed E c)"
  unfolding op_supersede_def Let_def
  by (intro op_steps triple_step [OF entrenchment_branch]) simp_all

lemma gate_each_step [steps]:
  "triple (at c) (gate_each E lvl src rs) (\<lambda>_ w. at c w \<and> True) (unharmed E c)"
proof (induction rs)
  case Nil
  show ?case by (simp add: triple_def op_return_def)
next
  case (Cons a rs)
  show ?case unfolding gate_each.simps by (rule triple_step [OF gate_step]) (rule Cons.IH)
qed

lemma records_step:
  assumes "memory_ok (externs E) st" and "all_events st = events_at E c"
  shows "triple (at c) (admit_records E st es) (\<lambda>_ w. at c w \<and> log_admits (events_at E c) es) (unharmed E c)"
proof -
  obtain st' r where a: "append_each (externs E) st es = (st', r)" by force
  have "is_ok r \<Longrightarrow> log_admits (events_at E c) es"
    using append_each_spec(2) [OF assms(1) a] assms(2) by simp
  then show ?thesis by (auto simp: triple_def admit_records_def op_lift_def a split: sum.splits)
qed

lemma at_kept: "at c w \<Longrightarrow> kept E c w"
  by (simp add: kept_def)

lemma retrievals_contract:
  "whole_writes E \<Longrightarrow> triple (at c) (op_record_retrievals E refs p lvl src) (\<lambda>_ w. kept E c w) (unharmed E c)"
  unfolding op_record_retrievals_def Let_def
  by (intro op_steps triple_step [OF gate_each_step] triple_step [OF records_step])
    (simp_all add: triple_def op_return_def at_kept)

text \<open>
  Assertions and derivations sign before they admit; the defaults they apply twice are idempotent,
  also under a signature.
\<close>

lemma defaults_fields [simp]:
  "FactEvent.kind (apply_policy_defaults R e) = FactEvent.kind e"
  "FactEvent.subject (apply_policy_defaults R e) = FactEvent.subject e"
  "FactEvent.predicate (apply_policy_defaults R e) = FactEvent.predicate e"
  by (simp_all add: apply_policy_defaults_def split: option.split)

lemma defaults_idem:
  assumes "strip_attestation d = strip_attestation (apply_policy_defaults R e)"
  shows "apply_policy_defaults R d = d"
proof -
  have eq: "FactEvent.kind d = FactEvent.kind e" "FactEvent.subject d = FactEvent.subject e"
    "FactEvent.predicate d = FactEvent.predicate e" "FactEvent.ttl d = FactEvent.ttl (apply_policy_defaults R e)"
    using arg_cong [OF assms, of FactEvent.kind] arg_cong [OF assms, of FactEvent.subject]
      arg_cong [OF assms, of FactEvent.predicate] arg_cong [OF assms, of FactEvent.ttl]
    by simp_all
  show ?thesis
    using eq(4) unfolding apply_policy_defaults_def eq(1-3)
    by (auto split: option.splits if_splits)
qed

lemma commit_assertion_contract:
  assumes "env_ok E" and "memory_ok (externs E) st" and "all_events st = events_at E c"
  shows "triple (at c) (commit_assertion E st e now) (\<lambda>_ w. kept E c w) (unharmed E c)"
  unfolding commit_assertion_def
proof (rule triple_step [OF content_step], rule triple_step [OF sign_step])
  fix checked attested
  assume ch: "checked_from [e] checked" and sg: "sign E (map (apply_policy_defaults coding_agent) checked) = Inr attested"
  have whole: "whole_writes E" and only: "attests_only E" using assms(1) by (simp_all add: env_ok_def)
  from ch obtain e1 where e1: "checked = [e1]" by (auto simp: checked_from_def list_all2_Cons1)
  have "same_but_attested [apply_policy_defaults coding_agent e1] attested"
    using only sg e1 by (auto simp: attests_only_def)
  then obtain e' where e': "attested = [e']" "strip_attestation e' = strip_attestation (apply_policy_defaults coding_agent e1)"
    by (cases attested) (auto simp: same_but_attested_def)
  note idem = defaults_idem [OF e'(2)]
  obtain st' r where a: "append (externs E) st e' = (st', r)" by force
  have adm: "log_admits (events_at E c) [e']" if "is_ok r"
    using append_ok_iff [OF assms(2) a] assms(3) that by simp
  have "triple (at c) (op_lift (map_err refuse (snd (admit (externs E) st coding_agent e' now))))
     (\<lambda>_ w. at c w \<and> log_admits (events_at E c) [e']) (unharmed E c)"
    using adm a idem
    by (auto simp: triple_def op_lift_def admit_def split: sum.splits)
  then show "triple (at c) (op_bind (case attested of
         [e'] \<Rightarrow> op_lift (map_err refuse (snd (admit (externs E) st coding_agent e' now)))
       | _ \<Rightarrow> op_lift (Inl Panic)) (\<lambda>receipt. op_bind (write_op E attested) (\<lambda>_. op_return receipt)))
     (\<lambda>_ w. kept E c w) (unharmed E c)"
    unfolding e'(1) by (simp only: list.case) (rule triple_step, assumption, rule commit_kept [OF whole])
qed

lemma assert_contract:
  "env_ok E \<Longrightarrow> triple (at c) (op_assert E sk key pred v lvl src validity) (\<lambda>_ w. kept E c w) (unharmed E c)"
  unfolding op_assert_def
  by (intro op_steps triple_bind [OF commit_assertion_contract] triple_return) simp_all

lemma derive_contract:
  "env_ok E \<Longrightarrow> triple (at c) (op_derive E sk key pred v lvl src fk fkey fp validity) (\<lambda>_ w. kept E c w) (unharmed E c)"
  unfolding op_derive_def Let_def
  by (intro op_steps triple_bind [OF commit_assertion_contract] triple_return) simp_all

end
