(* ===== verification/Op_Session.thy ===== *)
theory Op_Session
  imports Op_Contract
begin

text \<open>
  The operations as steps of a system: sessions of writes to one log file, whatever clocks,
  gates, scanners and signers the single commands run under. From the contract follow the
  invariant of every session, the harmlessness of failures, and what the closing, contesting and
  recording operations do to the beliefs of the log.
\<close>

section \<open>Committed batches in the file\<close>

lemma committed_signed:
  assumes "env_ok E" and "ends_line c" and "committed E c es w"
  obtains fs where "sign E es = Inr fs" and "events_at E (contents w) = events_at E c @ fs"
    and "ends_line (contents w)"
    and "snd (parse_jsonl_events (codec E) (text_of (contents w))) = snd (parse_jsonl_events (codec E) (text_of c))"
proof -
  from assms(3) obtain fs buffer where sg: "sign E es = Inr fs" and b: "jsonl_buffer (codec E) fs = Inr buffer"
    and w: "contents w = Some (text_of c @ buffer)" by (auto simp: committed_def)
  have lines: "line_ok (codec E) e" if "e \<in> set fs" for e
  proof -
    from b obtain ls where "try_map (\<lambda>e. map_ok (\<lambda>line. line @ [nl])
        (map_err (\<lambda>err. Other (''serialize: '' @ err)) (to_line (codec E) e))) fs = Inr ls"
      by (auto simp: jsonl_buffer_def)
    from try_map_in [OF this that] obtain line where "to_line (codec E) e = Inr line" by auto
    then show ?thesis using assms(1) by (auto simp: env_ok_def codec_ok_def)
  qed
  have "parse_jsonl_events (codec E) (text_of c @ buffer) =
      (events_at E c @ fs, snd (parse_jsonl_events (codec E) (text_of c)))"
    using append_then_parse [OF lines _ b, of "text_of c"] assms(2) by (simp add: events_at_def ends_line_def)
  moreover have "ends_line (contents w)"
    using append_ends_line [OF lines _ b, of "text_of c"] assms(2) by (simp add: ends_line_def w text_of_def)
  ultimately show thesis using that sg w by (simp add: events_at_def text_of_def)
qed

lemma committed_log:
  assumes "env_ok E" and "ends_line c" and "committed E c es w"
  obtains fs where "events_at E (contents w) = events_at E c @ fs" and "same_but_attested es fs"
    and "ends_line (contents w)"
    and "snd (parse_jsonl_events (codec E) (text_of (contents w))) = snd (parse_jsonl_events (codec E) (text_of c))"
  using committed_signed [OF assms] assms(1) that unfolding env_ok_def attests_only_def by metis

section \<open>Sessions\<close>

inductive op_step :: "'j Env \<Rightarrow> World \<Rightarrow> bool \<Rightarrow> World \<Rightarrow> bool" for E w where
  asserting: "op_assert E sk key pred v lvl src va w = (w', r) \<Longrightarrow> op_step E w (is_ok r) w'"
| deriving: "op_derive E sk key pred v lvl src fk fkey fp va w = (w', r) \<Longrightarrow> op_step E w (is_ok r) w'"
| superseding: "op_supersede E sk key pred v lvl src va w = (w', r) \<Longrightarrow> op_step E w (is_ok r) w'"
| retracting: "op_retract E sk key pred lvl src w = (w', r) \<Longrightarrow> op_step E w (is_ok r) w'"
| contradicting: "op_contradict E sk key pred v lvl src va w = (w', r) \<Longrightarrow> op_step E w (is_ok r) w'"
| reinforcing: "op_reinforce E sk key pred lvl src w = (w', r) \<Longrightarrow> op_step E w (is_ok r) w'"
| expiring: "op_expire E sk key pred lvl src w = (w', r) \<Longrightarrow> op_step E w (is_ok r) w'"
| using_in: "op_used_in_decision E sk key pred d lvl src w = (w', r) \<Longrightarrow> op_step E w (is_ok r) w'"
| retrieving: "op_record_retrievals E refs p lvl src w = (w', r) \<Longrightarrow> op_step E w (is_ok r) w'"

lemma triple_outcome:
  assumes "triple (at c) m (\<lambda>_ w. kept E c w) (unharmed E c)" and "m w = (w', r)" and "contents w = c"
  shows "if is_ok r then kept E c w' else unharmed E c w'"
  using assms by (cases r) (auto simp: at_def dest: triple_Inr triple_Inl)

lemma op_step_contract:
  assumes "env_ok E" and "op_step E w ok w'"
  shows "if ok then kept E (contents w) w' else unharmed E (contents w) w'"
proof -
  have whole: "whole_writes E" using assms(1) by (simp add: env_ok_def)
  note contracts = assert_contract [OF assms(1)] derive_contract [OF assms(1)] supersede_contract [OF whole]
    retract_contract [OF whole] contradict_contract [OF whole] per_incumbent_ops [OF whole]
    retrievals_contract [OF whole]
  show ?thesis
    using assms(2)
    by (cases rule: op_step.cases) (auto dest!: contracts [THEN triple_outcome, OF _ refl])
qed

lemma unharmed_kept: "unharmed E c w \<Longrightarrow> kept E c w"
  by (auto simp: unharmed_def kept_def)

lemma kept_extends:
  assumes "env_ok E" and "log_inv (events_at E c)" and "ends_line c" and "kept E c w"
  obtains es fs where "events_at E (contents w) = events_at E c @ fs" and "same_but_attested es fs"
    and "log_admits (events_at E c) es" and "log_inv (events_at E (contents w))" and "ends_line (contents w)"
    and "snd (parse_jsonl_events (codec E) (text_of (contents w))) = snd (parse_jsonl_events (codec E) (text_of c))"
proof (cases "at c w")
  case True
  then show ?thesis using that [of "[]" "[]"] assms(2,3) by (simp add: at_def)
next
  case False
  then obtain es where es: "log_admits (events_at E c) es" "committed E c es w"
    using assms(4) by (auto simp: kept_def)
  then obtain fs where fs: "events_at E (contents w) = events_at E c @ fs" "same_but_attested es fs"
    "ends_line (contents w)"
    "snd (parse_jsonl_events (codec E) (text_of (contents w))) = snd (parse_jsonl_events (codec E) (text_of c))"
    using committed_log [OF assms(1,3)] by blast
  have "log_inv (events_at E c @ es)" by (rule log_admits_inv [OF assms(2) es(1)])
  then have "log_inv (events_at E (contents w))"
    using same_but_attested_facts(2) [OF same_but_attested_append [OF fs(2)]] fs(1) by simp
  then show ?thesis using that es(1) fs by blast
qed

inductive session :: "'j Externs \<Rightarrow> Codec \<Rightarrow> World \<Rightarrow> bool" for X K where
  start: "contents w = None \<Longrightarrow> session X K w"
| command: "session X K w \<Longrightarrow> env_ok E \<Longrightarrow> externs E = X \<Longrightarrow> codec E = K \<Longrightarrow> op_step E w ok w' \<Longrightarrow>
    session X K w'"

lemma session_inv:
  "session X K w \<Longrightarrow> log_inv (fst (parse_jsonl_events K (text_of (contents w)))) \<and>
     snd (parse_jsonl_events K (text_of (contents w))) = [] \<and> ends_line (contents w)"
proof (induction rule: session.induct)
  case (start w)
  then show ?case
    by (simp add: text_of_def parse_jsonl_events_def str_lines_def ends_line_def log_inv_Nil)
next
  case (command w E ok w')
  have "kept E (contents w) w'"
    using op_step_contract [OF command.hyps(2,5)] unharmed_kept by (auto split: if_splits)
  then show ?case
    using kept_extends [OF command.hyps(2), of "contents w" w'] command.IH command.hyps(4)
    by (metis events_at_def)
qed

text \<open>The believed ids an operation finds are the beliefs of the log.\<close>

lemma believed_ids_set:
  assumes "log_inv (all_events st)" and "believed_fact_ids st sj pd = Inr ids"
  shows "set ids = FactState.fact_id ` believed_in (all_events st) sj pd"
proof -
  obtain pr where pr: "replay_subject (scan_events st (pair_filter sj pd)) = Inr pr" "btm_ok (facts pr)"
    and get: "\<And>f s. btm_get (facts pr) f = Some s \<longleftrightarrow> fact_state (all_events st) f = Some s \<and> has_shape sj pd s"
    by (rule pair_projection [OF assms(1)]) blast
  then show ?thesis using assms(2) believed_set [OF pr(2) get] by (auto simp: believed_fact_ids_def)
qed

section \<open>What the operations write\<close>

lemma commit_post:
  assumes "whole_writes E" and "\<And>w. committed E c es w \<Longrightarrow> D w"
  shows "triple (at c) (op_bind (write_op E es) (\<lambda>_. op_return x)) (\<lambda>_ w. D w) (unharmed E c)"
    and "triple (at c) (write_op E es) (\<lambda>_ w. D w) (unharmed E c)"
proof -
  show w: "triple (at c) (write_op E es) (\<lambda>_ w. D w) (unharmed E c)"
    by (rule triple_post [OF write_step [OF assms(1)]]) (rule assms(2))
  show "triple (at c) (op_bind (write_op E es) (\<lambda>_. op_return x)) (\<lambda>_ w. D w) (unharmed E c)"
    by (rule triple_bind [OF w]) (rule triple_return)
qed

lemma build_event_id_kind:
  "build_event eid fid sk key pred k v src lvl now = Inr e \<Longrightarrow>
     fact_str (FactEvent.fact_id e) = fid \<and> FactEvent.kind e = k"
  by (intro conjI build_event_Inr(1,4))

text \<open>A committed batch of a stated shape, admitted by the log it extends.\<close>

definition commits :: "'j Env \<Rightarrow> string option \<Rightarrow> (FactEvent list \<Rightarrow> bool) \<Rightarrow> World \<Rightarrow> bool" where
  "commits E c shape w \<longleftrightarrow> (\<exists>es. shape es \<and> log_admits (events_at E c) es \<and> committed E c es w)"

text \<open>A fresh assertion of a value about a pair, stamped with a validity.\<close>

definition fresh_claim :: "string \<Rightarrow> string \<Rightarrow> string \<Rightarrow> string \<Rightarrow> AuthorityLevel \<Rightarrow> string \<Rightarrow> Validity \<Rightarrow> FactEvent \<Rightarrow> bool" where
  "fresh_claim sk key pred v lvl src va e \<longleftrightarrow>
     FactEvent.kind e = Asserted \<and> FactEvent.val e = Some (Text v) \<and> event_level e = lvl \<and>
     FactEvent.subject e = Subject sk key \<and> FactEvent.predicate e = Predicate pred \<and>
     source_str (event_source e) = src \<and>
     FactEvent.valid_from e = map_option from_unix_millis (validity_from va) \<and>
     FactEvent.valid_to e = map_option from_unix_millis (validity_to va) \<and>
     (\<forall>d. validity_ttl va = Some d \<longrightarrow> FactEvent.ttl e = DurationMillis d)"

text \<open>One event of the same kind of effect for each fact of a list.\<close>

definition one_each :: "(FactEventKind \<Rightarrow> bool) \<Rightarrow> FactId list \<Rightarrow> FactEvent list \<Rightarrow> bool" where
  "one_each P ids es \<longleftrightarrow> map FactEvent.fact_id es = ids \<and> (\<forall>e \<in> set es. P (FactEvent.kind e))"

lemma new_names:
  "Subject_new sk key = Inr sj \<longleftrightarrow> sj = Subject sk key \<and> \<not> is_blank sk \<and> \<not> is_blank key"
  "Predicate_new pred = Inr pd \<longleftrightarrow> pd = Predicate pred \<and> \<not> is_blank pred"
  by (auto simp: Subject_new_def Predicate_new_def)

lemma fact_str_inj: "fact_str f = fact_str g \<Longrightarrow> f = g"
  by (cases f; cases g) simp

lemma try_map_events:
  assumes "try_map (\<lambda>(i, f). b i f) (enumerate n ids) = Inr es"
    and "\<And>i f e. b i f = Inr e \<Longrightarrow> fact_str (FactEvent.fact_id e) = fact_str f \<and> P (FactEvent.kind e)"
  shows "one_each P ids es"
proof -
  from assms(1) have l: "list_all2 (\<lambda>x e. (case x of (i, f) \<Rightarrow> b i f) = Inr e) (enumerate n ids) es"
    by (simp only: try_map_all2)
  then have len: "length es = length ids" by (auto dest: list_all2_lengthD)
  have nth: "b (n + i) (ids ! i) = Inr (es ! i)" if "i < length ids" for i
    using list_all2_nthD [OF l, of i] that by (simp add: nth_enumerate_eq)
  have "map FactEvent.fact_id es = ids"
    by (rule nth_equalityI) (use len nth assms(2) fact_str_inj in fastforce)+
  moreover have "P (FactEvent.kind e)" if "e \<in> set es" for e
    using that nth assms(2) len by (auto simp: in_set_conv_nth)
  ultimately show ?thesis by (simp add: one_each_def)
qed

lemma assertion_claim:
  assumes "build_assertion q sk key pred v src lvl now = Inr e"
  shows "fresh_claim sk key pred v lvl src va (apply_policy_defaults R (stamp va e))"
proof -
  note b = build_event_Inr [OF assms [unfolded build_assertion_def]]
  show ?thesis
    using b(1-3,6-9)
    by (auto simp: fresh_claim_def stamp_def Let_def apply_policy_defaults_def new_names split: option.splits)
qed

lemma claim_checked: "fresh_claim sk key pred v lvl src va e \<Longrightarrow> fresh_claim sk key pred v lvl src va (e\<lparr>FactEvent.evidence := ev\<rparr>)"
  by (simp add: fresh_claim_def)

lemma one_each_checked:
  assumes "one_each P ids es" and "checked_from es es'"
  shows "one_each P ids es'"
proof -
  have "map FactEvent.fact_id es' = map FactEvent.fact_id es"
    and "map FactEvent.kind es' = map FactEvent.kind es"
    using assms(2) unfolding checked_from_def by (induction rule: list_all2_induct) auto
  then show ?thesis
    using assms(1) unfolding one_each_def by (metis (no_types, lifting) image_iff set_map)
qed

lemma commitsI: "log_admits (events_at E c) es \<Longrightarrow> committed E c es w \<Longrightarrow> shape es \<Longrightarrow> commits E c shape w"
  by (auto simp: commits_def)

text \<open>Events of one kind of effect for exactly the believed facts of a pair.\<close>

definition for_believed ::
    "FactEvent list \<Rightarrow> string \<Rightarrow> string \<Rightarrow> string \<Rightarrow> (FactEventKind \<Rightarrow> bool) \<Rightarrow> FactEvent list \<Rightarrow> bool" where
  "for_believed L sk key pred P es \<longleftrightarrow>
     FactEvent.fact_id ` set es = FactState.fact_id ` believed_in L (Subject sk key) (Predicate pred) \<and>
     (\<forall>e \<in> set es. P (FactEvent.kind e))"

lemma one_each_believed:
  assumes "log_inv L" and "all_events st = L" and "Subject_new sk key = Inr sj"
    and "Predicate_new pred = Inr pd" and "believed_fact_ids st sj pd = Inr ids" and "one_each P ids es"
  shows "for_believed L sk key pred P es"
proof -
  have "set ids = FactState.fact_id ` believed_in L sj pd"
    using believed_ids_set [of st sj pd ids] assms(1,2,5) by simp
  moreover have "set (map FactEvent.fact_id es) = set ids" using assms(6) by (simp only: one_each_def)
  ultimately show ?thesis using assms(3,4,6) by (simp add: for_believed_def one_each_def new_names)
qed

lemma for_each_kind:
  assumes "build_for_each q k ids sk key pred src lvl now = Inr es" and "\<And>f. P (k f)"
  shows "one_each P ids es"
  using assms(1) unfolding build_for_each_def
  by (rule try_map_events) (auto dest!: build_event_id_kind simp: assms(2))

lemma retract_commits:
  assumes "whole_writes E" and "log_inv (events_at E c)"
  shows "triple (at c) (op_retract E sk key pred lvl src)
    (\<lambda>_. commits E c (for_believed (events_at E c) sk key pred is_lifecycle_terminal)) (unharmed E c)"
  unfolding op_retract_def
proof (intro op_steps commit_post(1) commitsI)
  fix st sj pd ids q now es
  assume "build_retractions q ids sk key pred src lvl now = Inr es"
  then have "one_each is_lifecycle_terminal ids es"
    unfolding build_retractions_def by (rule for_each_kind) (simp add: is_lifecycle_terminal_def)
  moreover assume "memory_ok (externs E) st \<and> all_events st = events_at E c" "Subject_new sk key = Inr sj"
    "Predicate_new pred = Inr pd" "believed_fact_ids st sj pd = Inr ids"
  ultimately show "for_believed (events_at E c) sk key pred is_lifecycle_terminal es"
    using one_each_believed [OF assms(2)] by blast
qed (simp_all add: assms)

lemma per_incumbent_commits:
  assumes "whole_writes E" and "log_inv (events_at E c)" and "\<And>f. P (kind_for f)"
  shows "triple (at c) (build_per_incumbent E sk key pred lvl src verb kind_for)
    (\<lambda>_. commits E c (for_believed (events_at E c) sk key pred P)) (unharmed E c)"
  unfolding build_per_incumbent_def
proof (intro op_steps commit_post(2) commitsI)
  fix st sj pd ids now q es
  assume "build_for_each q kind_for ids sk key pred src lvl now = Inr es"
  then have "one_each P ids es" by (rule for_each_kind) (rule assms(3))
  moreover assume "memory_ok (externs E) st \<and> all_events st = events_at E c" "Subject_new sk key = Inr sj"
    "Predicate_new pred = Inr pd" "believed_fact_ids st sj pd = Inr ids"
  ultimately show "for_believed (events_at E c) sk key pred P es"
    using one_each_believed [OF assms(2)] by blast
qed (simp_all add: assms)

lemma expire_commits:
  assumes "whole_writes E" and "log_inv (events_at E c)"
  shows "triple (at c) (op_expire E sk key pred lvl src)
    (\<lambda>_. commits E c (for_believed (events_at E c) sk key pred is_lifecycle_terminal)) (unharmed E c)"
  unfolding op_expire_def
  by (rule triple_bind [OF per_incumbent_commits [OF assms, where P = is_lifecycle_terminal]])
    (simp add: is_lifecycle_terminal_def, rule triple_return)

lemma used_commits:
  assumes "whole_writes E" and "log_inv (events_at E c)"
  shows "triple (at c) (op_used_in_decision E sk key pred d lvl src)
    (\<lambda>_. commits E c (for_believed (events_at E c) sk key pred is_record)) (unharmed E c)"
  unfolding op_used_in_decision_def Let_def
  by (rule triple_if, rule fail_step, rule triple_bind [OF per_incumbent_commits [OF assms, where P = is_record]])
    (simp add: is_record_def, rule triple_return)

text \<open>A revision: a fresh claim and a closing event for every believed fact.\<close>

definition revision ::
    "FactEvent list \<Rightarrow> string \<Rightarrow> string \<Rightarrow> string \<Rightarrow> string \<Rightarrow> AuthorityLevel \<Rightarrow> string \<Rightarrow> Validity \<Rightarrow> FactEvent list \<Rightarrow> bool" where
  "revision L sk key pred v lvl src va es \<longleftrightarrow> (\<exists>e ss. es = e # ss \<and> fresh_claim sk key pred v lvl src va e \<and>
     for_believed L sk key pred is_lifecycle_terminal ss)"

lemma build_revision_shape:
  assumes "build_revision q ids sk key pred v src lvl now = Inr (events, rid)"
  obtains e ss where "events = e # ss" and "build_assertion q sk key pred v src lvl now = Inr e"
    and "one_each is_lifecycle_terminal ids ss" and "rid = fresh_fact_id sk key pred q"
proof -
  from assms obtain e ss where e: "build_assertion q sk key pred v src lvl now = Inr e" "events = e # ss"
      "rid = fresh_fact_id sk key pred q"
    and t: "try_map (\<lambda>(i, f). and_then (map_err (\<lambda>e. ''fact id: '' @ show_IdError e) (FactId_new rid)) (\<lambda>by_id.
            build_event (event_id_str (q + 1 + of_nat i)) (fact_str f) sk key pred
              (FactEventKind.Superseded by_id UserCorrection) None src lvl now)) (enumerate 0 ids) = Inr ss"
    by (auto simp: build_revision_def Let_def)
  from t have "one_each is_lifecycle_terminal ids ss"
    by (rule try_map_events) (auto dest!: build_event_id_kind simp: is_lifecycle_terminal_def)
  with e that show thesis by blast
qed

lemma supersede_commits:
  assumes "whole_writes E" and "log_inv (events_at E c)"
  shows "triple (at c) (op_supersede E sk key pred v lvl src va)
    (\<lambda>_. commits E c (revision (events_at E c) sk key pred v lvl src va)) (unharmed E c)"
  unfolding op_supersede_def Let_def
proof (intro op_steps triple_step [OF entrenchment_branch] commit_post(1) commitsI)
  fix st sj pd ids now built rid q events checked
  let ?first = "case events of [] \<Rightarrow> [] | e # es \<Rightarrow> apply_policy_defaults coding_agent (stamp va e) # es"
  assume built: "build_revision q ids sk key pred v src lvl now = Inr built" "built = (events, rid)" and ch: "checked_from ?first checked"
    and st: "memory_ok (externs E) st \<and> all_events st = events_at E c" "Subject_new sk key = Inr sj"
    "Predicate_new pred = Inr pd" "believed_fact_ids st sj pd = Inr ids"
  obtain e ss where e: "events = e # ss" "build_assertion q sk key pred v src lvl now = Inr e"
    "one_each is_lifecycle_terminal ids ss" by (rule build_revision_shape [OF built(1) [unfolded built(2)]])
  from ch e(1) obtain ev ss' where c': "checked = (apply_policy_defaults coding_agent (stamp va e))\<lparr>FactEvent.evidence := ev\<rparr> # ss'"
    "checked_from ss ss'" by (auto simp: checked_from_def list_all2_Cons1)
  have "for_believed (events_at E c) sk key pred is_lifecycle_terminal ss'"
    using one_each_believed [OF assms(2) _ st(2-4) one_each_checked [OF e(3) c'(2)]] st(1) by blast
  then show "revision (events_at E c) sk key pred v lvl src va checked"
    unfolding revision_def c'(1) using claim_checked [OF assertion_claim [OF e(2)]] by blast
qed (simp_all add: assms)

text \<open>A contest: a fresh claim, and a contradiction by it of one believed fact.\<close>

definition contest ::
    "FactEvent list \<Rightarrow> string \<Rightarrow> string \<Rightarrow> string \<Rightarrow> string \<Rightarrow> AuthorityLevel \<Rightarrow> string \<Rightarrow> Validity \<Rightarrow> FactEvent list \<Rightarrow> bool" where
  "contest L sk key pred v lvl src va es \<longleftrightarrow> (\<exists>e d. es = [e, d] \<and> fresh_claim sk key pred v lvl src va e \<and>
     FactEvent.kind d = Contradicted (FactEvent.fact_id e) SamePredicateDifferentValue \<and>
     FactEvent.fact_id d \<in> FactState.fact_id ` believed_in L (Subject sk key) (Predicate pred))"

lemma explained_believed:
  assumes "memory_ok X st" and "log_inv (all_events st)" and "explain_subject X st sj pd now = Inr (Some rc)"
  shows "IntegrityReceipt.fact_id rc \<in> FactState.fact_id ` believed_in (all_events st) sj pd"
proof -
  obtain pr where pr: "replay_subject (scan_events st (pair_filter sj pd)) = Inr pr" "btm_ok (facts pr)"
    and get: "\<And>f s. btm_get (facts pr) f = Some s \<longleftrightarrow> fact_state (all_events st) f = Some s \<and> has_shape sj pd s"
    by (rule pair_projection [OF assms(2)]) blast
  obtain s where s: "pick_believed pr now = Some s"
    using assms(3) by (cases "pick_believed pr now") (simp_all add: explain_subject_def pr(1))
  have ex: "explain X st (FactState.fact_id s) now = Inr (Some rc)"
    using assms(3) by (simp add: explain_subject_def pr(1) s)
  have "s \<in> believed_in (all_events st) sj pd"
    using pick_believed_Some(1) [OF s] believed_set [OF pr(2) get] by simp
  moreover have "IntegrityReceipt.fact_id rc = FactState.fact_id s"
  proof -
    obtain t ev where "replay_fact (stream_of (FactState.fact_id s) (all_events st)) = Inr (Some t)"
      and rc: "rc = receipt_of t ev now True"
      using ex unfolding explain_def explain_with_ok [OF assms(1)] by auto
    then have "FactState.fact_id t = FactState.fact_id s" by (intro fact_state_id [of "all_events st"]) (simp add: fact_state_def)
    then show ?thesis by (simp add: rc receipt_of_def)
  qed
  ultimately show ?thesis by simp
qed

lemma contradict_commits:
  assumes "whole_writes E" and "log_inv (events_at E c)"
  shows "triple (at c) (op_contradict E sk key pred v lvl src va)
    (\<lambda>_. commits E c (contest (events_at E c) sk key pred v lvl src va)) (unharmed E c)"
  unfolding op_contradict_def Let_def
proof (intro op_steps commit_post(1) commitsI)
  fix st sj pd now found receipt q built events oid checked
  let ?first = "case events of [] \<Rightarrow> [] | e # es \<Rightarrow> apply_policy_defaults coding_agent (stamp va e) # es"
  assume built: "build_contradiction q (fact_str (IntegrityReceipt.fact_id receipt)) sk key pred v src lvl now = Inr built"
      "built = (events, oid)" and ch: "checked_from ?first checked"
    and st: "memory_ok (externs E) st \<and> all_events st = events_at E c"
    and names: "Subject_new sk key = Inr sj" "Predicate_new pred = Inr pd"
    and found: "\<forall>rc. found = Some rc \<longrightarrow> explain_subject (externs E) st sj pd now = Inr (Some rc)" "found = Some receipt"
  from built obtain e by_id d where e: "build_assertion q sk key pred v src lvl now = Inr e"
    and by_id: "FactId_new (fresh_fact_id sk key pred q) = Inr by_id"
    and d: "build_event (event_id_str (q + 1)) (fact_str (IntegrityReceipt.fact_id receipt)) sk key pred
        (Contradicted by_id SamePredicateDifferentValue) None src lvl now = Inr d" and ev: "events = [e, d]"
    by (auto simp: build_contradiction_def Let_def)
  have eid: "FactEvent.fact_id e = by_id"
    using build_event_Inr(4) [OF e [unfolded build_assertion_def]] by_id
    by (intro fact_str_inj) (auto simp: FactId_new_def id_new_def split: if_splits)
  from ch ev obtain x y where c': "checked = [(apply_policy_defaults coding_agent (stamp va e))\<lparr>FactEvent.evidence := x\<rparr>, d\<lparr>FactEvent.evidence := y\<rparr>]"
    by (auto simp: checked_from_def list_all2_Cons1)
  have fid: "FactEvent.fact_id (apply_policy_defaults coding_agent (stamp va e)) = by_id"
    using eid by (simp add: apply_policy_defaults_def stamp_def Let_def split: option.split)
  have "FactEvent.fact_id d = IntegrityReceipt.fact_id receipt"
    using build_event_id_kind [OF d] fact_str_inj by blast
  then have "FactEvent.fact_id d \<in> FactState.fact_id ` believed_in (events_at E c) (Subject sk key) (Predicate pred)"
    using explained_believed [of "externs E" st sj pd now receipt] st names found assms(2) by (simp add: new_names)
  then show "contest (events_at E c) sk key pred v lvl src va checked"
    using build_event_id_kind [OF d] claim_checked [OF assertion_claim [OF e]] fid
    by (auto simp: contest_def c')
qed (simp_all add: assms)

section \<open>Effects on beliefs\<close>

lemma commits_log:
  assumes "env_ok E" and "log_inv (events_at E c)" and "ends_line c" and "commits E c shape w"
  obtains es where "shape es" and "log_admits (events_at E c) es"
    and "fact_state (events_at E (contents w)) = fact_state (events_at E c @ es)"
    and "believed_in (events_at E (contents w)) = believed_in (events_at E c @ es)"
proof -
  from assms(4) obtain es where es: "shape es" "log_admits (events_at E c) es" "committed E c es w"
    by (auto simp: commits_def)
  obtain fs where "events_at E (contents w) = events_at E c @ fs" "same_but_attested es fs"
    using committed_log [OF assms(1,3) es(3)] by blast
  then have "same_but_attested (events_at E c @ es) (events_at E (contents w))"
    by (simp add: same_but_attested_append)
  with same_but_attested_facts(1,3) [OF this] es that show thesis by simp
qed

lemma closing_all:
  assumes "log_inv L" and "log_admits L es" and "for_believed L sk key pred is_lifecycle_terminal es"
  shows "believed_in (L @ es) (Subject sk key) (Predicate pred) = {}"
  using believed_after_closing [OF assms(1,2)] assms(3) by (auto simp: for_believed_def)

lemma revision_believed:
  assumes "log_inv L" and "log_admits L es" and "revision L sk key pred v lvl src va es"
  obtains e s where "fresh_claim sk key pred v lvl src va e" and "apply_initial_event e = Inr s"
    and "believed_in (L @ es) (Subject sk key) (Predicate pred) = {s}"
proof -
  let ?B = "\<lambda>L. believed_in L (Subject sk key) (Predicate pred)"
  from assms(3) obtain e ss where es: "es = e # ss" and e: "fresh_claim sk key pred v lvl src va e"
    and ss: "for_believed L sk key pred is_lifecycle_terminal ss" by (auto simp: revision_def)
  have adm: "admits_next L e" "log_admits (L @ [e]) ss" using assms(2) es by simp_all
  have k: "FactEvent.kind e = Asserted" "FactEvent.subject e = Subject sk key" "FactEvent.predicate e = Predicate pred"
    using e by (simp_all add: fresh_claim_def)
  obtain s where none: "fact_state L (FactEvent.fact_id e) = None" and s: "apply_initial_event e = Inr s"
    by (rule asserted_opens [OF assms(1) adm(1) k(1)])
  have id: "FactState.fact_id s = FactEvent.fact_id e" using apply_initial_iff [OF s] by simp
  have inv: "log_inv (L @ [e])" by (rule admits_next_inv [OF assms(1) adm(1)])
  have "s \<notin> ?B L" and new: "FactState.fact_id s \<notin> FactState.fact_id ` ?B L"
    using none id by (auto simp: believed_iff)
  have "?B ((L @ [e]) @ ss) = {t \<in> insert s (?B L). FactState.fact_id t \<notin> FactEvent.fact_id ` set ss}"
    using believed_after_closing [OF inv adm(2)] ss believed_after_assert [OF assms(1) adm(1) k s]
    by (simp add: for_believed_def)
  also have "\<dots> = {s}" using ss new by (auto simp: for_believed_def)
  finally show thesis using that e s es by simp
qed

end
