(* ===== verification/Op_Effects.thy ===== *)
theory Op_Effects
  imports Op_Session
begin

text \<open>
  The properties of the write operations: what a session guarantees of its log, what a failure can
  leave behind, what a successful revision, closing, contest and record do to the beliefs, that
  assertions pass the policy, and the retry of a lost race.
\<close>

section \<open>Effects of the single operations\<close>

lemma op_outcome:
  assumes "triple (at c) m (\<lambda>_. commits E c shape) (unharmed E c)" and "m w = (w', Inr x)" and "contents w = c"
  shows "commits E c shape w'"
  using triple_Inr [OF assms(1) _ assms(2)] assms(3) by (simp add: at_def)

abbreviation log_in :: "'j Env \<Rightarrow> World \<Rightarrow> FactEvent list" where
  "log_in E w \<equiv> events_at E (contents w)"

abbreviation believed_now :: "'j Env \<Rightarrow> World \<Rightarrow> string \<Rightarrow> string \<Rightarrow> string \<Rightarrow> FactState set" where
  "believed_now E w sk key pred \<equiv> believed_in (log_in E w) (Subject sk key) (Predicate pred)"

lemma session_log:
  assumes "session (externs E) (codec E) w"
  shows "log_inv (log_in E w)" and "ends_line (contents w)"
  using session_inv [OF assms] by (simp_all add: events_at_def)

lemmas env_whole = env_ok_def [THEN iffD1, THEN conjunct2, THEN conjunct2]

lemma closing_effect:
  assumes "env_ok E" and "session (externs E) (codec E) w"
    and "commits E (contents w) (for_believed (log_in E w) sk key pred is_lifecycle_terminal) w'"
  shows "believed_now E w' sk key pred = {}"
    and "believed_in (log_in E w') sj pd \<subseteq> believed_in (log_in E w) sj pd"
proof -
  note inv = session_log [OF assms(2)]
  obtain es where es: "for_believed (log_in E w) sk key pred is_lifecycle_terminal es" "log_admits (log_in E w) es"
    "believed_in (log_in E w') = believed_in (log_in E w @ es)"
    by (rule commits_log [OF assms(1) inv assms(3)])
  show "believed_now E w' sk key pred = {}" using closing_all [OF inv(1) es(2,1)] es(3) by simp
  show "believed_in (log_in E w') sj pd \<subseteq> believed_in (log_in E w) sj pd"
    using believed_after_closing [OF inv(1) es(2)] es(1,3) by (auto simp: for_believed_def)
qed

lemma contest_effect:
  assumes "log_inv L" and "log_admits L es" and "contest L sk key pred v lvl src va es"
  shows "\<exists>s t u. s \<in> believed_in L (Subject sk key) (Predicate pred) \<and> state_level s \<noteq> Canonical \<and>
    fact_state L (FactState.fact_id t) = None \<and>
    fact_state (L @ es) = (fact_state L)(FactState.fact_id t \<mapsto> t, FactState.fact_id s \<mapsto> u) \<and>
    FactState.val t = Text v \<and> state_level t = lvl \<and> FactState.lifecycle t = Active \<and>
    same_core s u \<and> FactState.lifecycle u = FactLifecycle.Contested \<and> FactState.fact_id t \<in> set (FactState.contradicted_by u) \<and>
    {t, u} \<subseteq> believed_in (L @ es) (Subject sk key) (Predicate pred)"
proof -
  from assms(3) obtain e d where es: "es = [e, d]" and e: "fresh_claim sk key pred v lvl src va e"
    and d: "FactEvent.kind d = Contradicted (FactEvent.fact_id e) SamePredicateDifferentValue"
    and tgt: "FactEvent.fact_id d \<in> FactState.fact_id ` believed_in L (Subject sk key) (Predicate pred)"
    by (auto simp: contest_def)
  have adm: "admits_next L e" "admits_next (L @ [e]) d" using assms(2) es by simp_all
  have k: "FactEvent.kind e = Asserted" using e by (simp add: fresh_claim_def)
  obtain t where none: "fact_state L (FactEvent.fact_id e) = None" and t: "apply_initial_event e = Inr t"
    and up1: "fact_state (L @ [e]) = (fact_state L)(FactEvent.fact_id e \<mapsto> t)"
    by (rule asserted_opens [OF assms(1) adm(1) k])
  note init = apply_initial_iff [OF t]
  obtain s where s: "s \<in> believed_in L (Subject sk key) (Predicate pred)" "FactEvent.fact_id d = FactState.fact_id s"
    using tgt by blast
  obtain s' u where s': "fact_state (L @ [e]) (FactEvent.fact_id d) = Some s'" and u: "apply_next_event s' d = Inr u"
    and up2: "fact_state ((L @ [e]) @ [d]) = (fact_state (L @ [e]))(FactEvent.fact_id d \<mapsto> u)"
    using next_event [OF admits_next_inv [OF assms(1) adm(1)] adm(2)] d by auto
  have ne: "FactState.fact_id s \<noteq> FactEvent.fact_id e" using s(1) none by (auto simp: believed_iff)
  then have "s' = s" using s' up1 s by (simp add: believed_iff)
  then have u': "same_core s u" "FactState.lifecycle u = FactLifecycle.Contested" "FactEvent.fact_id e \<in> set (FactState.contradicted_by u)"
    "state_level s \<noteq> Canonical"
    using u d by (auto simp: apply_next_Inr apply_kind_def same_core_def split: if_splits)
  have sh: "has_shape (Subject sk key) (Predicate pred) u" using s(1) has_shape_core [OF u'(1)] by (simp add: believed_iff)
  have tsh: "has_shape (Subject sk key) (Predicate pred) t" using init e by (simp add: has_shape_def fresh_claim_def)
  have upd: "fact_state (L @ es) = (fact_state L)(FactState.fact_id t \<mapsto> t, FactState.fact_id s \<mapsto> u)"
    using up1 up2 es s(2) init by simp
  have uid: "FactState.fact_id u = FactState.fact_id s" using u'(1) by (simp add: same_core_def)
  have "{t, u} \<subseteq> believed_in (L @ es) (Subject sk key) (Predicate pred)"
    using upd sh tsh uid ne init u'(2) by (auto simp: believed_iff)
  moreover have "FactState.val t = Text v \<and> state_level t = lvl \<and> FactState.lifecycle t = Active"
    using init e by (auto simp: fresh_claim_def)
  ultimately show ?thesis using s(1) u' none upd init by metis
qed

lemma supersede_protects:
  assumes "whole_writes E" and "log_inv (events_at E c)"
  shows "triple (at c) (op_supersede E sk key pred v lvl src va)
    (\<lambda>_ _. entrenchment_gate_enabled (gate_var E) \<longrightarrow>
       (\<forall>s \<in> believed_in (events_at E c) (Subject sk key) (Predicate pred).
          \<not> protected (events_at E c) lvl (FactState.fact_id s))) (unharmed E c)"
  unfolding op_supersede_def Let_def
proof (intro op_steps triple_step [OF entrenchment_branch] commit_post(1))
  fix st sj pd ids
  assume st: "memory_ok (externs E) st \<and> all_events st = events_at E c" "Subject_new sk key = Inr sj"
    "Predicate_new pred = Inr pd" "believed_fact_ids st sj pd = Inr ids"
    and g: "entrenchment_gate_enabled (gate_var E) \<longrightarrow> (\<forall>f \<in> set ids. \<not> protected (events_at E c) lvl f)"
  have "set ids = FactState.fact_id ` believed_in (events_at E c) sj pd"
    using believed_ids_set [of st sj pd ids] assms(2) st(1,4) by simp
  with g st(2,3) show "entrenchment_gate_enabled (gate_var E) \<longrightarrow>
       (\<forall>s \<in> believed_in (events_at E c) (Subject sk key) (Predicate pred).
          \<not> protected (events_at E c) lvl (FactState.fact_id s))" by (simp add: new_names)
qed (simp_all add: assms)

text \<open>Recording operations commit records only, or nothing.\<close>

lemma retrievals_commit:
  assumes "whole_writes E"
  shows "triple (at c) (op_record_retrievals E refs p lvl src)
    (\<lambda>_ w. at c w \<or> commits E c (\<lambda>es. \<forall>e \<in> set es. is_record (FactEvent.kind e)) w) (unharmed E c)"
  unfolding op_record_retrievals_def Let_def
proof (intro op_steps triple_step [OF gate_each_step] triple_step [OF records_step] commit_post(1) disjI2 commitsI)
  fix q now es
  assume "build_retrievals q (trim p) refs src lvl now = Inr es"
  then have l: "list_all2 (\<lambda>x e. (case x of (i, r) \<Rightarrow> build_event (event_id_str (q + of_nat i)) (ref_fact_id r)
      (ref_subject_kind r) (ref_subject_key r) (ref_predicate r) (Retrieved (trim p)) None src lvl now) = Inr e)
      (enumerate 0 refs) es"
    unfolding build_retrievals_def by (simp only: try_map_all2)
  show "\<forall>e \<in> set es. is_record (FactEvent.kind e)"
    using l by (induction rule: list_all2_induct) (auto simp: is_record_def dest!: build_event_id_kind)
qed (simp_all add: assms triple_def op_return_def)

lemma records_effect:
  assumes "env_ok E" and "log_inv (events_at E c)" and "ends_line c"
    and "commits E c shape w" and "\<And>es e. shape es \<Longrightarrow> e \<in> set es \<Longrightarrow> is_record (FactEvent.kind e)"
  shows "beliefs_kept (events_at E c) (events_at E (contents w))"
proof -
  obtain es where es: "shape es" "log_admits (events_at E c) es"
    "fact_state (events_at E (contents w)) = fact_state (events_at E c @ es)"
    by (rule commits_log [OF assms(1-4)])
  have "beliefs_kept (events_at E c) (events_at E c @ es)"
    by (rule records_keep [OF assms(2) es(2)]) (rule assms(5) [OF es(1)])
  then show ?thesis using es(3) by (simp add: beliefs_kept_def)
qed

section \<open>Accepted assertions\<close>

text \<open>
  What a commit of an assertion leaves in the file: one event that is the claim made and that the
  policy accepted on the log, with the receipt of the in-memory append of that event.
\<close>

definition policed :: "'j Env \<Rightarrow> string option \<Rightarrow> (FactEvent \<Rightarrow> bool) \<Rightarrow> AppendReceipt \<Rightarrow> FactEvent list \<Rightarrow> bool" where
  "policed E c claim rc es \<longleftrightarrow> (\<exists>e st st' n es'. es = [e] \<and> claim e \<and> memory_ok (externs E) st \<and>
     all_events st = events_at E c \<and> sign E es' = Inr es \<and>
     enforce_policy coding_agent (scan_of st) e (clock E n) = Inr () \<and>
     append (externs E) st e = (st', Inr rc))"

lemma commit_assertion_policed:
  assumes "env_ok E" and "memory_ok (externs E) st" and "all_events st = events_at E c"
    and "\<And>ev e'. strip_attestation e' = strip_attestation (apply_policy_defaults coding_agent (e\<lparr>FactEvent.evidence := ev\<rparr>)) \<Longrightarrow> claim e'"
    and "\<exists>n. now = clock E n"
  shows "triple (at c) (commit_assertion E st e now) (\<lambda>rc. commits E c (policed E c claim rc)) (unharmed E c)"
  unfolding commit_assertion_def
proof (rule triple_step [OF content_step], rule triple_step [OF sign_step])
  fix checked attested
  assume ch: "checked_from [e] checked" and sg: "sign E (map (apply_policy_defaults coding_agent) checked) = Inr attested"
  have whole: "whole_writes E" and only: "attests_only E" using assms(1) by (simp_all add: env_ok_def)
  from ch obtain ev where e1: "checked = [e\<lparr>FactEvent.evidence := ev\<rparr>]" by (auto simp: checked_from_def list_all2_Cons1)
  let ?e1 = "e\<lparr>FactEvent.evidence := ev\<rparr>"
  have "same_but_attested [apply_policy_defaults coding_agent ?e1] attested"
    using only sg e1 by (auto simp: attests_only_def)
  then obtain e' where e': "attested = [e']" "strip_attestation e' = strip_attestation (apply_policy_defaults coding_agent ?e1)"
    by (cases attested) (auto simp: same_but_attested_def)
  note idem = defaults_idem [OF e'(2)]
  have k: "claim e'" by (rule assms(4) [OF e'(2)])
  obtain st' r where a: "append (externs E) st e' = (st', r)" by force
  let ?fact = "\<lambda>rc. enforce_policy coding_agent (scan_of st) e' now = Inr () \<and> append (externs E) st e' = (st', Inr rc)"
  have adm: "triple (at c) (op_lift (map_err refuse (snd (admit (externs E) st coding_agent e' now))))
     (\<lambda>rc w. at c w \<and> ?fact rc) (unharmed E c)"
    using a idem by (auto simp: triple_def op_lift_def admit_def split: sum.splits)
  show "triple (at c) (op_bind (case attested of
         [e'] \<Rightarrow> op_lift (map_err refuse (snd (admit (externs E) st coding_agent e' now)))
       | _ \<Rightarrow> op_lift (Inl Panic)) (\<lambda>receipt. op_bind (write_op E attested) (\<lambda>_. op_return receipt)))
     (\<lambda>rc. commits E c (policed E c claim rc)) (unharmed E c)"
    unfolding e'(1)
  proof (simp only: list.case, rule triple_step [OF adm])
    fix rc
    assume f: "?fact rc"
    then have l: "log_admits (events_at E c) [e']"
      using append_ok_iff [OF assms(2) a] a assms(3) by simp
    have p: "policed E c claim rc [e']"
      unfolding policed_def using k assms(2,3,5) f sg e'(1) by blast
    have "triple (at c) (write_op E [e']) (\<lambda>_. commits E c (policed E c claim rc)) (unharmed E c)"
      by (rule commit_post(2) [OF whole], rule commitsI [OF l], assumption, rule p)
    then show "triple (at c) (op_bind (write_op E [e']) (\<lambda>_. op_return rc))
        (\<lambda>rc. commits E c (policed E c claim rc)) (unharmed E c)"
      by (rule triple_bind) (simp add: triple_def op_return_def)
  qed
qed

text \<open>The event that is built is the claim made, whatever evidence and attestation it gets.\<close>

lemma claim_stripped:
  "fresh_claim sk key pred v lvl src va e \<Longrightarrow> strip_attestation f = strip_attestation e \<Longrightarrow> fresh_claim sk key pred v lvl src va f"
proof -
  assume c: "fresh_claim sk key pred v lvl src va e" and f: "strip_attestation f = strip_attestation e"
  have same: "g (strip_attestation f) = g (strip_attestation e)" for g :: "FactEvent \<Rightarrow> 'x" by (simp only: f)
  show ?thesis
    using c same [of FactEvent.kind] same [of FactEvent.val] same [of event_level] same [of FactEvent.subject]
      same [of FactEvent.predicate] same [of event_source] same [of FactEvent.valid_from] same [of FactEvent.valid_to]
      same [of FactEvent.ttl]
    by (simp add: fresh_claim_def)
qed

lemma built_claim:
  assumes "build_assertion q sk key pred v src lvl now = Inr e"
    and "strip_attestation e' = strip_attestation (apply_policy_defaults coding_agent ((stamp va e)\<lparr>FactEvent.evidence := ev\<rparr>))"
  shows "fresh_claim sk key pred v lvl src va e'"
proof -
  have swap: "apply_policy_defaults coding_agent ((stamp va e)\<lparr>FactEvent.evidence := ev\<rparr>) =
      (apply_policy_defaults coding_agent (stamp va e))\<lparr>FactEvent.evidence := ev\<rparr>"
    by (simp add: apply_policy_defaults_def split: option.split)
  show ?thesis
    by (rule claim_stripped [OF claim_checked [OF assertion_claim [OF assms(1)]] assms(2) [unfolded swap]])
qed

text \<open>The line of the receipt ends the report of an accepted assertion.\<close>

definition reports :: "AppendReceipt \<Rightarrow> string \<Rightarrow> bool" where
  "reports rc msg \<longleftrightarrow> (\<exists>front. msg = front @ accepted_line rc)"

lemma report_step:
  "triple (\<lambda>w. commits E c (policed E c claim rc) w) (op_return (front @ accepted_line rc))
     (\<lambda>msg w. \<exists>rc. reports rc msg \<and> commits E c (policed E c claim rc) w) (unharmed E c)"
  by (auto simp: triple_def op_return_def reports_def)

lemma assert_policed:
  assumes "env_ok E"
  shows "triple (at c) (op_assert E sk key pred v lvl src va)
    (\<lambda>msg w. \<exists>rc. reports rc msg \<and> commits E c (policed E c (fresh_claim sk key pred v lvl src va) rc) w) (unharmed E c)"
  unfolding op_assert_def append_assoc [symmetric]
  by (intro op_steps triple_bind [OF commit_assertion_policed
      [OF assms, where claim = "fresh_claim sk key pred v lvl src va"]] report_step)
    (auto intro: built_claim)

lemma derive_policed:
  assumes "env_ok E"
  shows "triple (at c) (op_derive E sk key pred v lvl src fk fkey fp va)
    (\<lambda>msg w. \<exists>rc. reports rc msg \<and> commits E c (policed E c (fresh_claim sk key pred v lvl src va) rc) w) (unharmed E c)"
  unfolding op_derive_def Let_def append_assoc [symmetric]
  by (intro op_steps triple_bind [OF commit_assertion_policed
      [OF assms, where claim = "fresh_claim sk key pred v lvl src va"]] report_step)
    (auto intro: built_claim)

section \<open>Properties\<close>


lemma failed_step_keeps:
  assumes "env_ok E" and "log_inv (log_in E w)" and "ends_line (contents w)" and "op_step E w False w'"
  shows "\<exists>fs. log_in E w' = log_in E w @ fs \<and> length fs \<le> 1 \<and> beliefs_kept (log_in E w) (log_in E w')"
proof -
  have "unharmed E (contents w) w'" using op_step_contract [OF assms(1,4)] by simp
  then consider "contents w' = contents w"
    | e where "is_record (FactEvent.kind e)" "log_admits (log_in E w) [e]" "committed E (contents w) [e] w'"
    by (auto simp: unharmed_def at_def)
  then show ?thesis
  proof cases
    case (2 e)
    obtain fs where fs: "log_in E w' = log_in E w @ fs" "same_but_attested [e] fs"
      by (rule committed_log [OF assms(1) assms(3) 2(3)])
    have "beliefs_kept (log_in E w) (log_in E w @ [e])"
      by (rule records_keep [OF assms(2) 2(2)]) (simp add: 2(1))
    moreover have "fact_state (log_in E w @ [e]) = fact_state (log_in E w')"
      using same_but_attested_facts(1) [OF same_but_attested_append [OF fs(2)]] fs(1) by simp
    moreover have "length fs = 1" using fs(2) by (auto simp: same_but_attested_def dest: map_eq_imp_length_eq)
    ultimately show ?thesis using fs(1) by (auto simp: beliefs_kept_def)
  qed simp
qed


text \<open>
  C10: A successful supersession leaves exactly one belief. After it, the only believed fact of
  the pair is the replacement, active, with the new value and the stated authority; and a
  retention the caller asked for is on it unchanged, whatever its length.
\<close>

theorem supersede_leaves_one_belief:
  assumes "env_ok E" and "session (externs E) (codec E) w"
    and "op_supersede E sk key pred v lvl src va w = (w', Inr msg)"
  shows "\<exists>s. believed_now E w' sk key pred = {s} \<and> FactState.val s = Text v \<and> state_level s = lvl \<and>
    FactState.lifecycle s = Active \<and> (\<forall>d. validity_ttl va = Some d \<longrightarrow> FactState.ttl s = DurationMillis d)"
proof -
  note inv = session_log [OF assms(2)]
  have "commits E (contents w) (revision (log_in E w) sk key pred v lvl src va) w'"
    by (rule op_outcome [OF supersede_commits [OF env_whole [OF assms(1)] inv(1)] assms(3) refl])
  then obtain es where es: "revision (log_in E w) sk key pred v lvl src va es" "log_admits (log_in E w) es"
    "believed_in (log_in E w') = believed_in (log_in E w @ es)"
    by (rule commits_log [OF assms(1) inv])
  obtain e s where e: "fresh_claim sk key pred v lvl src va e" "apply_initial_event e = Inr s"
    "believed_in (log_in E w @ es) (Subject sk key) (Predicate pred) = {s}"
    by (rule revision_believed [OF inv(1) es(2,1)])
  then show ?thesis using es(3) apply_initial_iff [OF e(2)] by (auto simp: fresh_claim_def)
qed

text \<open>
  C12: Retraction and expiration are complete and touch nothing else: after either succeeds,
  nothing is believed of the pair, and nothing is believed of any pair that was not before.
\<close>

theorem closing_leaves_nothing_believed:
  assumes "env_ok E" and "session (externs E) (codec E) w"
    and "op_retract E sk key pred lvl src w = (w', Inr msg) \<or> op_expire E sk key pred lvl src w = (w', Inr msg)"
  shows "believed_now E w' sk key pred = {} \<and>
    believed_in (log_in E w') sj pd \<subseteq> believed_in (log_in E w) sj pd"
proof -
  note inv = session_log [OF assms(2)] and whole = env_whole [OF assms(1)]
  have "commits E (contents w) (for_believed (log_in E w) sk key pred is_lifecycle_terminal) w'"
    using assms(3) op_outcome [OF retract_commits [OF whole inv(1)] _ refl]
      op_outcome [OF expire_commits [OF whole inv(1)] _ refl] by blast
  from closing_effect [OF assms(1,2) this] show ?thesis by blast
qed

text \<open>
  C11: A contradiction surfaces both sides and decides nothing. A successful one changes two
  facts: a believed, non-canonical fact of the pair becomes contested and names its contradictor,
  which is a fresh active fact with the opposing value and the stated authority; both are
  believed afterwards and every other fact is as before.
\<close>

theorem contradict_surfaces_both:
  assumes "env_ok E" and "session (externs E) (codec E) w"
    and "op_contradict E sk key pred v lvl src va w = (w', Inr msg)"
  shows "\<exists>s t u. s \<in> believed_now E w sk key pred \<and> state_level s \<noteq> Canonical \<and>
    fact_state (log_in E w) (FactState.fact_id t) = None \<and>
    fact_state (log_in E w') = (fact_state (log_in E w))(FactState.fact_id t \<mapsto> t, FactState.fact_id s \<mapsto> u) \<and>
    FactState.val t = Text v \<and> state_level t = lvl \<and> FactState.lifecycle t = Active \<and>
    same_core s u \<and> FactState.lifecycle u = FactLifecycle.Contested \<and> FactState.fact_id t \<in> set (FactState.contradicted_by u) \<and>
    {t, u} \<subseteq> believed_now E w' sk key pred"
proof -
  note inv = session_log [OF assms(2)]
  have "commits E (contents w) (contest (log_in E w) sk key pred v lvl src va) w'"
    by (rule op_outcome [OF contradict_commits [OF env_whole [OF assms(1)] inv(1)] assms(3) refl])
  then obtain es where es: "contest (log_in E w) sk key pred v lvl src va es" "log_admits (log_in E w) es"
    "fact_state (log_in E w') = fact_state (log_in E w @ es)"
    "believed_in (log_in E w') = believed_in (log_in E w @ es)"
    by (rule commits_log [OF assms(1) inv])
  show ?thesis using contest_effect [OF inv(1) es(2,1)] unfolding es(3,4) .
qed

text \<open>
  Audit records are free of consequences for belief. Recording that facts were retrieved,
  or were used in a decision, never changes a lifecycle, value, authority, successor,
  contradictor or corroboration, whether the operation succeeds or fails and whoever asks for it.
\<close>

theorem audit_changes_no_belief:
  assumes "env_ok E" and "session (externs E) (codec E) w"
    and "op_used_in_decision E sk key pred d lvl src w = (w', r) \<or>
      (\<exists>n. op_record_retrievals E refs p lvl src w = (w', n))"
  shows "beliefs_kept (log_in E w) (log_in E w')"
proof -
  note inv = session_log [OF assms(2)] and whole = env_whole [OF assms(1)]
  have "unharmed E (contents w) w' \<or> commits E (contents w) (\<lambda>es. \<forall>e \<in> set es. is_record (FactEvent.kind e)) w'"
    using assms(3)
  proof
    assume u: "op_used_in_decision E sk key pred d lvl src w = (w', r)"
    show ?thesis
    proof (cases r)
      case (Inl e)
      then show ?thesis
        using triple_Inl [OF used_commits [OF whole inv(1)]] u by (auto simp: at_def)
    next
      case (Inr x)
      then have "commits E (contents w) (for_believed (log_in E w) sk key pred is_record) w'"
        using op_outcome [OF used_commits [OF whole inv(1)] _ refl] u by blast
      then show ?thesis by (auto simp: commits_def for_believed_def)
    qed
  next
    assume "\<exists>n. op_record_retrievals E refs p lvl src w = (w', n)"
    then obtain n where "op_record_retrievals E refs p lvl src w = (w', n)" ..
    then show ?thesis
    proof (cases n)
      case (Inl e)
      then have "unharmed E (contents w) w'"
        using triple_Inl [OF retrievals_commit [OF whole], of "contents w" w] \<open>op_record_retrievals E refs p lvl src w = (w', n)\<close>
        by (simp add: at_def)
      then show ?thesis ..
    next
      case (Inr k)
      then have "at (contents w) w' \<or> commits E (contents w) (\<lambda>es. \<forall>e \<in> set es. is_record (FactEvent.kind e)) w'"
        using triple_Inr [OF retrievals_commit [OF whole], of "contents w" w] \<open>op_record_retrievals E refs p lvl src w = (w', n)\<close>
        by (simp add: at_def)
      then show ?thesis by blast
    qed
  qed
  moreover have "commits E (contents w) (\<lambda>es. \<forall>e \<in> set es. is_record (FactEvent.kind e)) w'" if
    "is_record (FactEvent.kind e)" "log_admits (log_in E w) [e]" "committed E (contents w) [e] w'" for e
    using that unfolding commits_def by (intro exI [of _ "[e]"]) simp
  ultimately consider "contents w' = contents w"
    | "commits E (contents w) (\<lambda>es. \<forall>e \<in> set es. is_record (FactEvent.kind e)) w'"
    by (auto simp: unharmed_def at_def)
  then show ?thesis by cases (auto intro: records_effect [OF assms(1) inv])
qed

text \<open>
  An accepted assertion or derivation passed the predicate policy, and its receipt is about
  the bytes in the file. When signing what is signed changes nothing, the log gains exactly one
  assertion, of the value, about the pair, by the source and at the authority of the request; the
  policy accepted that assertion on the log it extends, and the report ends with the position of the
  event in the file and the hash that the chain of the reloaded file ends in.
\<close>

theorem accepted_assertion_policed:
  assumes "env_ok E" and "session (externs E) (codec E) w"
    and "\<And>es fs. sign E es = Inr fs \<Longrightarrow> sign E fs = Inr fs"
    and "op_assert E sk key pred v lvl src va w = (w', Inr msg) \<or>
      op_derive E sk key pred v lvl src fk fkey fp va w = (w', Inr msg)"
  shows "\<exists>e st n rc hs front. log_in E w' = log_in E w @ [e] \<and> fresh_claim sk key pred v lvl src va e \<and>
    memory_ok (externs E) st \<and> all_events st = log_in E w \<and>
    enforce_policy coding_agent (scan_of st) e (clock E n) = Inr () \<and>
    hash_chain (externs E) (log_in E w') = Inr hs \<and>
    receipt_hash rc = last hs \<and> AppendReceipt.global_sequence rc = of_nat (length (log_in E w)) \<and>
    msg = front @ accepted_line rc"
proof -
  note inv = session_log [OF assms(2)]
  have "\<exists>rc. reports rc msg \<and> commits E (contents w) (policed E (contents w) (fresh_claim sk key pred v lvl src va) rc) w'"
    using assms(4)
  proof
    assume "op_assert E sk key pred v lvl src va w = (w', Inr msg)"
    from triple_Inr [OF assert_policed [OF assms(1)] _ this] show ?thesis by (simp add: at_def)
  next
    assume "op_derive E sk key pred v lvl src fk fkey fp va w = (w', Inr msg)"
    from triple_Inr [OF derive_policed [OF assms(1)] _ this] show ?thesis by (simp add: at_def)
  qed
  then obtain rc where rep: "reports rc msg" and cm: "commits E (contents w) (policed E (contents w) (fresh_claim sk key pred v lvl src va) rc) w'" by blast
  from cm obtain e st st' n es' where cw: "committed E (contents w) [e] w'"
    and k: "fresh_claim sk key pred v lvl src va e" and st: "memory_ok (externs E) st" "all_events st = log_in E w"
    and sg: "sign E es' = Inr [e]" and pol: "enforce_policy coding_agent (scan_of st) e (clock E n) = Inr ()"
    and ap: "append (externs E) st e = (st', Inr rc)"
    by (auto simp: commits_def policed_def)
  have "sign E [e] = Inr [e]" by (rule assms(3) [OF sg])
  with cw have "\<exists>buffer. jsonl_buffer (codec E) [e] = Inr buffer \<and> contents w' = Some (text_of (contents w) @ buffer)"
    by (simp add: committed_def)
  moreover have "line_ok (codec E) e" if "jsonl_buffer (codec E) [e] = Inr b" for b
    using that assms(1) by (auto simp: jsonl_buffer_def env_ok_def codec_ok_def)
  ultimately have lw: "log_in E w' = log_in E w @ [e]"
    using append_then_parse [of "[e]" "codec E" "text_of (contents w)"] inv(2)
    by (auto simp: events_at_def ends_line_def text_of_def)
  note p = persist_Inr [OF st(1) append_Inr(2) [OF st(1) ap]]
  have "hash_chain (externs E) (log_in E w') = Inr (map StoredEvent.event_hash (log st'))"
    using p(1,2) st(2) lw by (simp add: memory_ok_def)
  moreover have "receipt_hash rc = last (map StoredEvent.event_hash (log st'))"
    using last_event_hash [OF p(1)] p(6) by (auto split: if_splits)
  moreover have "AppendReceipt.global_sequence rc = of_nat (length (log_in E w))"
    using p(4) st(2) by (simp add: all_events_def flip: st(2))
  ultimately show ?thesis using lw k st pol rep by (auto simp: reports_def)
qed

text \<open>
  An entrenched incumbent stands. With the earned-supersession gate on, no supersession
  succeeds while a believed fact of the pair is at the very level of the request and is backed, at
  that level, by more than one corroborating source or survived challenge.
\<close>

theorem entrenched_incumbent_stands:
  assumes "env_ok E" and "session (externs E) (codec E) w" and "entrenchment_gate_enabled (gate_var E)"
    and "s \<in> believed_now E w sk key pred" and "state_level s = lvl" and "1 < earned_entrenchment_at_or_above s lvl"
  shows "op_supersede E sk key pred v lvl src va w \<noteq> (w', Inr msg)"
proof
  assume o: "op_supersede E sk key pred v lvl src va w = (w', Inr msg)"
  have "\<not> protected (log_in E w) lvl (FactState.fact_id s)"
    using triple_Inr [OF supersede_protects [OF env_whole [OF assms(1)] session_log(1) [OF assms(2)]] _ o] assms(3,4)
    by (simp add: at_def)
  moreover have "fact_state (log_in E w) (FactState.fact_id s) = Some s" using assms(4) by (simp add: believed_iff)
  ultimately show False using assms(5,6) by (auto simp: protected_def)
qed

text \<open>
  A recorded challenge was lost on strength. When the firewall refuses an event and the
  refusal counts as a survived challenge, either the incumbent is canonical and was contradicted,
  or the level recorded for the challenger, for a laundered supersession that of its backing fact,
  is below the incumbent's: recording it leaves the incumbent's own entrenchment count unchanged.
\<close>

theorem recorded_challenge_was_weaker:
  assumes "arbitrate_events e existing replacing = Inl (Fail err)"
    and "classify_challenge e err = Some (challenge, by_id, why, effective)"
  shows "\<exists>s. replay_fact existing = Inr (Some s) \<and>
    (effective < state_level s \<or> (challenge = Contradiction \<and> state_level s = Canonical))"
proof -
  obtain current where c: "replay_fact existing = Inr current"
    using assms by (cases "replay_fact existing")
      (auto simp: arbitrate_events_def classify_challenge_def split: FactEventKind.splits)
  show ?thesis
    using assms c
    by (cases current)
      (auto simp: arbitrate_events_def classify_challenge_def apply_event_def apply_initial_event_def
        apply_next_event_def apply_kind_def Let_def not_less
        split: FactEventKind.splits StoreError.splits TransitionError.splits if_splits option.splits sum.splits
        dest!: and_then_Inl [THEN iffD1])
qed

end
