(* ===== verification/Op_Runs.thy ===== *)
theory Op_Runs
  imports Op_Effects
begin

text \<open>
  When the operations succeed. In an environment without faults, on a log that the load gate
  accepts, each operation returns exactly when the batch it builds is admitted; the lemmas give
  the batch as a function of the log. They turn an operation on a concrete log into evaluation of
  executable functions, and the properties of the operations are applied to such runs here.
\<close>

section \<open>Steps without faults\<close>

text \<open>An environment without faults, at one instant, with the optional gates off.\<close>

definition steady :: "'j Env \<Rightarrow> TimestampMillis \<Rightarrow> bool" where
  "steady E now \<longleftrightarrow> (\<forall>n. read_fault E n = None \<and> write_io E n = Written \<and> clock E n = now) \<and>
     content_config E = Inr None \<and> (\<forall>es. sign E es = Inr es) \<and> (\<forall>a. write_gate E a = Inr ()) \<and>
     codec_ok (codec E)"

lemma steady_ok: "steady E now \<Longrightarrow> env_ok E"
  by (simp add: steady_def env_ok_def attests_only_def whole_writes_def)

text \<open>What an operation reads off a store is a function of the log.\<close>

definition believed_ids :: "FactEvent list \<Rightarrow> string \<Rightarrow> string \<Rightarrow> string \<Rightarrow> FactId list" where
  "believed_ids L sk key pred =
     (case replay_subject (filter (\<lambda>e. FactEvent.subject e = Subject sk key \<and> FactEvent.predicate e = Predicate pred) L) of
        Inr pr \<Rightarrow> map FactState.fact_id (believed pr) | Inl _ \<Rightarrow> [])"

definition next_id :: "FactEvent list \<Rightarrow> u64" where
  "next_id L = (case max_of (List.map_filter event_number L) of None \<Rightarrow> 0 | Some m \<Rightarrow> m + 1)"

definition store_of :: "'j Env \<Rightarrow> FactEvent list \<Rightarrow> InMemoryEventStore" where
  "store_of E L = (case from_trusted_events (externs E) L of Inr st \<Rightarrow> st | Inl _ \<Rightarrow> new_store)"

definition loads :: "'j Env \<Rightarrow> FactEvent list \<Rightarrow> TimestampMillis \<Rightarrow> bool" where
  "loads E L now \<longleftrightarrow> distinct (map (\<lambda>e. event_str (event_id e)) L) \<and> is_ok (hash_chain (externs E) L) \<and>
     (\<forall>e \<in> set L. subject_sound L now (FactEvent.subject e))"

lemma loads_store:
  assumes "loads E L now"
  shows "from_trusted_events (externs E) L = Inr (store_of E L)" and "memory_ok (externs E) (store_of E L)"
    and "all_events (store_of E L) = L" and "validate_unique_log (store_of E L) now = Inr ()"
proof -
  obtain st where t: "from_trusted_events (externs E) L = Inr st"
    using from_trusted_succeeds [of "externs E" L] assms by (auto simp: loads_def)
  then show "from_trusted_events (externs E) L = Inr (store_of E L)" by (simp add: store_of_def)
  have "memory_ok (externs E) st \<and> all_events st = all_events new_store @ L"
    using persist_all_ok [OF memory_ok_new] t by (simp add: from_trusted_events_def)
  then show "memory_ok (externs E) (store_of E L)" and a: "all_events (store_of E L) = L"
    by (simp_all add: store_of_def t all_events_def new_store_def)
  show "validate_unique_log (store_of E L) now = Inr ()"
    using assms by (simp add: validate_unique_log_ok a loads_def)
qed

text \<open>The steps as equations, for a world whose log is \<open>L\<close>.\<close>

lemma steady_steps:
  assumes "steady E now"
  shows "gate_op E a w = (w, Inr ())" and "now_op E w = (next_tick w, Inr now)"
    and "content_op E es w = (w, Inr es)" and "sign_op E es w = (w, Inr es)"
    and "contents (next_tick w) = contents w"
  using assms by (simp_all add: steady_def gate_op_def now_op_def content_op_def sign_op_def op_lift_def next_tick_def)

lemma steady_load:
  assumes "steady E now" and "loads E L now" and "log_in E w = L"
  shows "load_op E w = (next_tick w, Inr (store_of E L))"
proof -
  have "load_raw E w = (next_tick w, Inr (store_of E L))"
    using assms(1,3) loads_store(1,4) [OF assms(2)]
    by (auto simp: load_raw_def load_store_def load_store_reporting_def read_log_def steady_def
        events_at_def text_of_def split: option.splits prod.splits)
  then show ?thesis by (simp add: load_op_def)
qed

lemma steady_names:
  "\<not> is_blank sk \<Longrightarrow> \<not> is_blank key \<Longrightarrow> parse_subject what sk key w = (w, Inr (Subject sk key))"
  "\<not> is_blank pred \<Longrightarrow> parse_pred what pred w = (w, Inr (Predicate pred))"
  "r = Inr x \<Longrightarrow> invalid_op what r w = (w, Inr x)"
  by (simp_all add: parse_subject_def parse_pred_def invalid_op_def op_lift_def Subject_new_def Predicate_new_def)

lemma steady_reads:
  assumes "loads E L now"
  shows "believed_ids L sk key pred \<noteq> [] \<Longrightarrow>
      believed_op (store_of E L) (Subject sk key) (Predicate pred) w = (w, Inr (believed_ids L sk key pred))"
    and "0 < n \<Longrightarrow> reserve_op (store_of E L) n w = (w, Inr (next_id L))"
  using loads_store(3) [OF assms]
  by (auto simp: believed_op_def believed_fact_ids_def scan_pair believed_ids_def reserve_op_def reserve_event_seq_def
      op_lift_def next_id_def next_seq_def split: sum.splits)

text \<open>A batch that goes through: the log loads and admits it, and it can be hashed and serialized.\<close>

definition goes_through :: "'j Env \<Rightarrow> TimestampMillis \<Rightarrow> FactEvent list \<Rightarrow> FactEvent list \<Rightarrow> bool" where
  "goes_through E now L es \<longleftrightarrow> loads E L now \<and> log_admits L es \<and> is_ok (hash_chain (externs E) (L @ es)) \<and>
     is_ok (jsonl_buffer (codec E) es)"

lemma steady_admit:
  assumes "goes_through E now L es"
  shows "admit_all E (store_of E L) es w = (w, Inr ())"
proof -
  note st = loads_store(2,3) [of E L now]
  obtain st' r where a: "append_each (externs E) (store_of E L) es = (st', r)" by force
  have "is_ok r" using append_each_spec(2) [OF st(1) a] assms st(2) by (simp add: goes_through_def)
  then show ?thesis by (auto simp: admit_all_def a is_ok_iff)
qed

lemma steady_write:
  assumes "steady E now" and "goes_through E now' L es" and "write_op E es w = (w', r)"
  shows "r = Inr es \<and> committed E (contents w) es w'"
  using assms
  by (auto simp: write_op_def write_raw_def append_events_def file_append_def steady_def goes_through_def is_ok_iff
      committed_def text_of_def next_tick_def Let_def split: option.splits)

section \<open>The operations\<close>

text \<open>A log file whose session so far holds the events \<open>L\<close>.\<close>

definition holds :: "'j Env \<Rightarrow> World \<Rightarrow> FactEvent list \<Rightarrow> bool" where
  "holds E w L \<longleftrightarrow> session (externs E) (codec E) w \<and> log_in E w = L"

lemma holds_step:
  assumes "steady E now" and "holds E w L" and "op_step E w True w'" and "committed E (contents w) es w'"
  shows "holds E w' (L @ es)"
proof -
  note ok = steady_ok [OF assms(1)]
  have s: "session (externs E) (codec E) w" and L: "log_in E w = L" using assms(2) by (simp_all add: holds_def)
  have "session (externs E) (codec E) w'"
    by (rule session.command [OF s ok refl refl assms(3)])
  moreover have "log_in E w' = L @ es"
  proof -
    from assms(4) obtain buffer where b: "jsonl_buffer (codec E) es = Inr buffer"
      and w': "contents w' = Some (text_of (contents w) @ buffer)"
      using assms(1) by (auto simp: committed_def steady_def)
    have lines: "line_ok (codec E) e" if "e \<in> set es" for e
    proof -
      from b obtain ls where "try_map (\<lambda>e. map_ok (\<lambda>line. line @ [nl])
          (map_err (\<lambda>err. Other (''serialize: '' @ err)) (to_line (codec E) e))) es = Inr ls"
        by (auto simp: jsonl_buffer_def)
      from try_map_in [OF this that] obtain line where "to_line (codec E) e = Inr line" by auto
      then show ?thesis using ok by (auto simp: env_ok_def codec_ok_def)
    qed
    show ?thesis
      using append_then_parse [OF lines _ b, of "text_of (contents w)"] session_log(2) [OF s] L w'
      by (simp add: events_at_def ends_line_def text_of_def)
  qed
  ultimately show ?thesis by (simp add: holds_def)
qed

text \<open>From the run of an operation to the next world of the session.\<close>

lemma run_holds:
  assumes "steady E now" and "holds E w L" and "\<exists>x w'. m w = (w', Inr x) \<and> committed E (contents w) es w'"
    and "\<And>w' r. m w = (w', r) \<Longrightarrow> op_step E w (is_ok r) w'"
  shows "\<exists>x w'. m w = (w', Inr x) \<and> holds E w' (L @ es)"
proof -
  from assms(3) obtain x w' where m: "m w = (w', Inr x)" "committed E (contents w) es w'" by blast
  have "op_step E w True w'" using assms(4) [OF m(1)] by simp
  from holds_step [OF assms(1,2) this m(2)] m(1) show ?thesis by blast
qed

lemma retract_runs:
  assumes "steady E now" and "holds E w L" and "\<not> is_blank sk" "\<not> is_blank key" "\<not> is_blank pred"
    and ids: "believed_ids L sk key pred = ids" "ids \<noteq> []"
    and "build_retractions (next_id L) ids sk key pred src lvl now = Inr es" and "goes_through E now L es"
  shows "\<exists>x w'. op_retract E sk key pred lvl src w = (w', Inr x) \<and> holds E w' (L @ es)"
proof (rule run_holds [OF assms(1,2) _ op_step.retracting])
  have L: "log_in E w = L" using assms(2) by (simp add: holds_def)
  have ld: "loads E L now" using assms(9) by (simp add: goes_through_def)
  obtain w' r where wr: "write_op E es (next_tick (next_tick w)) = (w', r)" by force
  note w' = steady_write [OF assms(1,9) wr]
  have "\<exists>x. op_retract E sk key pred lvl src w = (w', Inr x)"
    using assms w' wr
    by (simp add: op_retract_def op_bind_def op_return_def steady_steps [OF assms(1)] steady_load [OF assms(1) ld L]
        steady_names steady_reads [OF ld] steady_admit [OF assms(9)])
  then show "\<exists>x w'. op_retract E sk key pred lvl src w = (w', Inr x) \<and> committed E (contents w) es w'"
    using w' steady_steps(5) [OF assms(1)] by auto
qed

lemma per_incumbent_runs:
  assumes "steady E now" and "goes_through E now L es" and "log_in E w = L"
    and "\<not> is_blank sk" "\<not> is_blank key" "\<not> is_blank pred"
    and ids: "believed_ids L sk key pred = ids" "ids \<noteq> []"
    and "build_for_each (next_id L) kind_for ids sk key pred src lvl now = Inr es"
  shows "\<exists>w'. build_per_incumbent E sk key pred lvl src verb kind_for w = (w', Inr es) \<and> committed E (contents w) es w'"
proof -
  have ld: "loads E L now" using assms(2) by (simp add: goes_through_def)
  obtain w' r where wr: "write_op E es (next_tick (next_tick w)) = (w', r)" by force
  note w' = steady_write [OF assms(1,2) wr]
  have "build_per_incumbent E sk key pred lvl src verb kind_for w = (w', Inr es)"
    using assms w' wr
    by (simp add: build_per_incumbent_def op_bind_def op_return_def steady_steps [OF assms(1)]
        steady_load [OF assms(1) ld assms(3)] steady_names steady_reads [OF ld] steady_admit [OF assms(2)])
  then show ?thesis using w' steady_steps(5) [OF assms(1)] by auto
qed

lemma reinforce_runs:
  assumes "steady E now" and "holds E w L" and "\<not> is_blank sk" "\<not> is_blank key" "\<not> is_blank pred"
    and ids: "believed_ids L sk key pred = ids" "ids \<noteq> []"
    and "build_for_each (next_id L) Reinforced ids sk key pred src lvl now = Inr es" and "goes_through E now L es"
  shows "\<exists>x w'. op_reinforce E sk key pred lvl src w = (w', Inr x) \<and> holds E w' (L @ es)"
proof (rule run_holds [OF assms(1,2) _ op_step.reinforcing])
  have L: "log_in E w = L" using assms(2) by (simp add: holds_def)
  show "\<exists>x w'. op_reinforce E sk key pred lvl src w = (w', Inr x) \<and> committed E (contents w) es w'"
    using per_incumbent_runs [OF assms(1,9) L assms(3-8), of "''reinforce''"]
    by (auto simp: op_reinforce_def op_bind_def op_return_def)
qed

lemma explained_total:
  assumes "memory_ok X st" and "log_inv (all_events st)"
  shows "explain_subject X st sj pd now \<noteq> Inl Panic"
proof -
  obtain pr where pr: "replay_subject (scan_events st (pair_filter sj pd)) = Inr pr"
    by (rule pair_projection [OF assms(2)]) blast
  show ?thesis
  proof (cases "pick_believed pr now")
    case (Some s)
    obtain r where "replay_fact (stream_of (FactState.fact_id s) (all_events st)) = Inr r"
      using assms(2) unfolding log_inv_def by meson
    then show ?thesis by (simp add: explain_subject_def pr Some explain_def explain_with_ok [OF assms(1)])
  qed (simp add: explain_subject_def pr)
qed

lemma supersede_runs:
  assumes "steady E now" and "holds E w L" and "\<not> is_blank sk" "\<not> is_blank key" "\<not> is_blank pred"
    and ids: "believed_ids L sk key pred = ids" "ids \<noteq> []"
    and "build_revision (next_id L) ids sk key pred v src lvl now = Inr (e # ss, rid)"
    and es: "es = apply_policy_defaults coding_agent (stamp va e) # ss" and "goes_through E now L es"
    and "policy_for coding_agent (Subject sk key) (Predicate pred) = None"
    and "\<not> entrenchment_gate_enabled (gate_var E)"
  shows "\<exists>x w'. op_supersede E sk key pred v lvl src va w = (w', Inr x) \<and> holds E w' (L @ es)"
proof (rule run_holds [OF assms(1,2) _ op_step.superseding])
  have L: "log_in E w = L" using assms(2) by (simp add: holds_def)
  have ld: "loads E L now" using assms(10) by (simp add: goes_through_def)
  have inv: "log_inv L" using assms(2) session_log(1) [of E w] by (auto simp: holds_def)
  have "explain_subject (externs E) (store_of E L) (Subject sk key) (Predicate pred) now \<noteq> Inl Panic"
    by (rule explained_total) (simp_all add: loads_store [OF ld] inv)
  then have "\<exists>y. \<forall>u. explained_op E (store_of E L) (Subject sk key) (Predicate pred) now u = (u, Inr y)"
    by (cases "explain_subject (externs E) (store_of E L) (Subject sk key) (Predicate pred) now")
      (simp_all add: explained_op_def op_lift_def split: fault.split)
  then obtain y where y: "explained_op E (store_of E L) (Subject sk key) (Predicate pred) now u = (u, Inr y)" for u
    by blast
  obtain w' r where wr: "write_op E es (next_tick (next_tick w)) = (w', r)" by force
  note w' = steady_write [OF assms(1,10) wr]
  have "\<exists>x. op_supersede E sk key pred v lvl src va w = (w', Inr x)"
    using assms w' wr
    by (simp add: op_supersede_def op_bind_def op_return_def steady_steps [OF assms(1)] steady_load [OF assms(1) ld L]
        steady_names steady_reads [OF ld] steady_admit [OF assms(10) [unfolded es]] y Let_def)
  then show "\<exists>x w'. op_supersede E sk key pred v lvl src va w = (w', Inr x) \<and> committed E (contents w) es w'"
    using w' steady_steps(5) [OF assms(1)] by auto
qed

lemma contradict_runs:
  assumes "steady E now" and "holds E w L" and "\<not> is_blank sk" "\<not> is_blank key" "\<not> is_blank pred"
    and f: "believed_ids L sk key pred = [f]"
    and "build_contradiction (next_id L) (fact_str f) sk key pred v src lvl now = Inr (e # ds, oid)"
    and es: "es = apply_policy_defaults coding_agent (stamp va e) # ds" and "goes_through E now L es"
  shows "\<exists>x w'. op_contradict E sk key pred v lvl src va w = (w', Inr x) \<and> holds E w' (L @ es)"
proof (rule run_holds [OF assms(1,2) _ op_step.contradicting])
  have L: "log_in E w = L" using assms(2) by (simp add: holds_def)
  have ld: "loads E L now" using assms(9) by (simp add: goes_through_def)
  have inv: "log_inv (all_events (store_of E L))"
    using assms(2) session_log(1) [of E w] loads_store(3) [OF ld] by (auto simp: holds_def)
  have bel: "believed_fact_ids (store_of E L) (Subject sk key) (Predicate pred) = Inr [f]"
    using steady_reads(1) [OF ld, of sk key pred w] f by (auto simp: believed_op_def op_lift_def split: sum.splits)
  note mem = loads_store(2) [OF ld]
  obtain rc where rc: "explain_subject (externs E) (store_of E L) (Subject sk key) (Predicate pred) now = Inr (Some rc)"
  proof -
    obtain pr where pr: "replay_subject (scan_events (store_of E L) (pair_filter (Subject sk key) (Predicate pred))) = Inr pr"
      and get: "btm_ok (facts pr)" "\<And>f s. btm_get (facts pr) f = Some s \<longleftrightarrow>
        fact_state (all_events (store_of E L)) f = Some s \<and> has_shape (Subject sk key) (Predicate pred) s"
      by (rule pair_projection [OF inv]) blast
    have "believed pr \<noteq> []" using bel pr by (auto simp: believed_fact_ids_def)
    then obtain s where s: "pick_believed pr now = Some s" using pick_believed_None [of pr now] by auto
    then have "s \<in> believed_in (all_events (store_of E L)) (Subject sk key) (Predicate pred)"
      using pick_believed_Some(1) [OF s] believed_set [OF get] by simp
    then have "replay_fact (stream_of (FactState.fact_id s) (all_events (store_of E L))) = Inr (Some s)"
      by (auto simp: believed_iff fact_state_def split: sum.splits option.splits)
    then show thesis using that by (simp add: explain_subject_def pr s explain_def explain_with_ok [OF mem])
  qed
  have "IntegrityReceipt.fact_id rc = f"
    using explained_believed [OF mem inv rc] believed_ids_set [OF inv bel] by auto
  then have y: "explained_op E (store_of E L) (Subject sk key) (Predicate pred) now u = (u, Inr (Some rc))"
      "fact_str (IntegrityReceipt.fact_id rc) = fact_str f" for u
    by (simp_all add: explained_op_def op_lift_def rc)
  obtain w' r where wr: "write_op E es (next_tick (next_tick w)) = (w', r)" by force
  note w' = steady_write [OF assms(1,9) wr]
  have "\<exists>x. op_contradict E sk key pred v lvl src va w = (w', Inr x)"
    using assms w' wr
    by (simp add: op_contradict_def op_bind_def op_return_def steady_steps [OF assms(1)] steady_load [OF assms(1) ld L]
        steady_names steady_reads [OF ld] steady_admit [OF assms(9) [unfolded es]] y Let_def)
  then show "\<exists>x w'. op_contradict E sk key pred v lvl src va w = (w', Inr x) \<and> committed E (contents w) es w'"
    using w' steady_steps(5) [OF assms(1)] by auto
qed

text \<open>An assertion about a pair without a policy.\<close>

lemma assert_runs:
  assumes "steady E now" and "holds E w L" and "build_assertion (next_id L) sk key pred v src lvl now = Inr e0"
    and e: "e = stamp va e0" and "goes_through E now L [e]"
    and "policy_for coding_agent (Subject sk key) (Predicate pred) = None"
    and "exceeds (ceiling_ms (effective_ceiling coding_agent None)) (bounded_ttl_ms e) = None"
  shows "\<exists>x w'. op_assert E sk key pred v lvl src va w = (w', Inr x) \<and> holds E w' (L @ [e])"
proof (rule run_holds [OF assms(1,2) _ op_step.asserting])
  have L: "log_in E w = L" using assms(2) by (simp add: holds_def)
  have ld: "loads E L now" using assms(5) by (simp add: goes_through_def)
  note st = loads_store(2,3) [OF ld]
  have inv: "log_inv (all_events (store_of E L))"
    using assms(2) session_log(1) [of E w] st(2) by (auto simp: holds_def)
  have "fresh_claim sk key pred v lvl src va (apply_policy_defaults coding_agent e)"
    unfolding e by (rule assertion_claim [OF assms(3)])
  then have none: "policy_for coding_agent (FactEvent.subject e) (FactEvent.predicate e) = None"
    and k: "FactEvent.kind e = Asserted" using assms(6) by (simp_all add: fresh_claim_def)
  then have d: "apply_policy_defaults coding_agent e = e" by (simp add: apply_policy_defaults_def)
  have pol: "enforce_policy coding_agent (scan_of (store_of E L)) e now = Inr ()"
    using enforce_asserted [OF inv k none [symmetric], of now] assms(7) by simp
  obtain st' r where a: "append (externs E) (store_of E L) e = (st', r)" by force
  have "is_ok r" using append_ok_iff [OF st(1) a] assms(5) st(2) by (simp add: goes_through_def)
  then obtain rc where rc: "r = Inr rc" by (auto simp: is_ok_iff)
  obtain w' r' where wr: "write_op E [e] (next_tick (next_tick w)) = (w', r')" by force
  note w' = steady_write [OF assms(1,5) wr]
  have "\<exists>x. op_assert E sk key pred v lvl src va w = (w', Inr x)"
    using assms w' wr
    by (simp add: op_assert_def commit_assertion_def op_bind_def op_return_def op_lift_def steady_steps [OF assms(1)]
        steady_load [OF assms(1) ld L] steady_names steady_reads [OF ld] admit_def d [unfolded e] pol [unfolded e]
        a [unfolded e] rc Let_def)
  then show "\<exists>x w'. op_assert E sk key pred v lvl src va w = (w', Inr x) \<and> committed E (contents w) [e] w'"
    using w' steady_steps(5) [OF assms(1)] by auto
qed

end
