(* ===== verification/Op_Witness.thy ===== *)
theory Op_Witness
  imports Op_Runs
begin

text \<open>
  The properties of the operations applied to runs on a small log: an environment whose codec
  serializes a fixed table of events, runs of the operations on it, and one witness for each
  property of \<open>Op_Effects\<close> and \<open>Op_Runs\<close> that has a hypothesis.
\<close>

section \<open>A small environment\<close>

definition sample_line :: "FactEvent \<Rightarrow> string" where
  "sample_line e = CHR 0x7B # event_str (event_id e) @ [CHR 0x7D]"

definition sample_codec :: "FactEvent list \<Rightarrow> Codec" where
  "sample_codec tbl = (let rd = (\<lambda>l. find (\<lambda>e. sample_line e = l) tbl) in
     \<lparr>from_line = rd, to_line = (\<lambda>e.
        if rd (sample_line e) = Some e \<and> nl \<notin> set (event_str (event_id e)) then Inr (sample_line e) else Inl ''unknown'')\<rparr>)"

lemma sample_codec_ok: "codec_ok (sample_codec tbl)"
  by (auto simp: codec_ok_def line_ok_def sample_codec_def sample_line_def Let_def split: if_splits)

definition sample_env :: "FactEvent list \<Rightarrow> EnvVar \<Rightarrow> string Env" where
  "sample_env tbl gate = \<lparr>externs = sample_externs, codec = sample_codec tbl, log_path = ''log.jsonl'',
     clock = (\<lambda>_. TimestampMillis 5), read_fault = (\<lambda>_. None), write_io = (\<lambda>_. Written),
     write_gate = (\<lambda>_. Inr ()), sign = Inr, content_config = Inr None,
     content_scanner = (\<lambda>_. sample_scanner \<lparr>verdict = ''allow'', wire_reason = None\<rparr>),
     record_var = NotPresent, gate_var = gate\<rparr>"

lemma sample_env_simps [simp]:
  "externs (sample_env tbl g) = sample_externs" "codec (sample_env tbl g) = sample_codec tbl"
  "gate_var (sample_env tbl g) = g" "sign (sample_env tbl g) = Inr"
  "clock (sample_env tbl g) = (\<lambda>_. TimestampMillis 5)"
  by (simp_all add: sample_env_def)

lemma sample_steady: "steady (sample_env tbl g) (TimestampMillis 5)"
  by (simp add: steady_def sample_env_def sample_codec_ok)

lemmas sample_ok = sample_steady [THEN steady_ok]

definition empty_world :: World where
  "empty_world = \<lparr>contents = None, tick = 0\<rparr>"

lemma empty_holds: "holds E empty_world []"
  by (simp add: holds_def session.start empty_world_def events_at_def text_of_def parse_jsonl_events_def str_lines_def)

text \<open>The side condition of a run on this environment, by evaluation.\<close>

lemma subject_sound_code [code]:
  "subject_sound es now sj =
     (case replay_subject (filter (\<lambda>e. FactEvent.subject e = sj) es) of
        Inl _ \<Rightarrow> False
      | Inr pr \<Rightarrow> (\<forall>i \<in> set (lineage_issues pr). \<not> is_broken_lineage i) \<and>
          (let live = filter (\<lambda>s. \<not> is_expired_at s now) (believed pr) in \<forall>s \<in> set live. unique_ok sj live s))"
  by (auto simp: subject_sound_def split: sum.split)

definition table_ok :: "FactEvent list \<Rightarrow> bool" where
  "table_ok tbl \<longleftrightarrow> distinct (map (\<lambda>e. event_str (event_id e)) tbl) \<and> (\<forall>e \<in> set tbl. nl \<notin> set (event_str (event_id e)))"

lemma table_find:
  "table_ok tbl \<Longrightarrow> e \<in> set tbl \<Longrightarrow> find (\<lambda>d. sample_line d = sample_line e) tbl = Some e"
  by (induction tbl) (auto simp: table_ok_def sample_line_def)

lemma table_buffer:
  assumes "table_ok tbl" and "set es \<subseteq> set tbl"
  shows "is_ok (jsonl_buffer (sample_codec tbl) es)"
proof -
  have "try_map (\<lambda>e. map_ok (\<lambda>line. line @ [nl]) (map_err (\<lambda>err. Other (''serialize: '' @ err))
      (to_line (sample_codec tbl) e))) es = Inr (map (\<lambda>e. sample_line e @ [nl]) es)"
  proof (rule try_map_all_ok)
    fix e assume "e \<in> set es"
    then have "e \<in> set tbl" using assms(2) by blast
    with assms(1) show "map_ok (\<lambda>line. line @ [nl]) (map_err (\<lambda>err. Other (''serialize: '' @ err))
        (to_line (sample_codec tbl) e)) = Inr (sample_line e @ [nl])"
      by (simp add: sample_codec_def Let_def table_find) (simp add: table_ok_def)
  qed
  then show ?thesis by (simp add: jsonl_buffer_def)
qed

definition run_ok :: "FactEvent list \<Rightarrow> FactEvent list \<Rightarrow> bool" where
  "run_ok L es \<longleftrightarrow> (\<forall>e \<in> set L. subject_sound L (TimestampMillis 5) (FactEvent.subject e)) \<and> log_admits L es"

lemma admitted_distinct:
  "distinct (map (\<lambda>e. event_str (event_id e)) L) \<Longrightarrow> log_admits L es \<Longrightarrow> distinct (map (\<lambda>e. event_str (event_id e)) (L @ es))"
proof (induction es arbitrary: L)
  case (Cons e es)
  then have "distinct (map (\<lambda>e. event_str (event_id e)) (L @ [e]))" by (auto simp: admits_next_def)
  from Cons.IH [OF this] Cons.prems(2) show ?case by simp
qed simp

lemma run_ok_through:
  assumes "run_ok L es" and "table_ok tbl" and "set es \<subseteq> set tbl" and "distinct (map (\<lambda>e. event_str (event_id e)) L)"
  shows "goes_through (sample_env tbl g) (TimestampMillis 5) L es"
  using assms(1,4) table_buffer [OF assms(2,3)] by (simp add: run_ok_def goes_through_def loads_def sample_hashable)

section \<open>A history\<close>

definition no_validity :: Validity where
  "no_validity = \<lparr>validity_from = None, validity_to = None, validity_ttl = None\<rparr>"

definition long_validity :: Validity where
  "long_validity = \<lparr>validity_from = None, validity_to = None, validity_ttl = Some 31536000000\<rparr>"

definition built_or :: "'a \<Rightarrow> 'e + 'a \<Rightarrow> 'a" where
  "built_or d r = (case r of Inr x \<Rightarrow> x | Inl _ \<Rightarrow> d)"

definition first_event :: FactEvent where
  "first_event = built_or (sample_assert ''x'' ''x'' Low)
     (build_assertion 0 ''r'' ''k'' ''p'' ''u'' ''a'' Medium (TimestampMillis 5))"

lemma first_build: "build_assertion 0 ''r'' ''k'' ''p'' ''u'' ''a'' Medium (TimestampMillis 5) = Inr first_event"
  by code_simp

text \<open>The batches of single operations on the log of one assertion.\<close>

abbreviation sample_id :: FactId where
  "sample_id \<equiv> FactId ''fact:r:k:p:0''"

definition revision_built :: "FactEvent list \<times> string" where
  "revision_built = built_or ([], []) (build_revision 1 [sample_id] ''r'' ''k'' ''p'' ''v''
      ''b'' Medium (TimestampMillis 5))"

definition revision_batch :: "FactEvent list" where
  "revision_batch = (case revision_built of
      (e # es, _) \<Rightarrow> apply_policy_defaults coding_agent (stamp long_validity e) # es | _ \<Rightarrow> [])"

definition retraction_batch :: "FactEvent list" where
  "retraction_batch = built_or [] (build_retractions 1 [sample_id] ''r'' ''k'' ''p'' ''b'' Medium (TimestampMillis 5))"

definition contest_built :: "FactEvent list \<times> string" where
  "contest_built = built_or ([], []) (build_contradiction 1 (fact_str sample_id) ''r'' ''k'' ''p''
      ''v'' ''b'' Low (TimestampMillis 5))"

definition contest_batch :: "FactEvent list" where
  "contest_batch = (case contest_built of
      (e # es, _) \<Rightarrow> apply_policy_defaults coding_agent (stamp no_validity e) # es | _ \<Rightarrow> [])"

definition reinforce_batch :: "u64 \<Rightarrow> string \<Rightarrow> FactEvent list" where
  "reinforce_batch q src = built_or [] (build_for_each q Reinforced [sample_id] ''r'' ''k'' ''p'' src Medium (TimestampMillis 5))"

definition reinforced_log :: "FactEvent list" where
  "reinforced_log = [first_event] @ reinforce_batch 1 ''b'' @ reinforce_batch 2 ''c''"

lemma first_reads:
  "next_id [] = 0" "next_id [first_event] = 1" "next_id (first_event # reinforce_batch 1 ''b'') = 2"
  "believed_ids [first_event] ''r'' ''k'' ''p'' = [sample_id]"
  "believed_ids (first_event # reinforce_batch 1 ''b'') ''r'' ''k'' ''p'' = [sample_id]"
  by code_simp+

lemma revision_split:
  obtains e ss rid where "build_revision 1 [sample_id] ''r'' ''k'' ''p'' ''v'' ''b'' Medium
      (TimestampMillis 5) = Inr (e # ss, rid)"
    and "revision_batch = apply_policy_defaults coding_agent (stamp long_validity e) # ss"
proof -
  let ?b = "build_revision 1 [sample_id] ''r'' ''k'' ''p'' ''v'' ''b'' Medium (TimestampMillis 5)"
  have "case ?b of Inr (e # ss, rid) \<Rightarrow> True | _ \<Rightarrow> False" by code_simp
  then show thesis
    using that by (auto simp: revision_batch_def revision_built_def built_or_def split: sum.splits prod.splits list.splits)
qed

lemma contest_split:
  obtains e ss rid where "build_contradiction 1 (fact_str sample_id) ''r'' ''k'' ''p'' ''v'' ''b'' Low
      (TimestampMillis 5) = Inr (e # ss, rid)"
    and "contest_batch = apply_policy_defaults coding_agent (stamp no_validity e) # ss"
proof -
  let ?b = "build_contradiction 1 (fact_str sample_id) ''r'' ''k'' ''p'' ''v'' ''b'' Low (TimestampMillis 5)"
  have "is_ok ?b" by code_simp
  then show thesis
    using that by (auto simp: contest_batch_def contest_built_def built_or_def build_contradiction_def Let_def and_then_Inr is_ok_iff)
qed

lemma sample_names: "\<not> is_blank ''r''" "\<not> is_blank ''k''" "\<not> is_blank ''p''"
  by code_simp+

lemma sample_unregistered: "policy_for coding_agent (Subject ''r'' ''k'') (Predicate ''p'') = None"
  by code_simp

lemma batch_runs1: "run_ok [] [first_event]" by code_simp

lemma batch_runs2: "run_ok [first_event] revision_batch" by code_simp

lemma batch_runs3: "run_ok [first_event] retraction_batch" by code_simp

lemma batch_runs4: "run_ok [first_event] contest_batch" by code_simp

lemma batch_runs5: "run_ok [first_event] (reinforce_batch 1 ''b'')" by code_simp

lemma batch_runs6: "run_ok (first_event # reinforce_batch 1 ''b'') (reinforce_batch 2 ''c'')" by code_simp

lemmas batch_runs = batch_runs1 batch_runs2 batch_runs3 batch_runs4 batch_runs5 batch_runs6

text \<open>A table of events that were admitted from the empty log.\<close>

lemma first_table:
  assumes "run_ok [first_event] es" and "\<forall>e \<in> set (first_event # es). nl \<notin> set (event_str (event_id e))"
  shows "table_ok (first_event # es)"
    and "goes_through (sample_env (first_event # es) g) (TimestampMillis 5) [] [first_event]"
    and "goes_through (sample_env (first_event # es) g) (TimestampMillis 5) [first_event] es"
proof -
  show t: "table_ok (first_event # es)"
    using admitted_distinct [of "[first_event]" es] assms by (simp add: run_ok_def table_ok_def)
  show "goes_through (sample_env (first_event # es) g) (TimestampMillis 5) [] [first_event]"
    by (rule run_ok_through [OF batch_runs(1) t]) simp_all
  show "goes_through (sample_env (first_event # es) g) (TimestampMillis 5) [first_event] es"
    by (rule run_ok_through [OF assms(1) t]) auto
qed

lemma one_line_ids:
  "\<forall>e \<in> set (first_event # revision_batch). nl \<notin> set (event_str (event_id e))"
  "\<forall>e \<in> set (first_event # retraction_batch). nl \<notin> set (event_str (event_id e))"
  "\<forall>e \<in> set (first_event # contest_batch). nl \<notin> set (event_str (event_id e))"
  "\<forall>e \<in> set reinforced_log. nl \<notin> set (event_str (event_id e))"
  by code_simp+

lemmas revision_table = first_table [OF batch_runs(2) one_line_ids(1)]
lemmas retraction_table = first_table [OF batch_runs(3) one_line_ids(2)]
lemmas contest_table = first_table [OF batch_runs(4) one_line_ids(3)]

lemma reinforced_table:
  "goes_through (sample_env reinforced_log g) (TimestampMillis 5) [] [first_event]"
  "goes_through (sample_env reinforced_log g) (TimestampMillis 5) [first_event] (reinforce_batch 1 ''b'')"
  "goes_through (sample_env reinforced_log g) (TimestampMillis 5) (first_event # reinforce_batch 1 ''b'') (reinforce_batch 2 ''c'')"
proof -
  have d: "distinct (map (\<lambda>e. event_str (event_id e)) (first_event # reinforce_batch 1 ''b''))"
    using admitted_distinct [of "[first_event]"] batch_runs(5) by (simp add: run_ok_def)
  have "distinct (map (\<lambda>e. event_str (event_id e)) ((first_event # reinforce_batch 1 ''b'') @ reinforce_batch 2 ''c''))"
    by (rule admitted_distinct [OF d]) (use batch_runs(6) in \<open>simp add: run_ok_def\<close>)
  then have t: "table_ok reinforced_log"
    using one_line_ids(4) by (simp add: table_ok_def reinforced_log_def)
  show "goes_through (sample_env reinforced_log g) (TimestampMillis 5) [] [first_event]"
    by (rule run_ok_through [OF batch_runs(1) t]) (simp_all add: reinforced_log_def)
  show "goes_through (sample_env reinforced_log g) (TimestampMillis 5) [first_event] (reinforce_batch 1 ''b'')"
    by (rule run_ok_through [OF batch_runs(5) t]) (auto simp: reinforced_log_def)
  show "goes_through (sample_env reinforced_log g) (TimestampMillis 5) (first_event # reinforce_batch 1 ''b'') (reinforce_batch 2 ''c'')"
    by (rule run_ok_through [OF batch_runs(6) t _ d]) (auto simp: reinforced_log_def)
qed

lemma first_unbounded:
  "exceeds (ceiling_ms (effective_ceiling coding_agent None)) (bounded_ttl_ms first_event) = None"
  "first_event = stamp no_validity first_event"
  by code_simp+

lemma first_run:
  assumes "goes_through (sample_env tbl g) (TimestampMillis 5) [] [first_event]"
  shows "\<exists>msg w. op_assert (sample_env tbl g) ''r'' ''k'' ''p'' ''u'' Medium ''a'' no_validity empty_world =
      (w, Inr msg) \<and> holds (sample_env tbl g) w [first_event]"
proof -
  have b: "build_assertion (next_id []) ''r'' ''k'' ''p'' ''u'' ''a'' Medium (TimestampMillis 5) = Inr first_event"
    unfolding first_reads(1) by (rule first_build)
  show ?thesis
    using assert_runs [OF sample_steady empty_holds b first_unbounded(2) assms sample_unregistered
        first_unbounded(1)] by (simp only: append_Nil)
qed

lemma first_holds:
  assumes "goes_through (sample_env tbl g) (TimestampMillis 5) [] [first_event]"
  shows "\<exists>w. holds (sample_env tbl g) w [first_event]"
  using first_run [OF assms] by blast

lemma reinforced_holds: "\<exists>w. holds (sample_env reinforced_log g) w reinforced_log"
proof -
  have built: "build_for_each 1 Reinforced [sample_id] ''r'' ''k'' ''p'' ''b'' Medium (TimestampMillis 5) =
      Inr (reinforce_batch 1 ''b'')"
    "build_for_each 2 Reinforced [sample_id] ''r'' ''k'' ''p'' ''c'' Medium (TimestampMillis 5) =
      Inr (reinforce_batch 2 ''c'')"
    by code_simp+
  obtain w where w: "holds (sample_env reinforced_log g) w [first_event]"
    using first_holds [OF reinforced_table(1)] by blast
  obtain w1 where w1: "holds (sample_env reinforced_log g) w1 (first_event # reinforce_batch 1 ''b'')"
    using reinforce_runs [OF sample_steady w sample_names first_reads(4) _ _ reinforced_table(2)] built
    by (auto simp: first_reads(2))
  obtain w2 where "holds (sample_env reinforced_log g) w2 ((first_event # reinforce_batch 1 ''b'') @ reinforce_batch 2 ''c'')"
    using reinforce_runs [OF sample_steady w1 sample_names first_reads(5) _ _ reinforced_table(3)] built
    by (auto simp: first_reads(3))
  then show ?thesis by (auto simp: reinforced_log_def)
qed

section \<open>Witnesses\<close>


text \<open>A write gate that refuses everything.\<close>

definition denying_env :: "string Env" where
  "denying_env = (sample_env reinforced_log NotPresent)\<lparr>write_gate := \<lambda>_. Inl (op_rejected ''denied'')\<rparr>"


text \<open>The retention of a year is above the ceiling of ninety days that an assertion has to respect.\<close>

theorem supersede_leaves_one_belief_witness:
  "\<exists>w w' msg s. op_supersede (sample_env (first_event # revision_batch) NotPresent) ''r'' ''k'' ''p''
       ''v'' Medium ''b'' long_validity w = (w', Inr msg) \<and>
     exceeds (ceiling_ms (effective_ceiling coding_agent None)) (validity_ttl long_validity) \<noteq> None \<and>
     believed_now (sample_env (first_event # revision_batch) NotPresent) w' ''r'' ''k'' ''p'' = {s} \<and>
     FactState.val s = Text ''v'' \<and> FactState.ttl s = DurationMillis 31536000000"
proof -
  let ?E = "sample_env (first_event # revision_batch) NotPresent"
  obtain w where w: "holds ?E w [first_event]" using first_holds [OF revision_table(2)] by blast
  obtain e ss rid where b: "build_revision (next_id [first_event]) [sample_id] ''r'' ''k'' ''p'' ''v''
      ''b'' Medium (TimestampMillis 5) = Inr (e # ss, rid)"
    and es: "revision_batch = apply_policy_defaults coding_agent (stamp long_validity e) # ss"
    unfolding first_reads(2) by (rule revision_split) blast
  obtain msg w' where r: "op_supersede ?E ''r'' ''k'' ''p'' ''v'' Medium ''b'' long_validity w = (w', Inr msg)"
    using supersede_runs [OF sample_steady w sample_names first_reads(4) _ b es
        revision_table(3) sample_unregistered] by (auto simp: entrenchment_gate_enabled_def)
  have "exceeds (ceiling_ms (effective_ceiling coding_agent None)) (validity_ttl long_validity) \<noteq> None" by code_simp
  then show ?thesis
    using supersede_leaves_one_belief [OF sample_ok _ r] w r by (auto simp: holds_def long_validity_def)
qed

theorem closing_leaves_nothing_believed_witness:
  "\<exists>w w' msg. log_in (sample_env (first_event # retraction_batch) NotPresent) w = [first_event] \<and>
     op_retract (sample_env (first_event # retraction_batch) NotPresent) ''r'' ''k'' ''p'' Medium ''b'' w = (w', Inr msg) \<and>
     believed_now (sample_env (first_event # retraction_batch) NotPresent) w' ''r'' ''k'' ''p'' = {}"
proof -
  let ?E = "sample_env (first_event # retraction_batch) NotPresent"
  obtain w where w: "holds ?E w [first_event]" using first_holds [OF retraction_table(2)] by blast
  have b: "build_retractions (next_id [first_event]) [sample_id] ''r'' ''k'' ''p'' ''b'' Medium (TimestampMillis 5) = Inr retraction_batch"
    unfolding first_reads(2) by code_simp
  obtain msg w' where r: "op_retract ?E ''r'' ''k'' ''p'' Medium ''b'' w = (w', Inr msg)"
    using retract_runs [OF sample_steady w sample_names first_reads(4) _ b retraction_table(3)] by auto
  show ?thesis
    using closing_leaves_nothing_believed [OF sample_ok, of _ _ w "''r''" "''k''" "''p''" Medium "''b''" w' msg] w r
    by (auto simp: holds_def)
qed

theorem contradict_surfaces_both_witness:
  "\<exists>w w' msg s. op_contradict (sample_env (first_event # contest_batch) NotPresent) ''r'' ''k'' ''p'' ''v'' Low ''b''
       no_validity w = (w', Inr msg) \<and>
     s \<in> believed_now (sample_env (first_event # contest_batch) NotPresent) w ''r'' ''k'' ''p'' \<and>
     (\<exists>t u. {t, u} \<subseteq> believed_now (sample_env (first_event # contest_batch) NotPresent) w' ''r'' ''k'' ''p'' \<and>
        same_core s u \<and> FactState.lifecycle u = FactLifecycle.Contested \<and> FactState.val t = Text ''v'')"
proof -
  let ?E = "sample_env (first_event # contest_batch) NotPresent"
  obtain w where w: "holds ?E w [first_event]" using first_holds [OF contest_table(2)] by blast
  obtain e ds oid where b: "build_contradiction (next_id [first_event]) (fact_str sample_id) ''r'' ''k'' ''p'' ''v'' ''b'' Low
      (TimestampMillis 5) = Inr (e # ds, oid)"
    and es: "contest_batch = apply_policy_defaults coding_agent (stamp no_validity e) # ds"
    unfolding first_reads(2) by (rule contest_split) blast
  obtain msg w' where r: "op_contradict ?E ''r'' ''k'' ''p'' ''v'' Low ''b'' no_validity w = (w', Inr msg)"
    using contradict_runs [OF sample_steady w sample_names first_reads(4) b es contest_table(3)] by auto
  have s: "session (externs ?E) (codec ?E) w" using w by (simp add: holds_def)
  from contradict_surfaces_both [OF sample_ok s r] obtain s t u where
    "s \<in> believed_now ?E w ''r'' ''k'' ''p''" "FactState.val t = Text ''v''" "same_core s u"
    "FactState.lifecycle u = FactLifecycle.Contested" "{t, u} \<subseteq> believed_now ?E w' ''r'' ''k'' ''p''"
    by (elim exE conjE) (rule that)
  with r show ?thesis by (intro exI conjI)
qed

theorem audit_changes_no_belief_witness:
  "\<exists>w w' r. op_used_in_decision (sample_env reinforced_log NotPresent) ''r'' ''k'' ''p'' ''merge'' Low ''anyone'' w = (w', r) \<and>
     log_in (sample_env reinforced_log NotPresent) w = reinforced_log \<and>
     beliefs_kept reinforced_log (log_in (sample_env reinforced_log NotPresent) w')"
proof -
  let ?E = "sample_env reinforced_log NotPresent"
  obtain w where w: "session (externs ?E) (codec ?E) w" "log_in ?E w = reinforced_log"
    using reinforced_holds by (auto simp: holds_def)
  obtain w' r where o: "op_used_in_decision ?E ''r'' ''k'' ''p'' ''merge'' Low ''anyone'' w = (w', r)" by force
  from audit_changes_no_belief [OF sample_ok w(1) disjI1 [OF o]] o w(2) show ?thesis by (metis (no_types, lifting))
qed

theorem accepted_assertion_policed_witness:
  "\<exists>w' msg e rc front. op_assert (sample_env reinforced_log NotPresent) ''r'' ''k'' ''p'' ''u'' Medium ''a'' no_validity empty_world =
       (w', Inr msg) \<and>
     log_in (sample_env reinforced_log NotPresent) w' = [e] \<and> AppendReceipt.global_sequence rc = 0 \<and>
     msg = front @ accepted_line rc"
proof -
  let ?E = "sample_env reinforced_log NotPresent"
  obtain w' msg where r: "op_assert ?E ''r'' ''k'' ''p'' ''u'' Medium ''a'' no_validity empty_world = (w', Inr msg)"
    using first_run [OF reinforced_table(1)] by blast
  have s: "session (externs ?E) (codec ?E) empty_world" "log_in ?E empty_world = []"
    using empty_holds [of ?E] by (simp_all add: holds_def)
  have i: "sign ?E es = Inr fs \<Longrightarrow> sign ?E fs = Inr fs" for es fs by simp
  from accepted_assertion_policed [OF sample_ok s(1) i disjI1 [OF r]] r s(2) show ?thesis by fastforce
qed

theorem entrenched_incumbent_stands_witness:
  "\<exists>w. log_in (sample_env reinforced_log (Present ''1'')) w = reinforced_log \<and>
     (\<forall>w' msg. op_supersede (sample_env reinforced_log (Present ''1'')) ''r'' ''k'' ''p'' ''v'' Medium ''d'' no_validity w \<noteq> (w', Inr msg))"
proof -
  let ?E = "sample_env reinforced_log (Present ''1'')"
  obtain w where w: "session (externs ?E) (codec ?E) w" "log_in ?E w = reinforced_log"
    using reinforced_holds by (auto simp: holds_def)
  obtain s where s: "fact_state reinforced_log sample_id = Some s" "has_shape (Subject ''r'' ''k'') (Predicate ''p'') s"
    "\<not> is_terminal (FactState.lifecycle s)" "state_level s = Medium" "1 < earned_entrenchment_at_or_above s Medium"
  proof -
    have "case fact_state reinforced_log sample_id of None \<Rightarrow> False | Some s \<Rightarrow>
        has_shape (Subject ''r'' ''k'') (Predicate ''p'') s \<and> \<not> is_terminal (FactState.lifecycle s) \<and>
        state_level s = Medium \<and> 1 < earned_entrenchment_at_or_above s Medium"
      by code_simp
    then show thesis using that by (auto split: option.splits)
  qed
  have b: "s \<in> believed_now ?E w ''r'' ''k'' ''p''"
    using s fact_state_id [OF s(1)] w(2) by (simp add: believed_iff)
  have g: "entrenchment_gate_enabled (gate_var ?E)" unfolding sample_env_simps by code_simp
  show ?thesis using entrenched_incumbent_stands [OF sample_ok w(1) g b s(4,5)] w(2) by blast
qed

theorem recorded_challenge_was_weaker_witness:
  "\<exists>err challenge why. arbitrate_events (sample_mark ''event:2'' ''fact:1'' (FactEventKind.Retracted UserDeleted) Low)
       [sample_assert ''event:1'' ''fact:1'' High] None = Inl (Fail err) \<and>
     classify_challenge (sample_mark ''event:2'' ''fact:1'' (FactEventKind.Retracted UserDeleted) Low) err =
       Some (challenge, None, why, Low) \<and>
     (\<exists>s. replay_fact [sample_assert ''event:1'' ''fact:1'' High] = Inr (Some s) \<and>
        (Low < state_level s \<or> (challenge = Contradiction \<and> state_level s = Canonical)))"
proof -
  let ?e = "sample_mark ''event:2'' ''fact:1'' (FactEventKind.Retracted UserDeleted) Low"
  let ?r = "arbitrate_events ?e [sample_assert ''event:1'' ''fact:1'' High] None"
  have "case ?r of Inl (Fail err) \<Rightarrow> classify_challenge ?e err =
      Some (Retraction, None, ChallengeRejection.InsufficientAuthority, Low) | _ \<Rightarrow> False"
    by code_simp
  then obtain err where e: "?r = Inl (Fail err)"
    "classify_challenge ?e err = Some (Retraction, None, ChallengeRejection.InsufficientAuthority, Low)"
    by (auto split: sum.splits fault.splits)
  from recorded_challenge_was_weaker [OF e] e show ?thesis by blast
qed

end
