(* ===== verification/Identity.thy ===== *)
theory Identity
  imports Authority_Gate Durable_Log Anchor
begin

text \<open>
  Signed source identity (\<open>crates/dent8-cli/src/identity.rs\<close> and its module \<open>status.rs\<close>): the
  grant an issuer signs for a source key, the gate that checks a write against it, the attestation
  of every persisted event by the source key and its re-verification, and the challenge by which a
  daemon connection proves that it holds the key. Parameters are the crate \<open>ed25519-dalek\<close>
  (\<open>Ed25519\<close>, with \<open>ed_ok\<close> its documented contract), the file system and the keychain, and
  the JSON of the files and of the signed payloads (\<open>Host\<close>).
\<close>

section \<open>Keys, files and formats\<close>

record ('sk, 'vk) Ed25519 =
  sk_from_bytes :: "u8 list \<Rightarrow> 'sk"
  vk_from_bytes :: "u8 list \<Rightarrow> 'vk option"
  vk_to_bytes :: "'vk \<Rightarrow> u8 list"
  verifying_key :: "'sk \<Rightarrow> 'vk"
  ed_sign :: "'sk \<Rightarrow> u8 list \<Rightarrow> u8 list"
  ed_verify :: "'vk \<Rightarrow> u8 list \<Rightarrow> u8 list \<Rightarrow> bool"

text \<open>
  What is relied on: a signature has 64 bytes and verifies under the key of its signer, and a
  verifying key is its bytes.
\<close>

definition ed_ok :: "('sk, 'vk) Ed25519 \<Rightarrow> bool" where
  "ed_ok C \<longleftrightarrow> (\<forall>sk. keypair_ok (ed_sign C) (ed_verify C) sk (verifying_key C sk)) \<and>
     (\<forall>vk. vk_from_bytes C (vk_to_bytes C vk) = Some vk) \<and>
     (\<forall>bs vk. vk_from_bytes C bs = Some vk \<longrightarrow> vk_to_bytes C vk = bs)"

record TrustedIssuer =
  public_key :: string

record TrustedIssuers =
  issuers :: "(string, TrustedIssuer) btree"

record SourceGrantPayload =
  version :: u8
  source :: string
  public_key :: string
  max_authority :: AuthorityLevel
  issuer :: string
  scope :: "string option"
  expires_at_ms :: "i64 option"

record SignedSourceGrant =
  grant :: SourceGrantPayload
  signature :: string

record ActiveSourceGrant =
  grant_signature :: string
  public_key :: string

record ActiveSourceGrants =
  sources :: "(string, ActiveSourceGrant) btree"

record SessionChallenge =
  nonce :: string
  source :: string
  public_key :: string
  grant_signature :: string

text \<open>\<open>secret_text\<close> is the file with its permission check, or the keychain item.\<close>

record Host =
  read_text :: "string \<Rightarrow> ReadOutcome"
  exists_at :: "string \<Rightarrow> bool"
  sibling :: "string \<Rightarrow> string \<Rightarrow> string"
  secret_text :: "string \<Rightarrow> string + string"
  parse_trust :: "string \<Rightarrow> string + TrustedIssuers"
  parse_grant :: "string \<Rightarrow> string + SignedSourceGrant"
  parse_active :: "string \<Rightarrow> string + ActiveSourceGrants"
  grant_body :: "SourceGrantPayload \<Rightarrow> string + u8 list"
  challenge_body :: "SessionChallenge \<Rightarrow> string + u8 list"

text \<open>One constructor for each message of the module.\<close>

datatype IdentityError =
    CannotRead string string
  | CorruptFile string string
  | TrustRequired string
  | TrustEmpty
  | ActiveGrantsRequired string
  | MissingIdentityPath string
  | NoSecret string
  | InvalidHex string
  | WrongLength string
  | InvalidPublicKey
  | UnsupportedGrantVersion u8
  | InvalidGrantSource string
  | GrantExpired string i64
  | UntrustedIssuer string
  | Canonicalize string
  | GrantSignatureInvalid
  | SourceMismatch string string
  | AboveGrant string AuthorityLevel AuthorityLevel
  | OutsideScope string string
  | NoActiveGrant string
  | ActiveSignatureInvalid IdentityError
  | ActiveKeyInvalid IdentityError
  | GrantNotActive string
  | ActiveKeyDiffers string
  | KeyMismatch string
  | UnsignedAboveAgent AuthorityLevel string
  | AttestationCanonicalization CanonError
  | AttestationKeyInvalid string IdentityError
  | AttestationInvalid string
  | ChallengeInvalid

definition decode_fixed :: "'j Externs \<Rightarrow> nat \<Rightarrow> string \<Rightarrow> string \<Rightarrow> IdentityError + u8 list" where
  "decode_fixed X n label s = (case hex_decode X (trim s) of
      None \<Rightarrow> Inl (InvalidHex label)
    | Some bs \<Rightarrow> if length bs = n then Inr bs else Inl (WrongLength label))"

definition verifying_key_from_hex :: "'j Externs \<Rightarrow> ('sk, 'vk) Ed25519 \<Rightarrow> string \<Rightarrow> IdentityError + 'vk" where
  "verifying_key_from_hex X C s =
     and_then (decode_fixed X 32 ''public key'' s) (\<lambda>bs. ok_or InvalidPublicKey (vk_from_bytes C bs))"

definition signature_from_hex :: "'j Externs \<Rightarrow> string \<Rightarrow> IdentityError + u8 list" where
  "signature_from_hex X s = decode_fixed X 64 ''signature'' s"

definition framed :: "u8 list \<Rightarrow> string + u8 list \<Rightarrow> IdentityError + u8 list" where
  "framed domain body =
     map_ok (\<lambda>b. domain @ to_be_bytes (of_nat (length b)) @ b) (map_err Canonicalize body)"

definition GRANT_DOMAIN :: "u8 list" where
  "GRANT_DOMAIN = as_bytes ''dent8.source-grant.v1'' @ [0]"

definition SESSION_CHALLENGE_DOMAIN :: "u8 list" where
  "SESSION_CHALLENGE_DOMAIN = as_bytes ''dent8.session-challenge.v1'' @ [0]"

definition ACTIVE_GRANTS_FILE :: string where
  "ACTIVE_GRANTS_FILE = ''active-grants.json''"

definition AGENT_TIER :: AuthorityLevel where
  "AGENT_TIER = Low"

section \<open>The context of a write\<close>

record IdentityContext =
  trust_path :: string
  trust_explicit :: bool
  grant_path :: "string option"
  identity_key_path :: "string option"
  active_grants_override :: "string option"
  required :: bool

definition configured :: "Host \<Rightarrow> IdentityContext \<Rightarrow> bool" where
  "configured D ctx \<longleftrightarrow> required ctx \<or> trust_explicit ctx \<or> grant_path ctx \<noteq> None \<or>
     identity_key_path ctx \<noteq> None \<or> exists_at D (trust_path ctx)"

definition require_grant_path :: "IdentityContext \<Rightarrow> IdentityError + string" where
  "require_grant_path ctx = ok_or (MissingIdentityPath ''DENT8_GRANT'') (grant_path ctx)"

definition require_identity_key_path :: "IdentityContext \<Rightarrow> IdentityError + string" where
  "require_identity_key_path ctx = ok_or (MissingIdentityPath ''DENT8_IDENTITY_KEY'') (identity_key_path ctx)"

definition active_grants_path :: "Host \<Rightarrow> IdentityContext \<Rightarrow> string option" where
  "active_grants_path D ctx = (case active_grants_override ctx of
      Some p \<Rightarrow> Some p
    | None \<Rightarrow> (let candidate = sibling D (trust_path ctx) ACTIVE_GRANTS_FILE in
        if exists_at D candidate then Some candidate else None))"

definition load_trust_at :: "Host \<Rightarrow> string \<Rightarrow> bool \<Rightarrow> IdentityError + TrustedIssuers option" where
  "load_trust_at D path req = (case read_text D path of
      Contents c \<Rightarrow> map_ok Some (map_err (CorruptFile path) (parse_trust D c))
    | NotFound \<Rightarrow> if req then Inl (TrustRequired path) else Inr None
    | ReadError e \<Rightarrow> Inl (CannotRead path e))"

definition load_grant :: "Host \<Rightarrow> string \<Rightarrow> IdentityError + SignedSourceGrant" where
  "load_grant D path = (case read_text D path of
      Contents c \<Rightarrow> map_err (CorruptFile path) (parse_grant D c)
    | NotFound \<Rightarrow> Inl (CannotRead path ''not found'')
    | ReadError e \<Rightarrow> Inl (CannotRead path e))"

definition load_active_grants_at :: "Host \<Rightarrow> string \<Rightarrow> bool \<Rightarrow> IdentityError + ActiveSourceGrants option" where
  "load_active_grants_at D path req = (case read_text D path of
      Contents c \<Rightarrow> map_ok Some (map_err (CorruptFile path) (parse_active D c))
    | NotFound \<Rightarrow> if req then Inl (ActiveGrantsRequired path) else Inr None
    | ReadError e \<Rightarrow> Inl (CannotRead path e))"

definition load_signing_key :: "'j Externs \<Rightarrow> ('sk, 'vk) Ed25519 \<Rightarrow> Host \<Rightarrow> string \<Rightarrow> IdentityError + 'sk" where
  "load_signing_key X C D path =
     and_then (map_err NoSecret (secret_text D path)) (\<lambda>text.
       map_ok (sk_from_bytes C) (decode_fixed X 32 ''signing key'' text))"

section \<open>Checking a write\<close>

text \<open>\<open>str::eq_ignore_ascii_case\<close>\<close>

definition eq_ignore_ascii_case :: "string \<Rightarrow> string \<Rightarrow> bool" where
  "eq_ignore_ascii_case s t \<longleftrightarrow> to_ascii_lowercase s = to_ascii_lowercase t"

definition past_expiry :: "i64 option \<Rightarrow> TimestampMillis \<Rightarrow> bool" where
  "past_expiry e now = (case e of None \<Rightarrow> False | Some t \<Rightarrow> sint t < sint (as_unix_millis now))"

definition verify_grant_signature ::
    "'j Externs \<Rightarrow> ('sk, 'vk) Ed25519 \<Rightarrow> Host \<Rightarrow> SignedSourceGrant \<Rightarrow> TrustedIssuers \<Rightarrow> IdentityError + unit" where
  "verify_grant_signature X C D g trust =
     (let p = grant g in
      if version p \<noteq> 1 then Inl (UnsupportedGrantVersion (version p))
      else and_then (map_err (\<lambda>_. InvalidGrantSource (SourceGrantPayload.source p)) (SourceId_new (SourceGrantPayload.source p))) (\<lambda>_.
        and_then (verifying_key_from_hex X C (SourceGrantPayload.public_key p)) (\<lambda>_.
        and_then (ok_or (UntrustedIssuer (SourceGrantPayload.issuer p)) (btm_get (issuers trust) (SourceGrantPayload.issuer p))) (\<lambda>iss.
        and_then (verifying_key_from_hex X C (TrustedIssuer.public_key iss)) (\<lambda>key.
        and_then (signature_from_hex X (SignedSourceGrant.signature g)) (\<lambda>sg.
        and_then (framed GRANT_DOMAIN (grant_body D p)) (\<lambda>m.
          if ed_verify C key m sg then Inr () else Inl GrantSignatureInvalid)))))))"

definition verify_grant ::
    "'j Externs \<Rightarrow> ('sk, 'vk) Ed25519 \<Rightarrow> Host \<Rightarrow> SignedSourceGrant \<Rightarrow> TrustedIssuers \<Rightarrow> TimestampMillis \<Rightarrow>
       IdentityError + unit" where
  "verify_grant X C D g trust now =
     (let p = grant g in
      if version p \<noteq> 1 then Inl (UnsupportedGrantVersion (version p))
      else and_then (map_err (\<lambda>_. InvalidGrantSource (SourceGrantPayload.source p)) (SourceId_new (SourceGrantPayload.source p))) (\<lambda>_.
        and_then (verifying_key_from_hex X C (SourceGrantPayload.public_key p)) (\<lambda>_.
        if past_expiry (expires_at_ms p) now
        then Inl (GrantExpired (SourceGrantPayload.source p) (case expires_at_ms p of Some t \<Rightarrow> t | None \<Rightarrow> 0))
        else and_then (ok_or (UntrustedIssuer (SourceGrantPayload.issuer p)) (btm_get (issuers trust) (SourceGrantPayload.issuer p))) (\<lambda>iss.
        and_then (verifying_key_from_hex X C (TrustedIssuer.public_key iss)) (\<lambda>key.
        and_then (signature_from_hex X (SignedSourceGrant.signature g)) (\<lambda>sg.
        and_then (framed GRANT_DOMAIN (grant_body D p)) (\<lambda>m.
          if ed_verify C key m sg then Inr () else Inl GrantSignatureInvalid)))))))"

definition verify_grant_matches_write :: "SourceGrantPayload \<Rightarrow> WriteAuth \<Rightarrow> TimestampMillis \<Rightarrow> IdentityError + unit" where
  "verify_grant_matches_write p w now =
     (if SourceGrantPayload.source p \<noteq> WriteAuth.source w
      then Inl (SourceMismatch (SourceGrantPayload.source p) (WriteAuth.source w))
      else if SourceGrantPayload.max_authority p < WriteAuth.authority w
      then Inl (AboveGrant (SourceGrantPayload.source p) (SourceGrantPayload.max_authority p) (WriteAuth.authority w))
      else if past_expiry (expires_at_ms p) now
      then Inl (GrantExpired (SourceGrantPayload.source p) (case expires_at_ms p of Some t \<Rightarrow> t | None \<Rightarrow> 0))
      else case SourceGrantPayload.scope p of
          None \<Rightarrow> Inr ()
        | Some s \<Rightarrow> if s \<noteq> ''*'' \<and> s \<noteq> auth_subject w then Inl (OutsideScope s (auth_subject w)) else Inr ())"

definition verify_active_grant ::
    "'j Externs \<Rightarrow> ('sk, 'vk) Ed25519 \<Rightarrow> SignedSourceGrant \<Rightarrow> ActiveSourceGrants \<Rightarrow> IdentityError + unit" where
  "verify_active_grant X C g active =
     (let src = SourceGrantPayload.source (grant g) in
      and_then (ok_or (NoActiveGrant src) (btm_get (ActiveSourceGrants.sources active) src)) (\<lambda>entry.
      and_then (map_err ActiveSignatureInvalid (signature_from_hex X (ActiveSourceGrant.grant_signature entry))) (\<lambda>_.
      and_then (map_err ActiveKeyInvalid (verifying_key_from_hex X C (ActiveSourceGrant.public_key entry))) (\<lambda>_.
      if \<not> eq_ignore_ascii_case (ActiveSourceGrant.grant_signature entry) (SignedSourceGrant.signature g)
      then Inl (GrantNotActive src)
      else if \<not> eq_ignore_ascii_case (ActiveSourceGrant.public_key entry) (SourceGrantPayload.public_key (grant g))
      then Inl (ActiveKeyDiffers src)
      else Inr ()))))"

definition verify_active_grant_if_configured ::
    "'j Externs \<Rightarrow> ('sk, 'vk) Ed25519 \<Rightarrow> Host \<Rightarrow> SignedSourceGrant \<Rightarrow> string option \<Rightarrow> IdentityError + unit" where
  "verify_active_grant_if_configured X C D g path = (case path of
      None \<Rightarrow> Inr ()
    | Some p \<Rightarrow> and_then (load_active_grants_at D p True) (\<lambda>active.
        case active of None \<Rightarrow> Inr () | Some a \<Rightarrow> verify_active_grant X C g a))"

definition verify_source_key_matches_grant ::
    "'j Externs \<Rightarrow> ('sk, 'vk) Ed25519 \<Rightarrow> Host \<Rightarrow> string \<Rightarrow> SignedSourceGrant \<Rightarrow> IdentityError + unit" where
  "verify_source_key_matches_grant X C D key_path g =
     and_then (load_signing_key X C D key_path) (\<lambda>sk.
     and_then (verifying_key_from_hex X C (SourceGrantPayload.public_key (grant g))) (\<lambda>gk.
       if vk_to_bytes C (verifying_key C sk) \<noteq> vk_to_bytes C gk then Inl (KeyMismatch key_path) else Inr ()))"

definition require_signed_above_agent :: "WriteAuth \<Rightarrow> IdentityError + unit" where
  "require_signed_above_agent w =
     (if AGENT_TIER < WriteAuth.authority w
      then Inl (UnsignedAboveAgent (WriteAuth.authority w) (WriteAuth.source w)) else Inr ())"

definition enforce_write ::
    "'j Externs \<Rightarrow> ('sk, 'vk) Ed25519 \<Rightarrow> Host \<Rightarrow> IdentityContext \<Rightarrow> WriteAuth \<Rightarrow> TimestampMillis \<Rightarrow>
       IdentityError + unit" where
  "enforce_write X C D ctx w now =
     and_then (load_trust_at D (trust_path ctx) (configured D ctx)) (\<lambda>loaded.
     case loaded of
       None \<Rightarrow> require_signed_above_agent w
     | Some trust \<Rightarrow>
         if issuers trust = [] then Inl TrustEmpty
         else
         and_then (and_then (require_grant_path ctx) (load_grant D)) (\<lambda>g.
         and_then (verify_grant X C D g trust now) (\<lambda>_.
         and_then (verify_grant_matches_write (grant g) w now) (\<lambda>_.
         and_then (verify_active_grant_if_configured X C D g (active_grants_path D ctx)) (\<lambda>_.
         and_then (and_then (require_identity_key_path ctx) (load_signing_key X C D)) (\<lambda>sk.
         and_then (verifying_key_from_hex X C (SourceGrantPayload.public_key (grant g))) (\<lambda>gk.
           if vk_to_bytes C (verifying_key C sk) \<noteq> vk_to_bytes C gk
           then Inl (KeyMismatch (SourceGrantPayload.source (grant g))) else Inr ())))))))"

section \<open>Attesting and re-verifying events\<close>

definition attest_event ::
    "'j Externs \<Rightarrow> ('sk, 'vk) Ed25519 \<Rightarrow> string \<Rightarrow> 'sk \<Rightarrow> FactEvent \<Rightarrow> IdentityError + FactEvent" where
  "attest_event X C pk sk e =
     (let e0 = e\<lparr>FactEvent.provenance := (FactEvent.provenance e)\<lparr>Provenance.attestation := None\<rparr>\<rparr> in
      map_ok (\<lambda>m. e0\<lparr>FactEvent.provenance := (FactEvent.provenance e0)\<lparr>Provenance.attestation :=
          Some \<lparr>WriteAttestation.algorithm = AttestationAlgorithm.Ed25519, WriteAttestation.public_key = pk,
            WriteAttestation.signature = hex_encode X (ed_sign C sk m)\<rparr>\<rparr>\<rparr>)
        (map_err AttestationCanonicalization (attestation_message X e0)))"

text \<open>The flag says whether the events were attested; unconfigured writes pass as they are.\<close>

definition attest_events ::
    "'j Externs \<Rightarrow> ('sk, 'vk) Ed25519 \<Rightarrow> Host \<Rightarrow> IdentityContext \<Rightarrow> FactEvent list \<Rightarrow>
       IdentityError + bool \<times> FactEvent list" where
  "attest_events X C D ctx es =
     (if \<not> configured D ctx then Inr (False, es)
      else
      and_then (and_then (require_grant_path ctx) (load_grant D)) (\<lambda>g.
      and_then (and_then (require_identity_key_path ctx) (load_signing_key X C D)) (\<lambda>sk.
      and_then (verifying_key_from_hex X C (SourceGrantPayload.public_key (grant g))) (\<lambda>gk.
        if vk_to_bytes C (verifying_key C sk) \<noteq> vk_to_bytes C gk
        then Inl (KeyMismatch (SourceGrantPayload.source (grant g)))
        else map_ok (Pair True) (try_map (attest_event X C (SourceGrantPayload.public_key (grant g)) sk) es)))))"

definition verify_event_attestation :: "'j Externs \<Rightarrow> ('sk, 'vk) Ed25519 \<Rightarrow> FactEvent \<Rightarrow> IdentityError + bool" where
  "verify_event_attestation X C e = (case Provenance.attestation (FactEvent.provenance e) of
      None \<Rightarrow> Inr False
    | Some a \<Rightarrow>
        and_then (map_err (AttestationKeyInvalid (event_str (event_id e))) (verifying_key_from_hex X C (WriteAttestation.public_key a))) (\<lambda>key.
        and_then (signature_from_hex X (WriteAttestation.signature a)) (\<lambda>sg.
        and_then (map_err AttestationCanonicalization (attestation_message X e)) (\<lambda>m.
          if ed_verify C key m sg then Inr True else Inl (AttestationInvalid (event_str (event_id e)))))))"

section \<open>The session challenge\<close>

record VerifiedHello =
  source :: string
  public_key :: string
  grant_signature :: string

definition verify_session_hello ::
    "'j Externs \<Rightarrow> ('sk, 'vk) Ed25519 \<Rightarrow> Host \<Rightarrow> IdentityContext \<Rightarrow> IdentityError + SignedSourceGrant \<Rightarrow> string \<Rightarrow>
       TimestampMillis \<Rightarrow> IdentityError + VerifiedHello" where
  "verify_session_hello X C D ctx presented stated now =
     and_then presented (\<lambda>g.
     if SourceGrantPayload.source (grant g) \<noteq> stated
     then Inl (SourceMismatch stated (SourceGrantPayload.source (grant g)))
     else
     and_then (and_then (load_trust_at D (trust_path ctx) True) (ok_or (TrustRequired (trust_path ctx)))) (\<lambda>trust.
     and_then (verify_grant X C D g trust now) (\<lambda>_.
     and_then (verify_active_grant_if_configured X C D g (active_grants_path D ctx)) (\<lambda>_.
     and_then (and_then (require_identity_key_path ctx) (\<lambda>kp. verify_source_key_matches_grant X C D kp g)) (\<lambda>_.
       Inr \<lparr>VerifiedHello.source = SourceGrantPayload.source (grant g),
         VerifiedHello.public_key = SourceGrantPayload.public_key (grant g),
         VerifiedHello.grant_signature = SignedSourceGrant.signature g\<rparr>)))))"

definition verify_session_prove ::
    "'j Externs \<Rightarrow> ('sk, 'vk) Ed25519 \<Rightarrow> Host \<Rightarrow> VerifiedHello \<Rightarrow> string \<Rightarrow> string \<Rightarrow> IdentityError + unit" where
  "verify_session_prove X C D hello n sig_hex =
     and_then (framed SESSION_CHALLENGE_DOMAIN (challenge_body D
         \<lparr>nonce = n, SessionChallenge.source = VerifiedHello.source hello,
           SessionChallenge.public_key = VerifiedHello.public_key hello,
           SessionChallenge.grant_signature = VerifiedHello.grant_signature hello\<rparr>)) (\<lambda>m.
     and_then (verifying_key_from_hex X C (VerifiedHello.public_key hello)) (\<lambda>key.
     and_then (signature_from_hex X sig_hex) (\<lambda>sg.
       if ed_verify C key m sg then Inr () else Inl ChallengeInvalid)))"

definition sign_session_challenge ::
    "'j Externs \<Rightarrow> ('sk, 'vk) Ed25519 \<Rightarrow> Host \<Rightarrow> string \<Rightarrow> string \<Rightarrow> string \<Rightarrow> string \<Rightarrow> string \<Rightarrow> IdentityError + string" where
  "sign_session_challenge X C D n src pk gs key_path =
     and_then (framed SESSION_CHALLENGE_DOMAIN (challenge_body D
         \<lparr>nonce = n, SessionChallenge.source = src, SessionChallenge.public_key = pk,
           SessionChallenge.grant_signature = gs\<rparr>)) (\<lambda>m.
     map_ok (\<lambda>sk. hex_encode X (ed_sign C sk m)) (load_signing_key X C D key_path))"

section \<open>What the gate requires\<close>

text \<open>A grant the trust registry vouches for: well formed, and signed by a trusted issuer's key.\<close>

definition issuer_vouches ::
    "'j Externs \<Rightarrow> ('sk, 'vk) Ed25519 \<Rightarrow> Host \<Rightarrow> TrustedIssuers \<Rightarrow> SignedSourceGrant \<Rightarrow> bool" where
  "issuer_vouches X C D trust g \<longleftrightarrow> version (grant g) = 1 \<and> is_ok (SourceId_new (SourceGrantPayload.source (grant g))) \<and>
     is_ok (verifying_key_from_hex X C (SourceGrantPayload.public_key (grant g))) \<and>
     (\<exists>iss key sg m. btm_get (issuers trust) (SourceGrantPayload.issuer (grant g)) = Some iss \<and>
        verifying_key_from_hex X C (TrustedIssuer.public_key iss) = Inr key \<and>
        signature_from_hex X (SignedSourceGrant.signature g) = Inr sg \<and>
        framed GRANT_DOMAIN (grant_body D (grant g)) = Inr m \<and> ed_verify C key m sg)"

text \<open>The caller holds the private key of a public key stated in hexadecimal.\<close>

definition key_held :: "'j Externs \<Rightarrow> ('sk, 'vk) Ed25519 \<Rightarrow> Host \<Rightarrow> IdentityContext \<Rightarrow> string \<Rightarrow> bool" where
  "key_held X C D ctx pk \<longleftrightarrow> (\<exists>p sk. identity_key_path ctx = Some p \<and> load_signing_key X C D p = Inr sk \<and>
     verifying_key_from_hex X C pk = Inr (verifying_key C sk))"

definition context_grant :: "Host \<Rightarrow> IdentityContext \<Rightarrow> IdentityError + SignedSourceGrant" where
  "context_grant D ctx = and_then (require_grant_path ctx) (load_grant D)"

lemma vk_bytes_eq: "ed_ok C \<Longrightarrow> vk_to_bytes C a = vk_to_bytes C b \<longleftrightarrow> a = b"
  by (metis ed_ok_def option.inject)

lemma ok_or_Inr [simp]: "ok_or e r = Inr x \<longleftrightarrow> r = Some x"
  by (cases r) auto

lemma and_then_const: "and_then r (\<lambda>_. s) = Inr y \<longleftrightarrow> is_ok r \<and> s = Inr y"
  by (cases r) auto

lemma is_ok_map_err [simp]: "is_ok (map_err f r) = is_ok r"
  by (cases r) auto

lemma grant_signature_ok:
  "verify_grant_signature X C D g trust = Inr () \<longleftrightarrow> issuer_vouches X C D trust g"
  by (auto simp: verify_grant_signature_def issuer_vouches_def Let_def is_ok_iff split: if_splits)

lemma grant_ok:
  "verify_grant X C D g trust now = Inr () \<longleftrightarrow>
     issuer_vouches X C D trust g \<and> \<not> past_expiry (expires_at_ms (grant g)) now"
  by (auto simp: verify_grant_def issuer_vouches_def Let_def is_ok_iff split: if_splits)

lemma matches_write_ok:
  "verify_grant_matches_write p w now = Inr () \<longleftrightarrow>
     SourceGrantPayload.source p = WriteAuth.source w \<and> WriteAuth.authority w \<le> SourceGrantPayload.max_authority p \<and>
     \<not> past_expiry (expires_at_ms p) now \<and> scope_covers (SourceGrantPayload.scope p) (auth_subject w)"
  by (auto simp: verify_grant_matches_write_def scope_covers_def not_less split: option.splits)

lemma load_trust_None: "load_trust_at D path req = Inr None \<longleftrightarrow> \<not> req \<and> read_text D path = NotFound"
  by (auto simp: load_trust_at_def split: ReadOutcome.splits)

lemma held_iff:
  assumes "ed_ok C"
  shows "(\<exists>p sk gk. identity_key_path ctx = Some p \<and> load_signing_key X C D p = Inr sk \<and>
      verifying_key_from_hex X C pk = Inr gk \<and> vk_to_bytes C (verifying_key C sk) = vk_to_bytes C gk) \<longleftrightarrow>
    key_held X C D ctx pk"
  using vk_bytes_eq [OF assms] by (auto simp: key_held_def)

lemma enforce_write_iff:
  assumes "ed_ok C"
  shows "enforce_write X C D ctx w now = Inr () \<longleftrightarrow>
    (\<not> configured D ctx \<and> read_text D (trust_path ctx) = NotFound \<and> WriteAuth.authority w \<le> Low) \<or>
    (\<exists>trust g. load_trust_at D (trust_path ctx) (configured D ctx) = Inr (Some trust) \<and>
       context_grant D ctx = Inr g \<and> issuer_vouches X C D trust g \<and>
       SourceGrantPayload.source (grant g) = WriteAuth.source w \<and>
       WriteAuth.authority w \<le> SourceGrantPayload.max_authority (grant g) \<and>
       scope_covers (SourceGrantPayload.scope (grant g)) (auth_subject w) \<and>
       \<not> past_expiry (expires_at_ms (grant g)) now \<and>
       verify_active_grant_if_configured X C D g (active_grants_path D ctx) = Inr () \<and>
       key_held X C D ctx (SourceGrantPayload.public_key (grant g)))"
proof (cases "load_trust_at D (trust_path ctx) (configured D ctx)")
  case (Inr loaded)
  show ?thesis
  proof (cases loaded)
    case None
    then show ?thesis
      using Inr load_trust_None [of D "trust_path ctx" "configured D ctx"]
      by (auto simp: enforce_write_def require_signed_above_agent_def AGENT_TIER_def not_less)
  next
    case (Some trust)
    have held: "(\<exists>p sk gk. identity_key_path ctx = Some p \<and> load_signing_key X C D p = Inr sk \<and>
        verifying_key_from_hex X C pk = Inr gk \<and> vk_to_bytes C (verifying_key C sk) = vk_to_bytes C gk) =
        key_held X C D ctx pk" for pk by (rule held_iff [OF assms])
    have none: "\<not> (\<not> configured D ctx \<and> read_text D (trust_path ctx) = NotFound)"
      using Inr Some load_trust_None [of D "trust_path ctx" "configured D ctx"] by auto
    have empty: "\<not> issuer_vouches X C D trust g" if "issuers trust = []" for g
      using that by (simp add: issuer_vouches_def)
    show ?thesis
      using Inr Some none empty
      by (auto simp: enforce_write_def context_grant_def grant_ok matches_write_ok require_identity_key_path_def
          and_then_const is_ok_iff held [symmetric] split: if_splits)
  qed
next
  case (Inl e)
  then show ?thesis
    using load_trust_None [of D "trust_path ctx" "configured D ctx"] by (auto simp: enforce_write_def)
qed


section \<open>Attestations\<close>

text \<open>The crate \<open>hex\<close> writes hexadecimal digits only.\<close>

definition hex_clean :: "'j Externs \<Rightarrow> bool" where
  "hex_clean X \<longleftrightarrow> (\<forall>bs. trim (hex_encode X bs) = hex_encode X bs)"

lemma signature_encoded:
  assumes "externs_ok X" and "hex_clean X" and "length bs = 64"
  shows "signature_from_hex X (hex_encode X bs) = Inr bs"
  using assms by (simp add: signature_from_hex_def decode_fixed_def externs_ok_def hex_clean_def)

lemma ed_signature: "ed_ok C \<Longrightarrow> length (ed_sign C sk m) = 64 \<and> ed_verify C (verifying_key C sk) m (ed_sign C sk m)"
  by (simp add: ed_ok_def keypair_ok_def)

lemma strip_attested [simp]:
  "strip_attestation (e\<lparr>FactEvent.provenance := (FactEvent.provenance e)\<lparr>Provenance.attestation := a\<rparr>\<rparr>) = strip_attestation e"
  by (simp add: strip_attestation_def)

lemma attest_event_Inr:
  assumes "attest_event X C pk sk e = Inr e'"
  shows "\<exists>m. attestation_message X e = Inr m \<and>
    e' = e\<lparr>FactEvent.provenance := (FactEvent.provenance e)\<lparr>Provenance.attestation :=
      Some \<lparr>WriteAttestation.algorithm = AttestationAlgorithm.Ed25519, WriteAttestation.public_key = pk,
        WriteAttestation.signature = hex_encode X (ed_sign C sk m)\<rparr>\<rparr>\<rparr>"
  using assms by (auto simp: attest_event_def Let_def attestation_message_def)

lemma attest_event_strip: "attest_event X C pk sk e = Inr e' \<Longrightarrow> strip_attestation e' = strip_attestation e"
  by (drule attest_event_Inr) auto

lemma attest_event_again:
  assumes "attest_event X C pk sk e = Inr e'"
  shows "attest_event X C pk sk e' = Inr e'"
  using attest_event_Inr [OF assms] by (auto simp: attest_event_def Let_def attestation_message_def)

lemma attest_event_verifies:
  assumes "externs_ok X" and "hex_clean X" and "ed_ok C"
    and "verifying_key_from_hex X C pk = Inr (verifying_key C sk)" and "attest_event X C pk sk e = Inr e'"
  shows "verify_event_attestation X C e' = Inr True"
proof -
  obtain m where m: "attestation_message X e = Inr m" and e': "e' = e\<lparr>FactEvent.provenance := (FactEvent.provenance e)\<lparr>Provenance.attestation :=
      Some \<lparr>WriteAttestation.algorithm = AttestationAlgorithm.Ed25519, WriteAttestation.public_key = pk,
        WriteAttestation.signature = hex_encode X (ed_sign C sk m)\<rparr>\<rparr>\<rparr>"
    using attest_event_Inr [OF assms(5)] by blast
  have "attestation_message X e' = Inr m" using m e' by (simp add: attestation_message_def)
  then show ?thesis
    using e' assms(4) signature_encoded [OF assms(1,2)] ed_signature [OF assms(3)]
    by (simp add: verify_event_attestation_def)
qed

text \<open>What a successful configured attestation of a batch was made with.\<close>

lemma attest_events_Inr:
  assumes "ed_ok C" and "attest_events X C D ctx es = Inr (True, es')"
  obtains g sk p where "context_grant D ctx = Inr g"
    and "verifying_key_from_hex X C (SourceGrantPayload.public_key (grant g)) = Inr (verifying_key C sk)"
    and "try_map (attest_event X C (SourceGrantPayload.public_key (grant g)) sk) es = Inr es'"
    and "configured D ctx" and "identity_key_path ctx = Some p" and "load_signing_key X C D p = Inr sk"
  using assms(2) that
  by (auto simp: attest_events_def context_grant_def require_identity_key_path_def vk_bytes_eq [OF assms(1)] split: if_splits)

text \<open>
  A batch attested under a configured identity: every attestation verifies, by the key of the
  grant; nothing else of an event changes, and attesting again changes nothing.
\<close>

lemma attested_batch:
  assumes "externs_ok X" and "hex_clean X" and "ed_ok C" and "attest_events X C D ctx es = Inr (True, es')"
  shows "map strip_attestation es' = map strip_attestation es \<and> attest_events X C D ctx es' = Inr (True, es') \<and>
    (\<exists>g. context_grant D ctx = Inr g \<and> (\<forall>e \<in> set es'. verify_event_attestation X C e = Inr True \<and>
       map_option WriteAttestation.public_key (Provenance.attestation (FactEvent.provenance e)) =
         Some (SourceGrantPayload.public_key (grant g))))"
proof -
  obtain g sk p where g: "context_grant D ctx = Inr g"
    and key: "verifying_key_from_hex X C (SourceGrantPayload.public_key (grant g)) = Inr (verifying_key C sk)"
    and tm: "try_map (attest_event X C (SourceGrantPayload.public_key (grant g)) sk) es = Inr es'"
    and sk: "configured D ctx" "identity_key_path ctx = Some p" "load_signing_key X C D p = Inr sk"
    by (rule attest_events_Inr [OF assms(3,4)])
  let ?a = "attest_event X C (SourceGrantPayload.public_key (grant g)) sk"
  have l: "list_all2 (\<lambda>e e'. ?a e = Inr e') es es'" using tm by (simp only: try_map_all2)
  have each: "\<exists>e. ?a e = Inr e'" if "e' \<in> set es'" for e'
    using l that by (auto simp: list_all2_conv_all_nth in_set_conv_nth)
  have strip: "map strip_attestation es' = map strip_attestation es"
    using l by (induction rule: list_all2_induct) (auto dest: attest_event_strip)
  have "try_map ?a es' = Inr (map id es')"
    by (rule try_map_all_ok) (use each attest_event_again in fastforce)
  then have again: "attest_events X C D ctx es' = Inr (True, es')"
    using g key sk by (simp add: attest_events_def require_identity_key_path_def flip: context_grant_def)
  have "verify_event_attestation X C e' = Inr True \<and>
      map_option WriteAttestation.public_key (Provenance.attestation (FactEvent.provenance e')) =
        Some (SourceGrantPayload.public_key (grant g))" if e': "e' \<in> set es'" for e'
  proof -
    obtain e where e: "?a e = Inr e'" using each [OF e'] ..
    then show ?thesis using attest_event_verifies [OF assms(1-3) key e] attest_event_Inr [OF e] by auto
  qed
  then show ?thesis using strip again g by blast
qed

text \<open>One signature of a key that verifies for another message than the one it was made for.\<close>

definition transferable :: "('sk, 'vk) Ed25519 \<Rightarrow> 'sk \<Rightarrow> bool" where
  "transferable C sk \<longleftrightarrow> (\<exists>m m'. m \<noteq> m' \<and> ed_verify C (verifying_key C sk) m' (ed_sign C sk m))"

lemma transferableI: "ed_verify C (verifying_key C sk) m' (ed_sign C sk m) \<Longrightarrow> m' \<noteq> m \<Longrightarrow> transferable C sk"
  unfolding transferable_def by (rule exI [of _ m], rule exI [of _ m']) simp


section \<open>Session challenges\<close>

definition challenge_of :: "VerifiedHello \<Rightarrow> string \<Rightarrow> SessionChallenge" where
  "challenge_of hello n = \<lparr>nonce = n, SessionChallenge.source = VerifiedHello.source hello,
     SessionChallenge.public_key = VerifiedHello.public_key hello,
     SessionChallenge.grant_signature = VerifiedHello.grant_signature hello\<rparr>"

text \<open>The JSON of two challenges differs, and fits in memory.\<close>

definition challenge_codec_ok :: "Host \<Rightarrow> bool" where
  "challenge_codec_ok D \<longleftrightarrow> (\<forall>c d b. challenge_body D c = Inr b \<longrightarrow> length b < 2 ^ 64 \<and>
     (challenge_body D d = Inr b \<longrightarrow> c = d))"

lemma framed_Inr: "framed d r = Inr m \<longleftrightarrow> (\<exists>b. r = Inr b \<and> m = d @ to_be_bytes (of_nat (length b)) @ b)"
  by (auto simp: framed_def)


section \<open>Witnesses\<close>

lemma graph_ends:
  assumes "is_graph c"
  shows "ws_prefix (c # s) = 0" and "(\<forall>x \<in> set s. is_graph x) \<Longrightarrow> ws_suffix_rev (c # s) = 0"
proof -
  have no: "\<not> ws1 (byte_of x)" "\<not> ws2 n (byte_of x)" "\<not> ws2 (byte_of x) n"
      "\<not> ws3 m n (byte_of x)" "\<not> ws3 (byte_of x) m n" if "is_graph x" for m n x
    using that by (auto simp: is_graph_def ws1_def ws2_def ws3_def)
  show "ws_prefix (c # s) = 0"
    by (cases "c # s" rule: ws_prefix.cases) (use no [OF assms] in auto)
  show "ws_suffix_rev (c # s) = 0" if "\<forall>x \<in> set s. is_graph x"
    by (cases "c # s" rule: ws_suffix_rev.cases) (use that no [OF assms] no in auto)
qed

lemma graph_trim: "(\<forall>c \<in> set s. is_graph c) \<Longrightarrow> trim s = s"
proof -
  assume g: "\<forall>c \<in> set s. is_graph c"
  have "s = [] \<or> ws_prefix s = 0" using g graph_ends(1) by (cases s) auto
  moreover have "rev s = [] \<or> ws_suffix_rev (rev s) = 0"
  proof (cases "rev s")
    case (Cons c t)
    then have "\<forall>x \<in> set (c # t). is_graph x" using g by (metis set_rev)
    then show ?thesis using graph_ends(2) [of c t] Cons by simp
  qed simp
  ultimately show ?thesis by (simp add: trim_def trim_start.simps [of s] trim_end_rev.simps [of "rev s"])
qed

lemma hex_digit_graph: "n < 16 \<Longrightarrow> is_graph (hex_digit n)"
  by (auto simp: is_graph_def ws1_def hex_digit_def byte_of_def of_char_of)

lemma hex_bytes_clean: "trim (hex_bytes bs) = hex_bytes bs"
proof (rule graph_trim, rule ballI)
  fix c
  assume "c \<in> set (hex_bytes bs)"
  then obtain b where "c = hex_digit (unat (b :: u8) div 16) \<or> c = hex_digit (unat b mod 16)"
    by (auto simp: hex_bytes_def)
  moreover have "unat b < 256" using unsigned_less [of b] by simp
  then have "unat b div 16 < 16" by (simp add: less_mult_imp_div_less)
  ultimately show "is_graph c" by (auto intro: hex_digit_graph)
qed

lemma sample_hex: "hex_clean sample_externs"
  by (simp add: hex_clean_def sample_externs_def hex_bytes_clean)

definition toy_ed :: "(u8 list, u8 list) Ed25519" where
  "toy_ed = (let sg = (\<lambda>k m. take 64 (k @ drop 2 m @ replicate 64 0)) in
     \<lparr>sk_from_bytes = id, vk_from_bytes = Some, vk_to_bytes = id, verifying_key = id,
      ed_sign = sg, ed_verify = (\<lambda>k m s. s = sg k m)\<rparr>)"

lemma toy_ed_ok: "ed_ok toy_ed"
  by (auto simp: ed_ok_def keypair_ok_def toy_ed_def Let_def)

definition sample_payload :: SourceGrantPayload where
  "sample_payload = \<lparr>version = 1, SourceGrantPayload.source = ''source:a'',
     SourceGrantPayload.public_key = hex_bytes (replicate 32 2), SourceGrantPayload.max_authority = High,
     SourceGrantPayload.issuer = ''ops'', SourceGrantPayload.scope = Some ''repo:x'', expires_at_ms = Some 10\<rparr>"

definition sample_grant :: SignedSourceGrant where
  "sample_grant = \<lparr>grant = sample_payload,
     SignedSourceGrant.signature = hex_bytes (ed_sign toy_ed (replicate 32 1) (GRANT_DOMAIN @ to_be_bytes 1 @ [9]))\<rparr>"

definition sample_host :: Host where
  "sample_host = \<lparr>read_text = (\<lambda>p. if p = ''trust'' \<or> p = ''grant'' then Contents p else NotFound),
     exists_at = (\<lambda>_. False), sibling = (\<lambda>_ f. f), secret_text = (\<lambda>_. Inr (hex_bytes (replicate 32 2))),
     parse_trust = (\<lambda>_. Inr \<lparr>issuers = [(''ops'', \<lparr>TrustedIssuer.public_key = hex_bytes (replicate 32 1)\<rparr>)]\<rparr>),
     parse_grant = (\<lambda>_. Inr sample_grant), parse_active = (\<lambda>_. Inl ''''), grant_body = (\<lambda>_. Inr [9]),
     challenge_body = (\<lambda>c. if c = \<lparr>nonce = ''00'', SessionChallenge.source = ''source:a'',
        SessionChallenge.public_key = SourceGrantPayload.public_key sample_payload,
        SessionChallenge.grant_signature = SignedSourceGrant.signature sample_grant\<rparr> then Inr [7] else Inl '''')\<rparr>"

definition sample_context :: IdentityContext where
  "sample_context = \<lparr>trust_path = ''trust'', trust_explicit = True, grant_path = Some ''grant'',
     identity_key_path = Some ''key'', active_grants_override = None, required = True\<rparr>"

definition signed_write :: WriteAuth where
  "signed_write = \<lparr>WriteAuth.subject_kind = ''repo'', subject_key = ''x'', authority = High, source = ''source:a''\<rparr>"

lemmas sample_identity = sample_host_def sample_context_def sample_grant_def sample_payload_def

lemma sample_decode:
  "length bs = n \<Longrightarrow> decode_fixed sample_externs n l (hex_bytes bs) = Inr bs"
  by (simp add: decode_fixed_def hex_bytes_clean) (simp add: sample_externs_def unhex_hex_bytes)

lemma sample_keys:
  "verifying_key_from_hex sample_externs toy_ed (hex_bytes (replicate 32 b)) = Inr (replicate 32 b)"
  "load_signing_key sample_externs toy_ed sample_host p = Inr (replicate 32 2)"
  "signature_from_hex sample_externs (SignedSourceGrant.signature sample_grant) =
     Inr (ed_sign toy_ed (replicate 32 1) (GRANT_DOMAIN @ to_be_bytes 1 @ [9]))"
proof -
  show "verifying_key_from_hex sample_externs toy_ed (hex_bytes (replicate 32 b)) = Inr (replicate 32 b)"
    and "load_signing_key sample_externs toy_ed sample_host p = Inr (replicate 32 2)"
    by (simp_all add: verifying_key_from_hex_def load_signing_key_def sample_decode sample_host_def toy_ed_def)
  show "signature_from_hex sample_externs (SignedSourceGrant.signature sample_grant) =
     Inr (ed_sign toy_ed (replicate 32 1) (GRANT_DOMAIN @ to_be_bytes 1 @ [9]))"
    unfolding signature_from_hex_def sample_grant_def
    by (simp del: append.simps) (rule sample_decode, simp add: ed_signature [OF toy_ed_ok])
qed

lemma sample_vouched:
  "issuer_vouches sample_externs toy_ed sample_host \<lparr>issuers = [(''ops'', \<lparr>TrustedIssuer.public_key = hex_bytes (replicate 32 1)\<rparr>)]\<rparr>
     sample_grant"
proof -
  have "ed_verify toy_ed (replicate 32 1) m (ed_sign toy_ed (replicate 32 1) m)" for m
    by (simp add: toy_ed_def)
  moreover have "is_ok (SourceId_new ''source:a'')" by code_simp
  moreover have "grant sample_grant = sample_payload" "SourceGrantPayload.issuer sample_payload = ''ops''"
      "version sample_payload = 1" "SourceGrantPayload.source sample_payload = ''source:a''"
      "SourceGrantPayload.public_key sample_payload = hex_bytes (replicate 32 2)"
    by (simp_all add: sample_grant_def sample_payload_def)
  ultimately show ?thesis
    by (simp add: issuer_vouches_def sample_keys framed_Inr) (simp add: sample_host_def)
qed

lemma sample_loads:
  "load_trust_at sample_host (trust_path sample_context) b =
     Inr (Some \<lparr>issuers = [(''ops'', \<lparr>TrustedIssuer.public_key = hex_bytes (replicate 32 1)\<rparr>)]\<rparr>)"
  "context_grant sample_host sample_context = Inr sample_grant"
  "configured sample_host sample_context" "active_grants_path sample_host sample_context = None"
  "identity_key_path sample_context = Some ''key''"
  by (simp_all add: load_trust_at_def context_grant_def require_grant_path_def load_grant_def configured_def
      active_grants_path_def sample_host_def sample_context_def)


lemma sample_attested:
  "\<exists>e'. attest_event sample_externs toy_ed pk sk e = Inr e'"
  by (simp add: attest_event_def Let_def attestation_message_def sample_canonical)

lemma sample_attested_batch:
  "\<exists>e'. attest_events sample_externs toy_ed sample_host sample_context [sample_assert ''a'' ''f'' Low] = Inr (True, [e']) \<and>
     verify_event_attestation sample_externs toy_ed e' = Inr True"
proof -
  obtain e' where "attest_event sample_externs toy_ed (SourceGrantPayload.public_key (grant sample_grant)) (replicate 32 2)
      (sample_assert ''a'' ''f'' Low) = Inr e'"
    using sample_attested by blast
  moreover have "verifying_key_from_hex sample_externs toy_ed (SourceGrantPayload.public_key (grant sample_grant)) =
      Inr (verifying_key toy_ed (replicate 32 2))"
    using sample_keys(1) [of 2] by (simp add: sample_grant_def sample_payload_def toy_ed_def)
  ultimately have a: "attest_events sample_externs toy_ed sample_host sample_context [sample_assert ''a'' ''f'' Low] = Inr (True, [e'])"
    using sample_loads sample_keys(2)
    by (auto simp: attest_events_def require_identity_key_path_def simp flip: context_grant_def)
  from attested_batch [OF sample_externs_ok(1) sample_hex toy_ed_ok a] a show ?thesis by auto
qed



end
