(* ===== verification/Grant_Log.thy ===== *)
theory Grant_Log
  imports Identity
begin

text \<open>
  The grant log (\<open>crates/dent8-cli/src/identity/records.rs\<close>): the append-only history of grant
  issuances and revocations, each record signed by its issuer and chained by the hash of the line
  before it, and the entitlement of an attested write decided from it; and the bundle operations
  of \<open>identity.rs\<close> that extend it, revocation and backfill. The JSON of a record is the parameter
  \<open>RecordCodec\<close>; the log file is its contents, absent before the first append.
\<close>

section \<open>Records\<close>

datatype GrantAction = Issued | Revoked

record GrantRecordPayload =
  action :: GrantAction
  grant_signature :: string
  source :: string
  public_key :: string
  max_authority :: AuthorityLevel
  scope :: "string option"
  expires_at_ms :: "i64 option"
  at_ms :: i64
  issuer :: string

text \<open>A record: the signed fields, the signature and the link to the line before.\<close>

record GrantRecord = GrantRecordPayload +
  record_signature :: string
  previous_record_hash :: "string option"

record RecordCodec =
  record_line :: "GrantRecord \<Rightarrow> string + string"
  parse_record :: "string \<Rightarrow> string + GrantRecord"
  record_body :: "GrantRecordPayload \<Rightarrow> string + u8 list"

definition GRANT_RECORD_DOMAIN :: "u8 list" where
  "GRANT_RECORD_DOMAIN = as_bytes ''dent8.grant-record.v1'' @ [0]"

datatype GrantLogError =
    LogUnreadable string
  | CorruptRecord nat string
  | ChainBreak nat
  | UntrustedRecordIssuer string
  | RecordUnverified string GrantAction i64
  | RecordUnserializable string
  | LogNotWritten string
  | NoTrustForLog
  | IdentityFault IdentityError

definition grant_record_payload :: "GrantRecord \<Rightarrow> GrantRecordPayload" where
  "grant_record_payload r =
     \<lparr>action = action r, GrantRecordPayload.grant_signature = GrantRecordPayload.grant_signature r,
      GrantRecordPayload.source = GrantRecordPayload.source r,
      GrantRecordPayload.public_key = GrantRecordPayload.public_key r,
      GrantRecordPayload.max_authority = GrantRecordPayload.max_authority r,
      GrantRecordPayload.scope = GrantRecordPayload.scope r,
      GrantRecordPayload.expires_at_ms = GrantRecordPayload.expires_at_ms r,
      at_ms = at_ms r, GrantRecordPayload.issuer = GrantRecordPayload.issuer r\<rparr>"

definition grant_record_line_hash :: "'j Externs \<Rightarrow> string \<Rightarrow> string" where
  "grant_record_line_hash X line = hex_encode X (sha256 X (as_bytes line))"

text \<open>The lines of the file with their numbers; blank lines are skipped.\<close>

fun load_records_from ::
    "'j Externs \<Rightarrow> RecordCodec \<Rightarrow> nat \<Rightarrow> string option \<Rightarrow> string list \<Rightarrow> GrantLogError + GrantRecord list" where
  "load_records_from X G n previous [] = Inr []"
| "load_records_from X G n previous (line # lines) =
     (if is_blank line then load_records_from X G (Suc n) previous lines
      else case parse_record G line of
          Inl e \<Rightarrow> Inl (CorruptRecord (n + 1) e)
        | Inr r \<Rightarrow>
            if previous_record_hash r \<noteq> previous then Inl (ChainBreak (n + 1))
            else map_ok (\<lambda>rs. r # rs)
              (load_records_from X G (Suc n) (Some (grant_record_line_hash X line)) lines))"

fun load_grant_records :: "'j Externs \<Rightarrow> RecordCodec \<Rightarrow> ReadOutcome \<Rightarrow> GrantLogError + GrantRecord list" where
  "load_grant_records X G (Contents c) = load_records_from X G 0 None (str_lines c)"
| "load_grant_records X G NotFound = Inr []"
| "load_grant_records X G (ReadError e) = Inl (LogUnreadable e)"

definition record_verifies ::
    "'j Externs \<Rightarrow> ('sk, 'vk) Ed25519 \<Rightarrow> RecordCodec \<Rightarrow> TrustedIssuers \<Rightarrow> GrantRecord \<Rightarrow> GrantLogError + unit" where
  "record_verifies X C G trust r =
     (and_then (ok_or (UntrustedRecordIssuer (GrantRecordPayload.issuer r)) (btm_get (issuers trust) (GrantRecordPayload.issuer r))) (\<lambda>iss.
      and_then (map_err IdentityFault (verifying_key_from_hex X C (TrustedIssuer.public_key iss))) (\<lambda>key.
      and_then (map_err IdentityFault (signature_from_hex X (record_signature r))) (\<lambda>sg.
      and_then (map_err IdentityFault (framed GRANT_RECORD_DOMAIN (record_body G (grant_record_payload r)))) (\<lambda>m.
        if ed_verify C key m sg then Inr ()
        else Inl (RecordUnverified (GrantRecordPayload.source r) (action r) (at_ms r)))))))"

definition verify_grant_records ::
    "'j Externs \<Rightarrow> ('sk, 'vk) Ed25519 \<Rightarrow> RecordCodec \<Rightarrow> GrantRecord list \<Rightarrow> TrustedIssuers \<Rightarrow> GrantLogError + unit" where
  "verify_grant_records X C G records trust = try_fold (\<lambda>_. record_verifies X C G trust) () records"

section \<open>Appending\<close>

definition last_line_hash :: "'j Externs \<Rightarrow> string list \<Rightarrow> string option" where
  "last_line_hash X lines =
     map_option (grant_record_line_hash X) (find (\<lambda>l. \<not> is_blank l) (rev lines))"

text \<open>A record before it is signed.\<close>

definition record_of :: "string \<Rightarrow> i64 \<Rightarrow> string option \<Rightarrow> GrantAction \<Rightarrow> SignedSourceGrant \<Rightarrow> GrantRecord" where
  "record_of iss now previous act g =
     \<lparr>action = act, GrantRecordPayload.grant_signature = SignedSourceGrant.signature g,
      GrantRecordPayload.source = SourceGrantPayload.source (grant g),
      GrantRecordPayload.public_key = SourceGrantPayload.public_key (grant g),
      GrantRecordPayload.max_authority = SourceGrantPayload.max_authority (grant g),
      GrantRecordPayload.scope = SourceGrantPayload.scope (grant g),
      GrantRecordPayload.expires_at_ms = SourceGrantPayload.expires_at_ms (grant g),
      at_ms = now, GrantRecordPayload.issuer = iss, record_signature = [], previous_record_hash = previous\<rparr>"

text \<open>The buffer of one append: every record signed, linked to the line before it, one line each.\<close>

fun record_lines ::
    "'j Externs \<Rightarrow> ('sk, 'vk) Ed25519 \<Rightarrow> RecordCodec \<Rightarrow> string \<Rightarrow> 'sk \<Rightarrow> i64 \<Rightarrow> string option \<Rightarrow>
       (GrantAction \<times> SignedSourceGrant) list \<Rightarrow> GrantLogError + string" where
  "record_lines X C G iss sk now previous [] = Inr []"
| "record_lines X C G iss sk now previous ((act, g) # entries) =
     (let r = record_of iss now previous act g in
      and_then (map_err IdentityFault (framed GRANT_RECORD_DOMAIN (record_body G (grant_record_payload r)))) (\<lambda>m.
      and_then (map_err RecordUnserializable (record_line G (r\<lparr>record_signature := hex_encode X (ed_sign C sk m)\<rparr>))) (\<lambda>line.
        map_ok (\<lambda>rest. line @ [nl] @ rest)
          (record_lines X C G iss sk now (Some (grant_record_line_hash X line)) entries))))"

definition outcome_of :: "string option \<Rightarrow> ReadOutcome" where
  "outcome_of file = (case file of None \<Rightarrow> NotFound | Some c \<Rightarrow> Contents c)"

definition file_lines :: "string option \<Rightarrow> string list" where
  "file_lines file = (case file of None \<Rightarrow> [] | Some c \<Rightarrow> str_lines c)"

definition append_grant_records ::
    "'j Externs \<Rightarrow> ('sk, 'vk) Ed25519 \<Rightarrow> RecordCodec \<Rightarrow> IoOutcome \<Rightarrow> string \<Rightarrow> 'sk \<Rightarrow>
       (GrantAction \<times> SignedSourceGrant) list \<Rightarrow> i64 \<Rightarrow> string option \<Rightarrow>
       string option \<times> (GrantLogError + unit)" where
  "append_grant_records X C G io iss sk entries now file =
     (case load_grant_records X G (outcome_of file) of
        Inl e \<Rightarrow> (file, Inl e)
      | Inr _ \<Rightarrow>
          (case record_lines X C G iss sk now (last_line_hash X (file_lines file)) entries of
             Inl e \<Rightarrow> (file, Inl e)
           | Inr buffer \<Rightarrow>
               (case file_append ''grant-log.jsonl'' io file buffer of
                  (file', Inl _) \<Rightarrow> (file', Inl (LogNotWritten ''grant-log.jsonl''))
                | (file', Inr _) \<Rightarrow> (file', Inr ()))))"

definition has_issued_record ::
    "'j Externs \<Rightarrow> RecordCodec \<Rightarrow> string option \<Rightarrow> string \<Rightarrow> GrantLogError + bool" where
  "has_issued_record X G file sig =
     map_ok (\<lambda>rs. \<exists>r \<in> set rs. action r = Issued \<and> GrantRecordPayload.grant_signature r = sig)
       (load_grant_records X G (outcome_of file))"

section \<open>Entitlement\<close>

datatype Refused =
    RevokedBefore i64
  | ExpiredAt i64
  | AboveCap AuthorityLevel
  | ScopedTo string

datatype Entitlement = Entitled | Unentitled Refused | UnknownEntitlement

definition about_write :: "string \<Rightarrow> string \<Rightarrow> i64 \<Rightarrow> GrantRecord \<Rightarrow> bool" where
  "about_write src pk t r \<longleftrightarrow> GrantRecordPayload.source r = src \<and>
     GrantRecordPayload.public_key r = pk \<and> sint (at_ms r) \<le> sint t"

text \<open>One turn of the loop: the active issuance, and whether the last one was revoked.\<close>

definition entitlement_step :: "GrantRecord option \<times> bool \<Rightarrow> GrantRecord \<Rightarrow> GrantRecord option \<times> bool" where
  "entitlement_step st r = (case action r of
      Issued \<Rightarrow> (Some r, False)
    | Revoked \<Rightarrow>
        (case fst st of
           Some c \<Rightarrow>
             if GrantRecordPayload.grant_signature c = GrantRecordPayload.grant_signature r
             then (None, True) else st
         | None \<Rightarrow> st))"

definition entitlement_of_grant :: "GrantRecord \<Rightarrow> AuthorityLevel \<Rightarrow> string \<Rightarrow> i64 \<Rightarrow> Entitlement" where
  "entitlement_of_grant g lvl sj t =
     (if (case GrantRecordPayload.expires_at_ms g of None \<Rightarrow> False | Some e \<Rightarrow> sint e < sint t)
      then Unentitled (ExpiredAt (case GrantRecordPayload.expires_at_ms g of Some e \<Rightarrow> e | None \<Rightarrow> 0))
      else if GrantRecordPayload.max_authority g < lvl then Unentitled (AboveCap (GrantRecordPayload.max_authority g))
      else case GrantRecordPayload.scope g of
          None \<Rightarrow> Entitled
        | Some s \<Rightarrow> if s \<noteq> ''*'' \<and> s \<noteq> sj then Unentitled (ScopedTo s) else Entitled)"

definition entitlement_at ::
    "GrantRecord list \<Rightarrow> string \<Rightarrow> string \<Rightarrow> AuthorityLevel \<Rightarrow> string \<Rightarrow> i64 \<Rightarrow> Entitlement" where
  "entitlement_at records src pk lvl sj t =
     (case foldl entitlement_step (None, False) (filter (about_write src pk t) records) of
        (None, revoked_before) \<Rightarrow> if revoked_before then Unentitled (RevokedBefore t) else UnknownEntitlement
      | (Some g, _) \<Rightarrow> entitlement_of_grant g lvl sj t)"

text \<open>The line hashes the witness commits to; no log is no lane.\<close>

definition grant_log_line_hashes ::
    "'j Externs \<Rightarrow> RecordCodec \<Rightarrow> ReadOutcome \<Rightarrow> GrantLogError + string list option" where
  "grant_log_line_hashes X G r = (case r of
      NotFound \<Rightarrow> Inr None
    | ReadError e \<Rightarrow> Inl (LogUnreadable e)
    | Contents c \<Rightarrow>
        map_ok (\<lambda>_. Some (map (grant_record_line_hash X) (filter (\<lambda>l. \<not> is_blank l) (str_lines c))))
          (load_grant_records X G r))"

text \<open>The history \<open>verify\<close> uses: chain and signatures checked; an empty log is no history.\<close>

definition load_grant_history_for_verify ::
    "'j Externs \<Rightarrow> ('sk, 'vk) Ed25519 \<Rightarrow> RecordCodec \<Rightarrow> IdentityError + TrustedIssuers option \<Rightarrow> ReadOutcome option \<Rightarrow>
       GrantLogError + GrantRecord list option" where
  "load_grant_history_for_verify X C G trust r = (case r of
      None \<Rightarrow> Inr None
    | Some r' \<Rightarrow>
        and_then (load_grant_records X G r') (\<lambda>records.
        if records = [] then Inr None
        else and_then (map_err IdentityFault trust) (\<lambda>t.
          case t of
            None \<Rightarrow> Inl NoTrustForLog
          | Some tr \<Rightarrow> map_ok (\<lambda>_. Some records) (verify_grant_records X C G records tr))))"

section \<open>Revocation and backfill\<close>

text \<open>
  What the two operations read of an identity bundle, and the two files they write. The grants are
  those of the bundle's grant directory, in directory order.
\<close>

record 'sk Bundle =
  bundle_trust :: "IdentityError + TrustedIssuers option"
  bundle_grant :: "string \<Rightarrow> IdentityError + SignedSourceGrant"
  bundle_grants :: "(IdentityError + SignedSourceGrant) list"
  issuer_key_exists :: bool
  bundle_key :: "IdentityError + 'sk"
  log_file :: "string option"
  active_grants :: "IdentityError + ActiveSourceGrants option"

definition load_issuer_signing_key_matching_trust ::
    "'j Externs \<Rightarrow> ('sk, 'vk) Ed25519 \<Rightarrow> 'sk Bundle \<Rightarrow> string \<Rightarrow> TrustedIssuers \<Rightarrow> IdentityError + 'sk" where
  "load_issuer_signing_key_matching_trust X C B issuer_name trust =
     and_then (bundle_key B) (\<lambda>sk.
     and_then (ok_or (UntrustedIssuer issuer_name) (btm_get (issuers trust) issuer_name)) (\<lambda>trusted.
     and_then (verifying_key_from_hex X C (TrustedIssuer.public_key trusted)) (\<lambda>key.
       if vk_to_bytes C (verifying_key C sk) \<noteq> vk_to_bytes C key then Inl (KeyMismatch issuer_name) else Inr sk)))"

text \<open>\<open>BTreeMap::remove\<close>\<close>

definition without_source :: "string \<Rightarrow> ActiveSourceGrants \<Rightarrow> ActiveSourceGrants" where
  "without_source src a = a\<lparr>ActiveSourceGrants.sources := filter (\<lambda>(k, _). k \<noteq> src) (ActiveSourceGrants.sources a)\<rparr>"

definition revoke_checked ::
    "'j Externs \<Rightarrow> ('sk, 'vk) Ed25519 \<Rightarrow> Host \<Rightarrow> 'sk Bundle \<Rightarrow> string \<Rightarrow> IdentityError + SignedSourceGrant \<times> 'sk" where
  "revoke_checked X C D B src =
     and_then (map_err (\<lambda>_. InvalidGrantSource src) (SourceId_new src)) (\<lambda>_.
     and_then (and_then (bundle_trust B) (ok_or (TrustRequired ''trust.json''))) (\<lambda>trust.
     and_then (bundle_grant B src) (\<lambda>g.
     and_then (verify_grant_signature X C D g trust) (\<lambda>_.
     if SourceGrantPayload.source (grant g) \<noteq> src then Inl (SourceMismatch (SourceGrantPayload.source (grant g)) src)
     else if \<not> issuer_key_exists B then Inl (NoSecret src)
     else map_ok (Pair g) (load_issuer_signing_key_matching_trust X C B (SourceGrantPayload.issuer (grant g)) trust)))))"

text \<open>The revocation is recorded first; then the registry of active grants loses the source.\<close>

definition revoke_bundle ::
    "'j Externs \<Rightarrow> ('sk, 'vk) Ed25519 \<Rightarrow> RecordCodec \<Rightarrow> Host \<Rightarrow> IoOutcome \<Rightarrow> IdentityError option \<Rightarrow> string \<Rightarrow> i64 \<Rightarrow>
       'sk Bundle \<Rightarrow> 'sk Bundle \<times> (GrantLogError + unit)" where
  "revoke_bundle X C G D io active_fault src now B =
     (case revoke_checked X C D B src of
        Inl e \<Rightarrow> (B, Inl (IdentityFault e))
      | Inr (g, sk) \<Rightarrow>
          (case append_grant_records X C G io (SourceGrantPayload.issuer (grant g)) sk [(Revoked, g)] now (log_file B) of
             (file, Inl e) \<Rightarrow> (B\<lparr>log_file := file\<rparr>, Inl e)
           | (file, Inr _) \<Rightarrow>
               (let B' = B\<lparr>log_file := file\<rparr> in
                case active_grants B of
                  Inl e \<Rightarrow> (B', Inl (IdentityFault e))
                | Inr a \<Rightarrow>
                    (case active_fault of
                       Some e \<Rightarrow> (B', Inl (IdentityFault e))
                     | None \<Rightarrow> (B'\<lparr>active_grants := Inr (Some (without_source src
                         (case a of Some x \<Rightarrow> x | None \<Rightarrow> \<lparr>ActiveSourceGrants.sources = []\<rparr>)))\<rparr>, Inr ())))))"

text \<open>The loop of \<open>backfill_grant_log_inner\<close>: the counts of appended and skipped grants. The clock
  is read at each append.\<close>

fun backfill_loop ::
    "'j Externs \<Rightarrow> ('sk, 'vk) Ed25519 \<Rightarrow> RecordCodec \<Rightarrow> (nat \<Rightarrow> IoOutcome) \<Rightarrow> (nat \<Rightarrow> i64) \<Rightarrow> TrustedIssuers \<Rightarrow> nat \<Rightarrow> nat \<Rightarrow>
       SignedSourceGrant list \<Rightarrow> 'sk Bundle \<Rightarrow> 'sk Bundle \<times> (GrantLogError + nat \<times> nat)" where
  "backfill_loop X C G io clk trust appended skipped [] B = (B, Inr (appended, skipped))"
| "backfill_loop X C G io clk trust appended skipped (g # gs) B =
     (case has_issued_record X G (log_file B) (SignedSourceGrant.signature g) of
        Inl e \<Rightarrow> (B, Inl e)
      | Inr True \<Rightarrow> backfill_loop X C G io clk trust appended (skipped + 1) gs B
      | Inr False \<Rightarrow>
          (case load_issuer_signing_key_matching_trust X C B (SourceGrantPayload.issuer (grant g)) trust of
             Inl e \<Rightarrow> (B, Inl (IdentityFault e))
           | Inr sk \<Rightarrow>
               (case append_grant_records X C G (io appended) (SourceGrantPayload.issuer (grant g)) sk [(Issued, g)] (clk appended) (log_file B) of
                  (file, Inl e) \<Rightarrow> (B\<lparr>log_file := file\<rparr>, Inl e)
                | (file, Inr _) \<Rightarrow> backfill_loop X C G io clk trust (appended + 1) skipped gs (B\<lparr>log_file := file\<rparr>))))"

definition backfill_checked ::
    "'j Externs \<Rightarrow> ('sk, 'vk) Ed25519 \<Rightarrow> Host \<Rightarrow> 'sk Bundle \<Rightarrow> IdentityError + TrustedIssuers \<times> SignedSourceGrant list" where
  "backfill_checked X C D B =
     and_then (and_then (bundle_trust B) (ok_or (TrustRequired ''trust.json''))) (\<lambda>trust.
     map_ok (Pair trust) (try_map (\<lambda>r. and_then r (\<lambda>g. map_ok (\<lambda>_. g) (verify_grant_signature X C D g trust)))
       (bundle_grants B)))"

definition backfill_grant_log ::
    "'j Externs \<Rightarrow> ('sk, 'vk) Ed25519 \<Rightarrow> RecordCodec \<Rightarrow> Host \<Rightarrow> (nat \<Rightarrow> IoOutcome) \<Rightarrow> (nat \<Rightarrow> i64) \<Rightarrow> 'sk Bundle \<Rightarrow>
       'sk Bundle \<times> (GrantLogError + nat \<times> nat)" where
  "backfill_grant_log X C G D io clk B =
     (case backfill_checked X C D B of
        Inl e \<Rightarrow> (B, Inl (IdentityFault e))
      | Inr (trust, entries) \<Rightarrow>
          if entries = [] then (B, Inl (IdentityFault (MissingIdentityPath ''grants'')))
          else if \<not> issuer_key_exists B then (B, Inl (IdentityFault (NoSecret ''issuer'')))
          else backfill_loop X C G io clk trust 0 0 entries B)"

section \<open>Verifying the attestations of a log\<close>

datatype AttestationIssue =
    GrantLogIssue GrantLogError
  | EntitlementIssue FactEventId Refused
  | AttestationIssue IdentityError

record AttestationSummary =
  attested :: nat
  history :: bool
  entitled :: nat
  unknown_entitlement :: nat
  issues :: "AttestationIssue list"

definition check_attestation ::
    "'j Externs \<Rightarrow> ('sk, 'vk) Ed25519 \<Rightarrow> GrantRecord list option \<Rightarrow> AttestationSummary \<Rightarrow> FactEvent \<Rightarrow> AttestationSummary" where
  "check_attestation X C hist s e = (case verify_event_attestation X C e of
      Inl err \<Rightarrow> s\<lparr>attested := attested s + 1, issues := issues s @ [AttestationIssue err]\<rparr>
    | Inr False \<Rightarrow> s
    | Inr True \<Rightarrow>
        (let s' = s\<lparr>attested := attested s + 1\<rparr> in
         case (hist, Provenance.attestation (FactEvent.provenance e)) of
           (Some records, Some a) \<Rightarrow>
             (case entitlement_at records (source_str (event_source e)) (WriteAttestation.public_key a) (event_level e)
                 (Model.subject_kind (FactEvent.subject e) @ '':'' @ Model.subject_key (FactEvent.subject e))
                 (as_unix_millis (Provenance.recorded_at (FactEvent.provenance e))) of
                Entitled \<Rightarrow> s'\<lparr>entitled := entitled s' + 1\<rparr>
              | UnknownEntitlement \<Rightarrow> s'\<lparr>unknown_entitlement := unknown_entitlement s' + 1\<rparr>
              | Unentitled why \<Rightarrow> s'\<lparr>issues := issues s' @ [EntitlementIssue (event_id e) why]\<rparr>)
         | _ \<Rightarrow> s'))"

definition check_attestations ::
    "'j Externs \<Rightarrow> ('sk, 'vk) Ed25519 \<Rightarrow> GrantLogError + GrantRecord list option \<Rightarrow> FactEvent list \<Rightarrow> AttestationSummary" where
  "check_attestations X C loaded es =
     (let s0 = \<lparr>attested = 0, history = False, entitled = 0, unknown_entitlement = 0, issues = []\<rparr> in
      case loaded of
        Inr hist \<Rightarrow> foldl (check_attestation X C hist) (s0\<lparr>history := hist \<noteq> None\<rparr>) es
      | Inl err \<Rightarrow> foldl (check_attestation X C None) (s0\<lparr>issues := [GrantLogIssue err]\<rparr>) es)"

section \<open>The chain of lines\<close>

lemma map_ok_and_then: "map_ok f (and_then r g) = and_then r (\<lambda>x. map_ok f (g x))"
  by (cases r) auto

lemma and_then_map_ok: "and_then (map_ok f r) g = and_then r (\<lambda>x. g (f x))"
  by (cases r) auto

lemma last_line_hash_snoc:
  "last_line_hash X (ls @ [l]) = (if is_blank l then last_line_hash X ls else Some (grant_record_line_hash X l))"
  by (simp add: last_line_hash_def)

lemma last_line_hash_Nil [simp]: "last_line_hash X [] = None"
  by (simp add: last_line_hash_def)

lemma last_line_hash_append:
  "last_line_hash X (ls @ ks) = (case last_line_hash X ks of None \<Rightarrow> last_line_hash X ls | Some h \<Rightarrow> Some h)"
  by (induction ks rule: rev_induct) (simp_all add: last_line_hash_snoc flip: append_assoc)

lemma load_records_append:
  "load_records_from X G n p (ls @ ks) =
     and_then (load_records_from X G n p ls) (\<lambda>rs. map_ok (\<lambda>qs. rs @ qs)
       (load_records_from X G (n + length ls) (case last_line_hash X ls of None \<Rightarrow> p | Some h \<Rightarrow> Some h) ks))"
proof (induction ls arbitrary: n p)
  case Nil
  then show ?case by (cases "load_records_from X G n p ks") simp_all
next
  case (Cons l ls)
  have h: "last_line_hash X (l # ls) = (case last_line_hash X ls of
      None \<Rightarrow> (if is_blank l then None else Some (grant_record_line_hash X l)) | Some h \<Rightarrow> Some h)"
    using last_line_hash_append [of X "[l]" ls] last_line_hash_snoc [of X "[]" l] by (simp split: option.split)
  have f: "(@) (x # xs) = (\<lambda>ys. x # xs @ ys)" for x :: GrantRecord and xs
    by (rule ext) simp
  show ?case
    by (auto simp: Cons.IH h f map_ok_and_then and_then_map_ok split: sum.split option.split)
qed

text \<open>Blank lines do not count.\<close>

lemma load_records_filter:
  "load_records_from X G n p ls = Inr rs \<Longrightarrow> load_records_from X G m p (filter (\<lambda>l. \<not> is_blank l) ls) = Inr rs"
  by (induction ls arbitrary: n m p rs) (auto split: if_splits sum.splits)

text \<open>What is relied on of a codec: a value is one line in braces that reads back.\<close>

definition braced_codec :: "('a \<Rightarrow> string + string) \<Rightarrow> (string \<Rightarrow> string + 'a) \<Rightarrow> bool" where
  "braced_codec emit parse \<longleftrightarrow> (\<forall>x l. emit x = Inr l \<longrightarrow>
     (\<exists>body. l = CHR 0x7B # body @ [CHR 0x7D] \<and> nl \<notin> set body) \<and> parse l = Inr x)"

lemma braced_codec_line:
  assumes "braced_codec emit parse" and "emit x = Inr l"
  shows "str_lines (l @ nl # rest) = l # str_lines rest" and "\<not> is_blank l" and "parse l = Inr x"
proof -
  obtain body where b: "l = CHR 0x7B # body @ [CHR 0x7D]" "nl \<notin> set body" and p: "parse l = Inr x"
    using assms unfolding braced_codec_def by blast
  show "str_lines (l @ nl # rest) = l # str_lines rest" unfolding b(1) by (rule braced_line [OF b(2)])
  show "\<not> is_blank l" unfolding b(1) by (simp only: is_blank_def trim_braces) simp
  show "parse l = Inr x" by (rule p)
qed

definition record_codec_ok :: "RecordCodec \<Rightarrow> bool" where
  "record_codec_ok G \<longleftrightarrow> braced_codec (record_line G) (parse_record G)"

text \<open>The records an append writes, as signed.\<close>

definition signed_record ::
    "'j Externs \<Rightarrow> ('sk, 'vk) Ed25519 \<Rightarrow> RecordCodec \<Rightarrow> string \<Rightarrow> 'sk \<Rightarrow> i64 \<Rightarrow> GrantAction \<times> SignedSourceGrant \<Rightarrow>
       GrantRecord \<Rightarrow> bool" where
  "signed_record X C G iss sk now entry r \<longleftrightarrow> (\<exists>m prev.
     framed GRANT_RECORD_DOMAIN (record_body G (grant_record_payload r)) = Inr m \<and>
     r = (record_of iss now prev (fst entry) (snd entry))\<lparr>record_signature := hex_encode X (ed_sign C sk m)\<rparr>)"

lemma record_lines_load:
  assumes "record_codec_ok G" and "record_lines X C G iss sk now prev entries = Inr buffer"
  shows "\<exists>rs. (\<forall>n. load_records_from X G n prev (str_lines buffer) = Inr rs) \<and>
    list_all2 (signed_record X C G iss sk now) entries rs \<and> (buffer = [] \<or> last buffer = nl)"
  using assms(2)
proof (induction entries arbitrary: prev buffer)
  case Nil
  then show ?case by (simp add: str_lines_def)
next
  case (Cons entry entries)
  obtain act g where e: "entry = (act, g)" by (cases entry)
  let ?r = "record_of iss now prev act g"
  from Cons.prems obtain m line rest where
    m: "framed GRANT_RECORD_DOMAIN (record_body G (grant_record_payload ?r)) = Inr m"
    and line: "record_line G (?r\<lparr>record_signature := hex_encode X (ed_sign C sk m)\<rparr>) = Inr line"
    and rest: "record_lines X C G iss sk now (Some (grant_record_line_hash X line)) entries = Inr rest"
    and buf: "buffer = line @ nl # rest"
    by (auto simp: e Let_def)
  from Cons.IH [OF rest] obtain rs where rs: "\<And>n. load_records_from X G n (Some (grant_record_line_hash X line)) (str_lines rest) = Inr rs"
    "list_all2 (signed_record X C G iss sk now) entries rs" "rest = [] \<or> last rest = nl" by blast
  let ?s = "?r\<lparr>record_signature := hex_encode X (ed_sign C sk m)\<rparr>"
  note shape = braced_codec_line [OF assms(1) [unfolded record_codec_ok_def] line]
  have "load_records_from X G n prev (str_lines buffer) = Inr (?s # rs)" for n
    using shape rs(1) by (simp add: buf record_of_def)
  moreover have "signed_record X C G iss sk now entry ?s"
    unfolding signed_record_def e using m by (auto simp: grant_record_payload_def)
  moreover have "buffer = [] \<or> last buffer = nl" using rs(3) by (auto simp: buf)
  ultimately show ?case using rs(2) by blast
qed

lemma verify_records_iff:
  "verify_grant_records X C G rs trust = Inr () \<longleftrightarrow> (\<forall>r \<in> set rs. record_verifies X C G trust r = Inr ())"
  unfolding verify_grant_records_def by (induction rs) auto

lemma signed_record_verifies:
  assumes "externs_ok X" and "hex_clean X" and "ed_ok C" and "signed_record X C G iss sk now entry r"
    and "btm_get (issuers trust) iss = Some t" and "verifying_key_from_hex X C (TrustedIssuer.public_key t) = Inr (verifying_key C sk)"
  shows "record_verifies X C G trust r = Inr ()"
proof -
  obtain m where m: "framed GRANT_RECORD_DOMAIN (record_body G (grant_record_payload r)) = Inr m"
    "record_signature r = hex_encode X (ed_sign C sk m)" "GrantRecordPayload.issuer r = iss"
    using assms(4) by (auto simp: signed_record_def record_of_def)
  have "signature_from_hex X (record_signature r) = Inr (ed_sign C sk m)"
    unfolding m(2) by (rule signature_encoded [OF assms(1,2)]) (simp add: ed_signature [OF assms(3)])
  then show ?thesis using m assms(5,6) ed_signature [OF assms(3)] by (simp add: record_verifies_def)
qed

section \<open>Properties of the log\<close>

text \<open>An append that reports success: what the file loads to, and how it ends.\<close>

definition at_line_end :: "string option \<Rightarrow> bool" where
  "at_line_end file \<longleftrightarrow> (case file of None \<Rightarrow> True | Some c \<Rightarrow> c = [] \<or> last c = nl)"

lemma append_loads:
  assumes "record_codec_ok G" and "append_grant_records X C G io iss sk entries now file = (file', Inr ())"
    and "load_grant_records X G (outcome_of file) = Inr old" and "at_line_end file"
  shows "\<exists>new. load_grant_records X G (outcome_of file') = Inr (old @ new) \<and>
    list_all2 (signed_record X C G iss sk now) entries new \<and> file' \<noteq> None \<and> at_line_end file'"
proof -
  let ?c = "case file of None \<Rightarrow> [] | Some c \<Rightarrow> c"
  obtain buffer where b: "record_lines X C G iss sk now (last_line_hash X (file_lines file)) entries = Inr buffer"
    and f: "file' = Some (?c @ buffer)"
    using assms(2,3) by (auto simp: append_grant_records_def file_append_def Let_def split: sum.splits prod.splits IoOutcome.splits)
  obtain new where new: "\<And>n. load_records_from X G n (last_line_hash X (file_lines file)) (str_lines buffer) = Inr new"
    "list_all2 (signed_record X C G iss sk now) entries new" "buffer = [] \<or> last buffer = nl"
    using record_lines_load [OF assms(1) b] by blast
  have lines: "str_lines (?c @ buffer) = file_lines file @ str_lines buffer"
    using assms(4) str_lines_append [of ?c buffer]
    by (auto simp: file_lines_def str_lines_def at_line_end_def split: option.splits)
  have "load_records_from X G 0 None (file_lines file) = Inr old"
    using assms(3) by (cases "file") (simp_all add: outcome_of_def file_lines_def)
  then have "load_records_from X G 0 None (file_lines file @ str_lines buffer) = Inr (old @ new)"
    using new(1) by (cases "last_line_hash X (file_lines file)") (simp_all add: load_records_append)
  then have "load_grant_records X G (outcome_of file') = Inr (old @ new)"
    by (simp only: f outcome_of_def option.case load_grant_records.simps lines)
  moreover have "at_line_end file'"
    using assms(4) new(3) by (auto simp: f at_line_end_def last_append split: option.splits)
  ultimately show ?thesis using new(2) f by blast
qed

lemma signed_record_shape:
  "signed_record X C G iss sk now entry r \<Longrightarrow>
     \<exists>prev sig. r = (record_of iss now prev (fst entry) (snd entry))\<lparr>record_signature := sig\<rparr>"
  unfolding signed_record_def by blast

text \<open>
  C22: Extending the grant log keeps it valid. When an append of issuances and revocations to a log
  that loads, verifies and ends at a line feed reports success, the file loads to the old records
  followed by exactly one record for each entry, with its action, grant, source, key, ceiling,
  scope, expiry, time and issuer; every record still verifies under the registry that trusts the
  issuer's key, and the file ends at a line feed.
\<close>

theorem grant_append_verifies:
  assumes "externs_ok X" and "hex_clean X" and "ed_ok C" and "record_codec_ok G"
    and "append_grant_records X C G io iss sk entries now file = (file', Inr ())"
    and "load_grant_records X G (outcome_of file) = Inr old" and "verify_grant_records X C G old trust = Inr ()"
    and "at_line_end file"
    and "btm_get (issuers trust) iss = Some t" and "verifying_key_from_hex X C (TrustedIssuer.public_key t) = Inr (verifying_key C sk)"
  shows "\<exists>new. load_grant_records X G (outcome_of file') = Inr (old @ new) \<and>
    verify_grant_records X C G (old @ new) trust = Inr () \<and> file' \<noteq> None \<and> at_line_end file' \<and>
    list_all2 (\<lambda>(act, g) r. \<exists>prev sig. r = (record_of iss now prev act g)\<lparr>record_signature := sig\<rparr>) entries new"
proof -
  obtain new where new: "load_grant_records X G (outcome_of file') = Inr (old @ new)"
    "list_all2 (signed_record X C G iss sk now) entries new" "file' \<noteq> None" "at_line_end file'"
    using append_loads [OF assms(4,5,6,8)] by blast
  have "\<exists>entry. signed_record X C G iss sk now entry r" if "r \<in> set new" for r
    using new(2) that by (metis in_set_conv_nth list_all2_nthD2)
  then have "record_verifies X C G trust r = Inr ()" if "r \<in> set new" for r
    using that signed_record_verifies [OF assms(1-3) _ assms(9,10)] by blast
  then have "verify_grant_records X C G (old @ new) trust = Inr ()"
    using assms(7) by (auto simp: verify_records_iff)
  moreover have "list_all2 (\<lambda>(act, g) r. \<exists>prev sig. r = (record_of iss now prev act g)\<lparr>record_signature := sig\<rparr>) entries new"
    using new(2) by (rule list_all2_mono) (simp add: case_prod_beta signed_record_shape)
  ultimately show ?thesis using new by blast
qed

text \<open>Two chained lists of lines with the same last hash are the same list.\<close>

lemma chain_split:
  assumes "load_records_from X G 0 None (ls @ [l]) = Inr rs" and "\<not> is_blank l"
  obtains r qs where "load_records_from X G 0 None ls = Inr qs" and "parse_record G l = Inr r"
    and "previous_record_hash r = last_line_hash X ls"
  using assms that by (auto simp: load_records_append split: if_splits sum.splits option.splits)

lemma no_blank_hash:
  assumes "\<forall>l \<in> set ls. \<not> is_blank l"
  shows "last_line_hash X ls = (if ls = [] then None else Some (grant_record_line_hash X (last ls)))"
  using assms by (cases ls rule: rev_cases) (simp_all add: last_line_hash_snoc)

lemma chained_lines_eq:
  assumes "externs_ok X" and "load_records_from X G 0 None ls = Inr rs" and "load_records_from X G 0 None ks = Inr qs"
    and "\<forall>l \<in> set ls \<union> set ks. \<not> is_blank l" and "last_line_hash X ls = last_line_hash X ks"
  shows "ls = ks \<or> collision_among (sha256 X) (as_bytes ` set ls) (as_bytes ` set ks)"
  using assms(2-5)
proof (induction ls arbitrary: ks rs qs rule: rev_induct)
  case Nil
  then show ?case by (auto simp: no_blank_hash split: if_splits)
next
  case (snoc l ls)
  then obtain k ks' where ks: "ks = ks' @ [k]" by (cases ks rule: rev_cases) (auto simp: no_blank_hash)
  have nb: "\<not> is_blank l" "\<not> is_blank k" using snoc.prems(3) ks by auto
  obtain r ps where l: "load_records_from X G 0 None ls = Inr ps" "parse_record G l = Inr r"
    "previous_record_hash r = last_line_hash X ls"
    by (rule chain_split [OF snoc.prems(1) nb(1)])
  obtain r' ps' where k: "load_records_from X G 0 None ks' = Inr ps'" "parse_record G k = Inr r'"
    "previous_record_hash r' = last_line_hash X ks'"
    by (rule chain_split [OF snoc.prems(2) [unfolded ks] nb(2)])
  have "hex_encode X (sha256 X (as_bytes l)) = hex_encode X (sha256 X (as_bytes k))"
    using snoc.prems(4) nb by (simp add: ks last_line_hash_snoc grant_record_line_hash_def)
  then have h: "sha256 X (as_bytes l) = sha256 X (as_bytes k)"
    using assms(1) unfolding externs_ok_def by (metis option.inject)
  show ?case
  proof (cases "l = k")
    case True
    then have "last_line_hash X ls = last_line_hash X ks'" using l k by simp
    then have "ls = ks' \<or> collision_among (sha256 X) (as_bytes ` set ls) (as_bytes ` set ks')"
      using snoc.IH [OF l(1) k(1)] snoc.prems(3) ks by auto
    then show ?thesis
    proof
      assume "collision_among (sha256 X) (as_bytes ` set ls) (as_bytes ` set ks')"
      then have "collision_among (sha256 X) (as_bytes ` set (ls @ [l])) (as_bytes ` set ks)"
        by (rule collision_among_mono) (auto simp: ks)
      then show ?thesis ..
    qed (simp add: True ks)
  next
    case False
    then show ?thesis using h by (auto simp: collision_among_def ks as_bytes_inj)
  qed
qed

lemma load_prefix:
  assumes "load_records_from X G 0 None ls = Inr rs"
  shows "\<exists>qs. load_records_from X G 0 None (take n ls) = Inr qs"
  using assms load_records_append [of X G 0 None "take n ls" "drop n ls"]
  by (cases "load_records_from X G 0 None (take n ls)") simp_all

lemma last_take_nth: "0 < n \<Longrightarrow> n \<le> length xs \<Longrightarrow> last (take n xs) = xs ! (n - 1)"
  by (subst last_conv_nth) auto

text \<open>One line hash commits to the lines before it, up to a collision.\<close>

lemma grant_log_prefix:
  assumes "externs_ok X"
    and "grant_log_line_hashes X G (Contents c) = Inr (Some old)" and "grant_log_line_hashes X G (Contents d) = Inr (Some current)"
    and "old \<noteq> []" and "length old \<le> length current" and "current ! (length old - 1) = last old"
  shows "take (length old) (filter (\<lambda>l. \<not> is_blank l) (str_lines d)) = filter (\<lambda>l. \<not> is_blank l) (str_lines c) \<or>
    collision_among (sha256 X) (as_bytes ` set (str_lines d)) (as_bytes ` set (str_lines c))"
proof -
  let ?d = "filter (\<lambda>l. \<not> is_blank l) (str_lines d)" and ?c = "filter (\<lambda>l. \<not> is_blank l) (str_lines c)"
  let ?t = "take (length old) ?d"
  from assms(2,3) obtain rs qs where ld: "load_records_from X G 0 None (str_lines c) = Inr rs"
    "load_records_from X G 0 None (str_lines d) = Inr qs"
    and old: "old = map (grant_record_line_hash X) ?c" and cur: "current = map (grant_record_line_hash X) ?d"
    by (auto simp: grant_log_line_hashes_def)
  have c: "load_records_from X G 0 None ?c = Inr rs" using load_records_filter [OF ld(1)] .
  obtain ts where t: "load_records_from X G 0 None ?t = Inr ts"
    using load_prefix [OF load_records_filter [OF ld(2)]] by blast
  have nb: "\<forall>l \<in> set ?t \<union> set ?c. \<not> is_blank l" by (auto dest: in_set_takeD)
  have len: "0 < length old" "length old \<le> length ?d" "?c \<noteq> []" using assms(4,5) old cur by auto
  then have "last ?t = ?d ! (length old - 1)" "?t \<noteq> []"
    using last_take_nth [of "length old" ?d] by auto
  moreover have "grant_record_line_hash X (?d ! (length old - 1)) = grant_record_line_hash X (last ?c)"
  proof -
    have "length old - 1 < length ?d" using len by linarith
    then have "current ! (length old - 1) = grant_record_line_hash X (?d ! (length old - 1))" unfolding cur by (rule nth_map)
    moreover have "last old = grant_record_line_hash X (last ?c)" using len(3) by (simp add: old last_map)
    ultimately show ?thesis using assms(6) by simp
  qed
  ultimately have eq: "grant_record_line_hash X (last ?t) = grant_record_line_hash X (last ?c)" "?t \<noteq> []" by (simp_all only: not_False_eq_True)
  have ts: "\<forall>l \<in> set ?t. \<not> is_blank l" and cs: "\<forall>l \<in> set ?c. \<not> is_blank l" using nb by blast+
  have h: "last_line_hash X ?t = last_line_hash X ?c"
    unfolding no_blank_hash [OF ts] no_blank_hash [OF cs] if_not_P [OF eq(2)] if_not_P [OF len(3)] eq(1) ..
  have "set ?t \<subseteq> set (str_lines d)" "set ?c \<subseteq> set (str_lines c)" using set_take_subset [of "length old" ?d] by auto
  from chained_lines_eq [OF assms(1) t c nb h] collision_among_mono [OF _ image_mono image_mono, OF _ this]
  show ?thesis by blast
qed

section \<open>Entitlement decided\<close>

text \<open>The last issuance of a list of records, with the records after it.\<close>

fun last_issuance :: "GrantRecord list \<Rightarrow> (GrantRecord \<times> GrantRecord list) option" where
  "last_issuance [] = None"
| "last_issuance (r # rs) = (case last_issuance rs of
      Some x \<Rightarrow> Some x
    | None \<Rightarrow> if action r = Issued then Some (r, rs) else None)"

lemma last_issuance_snoc:
  "last_issuance (rs @ [r]) = (if action r = Issued then Some (r, [])
     else map_option (\<lambda>(g, later). (g, later @ [r])) (last_issuance rs))"
  by (induction rs) (auto split: option.splits)

lemma entitlement_fold:
  "foldl entitlement_step (None, False) rs = (case last_issuance rs of
      None \<Rightarrow> (None, False)
    | Some (g, later) \<Rightarrow>
        if \<exists>r \<in> set later. GrantRecordPayload.grant_signature r = GrantRecordPayload.grant_signature g
        then (None, True) else (Some g, False))"
proof (induction rs rule: rev_induct)
  case (snoc r rs)
  show ?case
    unfolding foldl_append foldl.simps snoc.IH last_issuance_snoc
    by (cases "last_issuance rs"; cases "action r") (auto simp: entitlement_step_def)
qed simp

text \<open>
  Entitlement at write time, declaratively. Among the records of this source and key up to the time
  of the write, in log order: without an issuance the answer is unknown; if a record after the last
  issuance ends that very grant, the write was not entitled; otherwise that grant decides, by its
  expiry, its ceiling and its scope.
\<close>

theorem entitlement_decides:
  "entitlement_at records src pk lvl sj t =
     (case last_issuance (filter (about_write src pk t) records) of
        None \<Rightarrow> UnknownEntitlement
      | Some (g, later) \<Rightarrow>
          if \<exists>r \<in> set later. GrantRecordPayload.grant_signature r = GrantRecordPayload.grant_signature g
          then Unentitled (RevokedBefore t)
          else entitlement_of_grant g lvl sj t)"
  by (auto simp: entitlement_at_def entitlement_fold split: option.split)

section \<open>Revocation, then backfill\<close>

text \<open>What a successful revocation did: it appended one record and dropped the source.\<close>

lemma revoke_appends:
  assumes "revoke_bundle X C G D io bad src now B = (B', Inr ())"
  obtains g sk a where "bundle_grant B src = Inr g" and "SourceGrantPayload.source (grant g) = src"
    and "append_grant_records X C G io (SourceGrantPayload.issuer (grant g)) sk [(Revoked, g)] now (log_file B) = (log_file B', Inr ())"
    and "bundle_grants B' = bundle_grants B" and "active_grants B' = Inr (Some a)"
    and "src \<notin> fst ` set (ActiveSourceGrants.sources a)"
proof (cases "revoke_checked X C D B src")
  case (Inr x)
  obtain g sk where x: "x = (g, sk)" by (cases x)
  have g: "bundle_grant B src = Inr g" "SourceGrantPayload.source (grant g) = src"
    using Inr by (auto simp: x revoke_checked_def split: if_splits)
  from assms Inr x show ?thesis
    by (auto simp: revoke_bundle_def Let_def without_source_def
        intro!: that [OF g] split: sum.splits prod.splits option.splits)
qed (use assms in \<open>simp add: revoke_bundle_def\<close>)

lemma backfill_one:
  assumes "backfill_grant_log X C G D io clk B = (B', Inr counts)" and "bundle_grants B = [Inr g]"
    and "has_issued_record X G (log_file B) (SignedSourceGrant.signature g) = Inr False"
  obtains sk where "counts = (1, 0)" and "active_grants B' = active_grants B"
    and "append_grant_records X C G (io 0) (SourceGrantPayload.issuer (grant g)) sk [(Issued, g)] (clk 0) (log_file B) = (log_file B', Inr ())"
  using assms
  by (auto simp: backfill_grant_log_def backfill_checked_def split: sum.splits prod.splits if_splits)

text \<open>
  C37: A backfill undoes a revocation of a grant older than the grant log. Let a source's grant have no
  \<open>issued\<close> record; revoke it, successfully, and backfill the log. The backfill takes the grant file,
  which revocation leaves in the bundle, for a current grant and records an issuance after the
  revocation: from that moment on the log entitles the source to everything the revoked grant
  allowed, while the active-grant registry no longer names the source.
\<close>

theorem backfill_reinstates_revoked:
  assumes "record_codec_ok G" and "at_line_end (log_file B)"
    and "bundle_grants B = [Inr g]" and "bundle_grant B src = Inr g"
    and "has_issued_record X G (log_file B) (SignedSourceGrant.signature g) = Inr False"
    and "revoke_bundle X C G D io bad src now B = (B1, Inr ())"
    and "backfill_grant_log X C G D io' clk B1 = (B2, Inr counts)" and "sint (clk 0) \<le> sint t"
  shows "\<exists>rs a. load_grant_records X G (outcome_of (log_file B2)) = Inr rs \<and>
    entitlement_at rs src (SourceGrantPayload.public_key (grant g)) lvl sj t =
      entitlement_of_grant (record_of (SourceGrantPayload.issuer (grant g)) (clk 0) None Issued g) lvl sj t \<and>
    active_grants B2 = Inr (Some a) \<and> src \<notin> fst ` set (ActiveSourceGrants.sources a)"
proof -
  from assms(5) obtain old where old: "load_grant_records X G (outcome_of (log_file B)) = Inr old"
    "\<forall>r \<in> set old. action r = Issued \<longrightarrow> GrantRecordPayload.grant_signature r \<noteq> SignedSourceGrant.signature g"
    by (auto simp: has_issued_record_def)
  obtain g' sk a where r: "bundle_grant B src = Inr g'" "SourceGrantPayload.source (grant g') = src"
    "append_grant_records X C G io (SourceGrantPayload.issuer (grant g')) sk [(Revoked, g')] now (log_file B) = (log_file B1, Inr ())"
    "bundle_grants B1 = bundle_grants B" "active_grants B1 = Inr (Some a)" "src \<notin> fst ` set (ActiveSourceGrants.sources a)"
    by (rule revoke_appends [OF assms(6)])
  have g: "g' = g" using r(1) assms(4) by simp
  obtain r1 where r1: "load_grant_records X G (outcome_of (log_file B1)) = Inr (old @ [r1])"
    "signed_record X C G (SourceGrantPayload.issuer (grant g)) sk now (Revoked, g) r1" "at_line_end (log_file B1)"
    using append_loads [OF assms(1) r(3) [unfolded g] old(1) assms(2)] by (auto simp: list_all2_Cons1)
  have "has_issued_record X G (log_file B1) (SignedSourceGrant.signature g) = Inr False"
    using r1(2) old(2) by (auto simp: has_issued_record_def r1(1) signed_record_def record_of_def)
  from backfill_one [OF assms(7) _ this] obtain sk' where b: "active_grants B2 = active_grants B1"
    "append_grant_records X C G (io' 0) (SourceGrantPayload.issuer (grant g)) sk' [(Issued, g)] (clk 0) (log_file B1) = (log_file B2, Inr ())"
    using r(4) assms(3) by auto
  obtain r2 where r2: "load_grant_records X G (outcome_of (log_file B2)) = Inr ((old @ [r1]) @ [r2])"
    "signed_record X C G (SourceGrantPayload.issuer (grant g)) sk' (clk 0) (Issued, g) r2"
    using append_loads [OF assms(1) b(2) r1(1,3)] by (auto simp: list_all2_Cons1)
  have "about_write src (SourceGrantPayload.public_key (grant g)) t r2" "action r2 = Issued"
    using r2(2) r(2) g assms(8) by (auto simp: signed_record_def record_of_def about_write_def)
  then have "entitlement_at ((old @ [r1]) @ [r2]) src (SourceGrantPayload.public_key (grant g)) lvl sj t = entitlement_of_grant r2 lvl sj t"
    by (simp add: entitlement_at_def entitlement_step_def)
  also have "\<dots> = entitlement_of_grant (record_of (SourceGrantPayload.issuer (grant g)) (clk 0) None Issued g) lvl sj t"
    using r2(2) by (auto simp: signed_record_def record_of_def entitlement_of_grant_def)
  finally show ?thesis using r2(1) b(1) r(5,6) by auto
qed

section \<open>Witnesses\<close>

definition sample_trust :: TrustedIssuers where
  "sample_trust = \<lparr>issuers = [(''ops'', \<lparr>TrustedIssuer.public_key = hex_bytes (replicate 32 1)\<rparr>)]\<rparr>"

definition sample_at :: "GrantAction \<Rightarrow> i64" where
  "sample_at act = (case act of Revoked \<Rightarrow> 3 | Issued \<Rightarrow> 5)"

definition sample_previous :: "GrantAction \<Rightarrow> string option" where
  "sample_previous act = (case act of Revoked \<Rightarrow> None | Issued \<Rightarrow> Some (grant_record_line_hash sample_externs ''{r}''))"

definition sample_line :: "GrantAction \<Rightarrow> string" where
  "sample_line act = (case act of Revoked \<Rightarrow> ''{r}'' | Issued \<Rightarrow> ''{}'')"

definition sample_record :: "GrantAction \<Rightarrow> GrantRecord" where
  "sample_record act = (record_of ''ops'' (sample_at act) (sample_previous act) act sample_grant)
     \<lparr>record_signature := hex_encode sample_externs (ed_sign toy_ed (replicate 32 1) (GRANT_RECORD_DOMAIN @ to_be_bytes 0))\<rparr>"

definition sample_records :: RecordCodec where
  "sample_records = \<lparr>
     record_line = (\<lambda>r. if r = sample_record (action r) then Inr (sample_line (action r)) else Inl []),
     parse_record = (\<lambda>l. if l = ''{r}'' then Inr (sample_record Revoked) else if l = ''{}'' then Inr (sample_record Issued) else Inl []),
     record_body = (\<lambda>_. Inr [])\<rparr>"

lemma sample_records_ok: "record_codec_ok sample_records"
proof -
  have "\<exists>body. sample_line act = CHR 0x7B # body @ [CHR 0x7D] \<and> nl \<notin> set body" for act
    by (cases act) (auto simp: sample_line_def nl_def intro: exI [of _ "''r''"] exI [of _ "''''"])
  moreover have "parse_record sample_records (sample_line act) = Inr (sample_record act)" for act
    by (cases act) (simp_all add: sample_line_def sample_records_def)
  ultimately show ?thesis
    unfolding record_codec_ok_def braced_codec_def by (auto simp: sample_records_def split: if_splits)
qed

lemma sample_record_fields:
  "action (sample_record act) = act" "previous_record_hash (sample_record act) = sample_previous act"
  by (simp_all add: sample_record_def record_of_def)

lemma sample_lines:
  "record_lines sample_externs toy_ed sample_records ''ops'' (replicate 32 1) (sample_at act) (sample_previous act)
     [(act, sample_grant)] = Inr (sample_line act @ [nl])"
proof -
  let ?r = "record_of ''ops'' (sample_at act) (sample_previous act) act sample_grant"
  have "framed GRANT_RECORD_DOMAIN (record_body sample_records (grant_record_payload ?r)) = Inr (GRANT_RECORD_DOMAIN @ to_be_bytes 0)"
    by (simp add: sample_records_def framed_Inr)
  moreover have "record_line sample_records (?r\<lparr>record_signature := hex_encode sample_externs
      (ed_sign toy_ed (replicate 32 1) (GRANT_RECORD_DOMAIN @ to_be_bytes 0))\<rparr>) = Inr (sample_line act)"
    unfolding sample_record_def [symmetric] by (simp add: sample_records_def sample_record_fields)
  ultimately show ?thesis by (simp add: Let_def)
qed

lemma sample_str_lines:
  "str_lines (''{r}'' @ [nl]) = [''{r}'']" "str_lines (''{r}'' @ [nl] @ ''{}'' @ [nl]) = [''{r}'', ''{}'']"
  "\<not> is_blank ''{r}''" "\<not> is_blank ''{}''"
  by code_simp+

lemma sample_load:
  "load_grant_records sample_externs sample_records (Contents (''{r}'' @ [nl])) = Inr [sample_record Revoked]"
  "load_grant_records sample_externs sample_records (Contents (''{r}'' @ [nl] @ ''{}'' @ [nl])) =
     Inr [sample_record Revoked, sample_record Issued]"
  unfolding load_grant_records.simps sample_str_lines(1,2)
  by (simp_all add: sample_str_lines(3,4) sample_record_fields sample_previous_def) (simp_all add: sample_records_def sample_record_fields sample_previous_def sample_str_lines(4))

lemma sample_append:
  "append_grant_records sample_externs toy_ed sample_records Written ''ops'' (replicate 32 1) [(Revoked, sample_grant)] 3 None =
     (Some (''{r}'' @ [nl]), Inr ())"
  "append_grant_records sample_externs toy_ed sample_records Written ''ops'' (replicate 32 1) [(Issued, sample_grant)] 5
     (Some (''{r}'' @ [nl])) = (Some (''{r}'' @ [nl] @ ''{}'' @ [nl]), Inr ())"
proof -
  have h: "last_line_hash sample_externs (str_lines (''{r}'' @ [nl])) = sample_previous Issued"
    unfolding sample_str_lines(1) by (simp add: last_line_hash_def sample_str_lines(3) sample_previous_def)
  show "append_grant_records sample_externs toy_ed sample_records Written ''ops'' (replicate 32 1) [(Revoked, sample_grant)] 3 None =
     (Some (''{r}'' @ [nl]), Inr ())"
    using sample_lines [of Revoked]
    by (simp add: append_grant_records_def outcome_of_def file_lines_def file_append_def sample_previous_def sample_at_def
        sample_line_def del: record_lines.simps)
  show "append_grant_records sample_externs toy_ed sample_records Written ''ops'' (replicate 32 1) [(Issued, sample_grant)] 5
     (Some (''{r}'' @ [nl])) = (Some (''{r}'' @ [nl] @ ''{}'' @ [nl]), Inr ())"
    unfolding append_grant_records_def outcome_of_def file_lines_def option.case sample_load(1) sum.case h
    using sample_lines [of Issued] by (simp add: file_append_def sample_at_def sample_line_def del: record_lines.simps)
qed

theorem grant_append_verifies_witness:
  "\<exists>r. load_grant_records sample_externs sample_records (Contents (''{r}'' @ [nl])) = Inr [r] \<and>
     verify_grant_records sample_externs toy_ed sample_records [r] sample_trust = Inr () \<and> action r = Revoked"
proof -
  have "btm_get (issuers sample_trust) ''ops'' = Some \<lparr>TrustedIssuer.public_key = hex_bytes (replicate 32 1)\<rparr>"
    by (simp add: sample_trust_def)
  moreover have "verifying_key_from_hex sample_externs toy_ed (TrustedIssuer.public_key \<lparr>TrustedIssuer.public_key = hex_bytes (replicate 32 1)\<rparr>) =
      Inr (verifying_key toy_ed (replicate 32 1))"
    using sample_keys(1) [of 1] by (simp add: toy_ed_def)
  ultimately obtain new where "load_grant_records sample_externs sample_records (Contents (''{r}'' @ [nl])) = Inr new"
    "verify_grant_records sample_externs toy_ed sample_records new sample_trust = Inr ()"
    using grant_append_verifies [OF sample_externs_ok(1) sample_hex toy_ed_ok sample_records_ok sample_append(1), of "[]" sample_trust]
    by (auto simp: outcome_of_def verify_grant_records_def at_line_end_def)
  then show ?thesis using sample_load(1) sample_record_fields(1) by auto
qed

lemma sample_hashes:
  "grant_log_line_hashes sample_externs sample_records (Contents (''{r}'' @ [nl])) = Inr (Some [grant_record_line_hash sample_externs ''{r}''])"
  "grant_log_line_hashes sample_externs sample_records (Contents (''{r}'' @ [nl] @ ''{}'' @ [nl])) =
     Inr (Some [grant_record_line_hash sample_externs ''{r}'', grant_record_line_hash sample_externs ''{}''])"
  unfolding grant_log_line_hashes_def ReadOutcome.case sample_load sample_str_lines(1,2)
  by (simp_all add: sample_str_lines(3,4))

definition sample_bundle :: "u8 list Bundle" where
  "sample_bundle = \<lparr>bundle_trust = Inr (Some sample_trust), bundle_grant = (\<lambda>_. Inr sample_grant), bundle_grants = [Inr sample_grant],
     issuer_key_exists = True, bundle_key = Inr (replicate 32 1), log_file = None, active_grants = Inr None\<rparr>"

lemma sample_key_trusted:
  "load_issuer_signing_key_matching_trust sample_externs toy_ed (sample_bundle\<lparr>log_file := l, active_grants := a\<rparr>) ''ops'' sample_trust =
     Inr (replicate 32 1)"
  using sample_keys(1) [of 1]
  by (simp add: load_issuer_signing_key_matching_trust_def sample_bundle_def sample_trust_def toy_ed_def)

lemma sample_grant_fields:
  "SourceGrantPayload.source (grant sample_grant) = ''source:a''" "SourceGrantPayload.issuer (grant sample_grant) = ''ops''"
  by (simp_all add: sample_grant_def sample_payload_def)

lemma sample_grant_signed: "verify_grant_signature sample_externs toy_ed sample_host sample_grant sample_trust = Inr ()"
  using sample_vouched by (simp add: grant_signature_ok flip: sample_trust_def)

lemma sample_grant_revoke:
  "revoke_bundle sample_externs toy_ed sample_records sample_host Written None ''source:a'' 3 sample_bundle =
     (sample_bundle\<lparr>log_file := Some (''{r}'' @ [nl]), active_grants := Inr (Some \<lparr>ActiveSourceGrants.sources = []\<rparr>)\<rparr>, Inr ())"
proof -
  have "sample_bundle\<lparr>log_file := None, active_grants := Inr None\<rparr> = sample_bundle" by (simp add: sample_bundle_def)
  then have "load_issuer_signing_key_matching_trust sample_externs toy_ed sample_bundle ''ops'' sample_trust = Inr (replicate 32 1)"
    using sample_key_trusted [of "Inr None" None] by simp
  moreover have "is_ok (SourceId_new ''source:a'')" by code_simp
  ultimately have "revoke_checked sample_externs toy_ed sample_host sample_bundle ''source:a'' = Inr (sample_grant, replicate 32 1)"
    using sample_grant_signed sample_grant_fields by (auto simp: revoke_checked_def sample_bundle_def is_ok_iff)
  then show ?thesis
    using sample_append(1) by (simp add: revoke_bundle_def sample_grant_fields without_source_def) (simp add: sample_bundle_def without_source_def)
qed

lemma sample_backfill:
  "backfill_grant_log sample_externs toy_ed sample_records sample_host (\<lambda>_. Written) (\<lambda>_. 5)
     (sample_bundle\<lparr>log_file := Some (''{r}'' @ [nl]), active_grants := a\<rparr>) =
   (sample_bundle\<lparr>log_file := Some (''{r}'' @ [nl] @ ''{}'' @ [nl]), active_grants := a\<rparr>, Inr (1, 0))"
proof -
  let ?B = "sample_bundle\<lparr>log_file := Some (''{r}'' @ [nl]), active_grants := a\<rparr>"
  have "backfill_checked sample_externs toy_ed sample_host ?B = Inr (sample_trust, [sample_grant])"
    using sample_grant_signed by (simp add: backfill_checked_def sample_bundle_def)
  moreover have "has_issued_record sample_externs sample_records (Some (''{r}'' @ [nl])) s = Inr False" for s
    unfolding has_issued_record_def outcome_of_def option.case sample_load(1) by (simp add: sample_record_fields)
  moreover have "issuer_key_exists ?B" "log_file ?B = Some (''{r}'' @ [nl])" by (simp_all add: sample_bundle_def)
  ultimately show ?thesis
    using sample_append(2) sample_key_trusted by (simp add: backfill_grant_log_def sample_grant_fields)
qed

theorem backfill_reinstates_revoked_witness:
  "\<exists>rs. load_grant_records sample_externs sample_records (Contents (''{r}'' @ [nl] @ ''{}'' @ [nl])) = Inr rs \<and>
     entitlement_at rs ''source:a'' (SourceGrantPayload.public_key (grant sample_grant)) High ''repo:x'' 7 = Entitled"
proof -
  have "at_line_end (log_file sample_bundle)" "bundle_grants sample_bundle = [Inr sample_grant]"
    "bundle_grant sample_bundle ''source:a'' = Inr sample_grant"
    "has_issued_record sample_externs sample_records (log_file sample_bundle) (SignedSourceGrant.signature sample_grant) = Inr False"
    by (simp_all add: sample_bundle_def at_line_end_def has_issued_record_def outcome_of_def)
  from backfill_reinstates_revoked [OF sample_records_ok this sample_grant_revoke sample_backfill, of 7 High "''repo:x''"]
  obtain rs where "load_grant_records sample_externs sample_records (outcome_of (Some (''{r}'' @ [nl] @ ''{}'' @ [nl]))) = Inr rs"
    "entitlement_at rs ''source:a'' (SourceGrantPayload.public_key (grant sample_grant)) High ''repo:x'' 7 =
      entitlement_of_grant (record_of ''ops'' 5 None Issued sample_grant) High ''repo:x'' 7"
    by (auto simp: sample_grant_fields)
  moreover have "entitlement_of_grant (record_of ''ops'' 5 None Issued sample_grant) High ''repo:x'' 7 = Entitled"
    by (simp add: entitlement_of_grant_def record_of_def sample_grant_def sample_payload_def)
  ultimately show ?thesis by (simp add: outcome_of_def)
qed

end
