(* ===== verification/Identity_Session.thy ===== *)
theory Identity_Session
  imports Op_Witness Grant_Log
begin

text \<open>
  The operations under signed source identity: the two wrappers of \<open>crates/dent8-cli/src/main.rs\<close>
  that resolve the identity of a write, \<open>enforce_source_identity\<close> (in \<open>Authority_Gate\<close>) and
  \<open>attest_events\<close>, instantiated with the gate and the attestations of \<open>identity.rs\<close> and plugged into
  the environment the operations run in. How an error of \<open>identity.rs\<close> reads is the parameter
  \<open>shown\<close>.
\<close>

section \<open>The identity of a write\<close>

fun sign_as ::
    "'j Externs \<Rightarrow> ('sk, 'vk) Ed25519 \<Rightarrow> Host \<Rightarrow> (IdentityError \<Rightarrow> string) \<Rightarrow> string + IdentityContext \<Rightarrow>
       IdentityContext WriteIdentity \<Rightarrow> FactEvent list \<Rightarrow> string + FactEvent list" where
  "sign_as X C D shown from_env Env es =
     and_then from_env (\<lambda>ctx. map_ok snd (map_err shown (attest_events X C D ctx es)))"
| "sign_as X C D shown from_env (Connection ctx) es = map_ok snd (map_err shown (attest_events X C D ctx es))"
| "sign_as X C D shown from_env Unauthenticated es = Inl UNAUTHENTICATED_WRITE_ERROR"

definition gate_as ::
    "'j Externs \<Rightarrow> ('sk, 'vk) Ed25519 \<Rightarrow> Host \<Rightarrow> (IdentityError \<Rightarrow> string) \<Rightarrow> string + IdentityContext \<Rightarrow>
       IdentityContext WriteIdentity \<Rightarrow> (WriteAuth \<Rightarrow> OpError + unit) \<Rightarrow> TimestampMillis \<Rightarrow> WriteAuth \<Rightarrow> OpError + unit" where
  "gate_as X C D shown from_env i registry_grant now a =
     enforce_write_authority (registry_grant a) from_env (\<lambda>ctx w. map_err shown (enforce_write X C D ctx w now)) a i"

text \<open>The context the identity resolves to.\<close>

fun context_of :: "string + 'i \<Rightarrow> 'i WriteIdentity \<Rightarrow> string + 'i" where
  "context_of from_env Env = from_env"
| "context_of from_env (Connection ctx) = Inr ctx"
| "context_of from_env Unauthenticated = Inl UNAUTHENTICATED_WRITE_ERROR"

lemma sign_as_eq:
  "sign_as X C D shown from_env i es =
     and_then (context_of from_env i) (\<lambda>ctx. map_ok snd (map_err shown (attest_events X C D ctx es)))"
  by (cases i) simp_all

lemma seam_ok:
  "enforce_source_identity from_env check a i = Inr () \<longleftrightarrow> (\<exists>ctx. context_of from_env i = Inr ctx \<and> check ctx a = Inr ())"
  by (cases i) auto

lemma gate_as_ok:
  "gate_as X C D shown from_env i rg now a = Inr () \<longleftrightarrow> rg a = Inr () \<and>
     (\<exists>ctx. context_of from_env i = Inr ctx \<and> enforce_write X C D ctx a now = Inr ())"
  unfolding gate_as_def enforce_write_authority_def and_then_Inr map_err_Inr seam_ok by simp

text \<open>An environment that gates and signs its writes as this identity.\<close>

definition acts_as ::
    "'j Env \<Rightarrow> ('sk, 'vk) Ed25519 \<Rightarrow> Host \<Rightarrow> (IdentityError \<Rightarrow> string) \<Rightarrow> string + IdentityContext \<Rightarrow>
       IdentityContext WriteIdentity \<Rightarrow> bool" where
  "acts_as E C D shown from_env i \<longleftrightarrow> sign E = sign_as (externs E) C D shown from_env i \<and>
     (\<exists>rg now. write_gate E = gate_as (externs E) C D shown from_env i rg now)"

lemma attest_strip:
  assumes "ed_ok C" and "attest_events X C D ctx es = Inr (b, fs)"
  shows "same_but_attested es fs"
proof (cases b)
  case True
  have "attest_events X C D ctx es = Inr (True, fs)" using assms(2) True by simp
  then obtain g sk p where "context_grant D ctx = Inr g"
    and "verifying_key_from_hex X C (SourceGrantPayload.public_key (grant g)) = Inr (verifying_key C sk)"
    and a: "try_map (attest_event X C (SourceGrantPayload.public_key (grant g)) sk) es = Inr fs"
    and "configured D ctx" and "identity_key_path ctx = Some p" and "load_signing_key X C D p = Inr sk"
    by (rule attest_events_Inr [OF assms(1)])
  from a have "list_all2 (\<lambda>e e'. attest_event X C (SourceGrantPayload.public_key (grant g)) sk e = Inr e') es fs"
    by (simp only: try_map_all2)
  then have "map strip_attestation fs = map strip_attestation es"
    by (induction rule: list_all2_induct) (auto dest: attest_event_strip)
  then show ?thesis by (simp add: same_but_attested_def)
next
  case False
  then show ?thesis using assms(2) by (auto simp: attest_events_def split: if_splits)
qed

lemma acts_attests:
  assumes "ed_ok C" and "acts_as E C D shown from_env i"
  shows "attests_only E"
  using attest_strip [OF assms(1)] assms(2)
  by (auto simp: attests_only_def acts_as_def sign_as_eq)

lemma acts_env_ok:
  "ed_ok C \<Longrightarrow> acts_as E C D shown from_env i \<Longrightarrow> codec_ok (codec E) \<Longrightarrow> whole_writes E \<Longrightarrow> env_ok E"
  by (simp add: env_ok_def acts_attests)

text \<open>What is signed under a configured identity verifies, by the key of the grant.\<close>

definition vouched :: "'j Externs \<Rightarrow> ('sk, 'vk) Ed25519 \<Rightarrow> FactEvent \<Rightarrow> bool" where
  "vouched X C e \<longleftrightarrow> verify_event_attestation X C e = Inr True \<and>
     (\<exists>D ctx g. configured D ctx \<and> context_grant D ctx = Inr g \<and>
        map_option WriteAttestation.public_key (Provenance.attestation (FactEvent.provenance e)) =
          Some (SourceGrantPayload.public_key (grant g)))"

lemma signed_vouched:
  assumes "externs_ok X" and "hex_clean X" and "ed_ok C" and "context_of from_env i = Inr ctx" and "configured D ctx"
    and "sign_as X C D shown from_env i es = Inr fs"
  shows "\<exists>g. context_grant D ctx = Inr g \<and> (\<forall>e \<in> set fs. verify_event_attestation X C e = Inr True \<and>
    map_option WriteAttestation.public_key (Provenance.attestation (FactEvent.provenance e)) =
      Some (SourceGrantPayload.public_key (grant g)))"
proof -
  obtain b where "attest_events X C D ctx es = Inr (b, fs)" using assms(4,6) by (auto simp: sign_as_eq)
  moreover from this have b using assms(5) by (auto simp: attest_events_def split: if_splits)
  ultimately show ?thesis using attested_batch [OF assms(1-3), of D ctx es fs] by auto
qed

section \<open>Sessions of signed writes\<close>

inductive signed_session :: "'j Externs \<Rightarrow> ('sk, 'vk) Ed25519 \<Rightarrow> Codec \<Rightarrow> World \<Rightarrow> bool" for X C K where
  start: "contents w = None \<Longrightarrow> signed_session X C K w"
| command: "signed_session X C K w \<Longrightarrow> externs E = X \<Longrightarrow> codec E = K \<Longrightarrow> codec_ok K \<Longrightarrow> whole_writes E \<Longrightarrow>
    acts_as E C D shown from_env i \<Longrightarrow> (\<forall>ctx. context_of from_env i = Inr ctx \<longrightarrow> configured D ctx) \<Longrightarrow>
    op_step E w ok w' \<Longrightarrow> signed_session X C K w'"

lemma signed_session_session: "signed_session X C K w \<Longrightarrow> ed_ok C \<Longrightarrow> session X K w"
  by (induction rule: signed_session.induct) (auto intro: session.intros acts_env_ok)


section \<open>Writes without an identity\<close>

lemma no_context:
  assumes "acts_as E C D shown from_env i" and "context_of from_env i = Inl m"
  shows "\<exists>err. write_gate E a = Inl err"
proof -
  obtain rg now where g: "write_gate E = gate_as (externs E) C D shown from_env i rg now"
    using assms(1) by (auto simp: acts_as_def)
  have "write_gate E a \<noteq> Inr ()" unfolding g gate_as_ok using assms(2) by simp
  then show ?thesis by (cases "write_gate E a") auto
qed

text \<open>
  C25: A write without a proven identity does nothing. When the identity of a command does not resolve,
  as for a daemon connection that has not completed its handshake, no operation touches the world:
  none reads the log or the clock, none writes, and the only success is a record of no retrievals.
\<close>

theorem unauthenticated_writes_nothing:
  assumes "acts_as E C D shown from_env i" and "context_of from_env i = Inl m" and "op_step E w ok w'"
  shows "w' = w"
proof -
  from no_context [OF assms(1,2)] obtain err where "\<And>a. write_gate E a = Inl (err a)" by metis
  then have closed: "gate_op E a = (\<lambda>w. (w, Inl (Fail (err a))))" for a
    by (intro ext) (simp add: gate_op_def op_lift_def)
  note ops = op_assert_def op_derive_def op_supersede_def op_retract_def op_contradict_def op_reinforce_def op_expire_def
    op_used_in_decision_def build_per_incumbent_def op_record_retrievals_def
  from assms(3) show ?thesis
  proof (cases rule: op_step.cases)
    case (retrieving refs p lvl src r)
    then show ?thesis
      by (cases refs) (auto simp: ops op_bind_def closed op_fail_def op_return_def Let_def split: if_splits)
  qed (auto simp: ops op_bind_def closed op_fail_def Let_def split: if_splits)
qed

section \<open>A signed assertion, end to end\<close>

lemma assert_gated:
  assumes "op_assert E sk key pred v lvl src va w = (w', Inr msg)"
  shows "write_gate E (write_auth sk key lvl src) = Inr ()"
  using assms by (cases "write_gate E (write_auth sk key lvl src)")
    (auto simp: op_assert_def op_bind_def gate_op_def op_lift_def)

text \<open>
  C14: An accepted assertion under signed identity is what its grant allows. The log gains exactly one
  event: the claim of the request, with an attestation that verifies under the key of the configured
  grant; a trusted issuer signed that grant; it names the source of the event, its ceiling is not
  below the authority of the event and its scope covers the subject of the event. So from the moment
  the grant is in force, and while it has not expired at the time the event records, an issuance
  record of that grant makes the event entitled.
\<close>

theorem signed_assertion_is_granted:
  assumes "externs_ok (externs E)" and "hex_clean (externs E)" and "ed_ok C"
    and "codec_ok (codec E)" and "whole_writes E" and "session (externs E) (codec E) w"
    and "acts_as E C D shown from_env i" and "context_of from_env i = Inr ctx" and "configured D ctx"
    and "op_assert E sk key pred v lvl src va w = (w', Inr msg)"
  shows "\<exists>e trust g. log_in E w' = log_in E w @ [e] \<and> fresh_claim sk key pred v lvl src va e \<and>
    verify_event_attestation (externs E) C e = Inr True \<and>
    map_option WriteAttestation.public_key (Provenance.attestation (FactEvent.provenance e)) =
      Some (SourceGrantPayload.public_key (grant g)) \<and>
    load_trust_at D (trust_path ctx) True = Inr (Some trust) \<and> context_grant D ctx = Inr g \<and>
    issuer_vouches (externs E) C D trust g \<and> SourceGrantPayload.source (grant g) = source_str (event_source e) \<and>
    event_level e \<le> SourceGrantPayload.max_authority (grant g) \<and>
    scope_covers (SourceGrantPayload.scope (grant g)) (sk @ '':'' @ key) \<and>
    (\<not> past_expiry (SourceGrantPayload.expires_at_ms (grant g)) (Provenance.recorded_at (FactEvent.provenance e)) \<longrightarrow>
     entitlement_of_grant (record_of iss t previous Issued g) (event_level e) (sk @ '':'' @ key)
       (as_unix_millis (Provenance.recorded_at (FactEvent.provenance e))) = Entitled)"
proof -
  have env: "env_ok E" by (rule acts_env_ok [OF assms(3,7,4,5)])
  note inv = session_log [OF assms(6)]
  from triple_Inr [OF assert_policed [OF env] _ assms(10)]
  obtain rc where "commits E (contents w) (policed E (contents w) (fresh_claim sk key pred v lvl src va) rc) w'"
    by (auto simp: at_def)
  then obtain e where cw: "committed E (contents w) [e] w'" and e: "fresh_claim sk key pred v lvl src va e"
    by (auto simp: commits_def policed_def)
  from env inv(2) cw obtain fs where fs: "sign E [e] = Inr fs" "log_in E w' = log_in E w @ fs" by (rule committed_signed)
  have "same_but_attested [e] fs" using fs(1) env by (auto simp: env_ok_def attests_only_def)
  then obtain f where f: "fs = [f]" "strip_attestation f = strip_attestation e" by (cases fs) (auto simp: same_but_attested_def)
  have claim: "fresh_claim sk key pred v lvl src va f" by (rule claim_stripped [OF e f(2)])
  have "sign_as (externs E) C D shown from_env i [e] = Inr fs" using fs(1) assms(7) by (simp add: acts_as_def)
  from signed_vouched [OF assms(1-3,8,9) this] f(1) obtain g where g: "context_grant D ctx = Inr g"
    "verify_event_attestation (externs E) C f = Inr True"
    "map_option WriteAttestation.public_key (Provenance.attestation (FactEvent.provenance f)) =
      Some (SourceGrantPayload.public_key (grant g))" by auto
  obtain rg now where "write_gate E = gate_as (externs E) C D shown from_env i rg now" using assms(7) by (auto simp: acts_as_def)
  with assert_gated [OF assms(10)] assms(8) have "enforce_write (externs E) C D ctx (write_auth sk key lvl src) now = Inr ()"
    by (simp add: gate_as_ok)
  then obtain trust where gate: "load_trust_at D (trust_path ctx) True = Inr (Some trust)" "issuer_vouches (externs E) C D trust g"
    "SourceGrantPayload.source (grant g) = src" "lvl \<le> SourceGrantPayload.max_authority (grant g)"
    "scope_covers (SourceGrantPayload.scope (grant g)) (sk @ '':'' @ key)"
    using g(1) assms(9) by (auto simp: enforce_write_iff [OF assms(3)] write_auth_def auth_subject_def)
  have "entitlement_of_grant (record_of iss t previous Issued g) (event_level f) (sk @ '':'' @ key)
       (as_unix_millis (Provenance.recorded_at (FactEvent.provenance f))) = Entitled"
    if "\<not> past_expiry (SourceGrantPayload.expires_at_ms (grant g)) (Provenance.recorded_at (FactEvent.provenance f))"
    using that gate(4,5) claim
    by (auto simp: entitlement_of_grant_def record_of_def past_expiry_def scope_covers_def fresh_claim_def not_less split: option.splits)
  then show ?thesis
    using fs(2) f(1) claim g gate by (intro exI [of _ f] exI [of _ trust] exI [of _ g]) (auto simp: fresh_claim_def)
qed

section \<open>Witnesses\<close>

text \<open>An assertion in an environment that is steady but for its gate and its signer.\<close>

lemma signed_assert_runs:
  assumes "steady E0 now" and E: "E = E0\<lparr>sign := sg, write_gate := gt\<rparr>"
    and "gt (write_auth sk key lvl src) = Inr ()" and "loads E0 L now" and "log_in E0 w = L"
    and "build_assertion (next_id L) sk key pred v src lvl now = Inr e0"
    and "sg [apply_policy_defaults coding_agent (stamp va e0)] = Inr [e]" and "sg [e] = Inr [e]"
    and "admit (externs E0) (store_of E0 L) coding_agent e now = (st', Inr rc)" and "jsonl_buffer (codec E0) [e] = Inr buffer"
  shows "\<exists>x w'. op_assert E sk key pred v lvl src va w = (w', Inr x)"
proof -
  have same: "load_op E = load_op E0" "now_op E = now_op E0"
    by (intro ext; simp add: E load_op_def load_raw_def read_log_def now_op_def)+
  have free: "content_op E es u = (u, Inr es)" "externs E = externs E0" for es u
    using assms(1) by (simp_all add: E content_op_def steady_def)
  have gate: "gate_op E (write_auth sk key lvl src) w = (w, Inr ())" using assms(3) by (simp add: E gate_op_def op_lift_def)
  have signs: "sign_op E [apply_policy_defaults coding_agent (stamp va e0)] u = (u, Inr [e])" for u
    using assms(7) by (simp add: E sign_op_def op_lift_def)
  have writes: "\<exists>u'. write_op E [e] u = (u', Inr [e])" for u
    using assms(1,8,10) by (simp add: E write_op_def write_raw_def append_events_def file_append_def steady_def Let_def)
  obtain u' where "write_op E [e] (next_tick (next_tick w)) = (u', Inr [e])" using writes by blast
  then show ?thesis
    using gate signs assms(9)
    by (simp add: op_assert_def commit_assertion_def op_bind_def op_return_def op_lift_def same free steady_steps [OF assms(1)]
        steady_load [OF assms(1,4,5)] steady_reads [OF assms(4)] steady_names assms(6))
qed

definition plain_event :: FactEvent where
  "plain_event = built_or (sample_assert ''x'' ''x'' Low)
     (build_assertion 0 ''repo'' ''x'' ''p'' ''u'' ''source:a'' Medium (TimestampMillis 5))"

definition attested_event :: FactEvent where
  "attested_event = built_or plain_event
     (attest_event sample_externs toy_ed (SourceGrantPayload.public_key (grant sample_grant)) (replicate 32 2) plain_event)"

lemma plain_built: "build_assertion 0 ''repo'' ''x'' ''p'' ''u'' ''source:a'' Medium (TimestampMillis 5) = Inr plain_event"
  by code_simp

lemma plain_fields:
  "FactEvent.kind plain_event = Asserted"
  "policy_for coding_agent (FactEvent.subject plain_event) (FactEvent.predicate plain_event) = None"
  "stamp no_validity plain_event = plain_event"
  by code_simp+

lemma attested_built:
  "attest_event sample_externs toy_ed (SourceGrantPayload.public_key (grant sample_grant)) (replicate 32 2) plain_event = Inr attested_event"
  "strip_attestation attested_event = strip_attestation plain_event"
proof -
  show a: "attest_event sample_externs toy_ed (SourceGrantPayload.public_key (grant sample_grant)) (replicate 32 2) plain_event = Inr attested_event"
    using sample_attested [of "SourceGrantPayload.public_key (grant sample_grant)" "replicate 32 2" plain_event]
    by (auto simp: attested_event_def built_or_def)
  show "strip_attestation attested_event = strip_attestation plain_event" by (rule attest_event_strip [OF a])
qed

lemma plain_any_attestation:
  fixes a :: "WriteAttestation option"
  defines "e \<equiv> plain_event\<lparr>FactEvent.provenance := (FactEvent.provenance plain_event)\<lparr>Provenance.attestation := a\<rparr>\<rparr>"
  shows "event_str (event_id e) = ''event:0''" "FactEvent.kind e = Asserted"
    "policy_for coding_agent (FactEvent.subject e) (FactEvent.predicate e) = None"
    "exceeds (ceiling_ms (effective_ceiling coding_agent None)) (bounded_ttl_ms e) = None"
    "log_admits [] [e]"
  unfolding e_def by code_simp+

lemma attested_fields:
  "event_str (event_id attested_event) = ''event:0''" "FactEvent.kind attested_event = Asserted"
  "policy_for coding_agent (FactEvent.subject attested_event) (FactEvent.predicate attested_event) = None"
  "exceeds (ceiling_ms (effective_ceiling coding_agent None)) (bounded_ttl_ms attested_event) = None"
  "log_admits [] [attested_event]"
proof -
  obtain a where "attested_event = plain_event\<lparr>FactEvent.provenance := (FactEvent.provenance plain_event)\<lparr>Provenance.attestation := a\<rparr>\<rparr>"
    using attest_event_Inr [OF attested_built(1)] by blast
  note e = this
  show "event_str (event_id attested_event) = ''event:0''" "FactEvent.kind attested_event = Asserted"
    "policy_for coding_agent (FactEvent.subject attested_event) (FactEvent.predicate attested_event) = None"
    "exceeds (ceiling_ms (effective_ceiling coding_agent None)) (bounded_ttl_ms attested_event) = None"
    "log_admits [] [attested_event]"
    unfolding e by (rule plain_any_attestation)+
qed

lemma sample_signs:
  "sign_as sample_externs toy_ed sample_host shown (Inr sample_context) Env [plain_event] = Inr [attested_event]"
  "sign_as sample_externs toy_ed sample_host shown (Inr sample_context) Env [attested_event] = Inr [attested_event]"
proof -
  have key: "verifying_key_from_hex sample_externs toy_ed (SourceGrantPayload.public_key (grant sample_grant)) = Inr (replicate 32 2)"
    using sample_keys(1) [of 2] by (simp add: sample_grant_def sample_payload_def)
  have "attest_events sample_externs toy_ed sample_host sample_context es = map_ok (Pair True)
      (try_map (attest_event sample_externs toy_ed (SourceGrantPayload.public_key (grant sample_grant)) (replicate 32 2)) es)" for es
    using sample_loads sample_keys(2) key
    by (simp add: attest_events_def require_identity_key_path_def toy_ed_def flip: context_grant_def)
  then show "sign_as sample_externs toy_ed sample_host shown (Inr sample_context) Env [plain_event] = Inr [attested_event]"
    and "sign_as sample_externs toy_ed sample_host shown (Inr sample_context) Env [attested_event] = Inr [attested_event]"
    using attested_built(1) attest_event_again [OF attested_built(1)] by simp_all
qed

lemma sample_gate:
  "gate_as sample_externs toy_ed sample_host shown (Inr sample_context) Env (\<lambda>_. Inr ()) (TimestampMillis 5)
     (write_auth ''repo'' ''x'' Medium ''source:a'') = Inr ()"
proof -
  have "enforce_write sample_externs toy_ed sample_host sample_context (write_auth ''repo'' ''x'' Medium ''source:a'') (TimestampMillis 5) = Inr ()"
    unfolding enforce_write_iff [OF toy_ed_ok]
    using sample_loads sample_vouched sample_keys(1) [of 2] sample_keys(2)
    by (auto simp: key_held_def verify_active_grant_if_configured_def write_auth_def sample_grant_def sample_payload_def
        scope_covers_def auth_subject_def past_expiry_def toy_ed_def level_order)
  then show ?thesis by (simp add: gate_as_ok)
qed

definition signed_env :: "string Env" where
  "signed_env = (sample_env [attested_event] NotPresent)
     \<lparr>sign := sign_as sample_externs toy_ed sample_host (\<lambda>_. ''no'') (Inr sample_context) Env,
      write_gate := gate_as sample_externs toy_ed sample_host (\<lambda>_. ''no'') (Inr sample_context) Env (\<lambda>_. Inr ()) (TimestampMillis 5)\<rparr>"

lemma signed_env_acts:
  "acts_as signed_env toy_ed sample_host (\<lambda>_. ''no'') (Inr sample_context) Env"
  "externs signed_env = sample_externs" "codec signed_env = sample_codec [attested_event]" "whole_writes signed_env"
  by (auto simp: acts_as_def signed_env_def whole_writes_def sample_env_def)

lemma signed_first_run:
  "\<exists>w' x. op_assert signed_env ''repo'' ''x'' ''p'' ''u'' Medium ''source:a'' no_validity empty_world = (w', Inr x)"
proof -
  let ?E = "sample_env [attested_event] NotPresent"
  have ld: "loads ?E [] (TimestampMillis 5)" using sample_hashable [of "[]"] by (simp add: loads_def)
  note st = loads_store(2,3) [OF ld]
  have d: "apply_policy_defaults coding_agent plain_event = plain_event" "apply_policy_defaults coding_agent attested_event = attested_event"
    using plain_fields(1,2) attested_fields(2,3) by (simp_all add: apply_policy_defaults_def)
  have pol: "enforce_policy coding_agent (scan_of (store_of ?E [])) attested_event (TimestampMillis 5) = Inr ()"
    using enforce_asserted [OF _ attested_fields(2) attested_fields(3) [symmetric], of "store_of ?E []"] st(2) log_inv_Nil
      attested_fields(4) by simp
  obtain st' r where a: "append sample_externs (store_of ?E []) attested_event = (st', r)" by force
  have "is_ok r"
    using append_ok_iff [OF st(1) [unfolded sample_env_simps] a] st(2) sample_hashable attested_fields(5) by simp
  then obtain rc where rc: "r = Inr rc" by (auto simp: is_ok_iff)
  have "table_ok [attested_event]" using attested_fields(1) by (simp add: table_ok_def nl_def)
  from table_buffer [OF this, of "[attested_event]"] obtain buffer where
    b: "jsonl_buffer (sample_codec [attested_event]) [attested_event] = Inr buffer" by (auto simp: is_ok_iff)
  have "log_in ?E empty_world = []" using empty_holds [of ?E] by (simp add: holds_def)
  from signed_assert_runs [OF sample_steady [of "[attested_event]" NotPresent] signed_env_def sample_gate ld this, of "''p''" "''u''" plain_event no_validity attested_event st' rc buffer]
  show ?thesis
    using plain_built plain_fields(3) d sample_signs pol a rc b first_reads(1) by (auto simp: admit_def)
qed

lemma signed_codec: "codec_ok (codec signed_env)"
  by (simp add: signed_env_acts sample_codec_ok)

theorem signed_assertion_is_granted_witness:
  "\<exists>w' e g. log_in signed_env w' = [e] \<and> verify_event_attestation sample_externs toy_ed e = Inr True \<and>
     context_grant sample_host sample_context = Inr g \<and> event_level e \<le> SourceGrantPayload.max_authority (grant g)"
proof -
  obtain w' x where run: "op_assert signed_env ''repo'' ''x'' ''p'' ''u'' Medium ''source:a'' no_validity empty_world = (w', Inr x)"
    using signed_first_run by blast
  have s: "session (externs signed_env) (codec signed_env) empty_world" and l: "log_in signed_env empty_world = []"
    using empty_holds [of signed_env] by (simp_all add: holds_def)
  note ok = sample_externs_ok(1) sample_hex
  from signed_assertion_is_granted [OF ok [folded signed_env_acts(2)] toy_ed_ok signed_codec signed_env_acts(4) s signed_env_acts(1)
      _ sample_loads(3) run, of "''ops''" 1 None]
  obtain e g where "log_in signed_env w' = [] @ [e]" "verify_event_attestation sample_externs toy_ed e = Inr True"
    "context_grant sample_host sample_context = Inr g" "event_level e \<le> SourceGrantPayload.max_authority (grant g)"
    unfolding l signed_env_acts(2) by auto
  then show ?thesis by (intro exI [of _ w'] exI [of _ e] exI [of _ g]) simp
qed


theorem unauthenticated_writes_nothing_witness:
  "\<exists>(E :: string Env) w r. acts_as E toy_ed sample_host (\<lambda>_. ''no'') (Inl ''no env'') Unauthenticated \<and>
     op_retract E ''repo'' ''x'' ''p'' Low ''source:a'' empty_world = (w, r) \<and> w = empty_world"
proof -
  let ?E = "signed_env\<lparr>sign := sign_as sample_externs toy_ed sample_host (\<lambda>_. ''no'') (Inl ''no env'') Unauthenticated,
      write_gate := gate_as sample_externs toy_ed sample_host (\<lambda>_. ''no'') (Inl ''no env'') Unauthenticated (\<lambda>_. Inr ()) (TimestampMillis 5)\<rparr>"
  have a: "acts_as ?E toy_ed sample_host (\<lambda>_. ''no'') (Inl ''no env'') Unauthenticated"
    by (auto simp: acts_as_def signed_env_acts)
  obtain w r where o: "op_retract ?E ''repo'' ''x'' ''p'' Low ''source:a'' empty_world = (w, r)" by fastforce
  from unauthenticated_writes_nothing [OF a _ op_step.retracting [OF o]] have "w = empty_world" by simp
  with a o show ?thesis by (intro exI [of _ ?E] exI [of _ w] exI [of _ r] conjI)
qed

end
