(* ===== verification/Witness_Heads.thy ===== *)
theory Witness_Heads
  imports Grant_Log
begin

text \<open>
  The witness (\<open>crates/dent8-cli/src/witness.rs\<close>): signed tree heads over the event log and over the
  grant log, appended to two witness logs, re-checked against the current logs and published to
  external sequences. Serialization is the parameter \<open>HeadCodec\<close>; \<open>strict\<close> is
  \<open>VerifyingKey::verify_strict\<close> of the event lane, the grant lane uses \<open>ed_verify\<close>. A file is its
  contents, absent before the first append.
\<close>

type_synonym u32 = "32 word"

section \<open>Heads and their files\<close>

record GrantLogHead =
  record_count :: u64
  head :: "string option"
  signature :: string

record HeadCodec =
  head_line :: "SignedTreeHead \<Rightarrow> string + string"
  parse_head :: "string \<Rightarrow> string + SignedTreeHead"
  grant_head_line :: "GrantLogHead \<Rightarrow> string + string"
  parse_grant_head :: "string \<Rightarrow> string + GrantLogHead"
  grant_head_body :: "u64 \<Rightarrow> string option \<Rightarrow> string + u8 list"

text \<open>The messages of the module, one constructor each.\<close>

datatype WitnessError =
    HeadsUnreadable string string
  | CorruptHead nat string
  | HeadUnserializable string
  | HeadNotWritten string
  | EventsNotLoaded string
  | KeyNotLoaded string
  | HeadNotSigned CanonError
  | GrantsNotLoaded GrantLogError
  | GrantHeadNotSigned IdentityError
  | NoSignedHeads
  | NoPublishedHeads string

definition GRANT_LOG_HEAD_DOMAIN :: "u8 list" where
  "GRANT_LOG_HEAD_DOMAIN = as_bytes ''dent8.grant-log-head.v1'' @ [0]"

definition MAX_CONSECUTIVE_ERRORS :: u32 where
  "MAX_CONSECUTIVE_ERRORS = 10"

text \<open>The lines of a file of heads; blank lines are skipped, a bad line is an error.\<close>

fun load_head_lines :: "(string \<Rightarrow> string + 'h) \<Rightarrow> nat \<Rightarrow> string list \<Rightarrow> WitnessError + 'h list" where
  "load_head_lines parse n [] = Inr []"
| "load_head_lines parse n (l # ls) =
     (if is_blank l then load_head_lines parse (Suc n) ls
      else and_then (map_err (CorruptHead (n + 1)) (parse l)) (\<lambda>h.
        map_ok (\<lambda>hs. h # hs) (load_head_lines parse (Suc n) ls)))"

definition load_head_file :: "(string \<Rightarrow> string + 'h) \<Rightarrow> string \<Rightarrow> bool \<Rightarrow> ReadOutcome \<Rightarrow> WitnessError + 'h list" where
  "load_head_file parse label missing_is_empty r = (case r of
      Contents c \<Rightarrow> load_head_lines parse 0 (str_lines c)
    | NotFound \<Rightarrow> if missing_is_empty then Inr [] else Inl (HeadsUnreadable label ''not found'')
    | ReadError e \<Rightarrow> Inl (HeadsUnreadable label e))"

definition load_signed_heads :: "HeadCodec \<Rightarrow> string \<Rightarrow> bool \<Rightarrow> ReadOutcome \<Rightarrow> WitnessError + SignedTreeHead list" where
  "load_signed_heads H = load_head_file (parse_head H)"

definition load_witness_log :: "HeadCodec \<Rightarrow> ReadOutcome \<Rightarrow> WitnessError + SignedTreeHead list" where
  "load_witness_log H = load_signed_heads H ''witness log'' True"

definition load_grant_log_heads :: "HeadCodec \<Rightarrow> string \<Rightarrow> bool \<Rightarrow> ReadOutcome \<Rightarrow> WitnessError + GrantLogHead list" where
  "load_grant_log_heads H = load_head_file (parse_grant_head H)"

definition append_line :: "string \<Rightarrow> IoOutcome \<Rightarrow> string option \<Rightarrow> string \<Rightarrow> string option \<times> (WitnessError + unit)" where
  "append_line path io file line = (case file_append path io file (line @ [nl]) of
      (file', Inl _) \<Rightarrow> (file', Inl (HeadNotWritten path))
    | (file', Inr _) \<Rightarrow> (file', Inr ()))"

definition append_head ::
    "HeadCodec \<Rightarrow> string \<Rightarrow> IoOutcome \<Rightarrow> string option \<Rightarrow> SignedTreeHead \<Rightarrow> string option \<times> (WitnessError + unit)" where
  "append_head H path io file sth = (case head_line H sth of
      Inl e \<Rightarrow> (file, Inl (HeadUnserializable e))
    | Inr line \<Rightarrow> append_line path io file line)"

section \<open>Verification\<close>

datatype WitnessVerdict = Tamper | Rollback

fun verdict_status :: "WitnessVerdict \<Rightarrow> string" where
  "verdict_status Tamper = ''tamper''"
| "verdict_status Rollback = ''rollback''"

datatype Inconsistency =
    WentBackwards nat u64 u64
  | TruncatedBelow u64 nat
  | RewrittenAt u64
  | GrantHeadUnsigned nat

datatype WitnessFault =
    Detected WitnessVerdict Inconsistency
  | CannotVerify WitnessError
  | CannotHash u64 CanonError
  | CannotCanonicalize IdentityError
  | BadHeadSignature nat

text \<open>
  The loop of \<open>verify_heads\<close>, with the index and the count of the head before. A \<open>u64\<close> fits the
  \<open>usize\<close> of a 64-bit target, so the conversion of the count does not fail.
\<close>

fun verify_heads_from ::
    "'j Externs \<Rightarrow> ('vk \<Rightarrow> u8 list \<Rightarrow> u8 list \<Rightarrow> bool) \<Rightarrow> FactEvent list \<Rightarrow> 'vk \<Rightarrow> nat \<Rightarrow> u64 \<Rightarrow> SignedTreeHead list \<Rightarrow>
       WitnessFault + unit" where
  "verify_heads_from X strict es vk index previous [] = Inr ()"
| "verify_heads_from X strict es vk index previous (sth # hs) =
     (let count = SignedTreeHead.event_count sth in
      if count < previous then Inl (Detected Rollback (WentBackwards index count previous))
      else if length es < unat count then Inl (Detected Rollback (TruncatedBelow count (length es)))
      else case verify_signed_head X strict (take (unat count) es) sth vk of
          Inr True \<Rightarrow> verify_heads_from X strict es vk (Suc index) count hs
        | Inr False \<Rightarrow> Inl (Detected Tamper (RewrittenAt count))
        | Inl e \<Rightarrow> Inl (CannotHash count e))"

definition verify_heads ::
    "'j Externs \<Rightarrow> ('vk \<Rightarrow> u8 list \<Rightarrow> u8 list \<Rightarrow> bool) \<Rightarrow> FactEvent list \<Rightarrow> SignedTreeHead list \<Rightarrow> 'vk \<Rightarrow>
       WitnessFault + unit" where
  "verify_heads X strict es hs vk = verify_heads_from X strict es vk 0 0 hs"

datatype HeadWarning = Shrank u64 | RewrittenSince u64 | NotChecked CanonError

definition prior_head_warning ::
    "'j Externs \<Rightarrow> ('vk \<Rightarrow> u8 list \<Rightarrow> u8 list \<Rightarrow> bool) \<Rightarrow> SignedTreeHead option \<Rightarrow> FactEvent list \<Rightarrow> 'vk \<Rightarrow>
       HeadWarning option" where
  "prior_head_warning X strict previous es vk = Option.bind previous (\<lambda>sth.
     let count = SignedTreeHead.event_count sth in
     if length es < unat count then Some (Shrank count)
     else case verify_signed_head X strict (take (unat count) es) sth vk of
         Inr True \<Rightarrow> None
       | Inr False \<Rightarrow> Some (RewrittenSince count)
       | Inl e \<Rightarrow> Some (NotChecked e))"

section \<open>The lane of the grant log\<close>

definition grant_log_head_message :: "HeadCodec \<Rightarrow> u64 \<Rightarrow> string option \<Rightarrow> IdentityError + u8 list" where
  "grant_log_head_message H count h = framed GRANT_LOG_HEAD_DOMAIN (grant_head_body H count h)"

definition last_opt :: "'a list \<Rightarrow> 'a option" where
  "last_opt xs = (if xs = [] then None else Some (last xs))"

text \<open>The signed head over the line hashes of the grant log, before it is written.\<close>

definition grant_head_of ::
    "'j Externs \<Rightarrow> ('sk, 'vk) Ed25519 \<Rightarrow> HeadCodec \<Rightarrow> 'sk \<Rightarrow> string list \<Rightarrow> IdentityError + GrantLogHead" where
  "grant_head_of X C H sk hashes =
     map_ok (\<lambda>m. \<lparr>record_count = of_nat (length hashes), head = last_opt hashes,
         signature = hex_encode X (ed_sign C sk m)\<rparr>)
       (grant_log_head_message H (of_nat (length hashes)) (last_opt hashes))"

definition sign_grant_log_head ::
    "'j Externs \<Rightarrow> ('sk, 'vk) Ed25519 \<Rightarrow> RecordCodec \<Rightarrow> HeadCodec \<Rightarrow> 'sk \<Rightarrow> ReadOutcome \<Rightarrow> IoOutcome \<Rightarrow> string option \<Rightarrow>
       string option \<times> (WitnessError + GrantLogHead option)" where
  "sign_grant_log_head X C G H sk r io file = (case grant_log_line_hashes X G r of
      Inl e \<Rightarrow> (file, Inl (GrantsNotLoaded e))
    | Inr None \<Rightarrow> (file, Inr None)
    | Inr (Some hashes) \<Rightarrow>
        (case grant_head_of X C H sk hashes of
           Inl e \<Rightarrow> (file, Inl (GrantHeadNotSigned e))
         | Inr h \<Rightarrow>
             (case grant_head_line H h of
                Inl e \<Rightarrow> (file, Inl (HeadUnserializable e))
              | Inr line \<Rightarrow>
                  (case append_line ''grants-witness log'' io file line of
                     (file', Inl e) \<Rightarrow> (file', Inl e)
                   | (file', Inr _) \<Rightarrow> (file', Inr (Some h))))))"

text \<open>
  The wrapper of \<open>serve\<close>. It reads the grant log twice: for the state it compares (\<open>r\<close>), and again
  inside \<open>sign_grant_log_head\<close> (\<open>r'\<close>).
\<close>

definition sign_grant_log_head_if_changed ::
    "'j Externs \<Rightarrow> ('sk, 'vk) Ed25519 \<Rightarrow> RecordCodec \<Rightarrow> HeadCodec \<Rightarrow> 'sk \<Rightarrow> ReadOutcome \<Rightarrow> ReadOutcome \<Rightarrow> IoOutcome \<Rightarrow>
       (u64 \<times> string option) option \<Rightarrow> string option \<Rightarrow>
       (u64 \<times> string option) option \<times> string option \<times> (WitnessError + GrantLogHead option)" where
  "sign_grant_log_head_if_changed X C G H sk r r' io before file = (case grant_log_line_hashes X G r of
      Inl e \<Rightarrow> (before, file, Inl (GrantsNotLoaded e))
    | Inr None \<Rightarrow> (before, file, Inr None)
    | Inr (Some hashes) \<Rightarrow>
        (let state = (of_nat (length hashes), last_opt hashes) in
         if before = Some state then (before, file, Inr None)
         else case sign_grant_log_head X C G H sk r' io file of
             (file', Inl e) \<Rightarrow> (before, file', Inl e)
           | (file', Inr lane) \<Rightarrow> (Some state, file', Inr lane)))"

fun verify_grant_heads_from ::
    "'j Externs \<Rightarrow> ('sk, 'vk) Ed25519 \<Rightarrow> HeadCodec \<Rightarrow> string list \<Rightarrow> 'vk \<Rightarrow> nat \<Rightarrow> u64 \<Rightarrow> GrantLogHead list \<Rightarrow>
       WitnessFault + unit" where
  "verify_grant_heads_from X C H current vk index previous [] = Inr ()"
| "verify_grant_heads_from X C H current vk index previous (h # hs) =
     (let count = record_count h; n = unat count in
      and_then (map_err CannotCanonicalize (grant_log_head_message H count (GrantLogHead.head h))) (\<lambda>m.
      and_then (case hex_decode X (GrantLogHead.signature h) of
            None \<Rightarrow> Inl (BadHeadSignature (index + 1))
          | Some bytes \<Rightarrow> if length bytes = 64 then Inr bytes else Inl (BadHeadSignature (index + 1))) (\<lambda>sg.
      if \<not> ed_verify C vk m sg then Inl (Detected Tamper (GrantHeadUnsigned (index + 1)))
      else if count < previous then Inl (Detected Rollback (WentBackwards (index + 1) count previous))
      else if length current < n then Inl (Detected Rollback (TruncatedBelow count (length current)))
      else if 0 < n \<and> GrantLogHead.head h \<noteq> Some (current ! (n - 1)) then Inl (Detected Tamper (RewrittenAt count))
      else verify_grant_heads_from X C H current vk (Suc index) count hs)))"

definition verify_grant_heads ::
    "'j Externs \<Rightarrow> ('sk, 'vk) Ed25519 \<Rightarrow> HeadCodec \<Rightarrow> GrantLogHead list \<Rightarrow> string list \<Rightarrow> 'vk \<Rightarrow> WitnessFault + nat" where
  "verify_grant_heads X C H hs current vk =
     map_ok (\<lambda>_. length hs) (verify_grant_heads_from X C H current vk 0 0 hs)"

definition current_grant_log_hashes :: "'j Externs \<Rightarrow> RecordCodec \<Rightarrow> ReadOutcome \<Rightarrow> WitnessError + string list" where
  "current_grant_log_hashes X G r =
     map_ok (\<lambda>x. case x of None \<Rightarrow> [] | Some hs \<Rightarrow> hs) (map_err GrantsNotLoaded (grant_log_line_hashes X G r))"

definition verify_grant_log_heads ::
    "'j Externs \<Rightarrow> ('sk, 'vk) Ed25519 \<Rightarrow> RecordCodec \<Rightarrow> HeadCodec \<Rightarrow> ReadOutcome \<Rightarrow> ReadOutcome \<Rightarrow> 'vk \<Rightarrow>
       WitnessFault + nat option" where
  "verify_grant_log_heads X C G H lane r vk =
     (and_then (map_err CannotVerify (load_grant_log_heads H ''grants-witness log'' True lane)) (\<lambda>hs.
      if hs = [] then Inr None
      else and_then (map_err CannotVerify (current_grant_log_hashes X G r)) (\<lambda>current.
        map_ok Some (verify_grant_heads X C H hs current vk))))"

section \<open>Files of heads\<close>

lemma load_head_lines_append:
  "load_head_lines parse n (ls @ ks) =
     and_then (load_head_lines parse n ls) (\<lambda>hs. map_ok (\<lambda>gs. hs @ gs) (load_head_lines parse (n + length ls) ks))"
proof (induction ls arbitrary: n)
  case Nil
  then show ?case by (cases "load_head_lines parse n ks") simp_all
next
  case (Cons l ls)
  show ?case
  proof (cases "is_blank l")
    case False
    then show ?thesis
      by (cases "parse l"; cases "load_head_lines parse (Suc n) ls";
          cases "load_head_lines parse (Suc (n + length ls)) ks") (simp_all add: Cons.IH)
  qed (simp add: Cons.IH)
qed

definition heads_in :: "(string \<Rightarrow> string + 'h) \<Rightarrow> string option \<Rightarrow> 'h list \<Rightarrow> bool" where
  "heads_in parse file hs \<longleftrightarrow> load_head_lines parse 0 (file_lines file) = Inr hs \<and> at_line_end file"

lemma heads_in_load: "heads_in parse file hs \<Longrightarrow> load_head_file parse label True (outcome_of file) = Inr hs"
  by (cases "file") (simp_all add: heads_in_def load_head_file_def outcome_of_def file_lines_def)

lemma heads_in_None: "heads_in parse None hs \<longleftrightarrow> hs = []"
  by (auto simp: heads_in_def file_lines_def at_line_end_def)

lemma append_line_heads:
  assumes "braced_codec emit parse" and "emit h = Inr line" and "heads_in parse file hs"
    and "append_line path io file line = (file', Inr ())"
  shows "heads_in parse file' (hs @ [h])"
proof -
  let ?c = "case file of None \<Rightarrow> [] | Some c \<Rightarrow> c"
  have f: "file' = Some (?c @ line @ [nl])"
    using assms(4) by (auto simp: append_line_def file_append_def Let_def split: IoOutcome.splits)
  note line = braced_codec_line [OF assms(1,2)]
  have "?c = [] \<or> last ?c = nl" using assms(3) by (auto simp: heads_in_def at_line_end_def split: option.splits)
  then have "str_lines (?c @ line @ [nl]) = file_lines file @ [line]"
    using str_lines_append [of ?c "line @ [nl]"] line(1) [of "[]"] by (auto simp: file_lines_def str_lines_def split: option.splits)
  then have "file_lines file' = file_lines file @ [line]" by (simp only: f file_lines_def option.case)
  moreover have "at_line_end file'" by (simp add: f at_line_end_def)
  ultimately show ?thesis
    using assms(3) line(2,3) by (simp add: heads_in_def load_head_lines_append)
qed

lemma append_line_failed:
  "append_line path io file line = (file', Inl e) \<Longrightarrow> (\<forall>k m. io \<noteq> WriteFails k m) \<Longrightarrow> file' = file"
  by (cases io) (auto simp: append_line_def file_append_def Let_def)

lemma append_head_heads:
  assumes "braced_codec (head_line H) (parse_head H)" and "heads_in (parse_head H) file hs"
  shows "append_head H path io file sth = (file', Inr ()) \<Longrightarrow> heads_in (parse_head H) file' (hs @ [sth])"
    and "append_head H path io file sth = (file', Inl e) \<Longrightarrow> (\<forall>k m. io \<noteq> WriteFails k m) \<Longrightarrow> file' = file"
  using append_line_heads [OF assms(1) _ assms(2)] append_line_failed
  by (auto simp: append_head_def split: sum.splits)

section \<open>What verification decides\<close>

definition head_holds ::
    "'j Externs \<Rightarrow> ('vk \<Rightarrow> u8 list \<Rightarrow> u8 list \<Rightarrow> bool) \<Rightarrow> FactEvent list \<Rightarrow> 'vk \<Rightarrow> SignedTreeHead \<Rightarrow> bool" where
  "head_holds X strict es vk sth \<longleftrightarrow> unat (SignedTreeHead.event_count sth) \<le> length es \<and>
     verify_signed_head X strict (take (unat (SignedTreeHead.event_count sth)) es) sth vk = Inr True"

lemma verify_heads_from_iff:
  "verify_heads_from X strict es vk i p hs = Inr () \<longleftrightarrow>
     sorted (p # map SignedTreeHead.event_count hs) \<and> (\<forall>sth \<in> set hs. head_holds X strict es vk sth)"
proof (induction hs arbitrary: i p)
  case (Cons sth hs)
  show ?case
    by (cases "verify_signed_head X strict (take (unat (SignedTreeHead.event_count sth)) es) sth vk")
      (auto simp: Cons.IH Let_def head_holds_def split: bool.splits dest: order_trans)
qed simp

lemma verify_heads_iff:
  "verify_heads X strict es hs vk = Inr () \<longleftrightarrow>
     sorted (map SignedTreeHead.event_count hs) \<and> (\<forall>sth \<in> set hs. head_holds X strict es vk sth)"
  by (simp add: verify_heads_def verify_heads_from_iff)

lemma head_holds_extend: "head_holds X strict es vk sth \<Longrightarrow> head_holds X strict (es @ fs) vk sth"
  by (simp add: head_holds_def)

lemma sign_head_chain: "sign_head X sg es sk = Inr sth \<Longrightarrow>
    chain_head X es = Inr (SignedTreeHead.head sth) \<and> SignedTreeHead.event_count sth = of_nat (length es)"
  by (auto simp: sign_head_def Let_def)

lemma signed_head_holds:
  assumes "externs_ok X" and "ed_ok C" and "keypair_ok (ed_sign C) strict sk vk"
    and "sign_head X (ed_sign C) es sk = Inr sth" and "length es < 2 ^ 64"
  shows "head_holds X strict es vk sth"
  using assms
  by (auto simp: head_holds_def sign_head_def verify_signed_head_def Let_def externs_ok_def keypair_ok_def take_bit_nat_eq_self
      unat_of_nat)

lemma head_holds_chain:
  "head_holds X strict es vk sth \<Longrightarrow>
     chain_head X (take (unat (SignedTreeHead.event_count sth)) es) = Inr (SignedTreeHead.head sth)"
  by (auto simp: head_holds_def verify_signed_head_def Let_def split: if_splits option.splits)

text \<open>
  What passing verification means. A sequence of heads passes exactly when their counts never
  decrease, none exceeds the length of the current log, and each is a true signed head of the prefix
  of that length.
\<close>

theorem verify_heads_decides:
  "verify_heads X strict es hs vk = Inr () \<longleftrightarrow>
     (\<forall>i < length hs. \<forall>j < i. SignedTreeHead.event_count (hs ! j) \<le> SignedTreeHead.event_count (hs ! i)) \<and>
     (\<forall>sth \<in> set hs. unat (SignedTreeHead.event_count sth) \<le> length es \<and>
        verify_signed_head X strict (take (unat (SignedTreeHead.event_count sth)) es) sth vk = Inr True)"
proof -
  have "sorted (map SignedTreeHead.event_count hs) \<longleftrightarrow>
      (\<forall>i < length hs. \<forall>j < i. SignedTreeHead.event_count (hs ! j) \<le> SignedTreeHead.event_count (hs ! i))"
    by (auto simp: sorted_wrt_iff_nth_less)
  then show ?thesis by (simp add: verify_heads_iff head_holds_def)
qed

lemma held_head_keeps:
  assumes "externs_ok X" and "canon_bounded X" and "sign_head X sg old sk = Inr sth" and "length old < 2 ^ 64"
    and "head_holds X strict es vk sth"
  shows "length old \<le> length es \<and>
    (map (canonical_bytes X) (take (length old) es) = map (canonical_bytes X) old \<or>
     collision_among (sha256 X) (set (chain_inputs X (take (length old) es))) (set (chain_inputs X old)))"
proof -
  from sign_head_chain [OF assms(3)] have ch: "chain_head X old = Inr (SignedTreeHead.head sth)"
    and n: "unat (SignedTreeHead.event_count sth) = length old"
    using assms(4) by (auto simp: unat_of_nat take_bit_nat_eq_self)
  have "length old \<le> length es" using assms(5) n by (simp add: head_holds_def)
  moreover have "map (canonical_bytes X) (take (length old) es) = map (canonical_bytes X) old \<or>
     collision_among (sha256 X) (set (chain_inputs X (take (length old) es))) (set (chain_inputs X old))"
    using chain_head_binds [OF assms(1,2) head_holds_chain [OF assms(5)] ch] n by simp
  ultimately show ?thesis ..
qed

text \<open>
  C15: Witnessed history is kept. If a head was signed over an earlier log and the witness sequence that
  contains it passes against the current log, then the current log is at least as long and begins
  with the same canonical events as the earlier one, or the two chains contain a SHA-256 collision.
  No assumption about the signature scheme is needed: truncation and rewriting of history below a
  witnessed point are detected.
\<close>

theorem witnessed_history_kept:
  assumes "externs_ok X" and "canon_bounded X"
    and "sign_head X sg old sk = Inr sth" and "length old < 2 ^ 64"
    and "sth \<in> set hs" and "verify_heads X strict es hs vk = Inr ()"
  shows "length old \<le> length es \<and>
    (map (canonical_bytes X) (take (length old) es) = map (canonical_bytes X) old \<or>
     collision_among (sha256 X) (set (chain_inputs X (take (length old) es))) (set (chain_inputs X old)))"
  using assms(5,6) by (intro held_head_keeps [OF assms(1-4), of strict es vk]) (simp add: verify_heads_iff)

section \<open>Grant history\<close>

definition grant_head_holds ::
    "'j Externs \<Rightarrow> ('sk, 'vk) Ed25519 \<Rightarrow> HeadCodec \<Rightarrow> string list \<Rightarrow> 'vk \<Rightarrow> GrantLogHead \<Rightarrow> bool" where
  "grant_head_holds X C H current vk h \<longleftrightarrow> (\<exists>m sg.
     grant_log_head_message H (record_count h) (GrantLogHead.head h) = Inr m \<and>
     hex_decode X (GrantLogHead.signature h) = Some sg \<and> length sg = 64 \<and> ed_verify C vk m sg) \<and>
     unat (record_count h) \<le> length current \<and>
     (0 < unat (record_count h) \<longrightarrow> GrantLogHead.head h = Some (current ! (unat (record_count h) - 1)))"

lemma verify_grant_heads_from_iff:
  "verify_grant_heads_from X C H current vk i p hs = Inr () \<longleftrightarrow>
     sorted (p # map record_count hs) \<and> (\<forall>h \<in> set hs. grant_head_holds X C H current vk h)"
proof (induction hs arbitrary: i p)
  case (Cons h hs)
  show ?case
    by (cases "grant_log_head_message H (record_count h) (GrantLogHead.head h)"; cases "hex_decode X (GrantLogHead.signature h)")
      (auto simp: Cons.IH Let_def grant_head_holds_def dest: order_trans)
qed simp

lemma verify_grant_heads_iff:
  "verify_grant_heads X C H hs current vk = Inr n \<longleftrightarrow> n = length hs \<and>
     sorted (map record_count hs) \<and> (\<forall>h \<in> set hs. grant_head_holds X C H current vk h)"
proof -
  have "verify_grant_heads X C H hs current vk = Inr n \<longleftrightarrow> n = length hs \<and> verify_grant_heads_from X C H current vk 0 0 hs = Inr ()"
    by (auto simp: verify_grant_heads_def)
  then show ?thesis by (simp add: verify_grant_heads_from_iff)
qed

lemma grant_head_of_fields:
  "grant_head_of X C H sk hashes = Inr h \<Longrightarrow>
     record_count h = of_nat (length hashes) \<and> GrantLogHead.head h = last_opt hashes"
  by (auto simp: grant_head_of_def)

text \<open>
  A witnessed revocation cannot be dropped. If a grant-log head was made over an earlier grant log
  and a sequence that contains it passes against the current log, then the current log begins with
  the very lines of the earlier one, or the two contain a SHA-256 collision: every record that was
  witnessed, a revocation included, is still there, unedited and in its place.
\<close>

theorem witnessed_grants_kept:
  assumes "externs_ok X"
    and "grant_log_line_hashes X G (Contents c) = Inr (Some old)" and "grant_head_of X C H sk old = Inr h"
    and "length old < 2 ^ 64" and "h \<in> set hs"
    and "grant_log_line_hashes X G (Contents d) = Inr (Some current)" and "verify_grant_heads X C H hs current vk = Inr n"
  shows "take (length old) (filter (\<lambda>l. \<not> is_blank l) (str_lines d)) = filter (\<lambda>l. \<not> is_blank l) (str_lines c) \<or>
    collision_among (sha256 X) (as_bytes ` set (str_lines d)) (as_bytes ` set (str_lines c))"
proof (cases "old = []")
  case True
  then show ?thesis using assms(2) by (auto simp: grant_log_line_hashes_def)
next
  case False
  have h: "grant_head_holds X C H current vk h" using assms(5,7) by (simp add: verify_grant_heads_iff)
  have n: "unat (record_count h) = length old" "GrantLogHead.head h = Some (last old)"
    using grant_head_of_fields [OF assms(3)] assms(4) False by (simp_all add: unat_of_nat take_bit_nat_eq_self last_opt_def)
  from h n False have "length old \<le> length current" "current ! (length old - 1) = last old"
    by (auto simp: grant_head_holds_def)
  with grant_log_prefix [OF assms(1,2,6) False] show ?thesis by blast
qed

section \<open>Signing contexts\<close>

lemma as_bytes_zero: "0 \<in> set (as_bytes s) \<longleftrightarrow> CHR 0x00 \<in> set s"
proof -
  have "as_bytes [c] = as_bytes [CHR 0x00] \<longleftrightarrow> c = CHR 0x00" for c by (simp add: as_bytes_inj)
  then have "word_of_nat (byte_of c) = (0 :: u8) \<longleftrightarrow> c = CHR 0x00" for c
    by (simp add: as_bytes_def byte_of_def)
  then show ?thesis by (auto simp: as_bytes_def image_iff)
qed

lemma nul_terminated:
  "xs @ 0 # as = ys @ 0 # bs \<Longrightarrow> (0 :: u8) \<notin> set xs \<Longrightarrow> 0 \<notin> set ys \<Longrightarrow> xs = ys"
proof (induction xs arbitrary: ys)
  case Nil
  then show ?case by (cases ys) auto
next
  case (Cons x xs)
  then show ?case by (cases ys) auto
qed

lemma domains_differ:
  assumes "s \<noteq> t" and "CHR 0x00 \<notin> set s" and "CHR 0x00 \<notin> set t"
  shows "(as_bytes s @ [0]) @ x \<noteq> (as_bytes t @ [0]) @ y"
  using nul_terminated [of "as_bytes s" x "as_bytes t" y] assms by (auto simp: as_bytes_zero as_bytes_inj)

lemma anchor_not_domain: "s \<noteq> [] \<Longrightarrow> hd s \<noteq> CHR 0x02 \<Longrightarrow> anchor_message c h \<noteq> (as_bytes s @ [0]) @ x"
proof
  assume s: "s \<noteq> []" "hd s \<noteq> CHR 0x02" and eq: "anchor_message c h = (as_bytes s @ [0]) @ x"
  obtain k t where "s = k # t" using s(1) by (cases s) auto
  with eq have "as_bytes [k] = as_bytes [CHR 0x02]"
    by (simp add: anchor_message_def ANCHOR_PREFIX_def as_bytes_def byte_of_def)
  then show False using s(2) \<open>s = k # t\<close> by (simp add: as_bytes_inj)
qed

text \<open>
  The contexts a key can sign in do not overlap. The bytes under the signature of a source grant, a
  session challenge, a write attestation, a grant record and a grant-log head begin with five
  domains none of which begins another's message, and none of the five messages is the message of a
  signed tree head: a signature made in one context is never over bytes of another.
\<close>

theorem signing_contexts_disjoint:
  "distinct (map (\<lambda>(d, x). d @ x) [(GRANT_DOMAIN, a), (SESSION_CHALLENGE_DOMAIN, b), (ATTESTATION_DOMAIN, c),
     (GRANT_RECORD_DOMAIN, d), (GRANT_LOG_HEAD_DOMAIN, e)]) \<and>
   anchor_message n h \<notin> set (map (\<lambda>(d, x). d @ x) [(GRANT_DOMAIN, a), (SESSION_CHALLENGE_DOMAIN, b), (ATTESTATION_DOMAIN, c),
     (GRANT_RECORD_DOMAIN, d), (GRANT_LOG_HEAD_DOMAIN, e)])"
  unfolding GRANT_DOMAIN_def SESSION_CHALLENGE_DOMAIN_def ATTESTATION_DOMAIN_def GRANT_RECORD_DOMAIN_def GRANT_LOG_HEAD_DOMAIN_def
  by (simp only: list.map prod.case distinct.simps list.set insert_iff empty_iff domains_differ anchor_not_domain
      list.sel list.distinct list.inject char.inject not_False_eq_True simp_thms)

section \<open>Witnesses\<close>

lemma sample_head_signs:
  "\<exists>sth. sign_head sample_externs sg es sk = Inr sth"
proof -
  obtain hs where "hash_chain sample_externs es = Inr hs"
    using try_map_all_ok [of es "canonical_bytes sample_externs"]
    by (auto simp: hash_chain_eq sample_externs_ok sample_canonical)
  then show ?thesis by (auto simp: sign_head_def chain_head_def Let_def)
qed

lemma toy_keypair: "keypair_ok (ed_sign toy_ed) (ed_verify toy_ed) sk sk"
  using toy_ed_ok by (simp add: ed_ok_def toy_ed_def)

theorem verify_heads_decides_witness:
  "\<exists>sth. sign_head sample_externs (ed_sign toy_ed) sample_log [7] = Inr sth \<and>
     verify_heads sample_externs (ed_verify toy_ed) sample_log [sth, sth] [7] = Inr ()"
proof -
  obtain sth where s: "sign_head sample_externs (ed_sign toy_ed) sample_log [7] = Inr sth"
    using sample_head_signs [of "ed_sign toy_ed" sample_log "[7]"] by blast
  have "head_holds sample_externs (ed_verify toy_ed) sample_log [7] sth"
    by (rule signed_head_holds [OF sample_externs_ok(1) toy_ed_ok toy_keypair s]) (simp add: sample_log_def)
  then have "verify_heads sample_externs (ed_verify toy_ed) sample_log [sth, sth] [7] = Inr ()"
    unfolding verify_heads_decides by (auto simp: head_holds_def less_Suc_eq)
  with s show ?thesis by blast
qed

theorem witnessed_history_kept_witness:
  "\<exists>sth. sign_head sample_externs (ed_sign toy_ed) sample_log [7] = Inr sth \<and>
     verify_heads sample_externs (ed_verify toy_ed) (sample_log @ sample_log) [sth] [7] = Inr () \<and>
     length sample_log \<le> length (sample_log @ sample_log)"
proof -
  obtain sth where s: "sign_head sample_externs (ed_sign toy_ed) sample_log [7] = Inr sth"
    using sample_head_signs [of "ed_sign toy_ed" sample_log "[7]"] by blast
  have "head_holds sample_externs (ed_verify toy_ed) sample_log [7] sth"
    by (rule signed_head_holds [OF sample_externs_ok(1) toy_ed_ok toy_keypair s]) (simp add: sample_log_def)
  then have v: "verify_heads sample_externs (ed_verify toy_ed) (sample_log @ sample_log) [sth] [7] = Inr ()"
    by (simp add: verify_heads_iff head_holds_extend)
  have "length sample_log < 2 ^ 64" by (simp add: sample_log_def)
  from witnessed_history_kept [OF sample_externs_ok s this _ v] s v show ?thesis by simp
qed

definition sample_heads :: HeadCodec where
  "sample_heads = \<lparr>head_line = (\<lambda>_. Inl []), parse_head = (\<lambda>_. Inl []), grant_head_line = (\<lambda>_. Inl []),
     parse_grant_head = (\<lambda>_. Inl []), grant_head_body = (\<lambda>_ _. Inr [])\<rparr>"

theorem witnessed_grants_kept_witness:
  "\<exists>h. grant_head_of sample_externs toy_ed sample_heads [7] [grant_record_line_hash sample_externs ''{r}''] = Inr h \<and>
     verify_grant_heads sample_externs toy_ed sample_heads [h]
       [grant_record_line_hash sample_externs ''{r}'', grant_record_line_hash sample_externs ''{}''] [7] = Inr 1 \<and>
     (take 1 [''{r}'', ''{}''] = [''{r}''] \<or>
      collision_among (sha256 sample_externs) (as_bytes ` {''{r}'', ''{}''}) (as_bytes ` {''{r}''}))"
proof -
  let ?old = "[grant_record_line_hash sample_externs ''{r}'']"
  let ?cur = "[grant_record_line_hash sample_externs ''{r}'', grant_record_line_hash sample_externs ''{}'']"
  obtain h where h: "grant_head_of sample_externs toy_ed sample_heads [7] ?old = Inr h"
    by (simp add: grant_head_of_def grant_log_head_message_def framed_def sample_heads_def)
  have "grant_head_holds sample_externs toy_ed sample_heads ?cur [7] h"
    using h sample_externs_ok(1) ed_signature [OF toy_ed_ok, of "[7]"]
    by (auto simp: grant_head_holds_def grant_head_of_def last_opt_def externs_ok_def toy_ed_def)
  then have v: "verify_grant_heads sample_externs toy_ed sample_heads [h] ?cur [7] = Inr 1"
    by (simp add: verify_grant_heads_iff)
  from witnessed_grants_kept [OF sample_externs_ok(1) sample_hashes(1) h _ _ sample_hashes(2) v] h v
  show ?thesis unfolding sample_str_lines(1,2) by (simp add: sample_str_lines(3,4))
qed

end
