(* ===== verification/Witness_Run.thy ===== *)
theory Witness_Run
  imports Witness_Heads
begin

text \<open>
  The commands of the witness (\<open>crates/dent8-cli/src/witness.rs\<close>): \<open>sign\<close>, the loop of \<open>serve\<close>
  as one step per tick, \<open>publish\<close> of both lanes, and \<open>verify\<close> and \<open>verify_published\<close> down to the
  verdict they report. A tick carries what the process reads and the outcomes of its two appends;
  what the loop prints is the list \<open>emitted\<close>. A run over a finite list of ticks is the loop for
  as many turns; the sleep between turns has no effect on the state.
\<close>

section \<open>Serving\<close>

record Tick =
  tick_events :: "string + FactEvent list"
  tick_grants :: ReadOutcome
  tick_grants_again :: ReadOutcome
  tick_io :: IoOutcome
  tick_grants_io :: IoOutcome

datatype Emitted =
    HeadSigned SignedTreeHead
  | GrantHeadSigned GrantLogHead
  | Warned HeadWarning
  | LaneFailed WitnessError

record WitnessState =
  witness_log :: "string option"
  grants_witness_log :: "string option"
  last_signed :: "SignedTreeHead option"
  last_grant_state :: "(u64 \<times> string option) option"
  signed_total :: u64
  errors :: u32
  emitted :: "Emitted list"

definition emit :: "Emitted list \<Rightarrow> WitnessState \<Rightarrow> WitnessState" where
  "emit xs S = S\<lparr>emitted := emitted S @ xs\<rparr>"

text \<open>The seeds of \<open>serve\<close>: unreadable witness logs count as empty ones.\<close>

definition serve_start :: "HeadCodec \<Rightarrow> string option \<Rightarrow> string option \<Rightarrow> WitnessState" where
  "serve_start H file gfile =
     \<lparr>witness_log = file, grants_witness_log = gfile,
      last_signed = (case load_witness_log H (outcome_of file) of Inl _ \<Rightarrow> None | Inr hs \<Rightarrow> last_opt hs),
      last_grant_state = (case load_grant_log_heads H ''grants-witness log'' True (outcome_of gfile) of
          Inl _ \<Rightarrow> None
        | Inr hs \<Rightarrow> map_option (\<lambda>h. (record_count h, GrantLogHead.head h)) (last_opt hs)),
      signed_total = 0, errors = 0, emitted = []\<rparr>"

text \<open>The lane of the event log: the state after the tick, and whether it failed.\<close>

definition sign_and_append ::
    "'j Externs \<Rightarrow> ('sk, 'vk) Ed25519 \<Rightarrow> HeadCodec \<Rightarrow> 'sk \<Rightarrow> IoOutcome \<Rightarrow> FactEvent list \<Rightarrow> WitnessState \<Rightarrow> WitnessState \<times> bool" where
  "sign_and_append X C H sk io es S = (case sign_head X (ed_sign C) es sk of
      Inl e \<Rightarrow> (emit [LaneFailed (HeadNotSigned e)] S, True)
    | Inr sth \<Rightarrow>
        (case append_head H ''witness log'' io (witness_log S) sth of
           (file, Inl e) \<Rightarrow> (emit [LaneFailed e] (S\<lparr>witness_log := file\<rparr>), True)
         | (file, Inr _) \<Rightarrow>
             (emit [HeadSigned sth] (S\<lparr>witness_log := file, signed_total := signed_total S + 1, last_signed := Some sth\<rparr>), False)))"

definition event_lane ::
    "'j Externs \<Rightarrow> ('sk, 'vk) Ed25519 \<Rightarrow> ('vk \<Rightarrow> u8 list \<Rightarrow> u8 list \<Rightarrow> bool) \<Rightarrow> HeadCodec \<Rightarrow> 'sk \<Rightarrow> Tick \<Rightarrow> WitnessState \<Rightarrow>
       WitnessState \<times> bool" where
  "event_lane X C strict H sk T S = (case tick_events T of
      Inl e \<Rightarrow> (emit [LaneFailed (EventsNotLoaded e)] S, True)
    | Inr es \<Rightarrow>
        if map_option SignedTreeHead.event_count (last_signed S) = Some (of_nat (length es)) then (S, False)
        else sign_and_append X C H sk (tick_io T) es
          (case prior_head_warning X strict (last_signed S) es (verifying_key C sk) of
             None \<Rightarrow> S | Some w \<Rightarrow> emit [Warned w] S))"

definition grant_lane ::
    "'j Externs \<Rightarrow> ('sk, 'vk) Ed25519 \<Rightarrow> RecordCodec \<Rightarrow> HeadCodec \<Rightarrow> 'sk \<Rightarrow> Tick \<Rightarrow> WitnessState \<Rightarrow> WitnessState \<times> bool" where
  "grant_lane X C G H sk T S =
     (case sign_grant_log_head_if_changed X C G H sk (tick_grants T) (tick_grants_again T) (tick_grants_io T)
        (last_grant_state S) (grants_witness_log S) of
        (st, file, r) \<Rightarrow>
          (let S' = S\<lparr>last_grant_state := st, grants_witness_log := file\<rparr> in
           case r of
             Inl e \<Rightarrow> (emit [LaneFailed e] S', True)
           | Inr None \<Rightarrow> (S', False)
           | Inr (Some h) \<Rightarrow> (emit [GrantHeadSigned h] S', False)))"

text \<open>One turn of the loop: the exit code, if it returns.\<close>

definition serve_tick ::
    "'j Externs \<Rightarrow> ('sk, 'vk) Ed25519 \<Rightarrow> ('vk \<Rightarrow> u8 list \<Rightarrow> u8 list \<Rightarrow> bool) \<Rightarrow> RecordCodec \<Rightarrow> HeadCodec \<Rightarrow> 'sk \<Rightarrow> u64 option \<Rightarrow>
       Tick \<Rightarrow> WitnessState \<Rightarrow> WitnessState \<times> int option" where
  "serve_tick X C strict G H sk max_heads T S =
     (let (S1, e1) = event_lane X C strict H sk T S;
          (S2, e2) = grant_lane X C G H sk T S1;
          S3 = S2\<lparr>errors := if e1 \<or> e2 then errors S2 + 1 else 0\<rparr>
      in (S3, if MAX_CONSECUTIVE_ERRORS \<le> errors S3 then Some 1
              else if (case max_heads of None \<Rightarrow> False | Some m \<Rightarrow> m \<le> signed_total S3) then Some 0
              else None))"

fun serve ::
    "'j Externs \<Rightarrow> ('sk, 'vk) Ed25519 \<Rightarrow> ('vk \<Rightarrow> u8 list \<Rightarrow> u8 list \<Rightarrow> bool) \<Rightarrow> RecordCodec \<Rightarrow> HeadCodec \<Rightarrow> 'sk \<Rightarrow> u64 option \<Rightarrow>
       Tick list \<Rightarrow> WitnessState \<Rightarrow> WitnessState \<times> int option" where
  "serve X C strict G H sk max_heads [] S = (S, None)"
| "serve X C strict G H sk max_heads (T # Ts) S =
     (case serve_tick X C strict G H sk max_heads T S of
        (S', Some rc) \<Rightarrow> (S', Some rc)
      | (S', None) \<Rightarrow> serve X C strict G H sk max_heads Ts S')"

section \<open>Publishing\<close>

datatype FailureWhy =
    Unavailable WitnessError
  | BehindPublished u64 u64
  | ConflictAt u64
  | Alarm string WitnessFault

text \<open>The status, the message and the exit code.\<close>

type_synonym WitnessFailure = "string \<times> FailureWhy \<times> int"

definition unavailable :: "WitnessError \<Rightarrow> WitnessFailure" where
  "unavailable e = (''failed'', Unavailable e, 1)"

fun fault_failure :: "string \<Rightarrow> WitnessFault \<Rightarrow> WitnessFailure" where
  "fault_failure label (Detected v d) = (verdict_status v, Alarm label (Detected v d), 1)"
| "fault_failure label f = (''cannot_verify'', Alarm label f, 2)"

definition verify_heads_for_publish ::
    "'j Externs \<Rightarrow> ('vk \<Rightarrow> u8 list \<Rightarrow> u8 list \<Rightarrow> bool) \<Rightarrow> FactEvent list \<Rightarrow> SignedTreeHead list \<Rightarrow> 'vk \<Rightarrow> string \<Rightarrow>
       WitnessFailure + unit" where
  "verify_heads_for_publish X strict es hs vk label = map_err (fault_failure label) (verify_heads X strict es hs vk)"

definition publication_state :: "SignedTreeHead list \<Rightarrow> SignedTreeHead \<Rightarrow> WitnessFailure + bool" where
  "publication_state published latest = (case last_opt published of
      None \<Rightarrow> Inr False
    | Some previous \<Rightarrow>
        if SignedTreeHead.event_count latest < SignedTreeHead.event_count previous
        then Inl (''rollback'', BehindPublished (SignedTreeHead.event_count previous) (SignedTreeHead.event_count latest), 1)
        else if SignedTreeHead.event_count previous = SignedTreeHead.event_count latest \<and> previous \<noteq> latest
        then Inl (''conflict'', ConflictAt (SignedTreeHead.event_count latest), 1)
        else Inr (SignedTreeHead.event_count previous = SignedTreeHead.event_count latest))"

record PublishOutcome =
  publish_action :: string
  latest :: SignedTreeHead
  local_head_count :: nat
  published_head_count :: nat
  current_count :: u64

text \<open>Everything up to the append: the head, the published sequence with it, and whether it was there.\<close>

definition publish_checked ::
    "'j Externs \<Rightarrow> ('vk \<Rightarrow> u8 list \<Rightarrow> u8 list \<Rightarrow> bool) \<Rightarrow> HeadCodec \<Rightarrow> string + FactEvent list \<Rightarrow> string + 'vk \<Rightarrow>
       ReadOutcome \<Rightarrow> ReadOutcome \<Rightarrow> WitnessFailure + FactEvent list \<times> SignedTreeHead list \<times> SignedTreeHead list \<times> SignedTreeHead \<times> bool" where
  "publish_checked X strict H events key local_log published_log =
     (and_then (map_err (\<lambda>e. unavailable (EventsNotLoaded e)) events) (\<lambda>es.
      and_then (map_err (\<lambda>e. unavailable (KeyNotLoaded e)) key) (\<lambda>vk.
      and_then (map_err unavailable (load_witness_log H local_log)) (\<lambda>local_heads.
      and_then (ok_or (unavailable NoSignedHeads) (last_opt local_heads)) (\<lambda>newest.
      and_then (verify_heads_for_publish X strict es local_heads vk ''local witness log'') (\<lambda>_.
      and_then (map_err unavailable (load_signed_heads H ''published heads'' True published_log)) (\<lambda>published.
      and_then (publication_state published newest) (\<lambda>already.
      let published' = (if already then published else published @ [newest]) in
      map_ok (\<lambda>_. (es, local_heads, published', newest, already))
        (verify_heads_for_publish X strict es published' vk ''published-head'')))))))))"

definition publish_outcome ::
    "'j Externs \<Rightarrow> ('vk \<Rightarrow> u8 list \<Rightarrow> u8 list \<Rightarrow> bool) \<Rightarrow> HeadCodec \<Rightarrow> string + FactEvent list \<Rightarrow> string + 'vk \<Rightarrow>
       ReadOutcome \<Rightarrow> ReadOutcome \<Rightarrow> IoOutcome \<Rightarrow> string option \<Rightarrow> string option \<times> (WitnessFailure + PublishOutcome)" where
  "publish_outcome X strict H events key local_log published_log io file =
     (case publish_checked X strict H events key local_log published_log of
        Inl e \<Rightarrow> (file, Inl e)
      | Inr (es, local_heads, published, newest, already) \<Rightarrow>
          (let out = (\<lambda>act. \<lparr>publish_action = act, latest = newest, local_head_count = length local_heads,
               published_head_count = length published, current_count = of_nat (length es)\<rparr>) in
           if already then (file, Inr (out ''already_published''))
           else case append_head H ''published heads'' io file newest of
               (file', Inl e) \<Rightarrow> (file', Inl (unavailable e))
             | (file', Inr _) \<Rightarrow> (file', Inr (out ''appended''))))"

section \<open>Publishing the grant lane\<close>

definition verify_grant_heads_for_publish ::
    "'j Externs \<Rightarrow> ('sk, 'vk) Ed25519 \<Rightarrow> HeadCodec \<Rightarrow> GrantLogHead list \<Rightarrow> string list \<Rightarrow> 'vk \<Rightarrow> string \<Rightarrow> WitnessFailure + unit" where
  "verify_grant_heads_for_publish X C H hs current vk label =
     map_ok (\<lambda>_. ()) (map_err (fault_failure label) (verify_grant_heads X C H hs current vk))"

definition grants_publication_state :: "GrantLogHead list \<Rightarrow> GrantLogHead \<Rightarrow> WitnessFailure + bool" where
  "grants_publication_state published newest = (case last_opt published of
      None \<Rightarrow> Inr False
    | Some previous \<Rightarrow>
        if record_count newest < record_count previous
        then Inl (''rollback'', BehindPublished (record_count previous) (record_count newest), 1)
        else if record_count previous = record_count newest \<and> previous \<noteq> newest
        then Inl (''conflict'', ConflictAt (record_count newest), 1)
        else Inr (record_count previous = record_count newest))"

record GrantsPublishOutcome =
  grants_action :: string
  grants_latest :: GrantLogHead
  grants_local_count :: nat
  grants_published_count :: nat
  current_record_count :: u64

definition publish_grants_checked ::
    "'j Externs \<Rightarrow> ('sk, 'vk) Ed25519 \<Rightarrow> RecordCodec \<Rightarrow> HeadCodec \<Rightarrow> ReadOutcome \<Rightarrow> string + 'vk \<Rightarrow> ReadOutcome \<Rightarrow> ReadOutcome \<Rightarrow>
       WitnessFailure + string list \<times> GrantLogHead list \<times> GrantLogHead list \<times> GrantLogHead \<times> bool" where
  "publish_grants_checked X C G H grant_log key local_log published_log =
     (and_then (map_err unavailable (current_grant_log_hashes X G grant_log)) (\<lambda>current.
      and_then (map_err (\<lambda>e. unavailable (KeyNotLoaded e)) key) (\<lambda>vk.
      and_then (map_err unavailable (load_grant_log_heads H ''grants-witness log'' True local_log)) (\<lambda>local_heads.
      and_then (ok_or (unavailable NoSignedHeads) (last_opt local_heads)) (\<lambda>newest.
      and_then (verify_grant_heads_for_publish X C H local_heads current vk ''local grants-witness log'') (\<lambda>_.
      and_then (map_err unavailable (load_grant_log_heads H ''published grant-log heads'' True published_log)) (\<lambda>published.
      and_then (grants_publication_state published newest) (\<lambda>already.
      let published' = (if already then published else published @ [newest]) in
      map_ok (\<lambda>_. (current, local_heads, published', newest, already))
        (verify_grant_heads_for_publish X C H published' current vk ''published grant-log head'')))))))))"

definition publish_grants_outcome ::
    "'j Externs \<Rightarrow> ('sk, 'vk) Ed25519 \<Rightarrow> RecordCodec \<Rightarrow> HeadCodec \<Rightarrow> ReadOutcome \<Rightarrow> string + 'vk \<Rightarrow> ReadOutcome \<Rightarrow> ReadOutcome \<Rightarrow>
       IoOutcome \<Rightarrow> string option \<Rightarrow> string option \<times> (WitnessFailure + GrantsPublishOutcome)" where
  "publish_grants_outcome X C G H grant_log key local_log published_log io file =
     (case publish_grants_checked X C G H grant_log key local_log published_log of
        Inl e \<Rightarrow> (file, Inl e)
      | Inr (current, local_heads, published, newest, already) \<Rightarrow>
          (let out = (\<lambda>act. \<lparr>grants_action = act, grants_latest = newest, grants_local_count = length local_heads,
               grants_published_count = length published, current_record_count = of_nat (length current)\<rparr>) in
           if already then (file, Inr (out ''already_published''))
           else case grant_head_line H newest of
               Inl e \<Rightarrow> (file, Inl (unavailable (HeadUnserializable e)))
             | Inr line \<Rightarrow>
                 (case append_line ''published grant-log heads'' io file line of
                    (file', Inl e) \<Rightarrow> (file', Inl (unavailable e))
                  | (file', Inr _) \<Rightarrow> (file', Inr (out ''appended'')))))"

section \<open>Signing once and verifying\<close>

text \<open>\<open>sign\<close>: the head of the event log first, then the one of the grant log, if there is one.\<close>

definition witness_sign ::
    "'j Externs \<Rightarrow> ('sk, 'vk) Ed25519 \<Rightarrow> RecordCodec \<Rightarrow> HeadCodec \<Rightarrow> string + FactEvent list \<Rightarrow> string + 'sk \<Rightarrow> ReadOutcome \<Rightarrow>
       IoOutcome \<Rightarrow> IoOutcome \<Rightarrow> string option \<times> string option \<Rightarrow>
       (string option \<times> string option) \<times> (WitnessError + SignedTreeHead \<times> GrantLogHead option)" where
  "witness_sign X C G H events key grant_log io gio files = (case events of
      Inl e \<Rightarrow> (files, Inl (EventsNotLoaded e))
    | Inr es \<Rightarrow>
        (case key of
           Inl e \<Rightarrow> (files, Inl (KeyNotLoaded e))
         | Inr sk \<Rightarrow>
             (case sign_head X (ed_sign C) es sk of
                Inl e \<Rightarrow> (files, Inl (HeadNotSigned e))
              | Inr sth \<Rightarrow>
                  (case append_head H ''witness log'' io (fst files) sth of
                     (file, Inl e) \<Rightarrow> ((file, snd files), Inl e)
                   | (file, Inr _) \<Rightarrow>
                       (case sign_grant_log_head X C G H sk grant_log gio (snd files) of
                          (gfile, Inl e) \<Rightarrow> ((file, gfile), Inl e)
                        | (gfile, Inr lane) \<Rightarrow> ((file, gfile), Inr (sth, lane)))))))"

definition unwitnessed_events :: "u64 \<Rightarrow> u64 \<Rightarrow> u64" where
  "unwitnessed_events witnessed current = (if witnessed \<le> current then current - witnessed else 0)"

definition coverage_level :: "u64 \<Rightarrow> u64 \<Rightarrow> string" where
  "coverage_level witnessed current = (if witnessed = current then ''ok'' else ''warn'')"

definition coverage_status :: "u64 \<Rightarrow> u64 \<Rightarrow> string" where
  "coverage_status witnessed current = (if witnessed = current then ''complete'' else ''trailing'')"

record VerifyReport =
  report_level :: string
  signed_head_count :: nat
  latest_witnessed_count :: u64
  current_event_count :: u64
  unwitnessed :: u64
  coverage :: string
  grant_heads_verified :: "nat option"

text \<open>\<open>verify\<close>: a failure with its status and exit code, or the report of exit code 0.\<close>

definition witness_verify ::
    "'j Externs \<Rightarrow> ('sk, 'vk) Ed25519 \<Rightarrow> ('vk \<Rightarrow> u8 list \<Rightarrow> u8 list \<Rightarrow> bool) \<Rightarrow> RecordCodec \<Rightarrow> HeadCodec \<Rightarrow>
       string + FactEvent list \<Rightarrow> string + 'vk \<Rightarrow> ReadOutcome \<Rightarrow> ReadOutcome \<Rightarrow> ReadOutcome \<Rightarrow> WitnessFailure + VerifyReport" where
  "witness_verify X C strict G H events key wlog lane grant_log =
     (and_then (map_err (\<lambda>e. unavailable (EventsNotLoaded e)) events) (\<lambda>es.
      and_then (map_err (\<lambda>e. unavailable (KeyNotLoaded e)) key) (\<lambda>vk.
      and_then (map_err unavailable (load_witness_log H wlog)) (\<lambda>hs.
      let current = of_nat (length es) in
      if hs = [] then
        Inr \<lparr>report_level = ''warn'', signed_head_count = 0, latest_witnessed_count = 0, current_event_count = current,
             unwitnessed = current, coverage = ''none'', grant_heads_verified = None\<rparr>
      else
        (and_then (map_err (fault_failure ''verification'') (verify_heads X strict es hs vk)) (\<lambda>_.
         map_ok (\<lambda>grant_lane.
           (let newest = SignedTreeHead.event_count (last hs) in
            \<lparr>report_level = coverage_level newest current, signed_head_count = length hs, latest_witnessed_count = newest,
             current_event_count = current, unwitnessed = unwitnessed_events newest current,
             coverage = coverage_status newest current, grant_heads_verified = grant_lane\<rparr>))
           (map_err (fault_failure ''grant-log verification'') (verify_grant_log_heads X C G H lane grant_log vk))))))))"

text \<open>\<open>verify_published_grants\<close>: the verified heads and the count of the current records.\<close>

record PublishedGrantsSummary =
  summary_head_count :: nat
  latest_record_count :: u64
  summary_current :: u64
  summary_latest :: GrantLogHead

definition verify_published_grants ::
    "'j Externs \<Rightarrow> ('sk, 'vk) Ed25519 \<Rightarrow> RecordCodec \<Rightarrow> HeadCodec \<Rightarrow> ReadOutcome \<Rightarrow> ReadOutcome \<Rightarrow> 'vk \<Rightarrow>
       WitnessFailure + PublishedGrantsSummary" where
  "verify_published_grants X C G H grant_log lane vk =
     (and_then (map_err unavailable (current_grant_log_hashes X G grant_log)) (\<lambda>current.
      and_then (map_err unavailable (load_grant_log_heads H ''published grant-log heads'' False lane)) (\<lambda>hs.
      if hs = [] then Inl (unavailable (NoPublishedHeads ''grant-log''))
      else map_ok (\<lambda>n. \<lparr>summary_head_count = n, latest_record_count = record_count (last hs),
               summary_current = of_nat (length current), summary_latest = last hs\<rparr>)
        (map_err (fault_failure ''published grant-log head'') (verify_grant_heads X C H hs current vk)))))"

text \<open>\<open>verify_published\<close>: an empty published sequence is a failure here, and a trailing lane a warning.\<close>

definition witness_verify_published ::
    "'j Externs \<Rightarrow> ('sk, 'vk) Ed25519 \<Rightarrow> ('vk \<Rightarrow> u8 list \<Rightarrow> u8 list \<Rightarrow> bool) \<Rightarrow> RecordCodec \<Rightarrow> HeadCodec \<Rightarrow>
       string + FactEvent list \<Rightarrow> string + 'vk \<Rightarrow> ReadOutcome \<Rightarrow> ReadOutcome option \<Rightarrow> ReadOutcome \<Rightarrow>
       WitnessFailure + VerifyReport \<times> PublishedGrantsSummary option" where
  "witness_verify_published X C strict G H events key published lane grant_log =
     (and_then (map_err (\<lambda>e. unavailable (EventsNotLoaded e)) events) (\<lambda>es.
      and_then (map_err (\<lambda>e. unavailable (KeyNotLoaded e)) key) (\<lambda>vk.
      and_then (map_err unavailable (load_signed_heads H ''published heads'' False published)) (\<lambda>hs.
      if hs = [] then Inl (unavailable (NoPublishedHeads ''tree heads''))
      else
        (and_then (map_err (fault_failure ''published-head'') (verify_heads X strict es hs vk)) (\<lambda>_.
         map_ok (\<lambda>grants.
           (let newest = SignedTreeHead.event_count (last hs); current = of_nat (length es) in
            (\<lparr>report_level = (if (case grants of None \<Rightarrow> False
                   | Some g \<Rightarrow> coverage_level (latest_record_count g) (summary_current g) = ''warn'')
                 then ''warn'' else coverage_level newest current),
              signed_head_count = length hs, latest_witnessed_count = newest, current_event_count = current,
              unwitnessed = unwitnessed_events newest current, coverage = coverage_status newest current,
              grant_heads_verified = map_option summary_head_count grants\<rparr>, grants)))
           (case lane of
              None \<Rightarrow> Inr None
            | Some r \<Rightarrow> map_ok Some (verify_published_grants X C G H grant_log r vk))))))))"

section \<open>Serving over a growing log\<close>

definition signer_ok ::
    "'j Externs \<Rightarrow> ('sk, 'vk) Ed25519 \<Rightarrow> ('vk \<Rightarrow> u8 list \<Rightarrow> u8 list \<Rightarrow> bool) \<Rightarrow> HeadCodec \<Rightarrow> 'sk \<Rightarrow> bool" where
  "signer_ok X C strict H sk \<longleftrightarrow> externs_ok X \<and> ed_ok C \<and> keypair_ok (ed_sign C) strict sk (verifying_key C sk) \<and>
     braced_codec (head_line H) (parse_head H) \<and> braced_codec (grant_head_line H) (parse_grant_head H)"

definition whole_write :: "IoOutcome \<Rightarrow> bool" where
  "whole_write io \<longleftrightarrow> (\<forall>k m. io \<noteq> WriteFails k m)"

text \<open>The log after a tick: the one just loaded, or the one before. It only ever grows.\<close>

definition next_log :: "FactEvent list \<Rightarrow> Tick \<Rightarrow> FactEvent list" where
  "next_log L T = (case tick_events T of Inl _ \<Rightarrow> L | Inr es \<Rightarrow> es)"

fun append_only :: "FactEvent list \<Rightarrow> Tick list \<Rightarrow> bool" where
  "append_only L [] \<longleftrightarrow> True"
| "append_only L (T # Ts) \<longleftrightarrow> (\<exists>extra. next_log L T = L @ extra) \<and> length (next_log L T) < 2 ^ 64 \<and>
     whole_write (tick_io T) \<and> append_only (next_log L T) Ts"

definition log_witnessed ::
    "'j Externs \<Rightarrow> ('sk, 'vk) Ed25519 \<Rightarrow> ('vk \<Rightarrow> u8 list \<Rightarrow> u8 list \<Rightarrow> bool) \<Rightarrow> HeadCodec \<Rightarrow> 'sk \<Rightarrow> FactEvent list \<Rightarrow> WitnessState \<Rightarrow> bool" where
  "log_witnessed X C strict H sk L S \<longleftrightarrow> (\<exists>hs. heads_in (parse_head H) (witness_log S) hs \<and>
     verify_heads X strict L hs (verifying_key C sk) = Inr () \<and>
     (\<forall>sth. last_signed S = Some sth \<longrightarrow> sth \<in> set hs)) \<and> (\<forall>w. Warned w \<notin> set (emitted S))"

lemma verify_heads_extend: "verify_heads X strict L hs vk = Inr () \<Longrightarrow> verify_heads X strict (L @ extra) hs vk = Inr ()"
  by (auto simp: verify_heads_iff head_holds_extend)

lemma log_witnessed_extend: "log_witnessed X C strict H sk L S \<Longrightarrow> log_witnessed X C strict H sk (L @ extra) S"
  unfolding log_witnessed_def by (elim conjE exE, intro conjI exI) (assumption, erule verify_heads_extend, assumption+)

lemma log_witnessed_emit:
  "(\<forall>w. Warned w \<notin> set xs) \<Longrightarrow> log_witnessed X C strict H sk L (emit xs S) \<longleftrightarrow> log_witnessed X C strict H sk L S"
  by (simp add: log_witnessed_def emit_def)

lemma verify_heads_snoc:
  assumes "verify_heads X strict L hs vk = Inr ()" and "head_holds X strict L vk sth"
    and "unat (SignedTreeHead.event_count sth) = length L"
  shows "verify_heads X strict L (hs @ [sth]) vk = Inr ()"
  using assms by (auto simp: verify_heads_iff sorted_append head_holds_def word_le_nat_alt)

lemma no_prior_warning:
  "head_holds X strict es vk sth \<Longrightarrow> prior_head_warning X strict (Some sth) es vk = None"
  by (simp add: prior_head_warning_def head_holds_def)

lemma sign_and_append_witnessed:
  assumes "signer_ok X C strict H sk" and "log_witnessed X C strict H sk L S" and "length L < 2 ^ 64" and "whole_write io"
  shows "log_witnessed X C strict H sk L (fst (sign_and_append X C H sk io L S))"
proof -
  from assms(1) have ok: "externs_ok X" "ed_ok C" "keypair_ok (ed_sign C) strict sk (verifying_key C sk)"
    "braced_codec (head_line H) (parse_head H)" by (simp_all add: signer_ok_def)
  from assms(2) obtain hs where hs: "heads_in (parse_head H) (witness_log S) hs"
    "verify_heads X strict L hs (verifying_key C sk) = Inr ()" and w: "\<forall>w. Warned w \<notin> set (emitted S)"
    by (auto simp: log_witnessed_def)
  show ?thesis
  proof (cases "sign_head X (ed_sign C) L sk")
    case (Inl e)
    then show ?thesis using assms(2) by (simp add: sign_and_append_def log_witnessed_emit)
  next
    case (Inr sth)
    obtain written r where f: "append_head H ''witness log'' io (witness_log S) sth = (written, r)" by fastforce
    show ?thesis
    proof (cases r)
      case (Inl e)
      then have "written = witness_log S"
        using append_head_heads(2) [OF ok(4) hs(1)] f assms(4) by (auto simp: whole_write_def)
      then show ?thesis using assms(2) Inr f Inl by (simp add: sign_and_append_def log_witnessed_emit)
    next
      case ok': (Inr u)
      then have "heads_in (parse_head H) written (hs @ [sth])"
        using append_head_heads(1) [OF ok(4) hs(1)] f by auto
      moreover have "unat (SignedTreeHead.event_count sth) = length L"
        using sign_head_chain [OF Inr] assms(3) by (simp add: unat_of_nat take_bit_nat_eq_self)
      then have "verify_heads X strict L (hs @ [sth]) (verifying_key C sk) = Inr ()"
        by (rule verify_heads_snoc [OF hs(2) signed_head_holds [OF ok(1-3) Inr assms(3)]])
      ultimately show ?thesis
        using Inr f ok' w by (auto simp: sign_and_append_def log_witnessed_def emit_def)
    qed
  qed
qed

lemma event_lane_witnessed:
  assumes "signer_ok X C strict H sk" and "log_witnessed X C strict H sk L S"
    and "next_log L T = L @ extra" and "length (next_log L T) < 2 ^ 64" and "whole_write (tick_io T)"
  shows "log_witnessed X C strict H sk (next_log L T) (fst (event_lane X C strict H sk T S))"
proof (cases "tick_events T")
  case (Inl e)
  then show ?thesis using assms(2) by (simp add: event_lane_def next_log_def log_witnessed_emit)
next
  case (Inr es)
  then have es: "es = L @ extra" "next_log L T = es" using assms(3) by (simp_all add: next_log_def)
  have lw: "log_witnessed X C strict H sk es S" using log_witnessed_extend [OF assms(2)] es by simp
  have "prior_head_warning X strict (last_signed S) es (verifying_key C sk) = None"
  proof (cases "last_signed S")
    case (Some sth)
    then have "head_holds X strict es (verifying_key C sk) sth" using lw by (auto simp: log_witnessed_def verify_heads_iff)
    then show ?thesis using Some by (simp add: no_prior_warning)
  qed (simp add: prior_head_warning_def)
  then show ?thesis
    using sign_and_append_witnessed [OF assms(1) lw _ assms(5)] assms(4) es lw Inr by (simp add: event_lane_def)
qed

lemma grant_lane_keeps:
  "witness_log (fst (grant_lane X C G H sk T S)) = witness_log S \<and> last_signed (fst (grant_lane X C G H sk T S)) = last_signed S \<and>
   signed_total (fst (grant_lane X C G H sk T S)) = signed_total S \<and> errors (fst (grant_lane X C G H sk T S)) = errors S \<and>
   (\<forall>w. Warned w \<in> set (emitted (fst (grant_lane X C G H sk T S))) \<longleftrightarrow> Warned w \<in> set (emitted S))"
  by (auto simp: grant_lane_def emit_def Let_def split: sum.splits option.splits prod.splits)

lemma serve_tick_witnessed:
  assumes "signer_ok X C strict H sk" and "log_witnessed X C strict H sk L S"
    and "next_log L T = L @ extra" and "length (next_log L T) < 2 ^ 64" and "whole_write (tick_io T)"
  shows "log_witnessed X C strict H sk (next_log L T) (fst (serve_tick X C strict G H sk m T S))"
  using event_lane_witnessed [OF assms]
    grant_lane_keeps [of X C G H sk T "fst (event_lane X C strict H sk T S)"]
  by (simp add: serve_tick_def case_prod_beta Let_def log_witnessed_def)

text \<open>
  C16: An honest witness never raises an alarm. Let the log only grow, and no append to the witness log
  be torn. After any number of ticks, whatever fails to load or to be written and wherever the loop
  stops, the witness log still loads, all its heads verify against the current log and against every
  extension of it, and the loop has not warned.
\<close>

theorem serve_never_cries_wolf:
  assumes "signer_ok X C strict H sk" and "log_witnessed X C strict H sk L S" and "append_only L Ts"
    and "serve X C strict G H sk m Ts S = (S', r)"
  shows "\<exists>hs. load_witness_log H (outcome_of (witness_log S')) = Inr hs \<and>
    verify_heads X strict (foldl next_log L Ts @ extra) hs (verifying_key C sk) = Inr () \<and>
    (\<forall>w. Warned w \<notin> set (emitted S'))"
proof -
  have "log_witnessed X C strict H sk (foldl next_log L Ts) S'"
    using assms(2-4)
  proof (induction Ts arbitrary: L S)
    case (Cons T Ts)
    obtain S1 c where tick: "serve_tick X C strict G H sk m T S = (S1, c)" by fastforce
    from Cons.prems(2) obtain extra where grow: "next_log L T = L @ extra" "length (next_log L T) < 2 ^ 64"
      "whole_write (tick_io T)" "append_only (next_log L T) Ts" by auto
    have lw: "log_witnessed X C strict H sk (next_log L T) S1"
      using serve_tick_witnessed [OF assms(1) Cons.prems(1) grow(1-3), of G m] tick by simp
    show ?case
    proof (cases c)
      case None
      then show ?thesis using Cons.IH [OF lw grow(4)] Cons.prems(3) tick by simp
    next
      case (Some rc)
      have "append_only K Ts \<Longrightarrow> \<exists>extra. foldl next_log K Ts = K @ extra" for K
      proof (induction Ts arbitrary: K)
        case (Cons U Us)
        then show ?case by fastforce
      qed simp
      then obtain extra' where "foldl next_log (next_log L T) Ts = next_log L T @ extra'" using grow(4) by blast
      then show ?thesis using log_witnessed_extend [OF lw] Cons.prems(3) tick Some by simp
    qed
  qed simp
  from log_witnessed_extend [OF this, of extra] show ?thesis
    unfolding load_witness_log_def load_signed_heads_def log_witnessed_def
    by (elim conjE exE, intro exI conjI) (erule heads_in_load, assumption+)
qed

section \<open>The loop returns\<close>

lemma failed_tick:
  assumes "tick_events T = Inl e"
  shows "\<exists>S'. serve_tick X C strict G H sk m T S = (S', if 10 \<le> errors S + 1 then Some 1
      else if (case m of None \<Rightarrow> False | Some k \<Rightarrow> k \<le> signed_total S) then Some 0 else None) \<and>
    errors S' = errors S + 1 \<and> signed_total S' = signed_total S \<and> witness_log S' = witness_log S"
  using assms grant_lane_keeps [of X C G H sk T "emit [LaneFailed (EventsNotLoaded e)] S"]
  by (cases m) (simp_all add: serve_tick_def event_lane_def case_prod_beta Let_def MAX_CONSECUTIVE_ERRORS_def emit_def)

lemma errors_Suc: "unat (n :: u32) < 10 \<Longrightarrow> unat (n + 1) = Suc (unat n) \<and> (10 \<le> n + 1 \<longleftrightarrow> unat n = 9)"
proof -
  assume n: "unat n < 10"
  then have s: "unat (n + 1) = Suc (unat n)" by (simp add: unat_word_ariths)
  then show ?thesis using n by (auto simp: word_le_nat_alt)
qed

text \<open>
  The loop does not spin on a broken setup. When every tick fails to load the event log,
  \<open>serve\<close> returns exit code 1 as soon as ten consecutive ticks have failed, ten being counted with the
  failures before, and it has not touched the witness log.
\<close>

theorem serve_gives_up:
  assumes "\<forall>T \<in> set Ts. \<exists>e. tick_events T = Inl e" and "unat (errors S) < 10" and "10 \<le> unat (errors S) + length Ts"
    and "case m of None \<Rightarrow> True | Some k \<Rightarrow> signed_total S < k"
  shows "\<exists>S'. serve X C strict G H sk m Ts S = (S', Some 1) \<and>
    serve X C strict G H sk m (take (10 - unat (errors S)) Ts) S = (S', Some 1) \<and> witness_log S' = witness_log S"
  using assms
proof (induction Ts arbitrary: S)
  case (Cons T Ts)
  obtain e where "tick_events T = Inl e" using Cons.prems(1) by auto
  moreover have "\<not> (case m of None \<Rightarrow> False | Some k \<Rightarrow> k \<le> signed_total S)"
    using Cons.prems(4) by (auto split: option.splits)
  ultimately obtain S1 where tick: "serve_tick X C strict G H sk m T S = (S1, if 10 \<le> errors S + 1 then Some 1 else None)"
    and S1: "errors S1 = errors S + 1" "signed_total S1 = signed_total S" "witness_log S1 = witness_log S"
    using failed_tick [of T e X C strict G H sk m S] by auto
  note step = errors_Suc [OF Cons.prems(2)]
  show ?case
  proof (cases "unat (errors S) = 9")
    case True
    then show ?thesis using tick S1 step by simp
  next
    case False
    with step have tick': "serve_tick X C strict G H sk m T S = (S1, None)" using tick by simp
    have n: "unat (errors S1) < 10" "10 \<le> unat (errors S1) + length Ts" "10 - unat (errors S) = Suc (10 - unat (errors S1))"
      using False Cons.prems(2,3) step S1 by auto
    have c: "case m of None \<Rightarrow> True | Some k \<Rightarrow> signed_total S1 < k" using Cons.prems(4) unfolding S1(2) .
    have "\<forall>T \<in> set Ts. \<exists>e. tick_events T = Inl e" using Cons.prems(1) by simp
    from Cons.IH [OF this n(1,2) c] show ?thesis using tick' S1(3) by (simp add: n(3))
  qed
qed simp

text \<open>Ticks that have something to sign: a loadable log of a new length, no grant log, a written head.\<close>

fun productive ::
    "'j Externs \<Rightarrow> ('sk, 'vk) Ed25519 \<Rightarrow> HeadCodec \<Rightarrow> 'sk \<Rightarrow> u64 option \<Rightarrow> Tick list \<Rightarrow> bool" where
  "productive X C H sk c [] \<longleftrightarrow> True"
| "productive X C H sk c (T # Ts) \<longleftrightarrow> (case tick_events T of Inl _ \<Rightarrow> False
     | Inr es \<Rightarrow> Some (of_nat (length es)) \<noteq> c \<and>
         is_ok (and_then (map_err HeadNotSigned (sign_head X (ed_sign C) es sk)) (\<lambda>sth. map_err HeadUnserializable (head_line H sth))) \<and>
         tick_io T = Written \<and> tick_grants T = NotFound \<and> productive X C H sk (Some (of_nat (length es))) Ts)"

lemma quiet_grants: "tick_grants T = NotFound \<Longrightarrow> grant_lane X C G H sk T S = (S, False)"
  by (cases S) (simp add: grant_lane_def sign_grant_log_head_if_changed_def grant_log_line_hashes_def)

lemma productive_tick:
  assumes "productive X C H sk (map_option SignedTreeHead.event_count (last_signed S)) (T # Ts)"
    and "braced_codec (head_line H) (parse_head H)"
    and "heads_in (parse_head H) (witness_log S) hs"
  obtains S1 sth where "serve_tick X C strict G H sk m T S =
      (S1, if (case m of None \<Rightarrow> False | Some k \<Rightarrow> k \<le> signed_total S1) then Some 0 else None)"
    and "signed_total S1 = signed_total S + 1" and "heads_in (parse_head H) (witness_log S1) (hs @ [sth])"
    and "productive X C H sk (map_option SignedTreeHead.event_count (last_signed S1)) Ts"
proof -
  from assms(1) obtain es where es: "tick_events T = Inr es" "Some (of_nat (length es)) \<noteq> map_option SignedTreeHead.event_count (last_signed S)"
    "tick_io T = Written" "tick_grants T = NotFound" "productive X C H sk (Some (of_nat (length es))) Ts"
    and "\<exists>sth line. sign_head X (ed_sign C) es sk = Inr sth \<and> head_line H sth = Inr line"
    by (auto simp: is_ok_iff split: sum.splits)
  then obtain sth line where sth: "sign_head X (ed_sign C) es sk = Inr sth" and line: "head_line H sth = Inr line" by blast
  have n: "SignedTreeHead.event_count sth = of_nat (length es)" using sign_head_chain [OF sth] ..
  let ?S = "case prior_head_warning X strict (last_signed S) es (verifying_key C sk) of None \<Rightarrow> S | Some w \<Rightarrow> emit [Warned w] S"
  have same: "witness_log ?S = witness_log S" "signed_total ?S = signed_total S"
    by (simp_all add: emit_def split: option.split)
  obtain written where f: "append_head H ''witness log'' Written (witness_log S) sth = (written, Inr ())"
    using line by (simp add: append_head_def append_line_def file_append_def Let_def)
  have w: "heads_in (parse_head H) written (hs @ [sth])" by (rule append_head_heads(1) [OF assms(2,3) f])
  let ?S1 = "emit [HeadSigned sth] (?S\<lparr>witness_log := written, signed_total := signed_total S + 1, last_signed := Some sth\<rparr>)"
  have "event_lane X C strict H sk T S = (?S1, False)"
    using es(1,3) not_sym [OF es(2)] sth f same by (auto simp: event_lane_def sign_and_append_def)
  then have "serve_tick X C strict G H sk m T S = (?S1\<lparr>errors := 0\<rparr>,
      if (case m of None \<Rightarrow> False | Some k \<Rightarrow> k \<le> signed_total S + 1) then Some 0 else None)"
    using quiet_grants [OF es(4), of X C G H sk] by (cases m) (simp_all add: serve_tick_def Let_def MAX_CONSECUTIVE_ERRORS_def emit_def)
  then show ?thesis
    using w es(5) n by (intro that [of "?S1\<lparr>errors := 0\<rparr>" sth]; cases m) (simp_all add: emit_def)
qed

text \<open>
  C36: The loop makes progress. With a bound of \<open>m\<close> heads and ticks that each have something to sign,
  \<open>serve\<close> returns exit code 0 after exactly the ticks that bring the total to \<open>m\<close>, and the witness
  log then holds the heads it held before followed by exactly that many new ones.
\<close>

theorem serve_reaches_target:
  assumes "productive X C H sk (map_option SignedTreeHead.event_count (last_signed S)) Ts" and "Ts \<noteq> []"
    and "braced_codec (head_line H) (parse_head H)"
    and "heads_in (parse_head H) (witness_log S) hs" and "unat (signed_total S) + length Ts = unat m"
  shows "\<exists>S' new. serve X C strict G H sk (Some m) Ts S = (S', Some 0) \<and> signed_total S' = m \<and>
    length new = length Ts \<and> heads_in (parse_head H) (witness_log S') (hs @ new)"
  using assms(1,2,4,5)
proof (induction Ts arbitrary: S hs)
  case (Cons T Ts)
  obtain S1 sth where tick: "serve_tick X C strict G H sk (Some m) T S = (S1, if m \<le> signed_total S1 then Some 0 else None)"
    and S1: "signed_total S1 = signed_total S + 1" "heads_in (parse_head H) (witness_log S1) (hs @ [sth])"
      "productive X C H sk (map_option SignedTreeHead.event_count (last_signed S1)) Ts"
    by (rule productive_tick [OF Cons.prems(1) assms(3) Cons.prems(3), where m = "Some m"]) simp
  have "unat m < 18446744073709551616" using unsigned_less [of m] by simp
  then have n: "unat (signed_total S1) + length Ts = unat m"
    using Cons.prems(4) by (simp add: S1(1) unat_word_ariths)
  show ?case
  proof (cases "Ts = []")
    case True
    then have "signed_total S1 = m" using n by (intro unsigned_word_eqI) simp
    then show ?thesis using True tick S1(2) by (intro exI [of _ S1] exI [of _ "[sth]"]) simp
  next
    case False
    then have "\<not> m \<le> signed_total S1" using n by (cases Ts) (auto simp: word_le_nat_alt)
    moreover from Cons.IH [OF S1(3) False S1(2) n] obtain S' new where
      "serve X C strict G H sk (Some m) Ts S1 = (S', Some 0)" "signed_total S' = m" "length new = length Ts"
      "heads_in (parse_head H) (witness_log S') (hs @ sth # new)" by auto
    ultimately show ?thesis using tick by (intro exI [of _ S'] exI [of _ "sth # new"]) simp
  qed
qed simp

section \<open>Publishing twice\<close>

lemma last_opt_simps [simp]: "last_opt [] = None" "last_opt (xs @ [x]) = Some x"
  by (simp_all add: last_opt_def)

lemma last_opt_Some: "last_opt xs = Some x \<longleftrightarrow> (\<exists>ys. xs = ys @ [x])"
  by (cases xs rule: rev_cases) (auto simp: last_opt_def)

lemma publication_state_Inr:
  "publication_state ps th = Inr b \<Longrightarrow> b \<longleftrightarrow> last_opt ps = Some th"
  by (auto simp: publication_state_def split: option.splits if_splits)

lemma publication_state_published: "publication_state (ps @ [th]) th = Inr True"
  by (simp add: publication_state_def)

lemma load_published:
  "heads_in (parse_head H) file ps \<Longrightarrow> load_signed_heads H label True (outcome_of file) = Inr ps"
  unfolding load_signed_heads_def by (rule heads_in_load)

lemma publish_checked_Inr:
  assumes "load_signed_heads H ''published heads'' True r = Inr ps"
  shows "publish_checked X strict H events key wlog r = Inr (es, hs, qs, th, already) \<longleftrightarrow>
    events = Inr es \<and> (\<exists>vk. key = Inr vk \<and> load_witness_log H wlog = Inr hs \<and> last_opt hs = Some th \<and>
      verify_heads X strict es hs vk = Inr () \<and> publication_state ps th = Inr already \<and>
      qs = (if already then ps else ps @ [th]) \<and> verify_heads X strict es qs vk = Inr ())"
  using assms by (auto simp: publish_checked_def verify_heads_for_publish_def Let_def)

text \<open>
  Publication is idempotent and never goes back. A \<open>publish\<close> that succeeds leaves the published
  sequence as it was or extended by exactly the latest local head; that head is then its last, and
  the whole sequence verifies against the current log. Doing it again, whatever the disk does,
  writes nothing and reports the head as already published.
\<close>

theorem publish_is_idempotent:
  assumes "braced_codec (head_line H) (parse_head H)" and "heads_in (parse_head H) file ps"
    and "publish_outcome X strict H events key wlog (outcome_of file) io file = (file', Inr out)"
  shows "\<exists>qs es vk. events = Inr es \<and> key = Inr vk \<and> heads_in (parse_head H) file' qs \<and>
    (qs = ps \<or> qs = ps @ [latest out]) \<and> last_opt qs = Some (latest out) \<and> verify_heads X strict es qs vk = Inr () \<and>
    publish_outcome X strict H events key wlog (outcome_of file') io' file' =
      (file', Inr (out\<lparr>publish_action := ''already_published''\<rparr>))"
proof -
  from assms(3) obtain es hs qs th already where
    c: "publish_checked X strict H events key wlog (outcome_of file) = Inr (es, hs, qs, th, already)"
    by (auto simp: publish_outcome_def split: sum.splits)
  then obtain vk where
    v: "events = Inr es" "key = Inr vk" "load_witness_log H wlog = Inr hs" "last_opt hs = Some th"
      "verify_heads X strict es hs vk = Inr ()" "publication_state ps th = Inr already"
      "qs = (if already then ps else ps @ [th])" "verify_heads X strict es qs vk = Inr ()"
    unfolding publish_checked_Inr [OF load_published [OF assms(2)]] by blast
  have out: "out = \<lparr>publish_action = publish_action out, latest = th, local_head_count = length hs,
      published_head_count = length qs, current_count = of_nat (length es)\<rparr>"
    using assms(3) c by (auto simp: publish_outcome_def Let_def split: if_splits sum.splits prod.splits)
  have qs: "heads_in (parse_head H) file' qs"
  proof (cases already)
    case True
    then show ?thesis using assms(2,3) c v(7) by (simp add: publish_outcome_def Let_def)
  next
    case False
    then obtain u where "append_head H ''published heads'' io file th = (file', Inr u)"
      using assms(3) c by (auto simp: publish_outcome_def Let_def split: sum.splits prod.splits)
    then show ?thesis using append_head_heads(1) [OF assms(1,2)] False v(7) by auto
  qed
  have l: "last_opt qs = Some th" using publication_state_Inr [OF v(6)] v(7) by auto
  then have "publication_state qs th = Inr True" using publication_state_published by (auto simp: last_opt_Some)
  then have "publish_checked X strict H events key wlog (outcome_of file') = Inr (es, hs, qs, th, True)"
    unfolding publish_checked_Inr [OF load_published [OF qs]] using v by auto
  then have "publish_outcome X strict H events key wlog (outcome_of file') io' file' =
      (file', Inr (out\<lparr>publish_action := ''already_published''\<rparr>))"
    by (subst out) (simp add: publish_outcome_def Let_def)
  moreover have "latest out = th" by (subst out) simp
  ultimately show ?thesis using v(1,2,7,8) qs l by (intro exI [of _ qs] exI [of _ es] exI [of _ vk]) (auto split: if_splits)
qed

text \<open>
  Complete coverage is coverage of everything. If \<open>verify\<close> reports success with coverage complete,
  and the last head of the witness log was signed over some log, then that log and the current one
  agree in all their canonical events, or their chains contain a SHA-256 collision: nothing in the
  current log is beyond the witness, and nothing witnessed is gone.
\<close>

theorem complete_coverage_is_total:
  assumes "externs_ok X" and "canon_bounded X"
    and "witness_verify X C strict G H (Inr es) key wlog lane grant_log = Inr report" and "coverage report = ''complete''"
    and "load_witness_log H wlog = Inr (hs @ [sth])" and "sign_head X sg old sk = Inr sth"
    and "length old < 2 ^ 64" and "length es < 2 ^ 64"
  shows "map (canonical_bytes X) es = map (canonical_bytes X) old \<or>
    collision_among (sha256 X) (set (chain_inputs X es)) (set (chain_inputs X old))"
proof -
  from assms(3-5) obtain vk where "verify_heads X strict es (hs @ [sth]) vk = Inr ()"
    and n: "SignedTreeHead.event_count sth = of_nat (length es)"
    by (auto simp: witness_verify_def Let_def coverage_status_def split: if_splits)
  then have "head_holds X strict es vk sth" by (simp add: verify_heads_iff)
  moreover have "(of_nat (length old) :: u64) = of_nat (length es)" using sign_head_chain [OF assms(6)] n by simp
  then have "unat (of_nat (length old) :: u64) = unat (of_nat (length es) :: u64)" by simp
  then have "length old = length es" using assms(7,8) by (simp add: unat_of_nat take_bit_nat_eq_self)
  ultimately show ?thesis using held_head_keeps [OF assms(1,2,6,7), of strict es vk] by simp
qed

section \<open>Witnesses\<close>

definition sample_sth :: SignedTreeHead where
  "sample_sth = (case sign_head sample_externs (ed_sign toy_ed) sample_log [7] of
      Inr sth \<Rightarrow> sth | Inl _ \<Rightarrow> \<lparr>SignedTreeHead.event_count = 0, head = None, signature = []\<rparr>)"

lemma sample_signed: "sign_head sample_externs (ed_sign toy_ed) sample_log [7] = Inr sample_sth"
  using sample_head_signs [of "ed_sign toy_ed" sample_log "[7]"] by (auto simp: sample_sth_def)

definition run_heads :: HeadCodec where
  "run_heads = \<lparr>head_line = (\<lambda>sth. if sth = sample_sth then Inr ''{}'' else Inl []),
     parse_head = (\<lambda>l. if l = ''{}'' then Inr sample_sth else Inl []), grant_head_line = (\<lambda>_. Inl []),
     parse_grant_head = (\<lambda>_. Inl []), grant_head_body = (\<lambda>_ _. Inr [])\<rparr>"

lemma run_codec: "braced_codec (head_line run_heads) (parse_head run_heads)"
  by (auto simp: braced_codec_def run_heads_def intro!: exI [of _ "[]"] split: if_splits)

lemma run_signer: "signer_ok sample_externs toy_ed (ed_verify toy_ed) run_heads [7]"
  using run_codec sample_externs_ok(1) toy_ed_ok toy_keypair [of "[7]"]
  by (simp add: signer_ok_def) (simp add: run_heads_def braced_codec_def toy_ed_def)

definition growth_tick :: Tick where
  "growth_tick = \<lparr>tick_events = Inr sample_log, tick_grants = NotFound, tick_grants_again = NotFound,
     tick_io = Written, tick_grants_io = Written\<rparr>"

definition broken_tick :: Tick where
  "broken_tick = growth_tick\<lparr>tick_events := Inl ''gone''\<rparr>"

lemma run_start:
  "last_signed (serve_start run_heads None None) = None" "witness_log (serve_start run_heads None None) = None"
  "errors (serve_start run_heads None None) = 0" "signed_total (serve_start run_heads None None) = 0"
  "emitted (serve_start run_heads None None) = []"
  by (simp_all add: serve_start_def load_witness_log_def load_signed_heads_def load_head_file_def outcome_of_def last_opt_def)

theorem serve_never_cries_wolf_witness:
  "\<exists>S' r hs. serve sample_externs toy_ed (ed_verify toy_ed) sample_records run_heads [7] None [growth_tick, broken_tick]
       (serve_start run_heads None None) = (S', r) \<and>
     load_witness_log run_heads (outcome_of (witness_log S')) = Inr hs \<and>
     verify_heads sample_externs (ed_verify toy_ed) (sample_log @ sample_log) hs [7] = Inr ()"
proof -
  let ?S = "serve_start run_heads None None"
  obtain S' r where s: "serve sample_externs toy_ed (ed_verify toy_ed) sample_records run_heads [7] None [growth_tick, broken_tick] ?S = (S', r)"
    by fastforce
  have start: "log_witnessed sample_externs toy_ed (ed_verify toy_ed) run_heads [7] [] ?S"
    by (simp add: log_witnessed_def run_start heads_in_None verify_heads_iff)
  have grow: "append_only [] [growth_tick, broken_tick]"
    by (simp add: growth_tick_def broken_tick_def next_log_def whole_write_def sample_log_def)
  have "foldl next_log [] [growth_tick, broken_tick] = sample_log"
    by (simp add: growth_tick_def broken_tick_def next_log_def)
  with serve_never_cries_wolf [OF run_signer start grow s, of sample_log] s show ?thesis by (auto simp: toy_ed_def)
qed

theorem serve_gives_up_witness:
  "\<exists>S'. serve sample_externs toy_ed (ed_verify toy_ed) sample_records run_heads [7] (Some 1) (replicate 12 broken_tick)
       (serve_start run_heads None None) = (S', Some 1)"
  using serve_gives_up [of "replicate 12 broken_tick" "serve_start run_heads None None" "Some 1"
      sample_externs toy_ed "ed_verify toy_ed" sample_records run_heads "[7]"]
  by (auto simp: broken_tick_def run_start)

theorem serve_reaches_target_witness:
  "\<exists>S' sth. serve sample_externs toy_ed (ed_verify toy_ed) sample_records run_heads [7] (Some 1) [growth_tick]
       (serve_start run_heads None None) = (S', Some 0) \<and> heads_in (parse_head run_heads) (witness_log S') [sth]"
proof -
  let ?S = "serve_start run_heads None None"
  have "productive sample_externs toy_ed run_heads [7] (map_option SignedTreeHead.event_count (last_signed ?S)) [growth_tick]"
    by (simp add: growth_tick_def run_start sample_signed) (simp add: run_heads_def is_ok_iff)
  from serve_reaches_target [OF this _ run_codec, of "[]" 1 "ed_verify toy_ed" sample_records]
  obtain S' new where "serve sample_externs toy_ed (ed_verify toy_ed) sample_records run_heads [7] (Some 1) [growth_tick] ?S = (S', Some 0)"
    and "length new = 1" "heads_in (parse_head run_heads) (witness_log S') new"
    by (auto simp: run_start heads_in_None simp del: serve.simps)
  then show ?thesis by (cases new) (auto simp del: serve.simps)
qed

lemma run_log:
  "load_witness_log run_heads (Contents (''{}'' @ [nl])) = Inr [sample_sth]"
proof -
  have "str_lines (''{}'' @ [nl]) = [''{}'']" "\<not> is_blank ''{}''" by code_simp+
  then show ?thesis
    by (simp only: load_witness_log_def load_signed_heads_def load_head_file_def ReadOutcome.case)
      (simp add: run_heads_def)
qed

lemma run_verifies: "verify_heads sample_externs (ed_verify toy_ed) sample_log [sample_sth] [7] = Inr ()"
proof -
  have "head_holds sample_externs (ed_verify toy_ed) sample_log [7] sample_sth"
    by (rule signed_head_holds [OF sample_externs_ok(1) toy_ed_ok toy_keypair sample_signed]) (simp add: sample_log_def)
  then show ?thesis by (simp add: verify_heads_iff)
qed

theorem publish_is_idempotent_witness:
  "\<exists>file' out. publish_outcome sample_externs (ed_verify toy_ed) run_heads (Inr sample_log) (Inr [7]) (Contents (''{}'' @ [nl]))
       (outcome_of None) Written None = (file', Inr out) \<and>
     publish_outcome sample_externs (ed_verify toy_ed) run_heads (Inr sample_log) (Inr [7]) (Contents (''{}'' @ [nl]))
       (outcome_of file') (OpenFails ''ro'') file' = (file', Inr (out\<lparr>publish_action := ''already_published''\<rparr>))"
proof -
  have none: "heads_in (parse_head run_heads) None []" by (simp add: heads_in_None)
  have "publish_checked sample_externs (ed_verify toy_ed) run_heads (Inr sample_log) (Inr [7]) (Contents (''{}'' @ [nl])) (outcome_of None) =
      Inr (sample_log, [sample_sth], [sample_sth], sample_sth, False)"
    unfolding publish_checked_Inr [OF load_published [OF none]]
    using run_log run_verifies by (simp add: publication_state_def last_opt_def)
  then obtain file' out where "publish_outcome sample_externs (ed_verify toy_ed) run_heads (Inr sample_log) (Inr [7])
      (Contents (''{}'' @ [nl])) (outcome_of None) Written None = (file', Inr out)"
    by (simp add: publish_outcome_def append_head_def append_line_def file_append_def run_heads_def Let_def)
  with publish_is_idempotent [OF run_codec none this, of "OpenFails ''ro''"] show ?thesis by blast
qed

theorem complete_coverage_is_total_witness:
  "\<exists>report. witness_verify sample_externs toy_ed (ed_verify toy_ed) sample_records run_heads (Inr sample_log) (Inr [7])
       (Contents (''{}'' @ [nl])) NotFound NotFound = Inr report \<and> coverage report = ''complete'' \<and>
     (map (canonical_bytes sample_externs) sample_log = map (canonical_bytes sample_externs) sample_log \<or>
      collision_among (sha256 sample_externs) (set (chain_inputs sample_externs sample_log)) (set (chain_inputs sample_externs sample_log)))"
proof -
  have n: "SignedTreeHead.event_count sample_sth = of_nat (length sample_log)" using sign_head_chain [OF sample_signed] ..
  have len: "length sample_log < 2 ^ 64" by (simp add: sample_log_def)
  obtain report where r: "witness_verify sample_externs toy_ed (ed_verify toy_ed) sample_records run_heads (Inr sample_log) (Inr [7])
       (Contents (''{}'' @ [nl])) NotFound NotFound = Inr report" "coverage report = ''complete''"
    using run_log run_verifies n
    by (simp add: witness_verify_def verify_grant_log_heads_def load_grant_log_heads_def load_head_file_def Let_def coverage_status_def)
  from complete_coverage_is_total [OF sample_externs_ok r _ sample_signed len len, of "[]"] run_log r show ?thesis by simp
qed

end
