(* ===== verification/Op_Retry.thy ===== *)
theory Op_Retry
  imports Op_Layer
begin

text \<open>
  The retry of a lost race (\<open>with_write_retry\<close> and \<open>back_off\<close> of \<open>crates/dent8-cli/src/ops.rs\<close>):
  which attempt settles, that a conflict never escapes, and the bounds of the wait.
\<close>

section \<open>Lost attempts\<close>

definition lost :: "OpError fault + 'a \<Rightarrow> bool" where
  "lost r \<longleftrightarrow> (\<exists>msg. r = Inl (Fail (OpError.Conflict msg)))"

text \<open>The world after the first \<open>k\<close> attempts, if all of them are lost: no lease, or a conflict.\<close>

fun after_losses :: "(nat \<Rightarrow> string option) \<Rightarrow> 'a op \<Rightarrow> nat \<Rightarrow> World \<Rightarrow> World option" where
  "after_losses lease m 0 w = Some w"
| "after_losses lease m (Suc k) w = (case after_losses lease m k w of
      None \<Rightarrow> None
    | Some u \<Rightarrow> if lease k \<noteq> None then Some u
        else if lost (snd (m u)) then Some (fst (m u)) else None)"

lemma retry_from_cases:
  assumes "after_losses lease m a w = Some u"
  shows "(\<exists>k v. a \<le> k \<and> k < a + n \<and> after_losses lease m k w = Some v \<and> lease k = None \<and>
        \<not> lost (snd (m v)) \<and> retry_from lease m a latest n u = m v) \<or>
    (\<exists>v msg. after_losses lease m (a + n) w = Some v \<and>
        retry_from lease m a latest n u = (v, Inl (Fail (op_rejected msg))))"
  using assms
proof (induction n arbitrary: a latest u)
  case 0
  have "\<exists>msg. retry_from lease m a latest 0 u = (u, Inl (Fail (op_rejected msg)))"
    unfolding retry_from.simps by blast
  with 0 show ?case by simp
next
  case (Suc n)
  have go: ?case if "after_losses lease m (Suc a) w = Some u'"
    and "retry_from lease m a latest (Suc n) u = retry_from lease m (Suc a) latest' n u'" for u' latest'
  proof -
    from Suc.IH [OF that(1), of latest'] consider
      k v where "Suc a \<le> k" "k < Suc a + n" "after_losses lease m k w = Some v" "lease k = None"
        "\<not> lost (snd (m v))" "retry_from lease m (Suc a) latest' n u' = m v"
    | v msg where "after_losses lease m (Suc a + n) w = Some v"
        "retry_from lease m (Suc a) latest' n u' = (v, Inl (Fail (op_rejected msg)))"
      by (elim disjE exE conjE) metis+
    then show ?thesis
      unfolding that(2) by cases (fastforce simp del: after_losses.simps retry_from.simps)+
  qed
  show ?case
  proof (cases "lease a")
    case (Some failed)
    then show ?thesis using go [of u failed] Suc.prems by simp
  next
    case None
    obtain u' r where m: "m u = (u', r)" by force
    show ?thesis
    proof (cases "lost r")
      case True
      then obtain msg where "r = Inl (Fail (OpError.Conflict msg))" by (auto simp: lost_def)
      then show ?thesis using go [of u' msg] None m Suc.prems by (simp add: lost_def)
    next
      case False
      then have "retry_from lease m a latest (Suc n) u = m u"
        using None m by (auto simp: lost_def split: sum.splits fault.splits OpError.splits)
      then show ?thesis using None False m Suc.prems by (intro disjI1 exI [of _ a] exI [of _ u]) simp
    qed
  qed
qed

section \<open>Properties\<close>

text \<open>
  The retry always returns, settles at the first attempt that is not lost, and lets no
  conflict escape. Either some attempt below the thirty-second gets its lease and does not
  conflict, all attempts before it being lost, and the result is that attempt's result in the world
  the lost ones left; or all thirty-two are lost, and the result is a refusal.
\<close>

theorem retry_settles:
  "(\<exists>k < MAX_ATTEMPTS. \<exists>u. after_losses lease m k w = Some u \<and> lease k = None \<and>
      \<not> lost (snd (m u)) \<and> with_write_retry lease m w = m u) \<or>
   (\<exists>u msg. after_losses lease m MAX_ATTEMPTS w = Some u \<and>
      with_write_retry lease m w = (u, Inl (Fail (op_rejected msg))))"
  using retry_from_cases [of lease m 0 w w MAX_ATTEMPTS "[]"] by (auto simp: with_write_retry_def)

lemma exp_value: "unat (push_bit (min a 8) (1 :: u64)) = 2 ^ min a 8"
proof -
  have "min a 8 < 9" by simp
  then obtain k where k: "k = min a 8" "k = 0 \<or> k = 1 \<or> k = 2 \<or> k = 3 \<or> k = 4 \<or> k = 5 \<or> k = 6 \<or> k = 7 \<or> k = 8"
    by force
  from k(2) show ?thesis unfolding k(1) [symmetric] by (elim disjE) simp_all
qed

text \<open>
  The wait before the next attempt is bounded: at least \<open>2 ^ min attempt 8\<close> milliseconds and at
  most three times that, hence never more than 768, for every process id and attempt; the
  arithmetic of the code does not wrap outside the mixing of the jitter.
\<close>

theorem back_off_bounded:
  "2 ^ min attempt 8 \<le> unat (back_off pid attempt) \<and> unat (back_off pid attempt) \<le> 3 * 2 ^ min attempt 8"
proof -
  let ?e = "push_bit (min attempt 8) (1 :: u64)"
  have e: "unat ?e = 2 ^ min attempt 8" by (rule exp_value)
  have le: "(2 :: nat) ^ min attempt 8 \<le> 2 ^ 8" by (rule power_increasing) simp_all
  have m: "unat (2 * ?e + 1) = 2 * 2 ^ min attempt 8 + 1"
    using e le by (simp add: unat_word_ariths)
  obtain z where z: "back_off pid attempt = ?e + z mod (2 * ?e + 1)"
    by (simp add: back_off_def Let_def)
  have zm: "unat (z mod (2 * ?e + 1)) \<le> 2 * 2 ^ min attempt 8"
    using m by (simp add: unat_mod)
  have "unat (back_off pid attempt) = unat ?e + unat (z mod (2 * ?e + 1))"
    unfolding z using e zm le by (intro unat_add_lem [THEN iffD1]) simp
  then show ?thesis using e zm by simp
qed

end
