(* ===== verification/Sql_Log.thy ===== *)
theory Sql_Log
  imports Durable_Log
begin

text \<open>
  What the two SQL adapters (\<open>crates/dent8-store-sqlite/src/lib.rs\<close> and
  \<open>crates/dent8-store-postgres/src/adapter.rs\<close>) share: the rows of \<open>dent8_event_log\<close> and the
  id allocator, the meaning of the statements that both issue, a transaction as a state transformer
  that can fail, and the algorithm of an append (arbitrate, look for a duplicate, chain, insert).
  Every statement may fail for a reason outside the program: the engine's answers are the
  parameter \<open>Engine\<close>, indexed by the number of statements issued so far. The driver's errors are
  classified by a handler, which is where the adapters differ.
\<close>

section \<open>Tables\<close>

text \<open>\<open>sqlx::Error\<close>: an error of the database with its code and message, or any other.\<close>

datatype SqlxError =
    Database (db_code: "string option") (db_message: string) (db_shown: string)
  | OtherSqlx string

fun show_SqlxError :: "SqlxError \<Rightarrow> string" where
  "show_SqlxError (Database c m s) = s"
| "show_SqlxError (OtherSqlx s) = s"

record 'v LogRow =
  row_sequence :: int
  row_event_id :: string
  row_fact_id :: string
  row_subject_type :: string
  row_subject_key :: string
  row_predicate :: string
  row_previous_hash :: "string option"
  row_hash :: string
  event_json :: 'v

text \<open>
  The tables: the log in the order of insertion, the last sequence number drawn, which is never
  drawn again, and the allocator's row for events.
\<close>

record 'v Tables =
  log_rows :: "'v LogRow list"
  last_sequence :: int
  next_value :: "int option"

record 'v Json =
  to_json :: "FactEvent \<Rightarrow> string + 'v"
  from_json :: "'v \<Rightarrow> string + FactEvent"

definition json_ok :: "'v Json \<Rightarrow> bool" where
  "json_ok J \<longleftrightarrow> (\<forall>e v. to_json J e = Inr v \<longrightarrow> from_json J v = Inr e)"

definition no_tables :: "'v Tables" where
  "no_tables = \<lparr>log_rows = [], last_sequence = 0, next_value = None\<rparr>"

definition i64_max :: int where
  "i64_max = 9223372036854775807"

section \<open>Statements\<close>

record 'd Conn =
  working :: 'd
  statements :: nat

record Engine =
  statement_fault :: "nat \<Rightarrow> SqlxError option"
  commit_fault :: "(SqlxError \<times> bool) option"
  violated :: "string \<Rightarrow> SqlxError"
  decode_fault :: SqlxError

type_synonym ('d, 'a) sql = "'d Conn \<Rightarrow> 'd Conn \<times> (StoreError fault + 'a)"

definition sql_return :: "'a \<Rightarrow> ('d, 'a) sql" where
  "sql_return x c = (c, Inr x)"

definition sql_lift :: "StoreError fault + 'a \<Rightarrow> ('d, 'a) sql" where
  "sql_lift r c = (c, r)"

definition sql_bind :: "('d, 'a) sql \<Rightarrow> ('a \<Rightarrow> ('d, 'b) sql) \<Rightarrow> ('d, 'b) sql" where
  "sql_bind m f c = (case m c of (c', Inl e) \<Rightarrow> (c', Inl e) | (c', Inr x) \<Rightarrow> f x c')"

definition statement ::
    "Engine \<Rightarrow> (SqlxError \<Rightarrow> StoreError) \<Rightarrow> ('d \<Rightarrow> 'd \<times> (SqlxError + 'a)) \<Rightarrow> ('d, 'a) sql" where
  "statement F h q c = (case statement_fault F (statements c) of
      Some e \<Rightarrow> (c\<lparr>statements := Suc (statements c)\<rparr>, Inl (Fail (h e)))
    | None \<Rightarrow> (case q (working c) of (d, r) \<Rightarrow>
        (c\<lparr>working := d, statements := Suc (statements c)\<rparr>, map_err (\<lambda>e. Fail (h e)) r)))"

definition fetch :: "Engine \<Rightarrow> (SqlxError \<Rightarrow> StoreError) \<Rightarrow> ('d \<Rightarrow> SqlxError + 'a) \<Rightarrow> ('d, 'a) sql" where
  "fetch F h q = statement F h (\<lambda>d. (d, q d))"

text \<open>\<open>ORDER BY global_sequence\<close>\<close>

definition ordered_rows :: "('v, 'z) Tables_scheme \<Rightarrow> 'v LogRow list" where
  "ordered_rows d = sort_key row_sequence (log_rows d)"

definition select_rows :: "('v LogRow \<Rightarrow> bool) \<Rightarrow> ('v, 'z) Tables_scheme \<Rightarrow> 'v LogRow list" where
  "select_rows P d = filter P (ordered_rows d)"

text \<open>\<open>ORDER BY global_sequence DESC LIMIT 1\<close>\<close>

definition head_hash :: "('v, 'z) Tables_scheme \<Rightarrow> string option" where
  "head_hash d = map_option row_hash (first_of (rev (ordered_rows d)))"

text \<open>
  \<open>INSERT ... RETURNING global_sequence\<close> with its two \<open>UNIQUE\<close> columns and the key that the
  database draws.
\<close>

definition insert_row ::
    "Engine \<Rightarrow> 'v LogRow \<Rightarrow> ('v, 'z) Tables_scheme \<Rightarrow> ('v, 'z) Tables_scheme \<times> (SqlxError + int)" where
  "insert_row F r d =
     (let n = last_sequence d + 1; drawn = d\<lparr>last_sequence := n\<rparr> in
      if i64_max < n then (d, Inl (violated F ''global_sequence''))
      else if row_event_id r \<in> row_event_id ` set (log_rows d) then (drawn, Inl (violated F ''event_id''))
      else if row_hash r \<in> row_hash ` set (log_rows d) then (drawn, Inl (violated F ''event_hash''))
      else (drawn\<lparr>log_rows := log_rows d @ [r\<lparr>row_sequence := n\<rparr>]\<rparr>, Inr n))"

definition row_of :: "FactEvent \<Rightarrow> string option \<Rightarrow> string \<Rightarrow> 'v \<Rightarrow> 'v LogRow" where
  "row_of e previous h v = \<lparr>row_sequence = 0, row_event_id = event_str (event_id e),
     row_fact_id = fact_str (FactEvent.fact_id e), row_subject_type = Model.subject_kind (FactEvent.subject e),
     row_subject_key = subject_key (FactEvent.subject e), row_predicate = predicate_str (FactEvent.predicate e),
     row_previous_hash = previous, row_hash = h, event_json = v\<rparr>"

text \<open>A column of the driver's type \<open>i64\<close>.\<close>

definition fetch_i64 :: "Engine \<Rightarrow> int option \<Rightarrow> SqlxError + int" where
  "fetch_i64 F v = (case v of
      None \<Rightarrow> Inl (OtherSqlx ''no rows returned by a query that expected to return at least one row'')
    | Some n \<Rightarrow> if - i64_max - 1 \<le> n \<and> n \<le> i64_max then Inr n else Inl (decode_fault F))"

section \<open>Reading\<close>

definition event_from_json :: "'v Json \<Rightarrow> 'v \<Rightarrow> StoreError fault + FactEvent" where
  "event_from_json J v = map_err (\<lambda>m. Fail (StoreError.CorruptEvent m)) (from_json J v)"

definition rows_events :: "'v Json \<Rightarrow> 'v LogRow list \<Rightarrow> StoreError fault + FactEvent list" where
  "rows_events J rows = try_map (\<lambda>r. event_from_json J (event_json r)) rows"

definition load_rows ::
    "Engine \<Rightarrow> (SqlxError \<Rightarrow> StoreError) \<Rightarrow> 'v Json \<Rightarrow> ('v LogRow \<Rightarrow> bool) \<Rightarrow>
       (('v, 'z) Tables_scheme, FactEvent list) sql" where
  "load_rows F h J P =
     sql_bind (fetch F h (\<lambda>d. Inr (select_rows P d))) (\<lambda>rows. sql_lift (rows_events J rows))"

definition load_fact_in_tx ::
    "Engine \<Rightarrow> (SqlxError \<Rightarrow> StoreError) \<Rightarrow> 'v Json \<Rightarrow> string \<Rightarrow>
       (('v, 'z) Tables_scheme, FactEvent list) sql" where
  "load_fact_in_tx F h J f = load_rows F h J (\<lambda>r. row_fact_id r = f)"

definition load_subject_predicate_in_tx ::
    "Engine \<Rightarrow> (SqlxError \<Rightarrow> StoreError) \<Rightarrow> 'v Json \<Rightarrow> string \<times> string \<times> string \<Rightarrow>
       (('v, 'z) Tables_scheme, FactEvent list) sql" where
  "load_subject_predicate_in_tx F h J k = (case k of (sk, key, pd) \<Rightarrow>
     load_rows F h J (\<lambda>r. row_subject_type r = sk \<and> row_subject_key r = key \<and> row_predicate r = pd))"

definition filter_row :: "EventFilter \<Rightarrow> 'v LogRow \<Rightarrow> bool" where
  "filter_row fl r \<longleftrightarrow>
     opt_matches (map_option fact_str (filter_fact_id fl)) (row_fact_id r) \<and>
     opt_matches (map_option Model.subject_kind (filter_subject fl)) (row_subject_type r) \<and>
     opt_matches (map_option subject_key (filter_subject fl)) (row_subject_key r) \<and>
     opt_matches (map_option predicate_str (filter_predicate fl)) (row_predicate r) \<and>
     (case after_sequence fl of None \<Rightarrow> True
      | Some q \<Rightarrow> (if uint q \<le> i64_max then uint q else i64_max) < row_sequence r)"

definition row_limit :: "EventFilter \<Rightarrow> 'a list \<Rightarrow> 'a list" where
  "row_limit fl rows = (case limit fl of None \<Rightarrow> take (nat i64_max) rows | Some n \<Rightarrow> take (unat n) rows)"

definition scan_rows ::
    "Engine \<Rightarrow> (SqlxError \<Rightarrow> StoreError) \<Rightarrow> 'v Json \<Rightarrow> EventFilter \<Rightarrow>
       (('v, 'z) Tables_scheme, FactEvent list) sql" where
  "scan_rows F h J fl =
     sql_bind (fetch F h (\<lambda>d. Inr (row_limit fl (select_rows (filter_row fl) d)))) (\<lambda>rows.
       sql_lift (rows_events J rows))"

definition verify_rows ::
    "Engine \<Rightarrow> (SqlxError \<Rightarrow> StoreError) \<Rightarrow> 'j Externs \<Rightarrow> 'v Json \<Rightarrow> (('v, 'z) Tables_scheme, bool) sql" where
  "verify_rows F h X J =
     sql_bind (fetch F h (\<lambda>d. Inr (ordered_rows d))) (\<lambda>rows.
     sql_bind (sql_lift (rows_events J rows)) (\<lambda>events.
     sql_bind (sql_lift (map_err (\<lambda>e. Fail (StoreError.Canonicalization (show_CanonError e))) (hash_chain X events)))
       (\<lambda>recomputed. sql_return (recomputed = map row_hash rows))))"

text \<open>A read on the pool, outside any transaction.\<close>

definition on_pool :: "'d \<Rightarrow> ('d, 'a) sql \<Rightarrow> StoreError fault + 'a" where
  "on_pool d m = snd (m \<lparr>working = d, statements = 0\<rparr>)"

section \<open>One append, up to the inserted row\<close>

definition load_replacing ::
    "Engine \<Rightarrow> (SqlxError \<Rightarrow> StoreError) \<Rightarrow> 'v Json \<Rightarrow> FactEvent \<Rightarrow>
       (('v, 'z) Tables_scheme, FactEvent list option) sql" where
  "load_replacing F h J e = (case FactEvent.kind e of
      FactEventKind.Superseded g _ \<Rightarrow>
        sql_bind (load_fact_in_tx F h J (fact_str g)) (\<lambda>es. sql_return (Some es))
    | _ \<Rightarrow> sql_return None)"

definition insert_event ::
    "Engine \<Rightarrow> (SqlxError \<Rightarrow> StoreError) \<Rightarrow> 'j Externs \<Rightarrow> 'v Json \<Rightarrow> FactEvent \<Rightarrow>
       (('v, 'z) Tables_scheme, FactEvent list \<times> string \<times> int) sql" where
  "insert_event F h X J e =
     sql_bind (load_fact_in_tx F h J (fact_str (FactEvent.fact_id e))) (\<lambda>existing.
     sql_bind (load_replacing F h J e) (\<lambda>replacing.
     sql_bind (sql_lift (arbitrate_events e existing replacing)) (\<lambda>_.
     sql_bind (fetch F h (\<lambda>d. Inr (event_str (event_id e) \<in> row_event_id ` set (log_rows d)))) (\<lambda>duplicate.
     if duplicate then sql_lift (Inl (Fail (StoreError.Conflict (''duplicate event_id '' @ event_str (event_id e)))))
     else
     sql_bind (fetch F h (\<lambda>d. Inr (head_hash d))) (\<lambda>previous.
     sql_bind (sql_lift (map_err (\<lambda>err. Fail (StoreError.Canonicalization (show_CanonError err))) (Hash_Chain.event_hash X e previous))) (\<lambda>hash.
     sql_bind (sql_lift (map_err (\<lambda>m. Fail (StoreError.Canonicalization m)) (to_json J e))) (\<lambda>v.
     sql_bind (statement F h (insert_row F (row_of e previous hash v))) (\<lambda>n.
     sql_return (existing, hash, n)))))))))"

text \<open>\<open>u64::try_from(global_sequence)\<close> and the receipt.\<close>

definition receipt_for :: "FactEvent \<Rightarrow> string \<Rightarrow> int \<Rightarrow> StoreError fault + AppendReceipt" where
  "receipt_for e h n =
     (if n < 0 then Inl (Fail (StoreError.CorruptEvent (''non-positive global_sequence '' @ show_int n)))
      else Inr \<lparr>AppendReceipt.global_sequence = word_of_int n, receipt_event_id = event_id e, receipt_hash = h\<rparr>)"

section \<open>The touched groups at commit\<close>

definition event_key :: "FactEvent \<Rightarrow> string \<times> string \<times> string" where
  "event_key e = (Model.subject_kind (FactEvent.subject e), subject_key (FactEvent.subject e),
     predicate_str (FactEvent.predicate e))"

definition touched_keys :: "FactEvent list \<Rightarrow> (string \<times> string \<times> string) list" where
  "touched_keys es = sort (remdups (map event_key es))"

definition latest_recorded :: "FactEvent list \<Rightarrow> string \<times> string \<times> string \<Rightarrow> TimestampMillis option" where
  "latest_recorded es k =
     max_by_key (\<lambda>t. t) (map (\<lambda>e. recorded_at (provenance e)) (filter (\<lambda>e. event_key e = k) es))"

fun validate_keys ::
    "Engine \<Rightarrow> (SqlxError \<Rightarrow> StoreError) \<Rightarrow> 'v Json \<Rightarrow> FactEvent list \<Rightarrow> (string \<times> string \<times> string) list \<Rightarrow>
       (('v, 'z) Tables_scheme, unit) sql" where
  "validate_keys F h J es [] = sql_return ()"
| "validate_keys F h J es (k # ks) = (case latest_recorded es k of
      None \<Rightarrow> sql_lift (Inl Panic)
    | Some now \<Rightarrow>
        sql_bind (load_subject_predicate_in_tx F h J k) (\<lambda>events.
        sql_bind (sql_lift (map_err Fail (validate_unique_projection coding_agent events now))) (\<lambda>_.
        validate_keys F h J es ks)))"

definition validate_touched_policies_in_tx ::
    "Engine \<Rightarrow> (SqlxError \<Rightarrow> StoreError) \<Rightarrow> 'v Json \<Rightarrow> FactEvent list \<Rightarrow> (('v, 'z) Tables_scheme, unit) sql" where
  "validate_touched_policies_in_tx F h J es = validate_keys F h J es (touched_keys es)"

section \<open>Transactions\<close>

text \<open>The loop over the events of an operation.\<close>

fun each_in_tx ::
    "(FactEvent \<Rightarrow> ('d, AppendReceipt) sql) \<Rightarrow> FactEvent list \<Rightarrow> ('d, AppendReceipt list) sql" where
  "each_in_tx one [] = sql_return []"
| "each_in_tx one (e # es) =
     sql_bind (one e) (\<lambda>r. sql_bind (each_in_tx one es) (\<lambda>rs. sql_return (r # rs)))"

text \<open>A statement that changes no table: acquiring the connection, taking a lock, opening a transaction.\<close>

definition touch :: "Engine \<Rightarrow> (SqlxError \<Rightarrow> StoreError) \<Rightarrow> ('d, unit) sql" where
  "touch F h = statement F h (\<lambda>d. (d, Inr ()))"

text \<open>
  A whole operation: the connection, the transaction or its lock, the events, and the check of the
  touched groups.
\<close>

definition batch_in_tx ::
    "Engine \<Rightarrow> (SqlxError \<Rightarrow> StoreError) \<Rightarrow> 'v Json \<Rightarrow> (FactEvent \<Rightarrow> (('v, 'z) Tables_scheme, AppendReceipt) sql) \<Rightarrow>
       FactEvent list \<Rightarrow> (('v, 'z) Tables_scheme, AppendReceipt list) sql" where
  "batch_in_tx F h J one es =
     sql_bind (touch F h) (\<lambda>_. sql_bind (touch F h) (\<lambda>_.
     sql_bind (each_in_tx one es) (\<lambda>receipts.
     sql_bind (validate_touched_policies_in_tx F h J es) (\<lambda>_. sql_return receipts))))"

text \<open>
  The end of a transaction. An error before the commit abandons the working tables; \<open>rolled_back\<close>
  says what the abandoned ones leave behind. A commit that reports an error may still have been
  applied, when the answer was lost: the flag of \<open>commit_fault\<close>.
\<close>

definition run_tx ::
    "Engine \<Rightarrow> (SqlxError \<Rightarrow> StoreError) \<Rightarrow> ('d \<Rightarrow> 'd) \<Rightarrow> ('d, 'a) sql \<Rightarrow> 'd \<Rightarrow> 'd \<times> (StoreError fault + 'a)" where
  "run_tx F h rolled_back m db = (case m \<lparr>working = db, statements = 0\<rparr> of
      (c, Inl err) \<Rightarrow> (rolled_back (working c), Inl err)
    | (c, Inr x) \<Rightarrow> (case commit_fault F of
          None \<Rightarrow> (working c, Inr x)
        | Some (err, applied) \<Rightarrow>
            (if applied then working c else rolled_back (working c), Inl (Fail (h err)))))"

text \<open>\<open>receipts.pop().expect\<close>\<close>

definition pop_receipt :: "'d \<times> (StoreError fault + AppendReceipt list) \<Rightarrow> 'd \<times> (StoreError fault + AppendReceipt)" where
  "pop_receipt r = (fst r, and_then (snd r) (\<lambda>rcs. if rcs = [] then Inl Panic else Inr (last rcs)))"

end
