(* ===== verification/Sql_Contract.thy ===== *)
theory Sql_Contract
  imports Sql_Log
begin

text \<open>
  The contract of the shared SQL append. \<open>sql_ok\<close> is the invariant of the event log table: the
  sequence grows, every row's columns agree with its event, the stored hashes are the chain of the
  events, the ids are distinct. \<open>sql_spec\<close> is the partial-correctness triple of a transaction:
  precondition, result and error postcondition on the working tables, for every behaviour of the
  engine.
\<close>

section \<open>The invariant\<close>

definition row_holds :: "'v Json \<Rightarrow> 'v LogRow \<Rightarrow> FactEvent \<Rightarrow> bool" where
  "row_holds J r e \<longleftrightarrow> from_json J (event_json r) = Inr e \<and> row_event_id r = event_str (event_id e) \<and>
     row_fact_id r = fact_str (FactEvent.fact_id e) \<and>
     (row_subject_type r, row_subject_key r, row_predicate r) = event_key e"

definition log_events :: "'v Json \<Rightarrow> ('v, 'z) Tables_scheme \<Rightarrow> FactEvent list" where
  "log_events J d =
     concat (map (\<lambda>r. case from_json J (event_json r) of Inr e \<Rightarrow> [e] | Inl _ \<Rightarrow> []) (log_rows d))"

definition sql_ok :: "'j Externs \<Rightarrow> 'v Json \<Rightarrow> ('v, 'z) Tables_scheme \<Rightarrow> bool" where
  "sql_ok X J d \<longleftrightarrow> sorted_wrt (<) (map row_sequence (log_rows d)) \<and>
     (\<forall>r \<in> set (log_rows d). 1 \<le> row_sequence r \<and> row_sequence r \<le> last_sequence d) \<and>
     0 \<le> last_sequence d \<and> last_sequence d \<le> i64_max \<and>
     list_all2 (row_holds J) (log_rows d) (log_events J d) \<and>
     hash_chain X (log_events J d) = Inr (map row_hash (log_rows d)) \<and>
     map row_previous_hash (log_rows d) = butlast (None # map (\<lambda>r. Some (row_hash r)) (log_rows d)) \<and>
     distinct (map (\<lambda>e. event_str (event_id e)) (log_events J d))"

lemma sql_ok_empty [inv_intro]: "log_rows d = [] \<Longrightarrow> last_sequence d = 0 \<Longrightarrow> sql_ok X J d"
  by (simp add: i64_max_def sql_ok_def log_events_def hash_chain_def)

lemma log_events_empty: "log_rows d = [] \<Longrightarrow> log_events J d = []"
  by (simp add: log_events_def)

lemma sql_ok_last [inv_intro]:
  "sql_ok X J d \<Longrightarrow> n \<in> {last_sequence d..i64_max} \<Longrightarrow> sql_ok X J (d\<lparr>last_sequence := n\<rparr>)"
  unfolding sql_ok_def log_events_def by fastforce

lemma log_events_last [simp]: "log_events J (d\<lparr>last_sequence := n\<rparr>) = log_events J d"
  by (simp add: log_events_def)

lemma log_events_next [simp]: "log_events J (d\<lparr>next_value := n\<rparr>) = log_events J d"
  by (simp add: log_events_def)

lemma sql_ok_next [simp]: "sql_ok X J (d\<lparr>next_value := n\<rparr>) \<longleftrightarrow> sql_ok X J d"
  by (simp add: sql_ok_def)

lemma ordered_ok: "sql_ok X J d \<Longrightarrow> ordered_rows d = log_rows d"
  unfolding ordered_rows_def sql_ok_def
  by (intro sort_key_id_if_sorted) (auto simp: sorted_wrt_map elim: sorted_wrt_mono_rel [rotated])

lemma rows_filter:
  assumes "list_all2 (row_holds J) rows es" and "\<And>r e. row_holds J r e \<Longrightarrow> P r = Q e"
  shows "rows_events J (filter P rows) = Inr (filter Q es)"
  using assms(1)
proof (induction rule: list_all2_induct)
  case (Cons r rows e es)
  then show ?case using assms(2) [of r e]
    by (simp add: rows_events_def event_from_json_def row_holds_def)
qed (simp add: rows_events_def)

lemma ok_holds: "sql_ok X J d \<Longrightarrow> list_all2 (row_holds J) (log_rows d) (log_events J d)"
  by (simp add: sql_ok_def)

lemma select_ok:
  assumes "sql_ok X J d" and "\<And>r e. row_holds J r e \<Longrightarrow> P r = Q e"
  shows "rows_events J (select_rows P d) = Inr (filter Q (log_events J d))"
  unfolding select_rows_def ordered_ok [OF assms(1)] by (rule rows_filter [OF ok_holds [OF assms(1)] assms(2)])

lemma fact_row: "row_holds J r e \<Longrightarrow> row_fact_id r = fact_str f \<longleftrightarrow> FactEvent.fact_id e = f"
  by (auto simp: row_holds_def intro: FactId.expand)

lemma key_row:
  "row_holds J r e \<Longrightarrow> (row_subject_type r = a \<and> row_subject_key r = b \<and> row_predicate r = c) \<longleftrightarrow> event_key e = (a, b, c)"
  by (auto simp: row_holds_def)

lemma head_hash_ok:
  assumes "sql_ok X J d"
  shows "head_hash d = (if log_rows d = [] then None else Some (row_hash (last (log_rows d))))"
  by (cases "log_rows d" rule: rev_cases) (simp_all add: head_hash_def ordered_ok [OF assms] first_of_def)

text \<open>The tables after an insertion.\<close>

definition inserted :: "FactEvent \<Rightarrow> string \<Rightarrow> 'v \<Rightarrow> ('v, 'z) Tables_scheme \<Rightarrow> ('v, 'z) Tables_scheme" where
  "inserted e h v d = d\<lparr>log_rows := log_rows d @ [(row_of e (head_hash d) h v)\<lparr>row_sequence := last_sequence d + 1\<rparr>],
     last_sequence := last_sequence d + 1\<rparr>"

lemma log_events_inserted:
  "from_json J v = Inr e \<Longrightarrow> log_events J (inserted e h v d) = log_events J d @ [e]"
  by (simp add: log_events_def inserted_def row_of_def)

lemma sql_ok_inserted [inv_intro]:
  assumes ok: "sql_ok X J d" and v: "from_json J v = Inr e" and room: "last_sequence d < i64_max"
    and h: "Hash_Chain.event_hash X e (head_hash d) = Inr h"
    and new: "event_str (event_id e) \<notin> (\<lambda>e. event_str (event_id e)) ` set (log_events J d)"
  shows "sql_ok X J (inserted e h v d)"
proof -
  let ?r = "(row_of e (head_hash d) h v)\<lparr>row_sequence := last_sequence d + 1\<rparr>"
  have rows: "log_rows (inserted e h v d) = log_rows d @ [?r]"
    and lst: "last_sequence (inserted e h v d) = last_sequence d + 1" by (simp_all add: inserted_def)
  have "hash_chain X (log_events J d @ [e]) = Inr (map row_hash (log_rows d) @ [h])"
    using ok h by (cases "log_rows d = []") (simp_all add: sql_ok_def hash_chain_def hash_chain_from_snoc head_hash_ok [OF ok] last_map)
  moreover have "row_holds J ?r e" using v by (simp add: row_holds_def row_of_def event_key_def)
  moreover have "map row_previous_hash (log_rows d) @ [head_hash d] =
      butlast (None # map (\<lambda>r. Some (row_hash r)) (log_rows d @ [?r]))"
    using ok by (cases "log_rows d" rule: rev_cases) (simp_all add: sql_ok_def head_hash_ok [OF ok] butlast_append)
  ultimately show ?thesis
    using ok new room unfolding sql_ok_def log_events_inserted [OF v] rows lst
    by (auto simp: sorted_wrt_append row_of_def intro: list_all2_appendI)
qed

section \<open>Triples\<close>

definition sql_spec ::
    "('d \<Rightarrow> bool) \<Rightarrow> ('d, 'a) sql \<Rightarrow> ('a \<Rightarrow> 'd \<Rightarrow> bool) \<Rightarrow> (StoreError fault \<Rightarrow> 'd \<Rightarrow> bool) \<Rightarrow> bool" where
  "sql_spec P m Q E \<longleftrightarrow> (\<forall>c. P (working c) \<longrightarrow>
     (case m c of (c', Inr x) \<Rightarrow> Q x (working c') | (c', Inl e) \<Rightarrow> E e (working c')))"

lemma specI:
  assumes "\<And>c c' x. P (working c) \<Longrightarrow> m c = (c', Inr x) \<Longrightarrow> Q x (working c')"
    and "\<And>c c' e. P (working c) \<Longrightarrow> m c = (c', Inl e) \<Longrightarrow> E e (working c')"
  shows "sql_spec P m Q E"
  using assms unfolding sql_spec_def by (auto split: prod.splits sum.splits)

lemma spec_Inr: "sql_spec P m Q E \<Longrightarrow> m c = (c', Inr x) \<Longrightarrow> P (working c) \<Longrightarrow> Q x (working c')"
  unfolding sql_spec_def by fastforce

lemma spec_Inl: "sql_spec P m Q E \<Longrightarrow> m c = (c', Inl e) \<Longrightarrow> P (working c) \<Longrightarrow> E e (working c')"
  unfolding sql_spec_def by fastforce

lemma spec_bind:
  assumes "sql_spec P m R E" and "\<And>x. sql_spec (R x) (f x) Q E"
  shows "sql_spec P (sql_bind m f) Q E"
proof (rule specI)
  fix c c' x
  assume c: "P (working c)" and b: "sql_bind m f c = (c', Inr x)"
  then obtain c1 y where m: "m c = (c1, Inr y)" and f: "f y c1 = (c', Inr x)"
    by (auto simp: sql_bind_def split: prod.splits sum.splits)
  show "Q x (working c')" by (rule spec_Inr [OF assms(2) f spec_Inr [OF assms(1) m c]])
next
  fix c c' e
  assume c: "P (working c)" and "sql_bind m f c = (c', Inl e)"
  then consider "m c = (c', Inl e)" | c1 y where "m c = (c1, Inr y)" "f y c1 = (c', Inl e)"
    by (auto simp: sql_bind_def split: prod.splits sum.splits)
  then show "E e (working c')"
  proof cases
    case 1
    then show ?thesis by (rule spec_Inl [OF assms(1) _ c])
  next
    case 2
    show ?thesis by (rule spec_Inl [OF assms(2) 2(2) spec_Inr [OF assms(1) 2(1) c]])
  qed
qed

lemma spec_pre:
  assumes "sql_spec P m Q E" and "\<And>d. P' d \<Longrightarrow> P d"
  shows "sql_spec P' m Q E"
proof (rule specI)
  show "Q x (working c')" if "P' (working c)" "m c = (c', Inr x)" for c c' x
    by (rule spec_Inr [OF assms(1) that(2) assms(2) [OF that(1)]])
  show "E e (working c')" if "P' (working c)" "m c = (c', Inl e)" for c c' e
    by (rule spec_Inl [OF assms(1) that(2) assms(2) [OF that(1)]])
qed

lemma spec_post:
  assumes "sql_spec P m Q E" and "\<And>x d. Q x d \<Longrightarrow> Q' x d" and "\<And>e d. E e d \<Longrightarrow> E' e d"
  shows "sql_spec P m Q' E'"
proof (rule specI)
  show "Q' x (working c')" if "P (working c)" "m c = (c', Inr x)" for c c' x
    by (rule assms(2) [OF spec_Inr [OF assms(1) that(2,1)]])
  show "E' e (working c')" if "P (working c)" "m c = (c', Inl e)" for c c' e
    by (rule assms(3) [OF spec_Inl [OF assms(1) that(2,1)]])
qed

lemma spec_return: "(\<And>d. P d \<Longrightarrow> Q x d) \<Longrightarrow> sql_spec P (sql_return x) Q E"
  by (simp add: sql_spec_def sql_return_def)

lemma spec_lift:
  "(\<And>x d. P d \<Longrightarrow> r = Inr x \<Longrightarrow> Q x d) \<Longrightarrow> (\<And>e d. P d \<Longrightarrow> r = Inl e \<Longrightarrow> E e d) \<Longrightarrow> sql_spec P (sql_lift r) Q E"
  by (cases r) (simp_all add: sql_spec_def sql_lift_def)

lemma spec_statement:
  assumes "\<And>x d d'. P d \<Longrightarrow> q d = (d', Inr x) \<Longrightarrow> Q x d'"
    and "\<And>x d d'. P d \<Longrightarrow> q d = (d', Inl x) \<Longrightarrow> E (Fail (h x)) d'"
    and "\<And>x n d. P d \<Longrightarrow> statement_fault F n = Some x \<Longrightarrow> E (Fail (h x)) d"
  shows "sql_spec P (statement F h q) Q E"
  unfolding sql_spec_def statement_def
  using assms by (auto split: option.splits prod.splits sum.splits)

lemma spec_fetch:
  assumes "\<And>x d. P d \<Longrightarrow> q d = Inr x \<Longrightarrow> Q x d" and "\<And>x d. P d \<Longrightarrow> q d = Inl x \<Longrightarrow> E (Fail (h x)) d"
    and "\<And>x n d. P d \<Longrightarrow> statement_fault F n = Some x \<Longrightarrow> E (Fail (h x)) d"
  shows "sql_spec P (fetch F h q) Q E"
  unfolding fetch_def by (rule spec_statement) (use assms in auto)

text \<open>An engine that fails nothing of its own accord.\<close>

definition quiet :: "Engine \<Rightarrow> bool" where
  "quiet F \<longleftrightarrow> (\<forall>n. statement_fault F n = None) \<and> commit_fault F = None"

definition fault_only :: "Engine \<Rightarrow> ('d \<Rightarrow> bool) \<Rightarrow> StoreError fault \<Rightarrow> 'd \<Rightarrow> bool" where
  "fault_only F P e d \<longleftrightarrow> e \<noteq> Panic \<and> \<not> quiet F \<and> P d"

lemma fault_onlyI: "statement_fault F n = Some x \<Longrightarrow> P d \<Longrightarrow> fault_only F P (Fail y) d"
  by (auto simp: fault_only_def quiet_def)

lemma load_rows_spec:
  assumes "sql_ok X J d0" and "\<And>r e. row_holds J r e \<Longrightarrow> P r = S e"
  shows "sql_spec (\<lambda>d. d = d0) (load_rows F h J P) (\<lambda>es d. d = d0 \<and> es = filter S (log_events J d0))
    (fault_only F (\<lambda>d. d = d0))"
  unfolding load_rows_def
  by (rule spec_bind [where R = "\<lambda>rows d. d = d0 \<and> rows = select_rows P d0"])
    (auto intro!: spec_fetch spec_lift simp: select_ok [OF assms] intro: fault_onlyI)

lemma load_fact_spec:
  assumes "sql_ok X J d0"
  shows "sql_spec (\<lambda>d. d = d0) (load_fact_in_tx F h J (fact_str f))
    (\<lambda>es d. d = d0 \<and> es = stream_of f (log_events J d0)) (fault_only F (\<lambda>d. d = d0))"
  unfolding load_fact_in_tx_def stream_of_def by (rule load_rows_spec [OF assms]) (rule fact_row)

lemma load_pair_spec:
  assumes "sql_ok X J d0"
  shows "sql_spec (\<lambda>d. d = d0) (load_subject_predicate_in_tx F h J k)
    (\<lambda>es d. d = d0 \<and> es = filter (\<lambda>e. event_key e = k) (log_events J d0)) (fault_only F (\<lambda>d. d = d0))"
proof (cases k)
  case (fields a b c)
  then show ?thesis unfolding load_subject_predicate_in_tx_def
    by (simp only: prod.case) (rule load_rows_spec [OF assms], rule key_row)
qed

section \<open>One event\<close>

lemma spec_then:
  assumes "sql_spec (\<lambda>d. d = d0) m (\<lambda>x d. A x \<and> d = d0) E"
    and "\<And>x. A x \<Longrightarrow> sql_spec (\<lambda>d. d = d0) (f x) Q E"
  shows "sql_spec (\<lambda>d. d = d0) (sql_bind m f) Q E"
proof (rule spec_bind [OF assms(1)])
  fix x
  show "sql_spec (\<lambda>d. A x \<and> d = d0) (f x) Q E"
    by (cases "A x") (use assms(2) in \<open>simp_all add: sql_spec_def\<close>)
qed

lemma spec_all: "(\<And>d0. P d0 \<Longrightarrow> sql_spec (\<lambda>d. d = d0) m Q E) \<Longrightarrow> sql_spec P m Q E"
  by (simp add: sql_spec_def)

definition can_append :: "'j Externs \<Rightarrow> 'v Json \<Rightarrow> ('v, 'z) Tables_scheme \<Rightarrow> FactEvent \<Rightarrow> bool" where
  "can_append X J d e \<longleftrightarrow> admits_next (log_events J d) e \<and> last_sequence d < i64_max \<and> is_ok (to_json J e) \<and>
     (\<exists>h. Hash_Chain.event_hash X e (head_hash d) = Inr h \<and> h \<notin> row_hash ` set (log_rows d))"

definition appended ::
    "'j Externs \<Rightarrow> 'v Json \<Rightarrow> FactEvent \<Rightarrow> string \<Rightarrow> ('v, 'z) Tables_scheme \<Rightarrow> ('v, 'z) Tables_scheme \<Rightarrow> bool" where
  "appended X J e h d d' \<longleftrightarrow> can_append X J d e \<and> Hash_Chain.event_hash X e (head_hash d) = Inr h \<and>
     (\<exists>v. to_json J e = Inr v \<and> d' = inserted e h v d)"

definition append_error ::
    "Engine \<Rightarrow> 'j Externs \<Rightarrow> 'v Json \<Rightarrow> ('v, 'z) Tables_scheme \<Rightarrow> FactEvent \<Rightarrow> StoreError fault \<Rightarrow>
       ('v, 'z) Tables_scheme \<Rightarrow> bool" where
  "append_error F X J d e err d' \<longleftrightarrow> err \<noteq> Panic \<and> (quiet F \<longrightarrow> \<not> can_append X J d e) \<and>
     last_sequence d \<le> i64_max \<and> last_sequence d' \<le> i64_max \<and> (d' = d \<or> d' = d\<lparr>last_sequence := last_sequence d + 1\<rparr>)"

lemma fault_append_error:
  "last_sequence d0 \<le> i64_max \<Longrightarrow> fault_only F (\<lambda>d. d = d0) err d \<Longrightarrow> append_error F X J d0 e err d"
  by (simp add: fault_only_def append_error_def)

lemma sql_ok_bound: "sql_ok X J d \<Longrightarrow> last_sequence d \<le> i64_max"
  by (simp add: sql_ok_def)

lemma duplicate_row:
  assumes "sql_ok X J d"
  shows "row_event_id ` set (log_rows d) = (\<lambda>e. event_str (event_id e)) ` set (log_events J d)"
proof -
  have "map row_event_id rows = map (\<lambda>e. event_str (event_id e)) es" if "list_all2 (row_holds J) rows es" for rows es
    using that by (induction rule: list_all2_induct) (auto simp: row_holds_def)
  from arg_cong [OF this [OF ok_holds [OF assms]], of set] show ?thesis by simp
qed

lemma load_replacing_spec:
  assumes "sql_ok X J d0"
  shows "sql_spec (\<lambda>d. d = d0) (load_replacing F h J e)
    (\<lambda>re d. re = (case FactEvent.kind e of FactEventKind.Superseded g _ \<Rightarrow> Some (stream_of g (log_events J d0)) | _ \<Rightarrow> None) \<and> d = d0)
    (fault_only F (\<lambda>d. d = d0))"
proof (cases "\<exists>g r. FactEvent.kind e = FactEventKind.Superseded g r")
  case True
  then obtain g r where "FactEvent.kind e = FactEventKind.Superseded g r" by blast
  then show ?thesis unfolding load_replacing_def
    by simp (rule spec_bind [OF load_fact_spec [OF assms]], rule spec_return, simp)
next
  case False
  then show ?thesis unfolding load_replacing_def
    by (cases "FactEvent.kind e") (auto intro!: spec_return)
qed

lemma insert_event_spec:
  assumes ok: "sql_ok X J d0"
  shows "sql_spec (\<lambda>d. d = d0) (insert_event F h X J e)
    (\<lambda>(existing, hash, n) d. existing = stream_of (FactEvent.fact_id e) (log_events J d0) \<and>
       n = last_sequence d0 + 1 \<and> appended X J e hash d0 d)
    (append_error F X J d0 e)"
proof -
  let ?E = "append_error F X J d0 e" and ?L = "log_events J d0"
  let ?re = "case FactEvent.kind e of FactEventKind.Superseded g _ \<Rightarrow> Some (stream_of g ?L) | _ \<Rightarrow> None"
  let ?ids = "(\<lambda>e. event_str (event_id e)) ` set ?L"
  note bound = sql_ok_bound [OF ok]
  note fault_append_error = fault_append_error [OF bound]
  have fetch: "sql_spec (\<lambda>d. d = d0) (fetch F h (\<lambda>d. Inr (q d))) (\<lambda>x d. x = q d0 \<and> d = d0) ?E" for q :: "_ \<Rightarrow> 'x"
    by (rule spec_fetch) (auto intro!: fault_append_error fault_onlyI)
  have lift: "sql_spec (\<lambda>d. d = d0) (sql_lift r) (\<lambda>x d. r = Inr x \<and> d = d0) ?E"
    if "\<And>err. r = Inl err \<Longrightarrow> err \<noteq> Panic \<and> \<not> can_append X J d0 e" for r :: "StoreError fault + 'x"
    by (rule spec_lift) (use that bound in \<open>auto simp: append_error_def\<close>)
  show ?thesis unfolding insert_event_def
  proof (rule spec_then)
    show "sql_spec (\<lambda>d. d = d0) (load_fact_in_tx F h J (fact_str (FactEvent.fact_id e)))
      (\<lambda>ex d. ex = stream_of (FactEvent.fact_id e) ?L \<and> d = d0) ?E"
      by (rule spec_post [OF load_fact_spec [OF ok]]) (auto intro: fault_append_error)
  next
    fix ex
    assume ex: "ex = stream_of (FactEvent.fact_id e) ?L"
    show "sql_spec (\<lambda>d. d = d0) (sql_bind (load_replacing F h J e) (\<lambda>replacing.
        sql_bind (sql_lift (arbitrate_events e ex replacing)) (\<lambda>_.
        sql_bind (fetch F h (\<lambda>d. Inr (event_str (event_id e) \<in> row_event_id ` set (log_rows d)))) (\<lambda>duplicate.
        if duplicate then sql_lift (Inl (Fail (StoreError.Conflict (''duplicate event_id '' @ event_str (event_id e)))))
        else
        sql_bind (fetch F h (\<lambda>d. Inr (head_hash d))) (\<lambda>previous.
        sql_bind (sql_lift (map_err (\<lambda>err. Fail (StoreError.Canonicalization (show_CanonError err))) (Hash_Chain.event_hash X e previous))) (\<lambda>hash.
        sql_bind (sql_lift (map_err (\<lambda>m. Fail (StoreError.Canonicalization m)) (to_json J e))) (\<lambda>v.
        sql_bind (statement F h (insert_row F (row_of e previous hash v))) (\<lambda>n.
        sql_return (ex, hash, n)))))))))
      (\<lambda>(existing, hash, n) d. existing = stream_of (FactEvent.fact_id e) ?L \<and>
        n = last_sequence d0 + 1 \<and> appended X J e hash d0 d) ?E"
    proof (rule spec_then [OF spec_post [OF load_replacing_spec [OF ok]]], assumption, erule fault_append_error,
        rule spec_then [OF lift], goal_cases)
      case (1 re err)
      then show ?case using arbitrate_events_no_panic [of e ex re] ex by (auto simp: can_append_def admits_next_def)
    next
      case (2 re u)
      show ?case
      proof (rule spec_then [OF fetch], goal_cases)
        case (1 dup)
        show ?case
        proof (cases dup)
          case True
          then show ?thesis using 1 duplicate_row [OF ok] bound
            by (auto intro!: spec_lift simp: append_error_def can_append_def admits_next_def)
        next
          case False
          then have adm: "admits_next ?L e" using 1 2 ex duplicate_row [OF ok] by (simp add: admits_next_def)
          show ?thesis unfolding if_not_P [OF False]
          proof (rule spec_then [OF fetch], rule spec_then [OF lift], goal_cases)
            case (2 p hash)
            then have hash: "p = head_hash d0" "Hash_Chain.event_hash X e (head_hash d0) = Inr hash" by simp_all
            show ?case
            proof (rule spec_then [OF lift], goal_cases)
              case (2 v)
              then have v: "to_json J e = Inr v" by simp
              have hit: "event_str (event_id e) \<notin> row_event_id ` set (log_rows d0)" using 1 False by simp
              show ?case
                by (rule spec_bind [where R = "\<lambda>n d. n = last_sequence d0 + 1 \<and> appended X J e hash d0 d"])
                  (use bound in \<open>auto intro!: spec_statement spec_return simp: ex quiet_def insert_row_def Let_def hash v hit adm append_error_def can_append_def appended_def inserted_def
                      row_of_def split: if_splits\<close>)
            qed (auto simp: can_append_def)
          qed (auto simp: can_append_def)
        qed
      qed
    qed
  qed
qed

section \<open>The touched groups\<close>

definition group_unique :: "FactEvent list \<Rightarrow> FactEvent list \<Rightarrow> string \<times> string \<times> string \<Rightarrow> bool" where
  "group_unique es L k \<longleftrightarrow> (\<forall>now. latest_recorded es k = Some now \<longrightarrow>
     validate_unique_projection coding_agent (filter (\<lambda>e. event_key e = k) L) now = Inr ())"

lemma max_by_key_None: "max_by_key f xs = None \<longleftrightarrow> xs = []"
  by (cases xs) (auto split: option.split)

lemma latest_recorded_Some: "k \<in> event_key ` set es \<Longrightarrow> \<exists>now. latest_recorded es k = Some now"
proof -
  assume "k \<in> event_key ` set es"
  then have "filter (\<lambda>e. event_key e = k) es \<noteq> []" by (auto simp: filter_empty_conv)
  then have "latest_recorded es k \<noteq> None" by (simp add: latest_recorded_def max_by_key_None)
  then show ?thesis by blast
qed

lemma validate_keys_spec:
  assumes "sql_ok X J d0" and "set ks \<subseteq> event_key ` set es"
  shows "sql_spec (\<lambda>d. d = d0) (validate_keys F h J es ks)
    (\<lambda>_ d. d = d0 \<and> (\<forall>k \<in> set ks. group_unique es (log_events J d0) k))
    (\<lambda>err d. err \<noteq> Panic \<and> d = d0 \<and> (quiet F \<longrightarrow> (\<exists>k \<in> set ks. \<not> group_unique es (log_events J d0) k)))"
  using assms(2)
proof (induction ks)
  case Nil
  show ?case by (auto intro: spec_return)
next
  case (Cons k ks)
  let ?L = "log_events J d0"
  let ?E = "\<lambda>err d. err \<noteq> Panic \<and> d = d0 \<and> (quiet F \<longrightarrow> (\<exists>k \<in> set (k # ks). \<not> group_unique es ?L k))"
  from Cons.prems obtain now where now: "latest_recorded es k = Some now" using latest_recorded_Some [of k es] by auto
  show ?case unfolding validate_keys.simps now option.case
  proof (rule spec_then [OF spec_post [OF load_pair_spec [OF assms(1)]]])
    show "es' = filter (\<lambda>e. event_key e = k) ?L \<and> d = d0" if "d = d0 \<and> es' = filter (\<lambda>e. event_key e = k) ?L" for es' d
      using that by blast
    show "?E err d" if "fault_only F (\<lambda>d. d = d0) err d" for err d using that by (simp add: fault_only_def)
  next
    fix events
    assume events: "events = filter (\<lambda>e. event_key e = k) ?L"
    show "sql_spec (\<lambda>d. d = d0)
      (sql_bind (sql_lift (map_err Fail (validate_unique_projection coding_agent events now))) (\<lambda>_. validate_keys F h J es ks))
      (\<lambda>_ d. d = d0 \<and> (\<forall>k \<in> set (k # ks). group_unique es ?L k)) ?E"
    proof (rule spec_then [where A = "\<lambda>_. group_unique es ?L k"])
      show "sql_spec (\<lambda>d. d = d0) (sql_lift (map_err Fail (validate_unique_projection coding_agent events now)))
        (\<lambda>_ d. group_unique es ?L k \<and> d = d0) ?E"
        by (rule spec_lift) (auto simp: group_unique_def now events)
      show "sql_spec (\<lambda>d. d = d0) (validate_keys F h J es ks)
        (\<lambda>_ d. d = d0 \<and> (\<forall>k \<in> set (k # ks). group_unique es ?L k)) ?E" if "group_unique es ?L k"
        by (rule spec_post [OF Cons.IH]) (use Cons.prems that in auto)
    qed
  qed
qed

definition groups_unique :: "FactEvent list \<Rightarrow> FactEvent list \<Rightarrow> bool" where
  "groups_unique es L \<longleftrightarrow> (\<forall>k \<in> event_key ` set es. group_unique es L k)"

lemma validate_touched_spec:
  assumes "sql_ok X J d0"
  shows "sql_spec (\<lambda>d. d = d0) (validate_touched_policies_in_tx F h J es)
    (\<lambda>_ d. d = d0 \<and> groups_unique es (log_events J d0))
    (\<lambda>err d. err \<noteq> Panic \<and> d = d0 \<and> (quiet F \<longrightarrow> \<not> groups_unique es (log_events J d0)))"
  unfolding validate_touched_policies_in_tx_def
  by (rule spec_post [OF validate_keys_spec [OF assms]]) (auto simp: touched_keys_def groups_unique_def)

section \<open>Reads of a sound log\<close>

definition calm :: Engine where
  "calm = \<lparr>statement_fault = (\<lambda>_. None), commit_fault = None, violated = (\<lambda>_. OtherSqlx []), decode_fault = OtherSqlx []\<rparr>"

lemma quiet_calm [simp]: "quiet calm"
  by (simp add: quiet_def calm_def)

lemma on_pool_spec:
  assumes "sql_spec (\<lambda>d. d = db) m (\<lambda>x d. x = y \<and> Q x d) (\<lambda>err d. \<not> quiet F \<and> E err d)" and "quiet F"
  shows "on_pool db m = Inr y"
proof -
  obtain c r where m: "m \<lparr>working = db, statements = 0\<rparr> = (c, r)" by force
  then show ?thesis
    using spec_Inr [OF assms(1)] spec_Inl [OF assms(1)] assms(2) by (cases r) (fastforce simp: on_pool_def)+
qed

lemma on_pool_load:
  assumes "sql_ok X J db"
  shows "on_pool db (load_fact_in_tx calm h J (fact_str f)) = Inr (stream_of f (log_events J db))"
  by (rule on_pool_spec [where F = calm and Q = "\<lambda>_ _. True" and E = "\<lambda>_ _. True", OF spec_post [OF load_fact_spec [OF assms]]])
    (auto simp: fault_only_def)

lemma admits_arbitrates:
  assumes "\<And>f. load f = Inr (stream_of f L)" and "admits_next L e"
  shows "arbitrate load e = Inr ()"
  using assms by (auto simp: arbitrate_def admits_next_def split: FactEventKind.splits)

section \<open>The adapter's contract\<close>

definition batch_ok :: "'j Externs \<Rightarrow> 'v Json \<Rightarrow> ('v, 'z) Tables_scheme \<Rightarrow> FactEvent list \<Rightarrow> bool" where
  "batch_ok X J d es \<longleftrightarrow> log_admits (log_events J d) es \<and> last_sequence d + int (length es) \<le> i64_max \<and>
     (\<forall>e \<in> set es. is_ok (to_json J e)) \<and> (\<exists>hs. hash_chain X (log_events J d @ es) = Inr hs \<and> distinct hs)"

lemma chain_prefix: "hash_chain X (es @ fs) = Inr hs \<Longrightarrow> \<exists>gs ks. hash_chain X es = Inr gs \<and> hs = gs @ ks"
proof (induction fs arbitrary: hs rule: rev_induct)
  case (snoc f fs)
  from snoc.prems obtain gs h where g: "hash_chain X (es @ fs) = Inr gs" "hs = gs @ [h]"
    by (auto simp: hash_chain_def hash_chain_from_snoc simp flip: append_assoc)
  from snoc.IH [OF g(1)] g(2) show ?case by auto
qed simp

lemma batch_ok_Cons:
  assumes "sql_ok X J d" and "batch_ok X J d (e # es)"
  shows "can_append X J d e"
    and "log_events J d' = log_events J d @ [e] \<Longrightarrow> last_sequence d' = last_sequence d + 1 \<Longrightarrow> batch_ok X J d' es"
proof -
  obtain hs where hs: "hash_chain X ((log_events J d @ [e]) @ es) = Inr hs" "distinct hs"
    using assms(2) by (auto simp: batch_ok_def)
  from chain_prefix [OF hs(1)] obtain gs where gs: "hash_chain X (log_events J d @ [e]) = Inr gs" "distinct gs"
    using hs(2) by auto
  have chain: "hash_chain X (log_events J d) = Inr (map row_hash (log_rows d))" using assms(1) by (simp add: sql_ok_def)
  obtain h where h: "gs = map row_hash (log_rows d) @ [h]" "Hash_Chain.event_hash X e (head_hash d) = Inr h"
    using gs(1) chain
    by (cases "log_rows d = []") (auto simp: hash_chain_def hash_chain_from_snoc head_hash_ok [OF assms(1)] last_map)
  show "can_append X J d e" using assms(2) gs(2) h by (auto simp: can_append_def batch_ok_def)
  show "batch_ok X J d' es" if "log_events J d' = log_events J d @ [e]" "last_sequence d' = last_sequence d + 1"
    using assms(2) hs that by (auto simp: batch_ok_def)
qed

text \<open>
  What one event's part of a transaction promises: it appends one row that the receipt describes,
  or it fails without a panic, and for no reason but the ones of \<open>can_append\<close> when nothing outside
  the program fails. \<open>inv\<close> is the adapter's own invariant, of the tables it derives from the log.
\<close>

definition row_receipt :: "'v Json \<Rightarrow> 'v LogRow \<Rightarrow> AppendReceipt \<Rightarrow> bool" where
  "row_receipt J r rc \<longleftrightarrow> AppendReceipt.global_sequence rc = word_of_int (row_sequence r) \<and>
     event_str (receipt_event_id rc) = row_event_id r \<and> receipt_hash rc = row_hash r"

definition one_more ::
    "'v Json \<Rightarrow> FactEvent \<Rightarrow> AppendReceipt \<Rightarrow> ('v, 'z) Tables_scheme \<Rightarrow> ('v, 'z) Tables_scheme \<Rightarrow> bool" where
  "one_more J e rc d d' \<longleftrightarrow> admits_next (log_events J d) e \<and> log_events J d' = log_events J d @ [e] \<and>
     last_sequence d' = last_sequence d + 1 \<and> next_value d' = next_value d \<and>
     (\<exists>r. log_rows d' = log_rows d @ [r] \<and> row_receipt J r rc)"

definition batch_more ::
    "'v Json \<Rightarrow> FactEvent list \<Rightarrow> AppendReceipt list \<Rightarrow> ('v, 'z) Tables_scheme \<Rightarrow> ('v, 'z) Tables_scheme \<Rightarrow> bool" where
  "batch_more J es rcs d d' \<longleftrightarrow> log_admits (log_events J d) es \<and> log_events J d' = log_events J d @ es \<and>
     last_sequence d \<le> last_sequence d' \<and> next_value d' = next_value d \<and>
     (\<exists>rows. log_rows d' = log_rows d @ rows \<and> list_all2 (row_receipt J) rows rcs)"

locale sql_adapter =
  fixes X :: "'j Externs" and J :: "'v Json" and F :: Engine and h :: "SqlxError \<Rightarrow> StoreError"
    and one :: "FactEvent \<Rightarrow> (('v, 'z) Tables_scheme, AppendReceipt) sql"
    and inv :: "('v, 'z) Tables_scheme \<Rightarrow> bool" and live :: bool
    and rolled_back :: "('v, 'z) Tables_scheme \<Rightarrow> ('v, 'z) Tables_scheme \<Rightarrow> ('v, 'z) Tables_scheme"
  assumes one_spec: "json_ok J \<Longrightarrow> sql_ok X J d0 \<Longrightarrow> inv d0 \<Longrightarrow> sql_spec (\<lambda>d. d = d0) (one e)
      (\<lambda>rc d. sql_ok X J d \<and> inv d \<and> one_more J e rc d0 d)
      (\<lambda>err d. err \<noteq> Panic \<and> last_sequence d \<in> {last_sequence d0..i64_max} \<and> (live \<longrightarrow> \<not> can_append X J d0 e))"
    and live_quiet: "live \<Longrightarrow> quiet F"
    and rolled_back_keeps: "sql_ok X J d0 \<Longrightarrow> inv d0 \<Longrightarrow> last_sequence d \<in> {last_sequence d0..i64_max} \<Longrightarrow>
      sql_ok X J (rolled_back d0 d) \<and> inv (rolled_back d0 d) \<and> log_rows (rolled_back d0 d) = log_rows d0 \<and>
      next_value (rolled_back d0 d) = next_value d0 \<and> last_sequence d0 \<le> last_sequence (rolled_back d0 d)"
begin

lemma each_spec:
  assumes J: "json_ok J" and "sql_ok X J d0" and "inv d0"
  shows "sql_spec (\<lambda>d. d = d0) (each_in_tx one es)
    (\<lambda>rcs d. sql_ok X J d \<and> inv d \<and> batch_more J es rcs d0 d)
    (\<lambda>err d. err \<noteq> Panic \<and> last_sequence d \<in> {last_sequence d0..i64_max} \<and> (live \<longrightarrow> \<not> batch_ok X J d0 es))"
  using assms(2,3)
proof (induction es arbitrary: d0)
  case Nil
  then show ?case by (auto intro!: spec_return simp: batch_more_def)
next
  case (Cons e es)
  let ?E = "\<lambda>err d. err \<noteq> Panic \<and> last_sequence d \<in> {last_sequence d0..i64_max} \<and> (live \<longrightarrow> \<not> batch_ok X J d0 (e # es))"
  let ?Q = "\<lambda>rcs d. sql_ok X J d \<and> inv d \<and> batch_more J (e # es) rcs d0 d"
  show ?case unfolding each_in_tx.simps
  proof (rule spec_bind)
    show "sql_spec (\<lambda>d. d = d0) (one e) (\<lambda>rc d. sql_ok X J d \<and> inv d \<and> one_more J e rc d0 d) ?E"
      by (rule spec_post [OF one_spec [OF J Cons.prems]]) (use batch_ok_Cons(1) [OF Cons.prems(1)] in blast)+
    fix rc
    have "sql_spec (\<lambda>d. sql_ok X J d \<and> inv d \<and> one_more J e rc d0 d) (each_in_tx one es) (\<lambda>rcs. ?Q (rc # rcs)) ?E"
    proof (rule specI, goal_cases)
      case (1 c c' rcs)
      then have "batch_more J es rcs (working c) (working c') \<and> sql_ok X J (working c') \<and> inv (working c')"
        using spec_Inr [OF Cons.IH [of "working c"]] by blast
      then show ?case using 1 by (auto simp: batch_more_def one_more_def)
    next
      case (2 c c' err)
      then have "err \<noteq> Panic \<and> last_sequence (working c') \<in> {last_sequence (working c)..i64_max} \<and> (live \<longrightarrow> \<not> batch_ok X J (working c) es)"
        using spec_Inl [OF Cons.IH [of "working c"]] by blast
      then show ?case using 2 batch_ok_Cons(2) [OF Cons.prems(1)] by (auto simp: one_more_def)
    qed
    then show "sql_spec (\<lambda>d. sql_ok X J d \<and> inv d \<and> one_more J e rc d0 d)
      (sql_bind (each_in_tx one es) (\<lambda>rcs. sql_return (rc # rcs))) ?Q ?E"
      by (rule spec_bind) (auto intro!: spec_return)
  qed
qed

lemma touch_spec:
  "last_sequence d0 \<le> i64_max \<Longrightarrow> sql_spec (\<lambda>d. d = d0) (touch F h) (\<lambda>_ d. True \<and> d = d0)
     (\<lambda>err d. err \<noteq> Panic \<and> last_sequence d \<in> {last_sequence d0..i64_max} \<and> (live \<longrightarrow> \<not> ok))"
  unfolding touch_def by (rule spec_statement) (use live_quiet in \<open>auto simp: quiet_def\<close>)

lemma many_spec:
  assumes J: "json_ok J" and "sql_ok X J d0" and "inv d0"
  shows "sql_spec (\<lambda>d. d = d0) (batch_in_tx F h J one es)
    (\<lambda>rcs d. sql_ok X J d \<and> inv d \<and> batch_more J es rcs d0 d \<and> groups_unique es (log_events J d))
    (\<lambda>err d. err \<noteq> Panic \<and> last_sequence d \<in> {last_sequence d0..i64_max} \<and>
       (live \<longrightarrow> \<not> (batch_ok X J d0 es \<and> groups_unique es (log_events J d0 @ es))))"
proof -
  let ?E = "\<lambda>err d. err \<noteq> Panic \<and> last_sequence d \<in> {last_sequence d0..i64_max} \<and>
    (live \<longrightarrow> \<not> (batch_ok X J d0 es \<and> groups_unique es (log_events J d0 @ es)))"
  let ?Q = "\<lambda>rcs d. sql_ok X J d \<and> inv d \<and> batch_more J es rcs d0 d"
  note bound = sql_ok_bound [OF assms(2)]
  have "sql_spec (?Q rcs) (validate_touched_policies_in_tx F h J es)
      (\<lambda>_ d. ?Q rcs d \<and> groups_unique es (log_events J d)) ?E" for rcs
  proof (rule specI, goal_cases)
    case (1 c c' u)
    then have "working c' = working c \<and> groups_unique es (log_events J (working c))"
      using spec_Inr [OF validate_touched_spec [of X J "working c"]] by blast
    then show ?case using 1 by simp
  next
    case (2 c c' err)
    then have "err \<noteq> Panic \<and> working c' = working c \<and> (quiet F \<longrightarrow> \<not> groups_unique es (log_events J (working c)))"
      using spec_Inl [OF validate_touched_spec [of X J "working c"]] by blast
    then show ?case using 2 live_quiet by (auto simp: batch_more_def dest: sql_ok_bound)
  qed
  then have check: "sql_spec (?Q rcs) (sql_bind (validate_touched_policies_in_tx F h J es) (\<lambda>_. sql_return rcs))
      (\<lambda>rcs d. sql_ok X J d \<and> inv d \<and> batch_more J es rcs d0 d \<and> groups_unique es (log_events J d)) ?E" for rcs
    by (rule spec_bind) (auto intro!: spec_return)
  have each: "sql_spec (\<lambda>d. d = d0) (each_in_tx one es) ?Q ?E"
    by (rule spec_post [OF each_spec [OF assms]]) auto
  show ?thesis unfolding batch_in_tx_def
    by (rule spec_then [OF touch_spec [OF bound]], rule spec_then [OF touch_spec [OF bound]], rule spec_bind [OF each check])
qed

text \<open>Every outcome of a batch on the database.\<close>

lemma run_outcome:
  assumes ok: "json_ok J" "sql_ok X J db" "inv db" and run: "run_tx F h (rolled_back db) (batch_in_tx F h J one es) db = (db', r)"
  shows "sql_ok X J db' \<and> inv db' \<and> next_value db' = next_value db \<and> last_sequence db \<le> last_sequence db' \<and> r \<noteq> Inl Panic \<and>
    ((\<exists>rcs. batch_more J es rcs db db' \<and> groups_unique es (log_events J db') \<and>
        (r = Inr rcs \<or> (\<exists>x. commit_fault F = Some (x, True) \<and> r = Inl (Fail (h x))))) \<or>
     log_rows db' = log_rows db \<and> (\<exists>err. r = Inl err) \<and>
       (live \<longrightarrow> \<not> (batch_ok X J db es \<and> groups_unique es (log_events J db @ es))))"
proof -
  obtain c q where m: "batch_in_tx F h J one es \<lparr>working = db, statements = 0\<rparr> = (c, q)" by force
  note spec = many_spec [OF ok, of es]
  show ?thesis
  proof (cases q)
    case (Inl err)
    then have e: "err \<noteq> Panic" "last_sequence (working c) \<in> {last_sequence db..i64_max}"
      "live \<longrightarrow> \<not> (batch_ok X J db es \<and> groups_unique es (log_events J db @ es))"
      using spec_Inl [OF spec] m by fastforce+
    have "db' = rolled_back db (working c)" "r = Inl err" using run m Inl by (simp_all add: run_tx_def)
    then show ?thesis using rolled_back_keeps [OF ok(2,3) e(2)] e(1,3) by auto
  next
    case (Inr rcs)
    then have s: "sql_ok X J (working c)" "inv (working c)" "batch_more J es rcs db (working c)"
      "groups_unique es (log_events J (working c))"
      using spec_Inr [OF spec] m by fastforce+
    then have lst: "last_sequence (working c) \<in> {last_sequence db..i64_max}" "next_value (working c) = next_value db"
      by (simp_all add: batch_more_def sql_ok_bound)
    consider "db' = working c" "r = Inr rcs" "commit_fault F = None"
      | x where "db' = working c" "r = Inl (Fail (h x))" "commit_fault F = Some (x, True)"
      | x where "db' = rolled_back db (working c)" "r = Inl (Fail (h x))" "commit_fault F = Some (x, False)"
      using run m Inr by (auto simp: run_tx_def split: option.splits prod.splits if_splits)
    then show ?thesis
    proof cases
      case 3
      then show ?thesis using rolled_back_keeps [OF ok(2,3) lst(1)] live_quiet by (auto simp: quiet_def)
    qed (use s lst in auto)
  qed
qed

lemma append_outcome:
  assumes "json_ok J" "sql_ok X J db" "inv db"
    and "pop_receipt (run_tx F h (rolled_back db) (batch_in_tx F h J one [e]) db) = (db', r)"
  shows "sql_ok X J db' \<and> inv db' \<and> r \<noteq> Inl Panic \<and>
    (log_events J db' = log_events J db \<or> admits_next (log_events J db) e \<and> log_events J db' = log_events J db @ [e]) \<and>
    (\<forall>x. r = Inr x \<longrightarrow> log_events J db' = log_events J db @ [e])"
proof -
  obtain q where q: "run_tx F h (rolled_back db) (batch_in_tx F h J one [e]) db = (db', q)"
    and r: "r = and_then q (\<lambda>rcs. if rcs = [] then Inl Panic else Inr (last rcs))"
    using assms(4) by (cases "run_tx F h (rolled_back db) (batch_in_tx F h J one [e]) db") (auto simp: pop_receipt_def)
  from run_outcome [OF assms(1-3) q] consider
    rcs where "sql_ok X J db'" "inv db'" "batch_more J [e] rcs db db'" "q = Inr rcs \<or> (\<exists>x. q = Inl (Fail x))"
  | err where "sql_ok X J db'" "inv db'" "log_rows db' = log_rows db" "q = Inl err" "err \<noteq> Panic" by blast
  then show ?thesis
  proof cases
    case 1
    then have "rcs \<noteq> []" by (auto simp: batch_more_def log_events_def)
    moreover have "admits_next (log_events J db) e" "log_events J db' = log_events J db @ [e]"
      using 1 by (auto simp: batch_more_def)
    ultimately show ?thesis using 1 r by auto
  next
    case 2
    then have "log_events J db' = log_events J db" by (simp add: log_events_def)
    then show ?thesis using 2 r by auto
  qed
qed

end

end
