(* ===== verification/Sqlite_Store.thy ===== *)
theory Sqlite_Store
  imports Sql_Contract
begin

text \<open>
  \<open>crates/dent8-store-sqlite/src/lib.rs\<close>: the embedded adapter. Errors of the driver are
  classified by \<open>map_busy\<close> on the write path and by \<open>unavailable\<close> on reads; a failed batch is
  rolled back; event ids are reserved from the allocator row, which a migration raises above the
  ids in the log. Integers are SQLite's: a sum beyond \<open>i64\<close> becomes a value that the driver does
  not decode as \<open>i64\<close>, and the cast of a longer numeral saturates.
\<close>

section \<open>Errors\<close>

definition str_contains :: "string \<Rightarrow> string \<Rightarrow> bool" where
  "str_contains s p \<longleftrightarrow> (\<exists>i \<in> set [0..<Suc (length s)]. take (length p) (drop i s) = p)"

definition unavailable :: "SqlxError \<Rightarrow> StoreError" where
  "unavailable err = StoreError.Unavailable (show_SqlxError err)"

definition map_busy :: "SqlxError \<Rightarrow> StoreError" where
  "map_busy err = (case err of
      Database cd msg shown \<Rightarrow>
        if cd = Some ''5'' \<or> cd = Some ''517'' \<or> str_contains msg ''database is locked''
        then StoreError.Conflict (''sqlite write contention (retryable): '' @ shown)
        else StoreError.Unavailable shown
    | OtherSqlx shown \<Rightarrow> StoreError.Unavailable shown)"

section \<open>Operations\<close>

text \<open>
  The statements of the schema that touch rows. The suffix of an id counts when it is a non-empty
  run of digits.
\<close>

definition numeric_suffix :: "string \<Rightarrow> int option" where
  "numeric_suffix s = (case strip_prefix ''event:'' s of
      None \<Rightarrow> None
    | Some ds \<Rightarrow> if ds \<noteq> [] \<and> (\<forall>c \<in> set ds. is_digit c) then Some (min i64_max (digits_value 0 ds)) else None)"

definition suffix_bound :: "('v, 'z) Tables_scheme \<Rightarrow> int" where
  "suffix_bound d = foldr max (map (\<lambda>n. n + 1) (List.map_filter numeric_suffix (map row_event_id (log_rows d)))) 0"

definition sqlite_migrate ::
    "Engine \<Rightarrow> ('v, 'z) Tables_scheme \<Rightarrow> ('v, 'z) Tables_scheme \<times> (StoreError fault + unit)" where
  "sqlite_migrate F db =
     (case sql_bind (touch F map_busy) (\<lambda>_.
        sql_bind (statement F map_busy (\<lambda>d. (d\<lparr>next_value := Some (case next_value d of None \<Rightarrow> 0 | Some v \<Rightarrow> v)\<rparr>, Inr ()))) (\<lambda>_.
        statement F map_busy (\<lambda>d. (d\<lparr>next_value := map_option (max (suffix_bound d)) (next_value d)\<rparr>, Inr ()))))
        \<lparr>working = db, statements = 0\<rparr> of
      (c, r) \<Rightarrow> (working c, r))"

definition sqlite_reserve_in_tx :: "Engine \<Rightarrow> 32 word \<Rightarrow> (('v, 'z) Tables_scheme, u64) sql" where
  "sqlite_reserve_in_tx F count =
     sql_bind (fetch F map_busy (\<lambda>d. fetch_i64 F (next_value d))) (\<lambda>start.
     sql_bind (statement F map_busy (\<lambda>d. (d\<lparr>next_value := map_option (\<lambda>v. v + uint count) (next_value d)\<rparr>, Inr ()))) (\<lambda>_.
     sql_lift (if start < 0 then Inl (Fail (StoreError.CorruptEvent (''negative event-id allocator '' @ show_int start)))
       else Inr (word_of_int start))))"

definition sqlite_reserve_event_ids ::
    "Engine \<Rightarrow> 32 word \<Rightarrow> ('v, 'z) Tables_scheme \<Rightarrow> ('v, 'z) Tables_scheme \<times> (StoreError fault + u64)" where
  "sqlite_reserve_event_ids F count db =
     (if count = 0 then (db, Inl (Fail (StoreError.Unavailable ''cannot reserve zero event ids'')))
      else run_tx F map_busy (\<lambda>_. db)
        (sql_bind (touch F map_busy) (\<lambda>_. sql_bind (touch F map_busy) (\<lambda>_. sqlite_reserve_in_tx F count))) db)"

definition sqlite_append_event_in_tx ::
    "Engine \<Rightarrow> 'j Externs \<Rightarrow> string Json \<Rightarrow> FactEvent \<Rightarrow> (string Tables, AppendReceipt) sql" where
  "sqlite_append_event_in_tx F X J e =
     sql_bind (insert_event F map_busy X J e) (\<lambda>(existing, hash, n). sql_lift (receipt_for e hash n))"

definition sqlite_append_many ::
    "Engine \<Rightarrow> 'j Externs \<Rightarrow> string Json \<Rightarrow> FactEvent list \<Rightarrow> string Tables \<Rightarrow>
       string Tables \<times> (StoreError fault + AppendReceipt list)" where
  "sqlite_append_many F X J es db =
     run_tx F map_busy (\<lambda>_. db) (batch_in_tx F map_busy J (sqlite_append_event_in_tx F X J) es) db"

definition sqlite_append ::
    "Engine \<Rightarrow> 'j Externs \<Rightarrow> string Json \<Rightarrow> string Tables \<Rightarrow> FactEvent \<Rightarrow>
       string Tables \<times> (StoreError fault + AppendReceipt)" where
  "sqlite_append F X J db e = pop_receipt (sqlite_append_many F X J [e] db)"

definition sqlite_load_fact_events ::
    "Engine \<Rightarrow> string Json \<Rightarrow> string Tables \<Rightarrow> FactId \<Rightarrow> StoreError fault + FactEvent list" where
  "sqlite_load_fact_events F J db f = on_pool db (load_fact_in_tx F unavailable J (fact_str f))"

definition sqlite_scan_events ::
    "Engine \<Rightarrow> string Json \<Rightarrow> string Tables \<Rightarrow> EventFilter \<Rightarrow> StoreError fault + FactEvent list" where
  "sqlite_scan_events F J db fl = on_pool db (scan_rows F unavailable J fl)"

definition sqlite_verify_chain ::
    "Engine \<Rightarrow> 'j Externs \<Rightarrow> string Json \<Rightarrow> string Tables \<Rightarrow> StoreError fault + bool" where
  "sqlite_verify_chain F X J db = on_pool db (verify_rows F unavailable X J)"

text \<open>
  The write lease: an exclusive transaction on a sidecar database whose name drops the query string.
  Parsing the options, connecting and \<open>BEGIN IMMEDIATE\<close> are the driver's; a lock that is not granted
  within the bound is a busy error.
\<close>

definition sqlite_lease_url :: "string \<Rightarrow> string" where
  "sqlite_lease_url url = takeWhile (\<lambda>c. c \<noteq> CHR ''?'') url @ ''-lease''"

definition sqlite_acquire_write_lease ::
    "(string \<Rightarrow> SqlxError + 'o) \<Rightarrow> ('o \<Rightarrow> nat \<Rightarrow> SqlxError + 'c) \<Rightarrow> ('c \<Rightarrow> SqlxError + unit) \<Rightarrow> string \<Rightarrow> nat \<Rightarrow>
       StoreError + 'c" where
  "sqlite_acquire_write_lease from_str connects begin_immediate url timeout_ms =
     and_then (map_err unavailable (from_str (sqlite_lease_url url))) (\<lambda>options.
     and_then (map_err map_busy (connects options timeout_ms)) (\<lambda>conn.
     map_ok (\<lambda>_. conn) (map_err map_busy (begin_immediate conn))))"

section \<open>The adapter provides the contracts\<close>

lemma receipt_row:
  "0 \<le> n \<Longrightarrow> receipt_for e hash n = Inr \<lparr>AppendReceipt.global_sequence = word_of_int n, receipt_event_id = event_id e, receipt_hash = hash\<rparr>"
  by (simp add: receipt_for_def)

lemma appended_one_more:
  assumes ok: "sql_ok X J d0" and J: "json_ok J" and a: "appended X J e hash d0 d"
  shows "sql_ok X J d \<and> one_more J e \<lparr>AppendReceipt.global_sequence = word_of_int (last_sequence d0 + 1),
    receipt_event_id = event_id e, receipt_hash = hash\<rparr> d0 d"
proof -
  obtain v where v: "to_json J e = Inr v" "d = inserted e hash v d0" "admits_next (log_events J d0) e"
    "Hash_Chain.event_hash X e (head_hash d0) = Inr hash" "last_sequence d0 < i64_max"
    using a by (auto simp: appended_def can_append_def)
  have dec: "from_json J v = Inr e" using J v(1) by (simp add: json_ok_def)
  have "sql_ok X J d" unfolding v(2)
    by (rule sql_ok_inserted [OF ok dec v(5,4)]) (use v(3) in \<open>simp add: admits_next_def\<close>)
  then show ?thesis using v(3) log_events_inserted [OF dec]
    by (auto simp: one_more_def v(2) row_receipt_def) (simp_all add: inserted_def row_of_def)
qed

lemma sqlite_one:
  assumes ok: "sql_ok X J d0" and J: "json_ok J"
  shows "sql_spec (\<lambda>d. d = d0) (sqlite_append_event_in_tx F X J e) (\<lambda>rc d. sql_ok X J d \<and> True \<and> one_more J e rc d0 d)
    (\<lambda>err d. err \<noteq> Panic \<and> last_sequence d \<in> {last_sequence d0..i64_max} \<and> (quiet F \<longrightarrow> \<not> can_append X J d0 e))"
proof -
  let ?E = "\<lambda>err d. err \<noteq> Panic \<and> last_sequence d \<in> {last_sequence d0..i64_max} \<and> (quiet F \<longrightarrow> \<not> can_append X J d0 e)"
  let ?R = "\<lambda>(existing, hash, n) d. existing = stream_of (FactEvent.fact_id e) (log_events J d0) \<and>
    n = last_sequence d0 + 1 \<and> appended X J e hash d0 d"
  have pos: "0 \<le> last_sequence d0" using ok by (simp add: sql_ok_def)
  show ?thesis unfolding sqlite_append_event_in_tx_def
  proof (rule spec_bind)
    show "sql_spec (\<lambda>d. d = d0) (insert_event F map_busy X J e) ?R ?E"
      by (rule spec_post [OF insert_event_spec [OF ok]]) (auto simp: append_error_def)
    fix x
    show "sql_spec (?R x) (case x of (existing, hash, n) \<Rightarrow> sql_lift (receipt_for e hash n))
        (\<lambda>rc d. sql_ok X J d \<and> True \<and> one_more J e rc d0 d) ?E"
      by (cases x) (use pos in \<open>auto simp: receipt_row intro!: spec_lift dest: appended_one_more [OF ok J]\<close>)
  qed
qed

interpretation sqlite: sql_adapter X J F map_busy "sqlite_append_event_in_tx F X J" "\<lambda>_. True" "quiet F" "\<lambda>db _. db" for X J F
  by unfold_locales (use sqlite_one in auto)

lemmas sqlite_outcome = sqlite.run_outcome [folded sqlite_append_many_def]

lemma sqlite_load_ok: "sql_ok X J db \<Longrightarrow> sqlite_load_fact_events calm J db f = Inr (stream_of f (log_events J db))"
  unfolding sqlite_load_fact_events_def by (rule on_pool_load)

interpretation sqlite_store: event_store "sqlite_load_fact_events calm J" "sqlite_append F X J" "log_events J"
  "\<lambda>db. json_ok J \<and> sql_ok X J db" for F X J
proof unfold_locales
  fix db :: "string Tables" and f
  assume "json_ok J \<and> sql_ok X J db"
  then show "sqlite_load_fact_events calm J db f = Inr (stream_of f (log_events J db))" by (auto intro: sqlite_load_ok)
next
  fix db db' :: "string Tables" and e and r :: "StoreError fault + AppendReceipt"
  assume ok: "json_ok J \<and> sql_ok X J db" and a: "sqlite_append F X J db e = (db', r)"
  from sqlite.append_outcome [of J X db F e db' r] ok a
  show "(json_ok J \<and> sql_ok X J db') \<and> (log_events J db' = log_events J db \<or>
      arbitrate (sqlite_load_fact_events calm J db) e = Inr () \<and> log_events J db' = log_events J db @ [e])"
    using admits_arbitrates [of "sqlite_load_fact_events calm J db" "log_events J db" e] sqlite_load_ok [of X J db]
    by (auto simp: sqlite_append_def sqlite_append_many_def)
next
  fix db db' :: "string Tables" and e and x :: AppendReceipt
  assume "json_ok J \<and> sql_ok X J db" and "sqlite_append F X J db e = (db', Inr x)"
  then show "log_events J db' = log_events J db @ [e]"
    using sqlite.append_outcome [of J X db F e db' "Inr x"] by (simp add: sqlite_append_def sqlite_append_many_def)
qed

end
