(* ===== verification/Postgres_Store.thy ===== *)
theory Postgres_Store
  imports Sqlite_Store
begin

text \<open>
  \<open>crates/dent8-store-postgres/src/adapter.rs\<close>: the Postgres adapter. Beside the event log it keeps
  two derived tables in the same transaction, the folded state of every fact and the graph of the
  links between facts. Its invariant is the one \<open>verify_projection\<close> checks: the projection is the
  fold of the log. A rolled back transaction keeps the sequence numbers it drew.
\<close>

section \<open>Tables\<close>

record 'v ProjectionRow =
  proj_fact_id :: string
  proj_subject_type :: string
  proj_subject_key :: string
  proj_predicate :: string
  proj_lifecycle :: string
  proj_superseded_by :: "string option"
  proj_contradicted_by :: "string list"
  proj_corroboration :: int
  proj_created_at :: i64
  proj_updated_at :: i64
  proj_last_event_id :: string
  state_json :: 'v

record FactEdge =
  from_fact_id :: string
  to_fact_id :: string
  edge_type :: string
  edge_event_id :: string
  edge_recorded_at :: i64

record 'v PgTables = "'v Tables" +
  projection :: "'v ProjectionRow list"
  edges :: "FactEdge list"

record 'v PgCodec =
  event_codec :: "'v Json"
  state_to_json :: "FactState \<Rightarrow> string + 'v"
  state_from_json :: "'v \<Rightarrow> string + FactState"

definition pg_codec_ok :: "'v PgCodec \<Rightarrow> bool" where
  "pg_codec_ok K \<longleftrightarrow> json_ok (event_codec K) \<and>
     (\<forall>s v. state_to_json K s = Inr v \<longrightarrow> state_from_json K v = Inr s)"

definition no_pg_tables :: "'v PgTables" where
  "no_pg_tables = \<lparr>log_rows = [], last_sequence = 0, next_value = None, projection = [], edges = []\<rparr>"

section \<open>Errors and locks\<close>

definition pg_unavailable :: "SqlxError \<Rightarrow> StoreError" where
  "pg_unavailable err = StoreError.Unavailable (show_SqlxError err)"

definition lease_contention :: "SqlxError \<Rightarrow> StoreError" where
  "lease_contention err = (case err of
      Database cd msg shown \<Rightarrow>
        if cd = Some ''55P03'' then StoreError.Conflict (''postgres write-lease contention (retryable): '' @ msg)
        else pg_unavailable err
    | OtherSqlx _ \<Rightarrow> pg_unavailable err)"

text \<open>The bound on the wait is an \<open>i32\<close> of milliseconds; the three outcomes are the server's.\<close>

definition pg_acquire_write_lease ::
    "nat \<Rightarrow> SqlxError + unit \<Rightarrow> (nat \<Rightarrow> SqlxError + unit) \<Rightarrow> SqlxError + unit \<Rightarrow> StoreError + unit" where
  "pg_acquire_write_lease timeout_ms connects set_timeout lock =
     and_then (map_err pg_unavailable connects) (\<lambda>_.
     and_then (map_err pg_unavailable (set_timeout (min timeout_ms 2147483647))) (\<lambda>_.
     map_err lease_contention lock))"

section \<open>The derived tables\<close>

definition fold_state :: "FactEvent list \<Rightarrow> StoreError + FactState option" where
  "fold_state es = try_fold (\<lambda>s e. map_ok Some
     (map_err (\<lambda>err. StoreError.CorruptEvent (show_TransitionError err)) (apply_event s e))) None es"

definition lifecycle_tag :: "FactLifecycle \<Rightarrow> string" where
  "lifecycle_tag l = (case l of FactLifecycle.Active \<Rightarrow> ''active'' | FactLifecycle.Contested \<Rightarrow> ''contested''
    | FactLifecycle.Superseded \<Rightarrow> ''superseded'' | FactLifecycle.Expired \<Rightarrow> ''expired''
    | FactLifecycle.Retracted \<Rightarrow> ''retracted'')"

definition projection_row :: "FactState \<Rightarrow> 'v \<Rightarrow> 'v ProjectionRow" where
  "projection_row s v = \<lparr>proj_fact_id = fact_str (FactState.fact_id s),
     proj_subject_type = Model.subject_kind (FactState.subject s), proj_subject_key = subject_key (FactState.subject s),
     proj_predicate = predicate_str (FactState.predicate s), proj_lifecycle = lifecycle_tag (FactState.lifecycle s),
     proj_superseded_by = map_option fact_str (FactState.superseded_by s),
     proj_contradicted_by = map fact_str (FactState.contradicted_by s),
     proj_corroboration = min i64_max (int (corroboration s)),
     proj_created_at = as_unix_millis (created_at s), proj_updated_at = as_unix_millis (updated_at s),
     proj_last_event_id = event_str (last_event_id s), state_json = v\<rparr>"

text \<open>\<open>ON CONFLICT (fact_id) DO UPDATE\<close>: the columns it does not name keep their first values.\<close>

definition updated_row :: "'v ProjectionRow \<Rightarrow> 'v ProjectionRow \<Rightarrow> 'v ProjectionRow" where
  "updated_row q p = q\<lparr>proj_lifecycle := proj_lifecycle p, proj_superseded_by := proj_superseded_by p,
     proj_contradicted_by := proj_contradicted_by p, proj_corroboration := proj_corroboration p,
     proj_updated_at := proj_updated_at p, proj_last_event_id := proj_last_event_id p, state_json := state_json p\<rparr>"

fun upsert_row :: "'v ProjectionRow \<Rightarrow> 'v ProjectionRow list \<Rightarrow> 'v ProjectionRow list" where
  "upsert_row p [] = [p]"
| "upsert_row p (q # qs) =
     (if proj_fact_id q = proj_fact_id p then updated_row q p # qs else q # upsert_row p qs)"

definition upsert_projection :: "Engine \<Rightarrow> 'v PgCodec \<Rightarrow> FactState \<Rightarrow> ('v PgTables, unit) sql" where
  "upsert_projection F K s =
     sql_bind (sql_lift (map_err (\<lambda>m. Fail (StoreError.Canonicalization m)) (state_to_json K s))) (\<lambda>v.
       statement F pg_unavailable (\<lambda>d. (d\<lparr>projection := upsert_row (projection_row s v) (projection d)\<rparr>, Inr ())))"

definition edge_of :: "FactEvent \<Rightarrow> FactEdge option" where
  "edge_of e = map_option (\<lambda>(t, to_fact). \<lparr>from_fact_id = fact_str (FactEvent.fact_id e), to_fact_id = fact_str to_fact,
       edge_type = t, edge_event_id = event_str (event_id e),
       edge_recorded_at = as_unix_millis (recorded_at (provenance e))\<rparr>)
     (case FactEvent.kind e of
        FactEventKind.Reinforced f \<Rightarrow> Some (''reinforces'', f)
      | FactEventKind.Contradicted f _ \<Rightarrow> Some (''contradicts'', f)
      | FactEventKind.Superseded f _ \<Rightarrow> Some (''supersedes'', f)
      | _ \<Rightarrow> None)"

definition edge_key :: "FactEdge \<Rightarrow> string \<times> string \<times> string \<times> string" where
  "edge_key g = (from_fact_id g, to_fact_id g, edge_type g, edge_event_id g)"

text \<open>\<open>ON CONFLICT DO NOTHING\<close> on the primary key of the edges.\<close>

definition insert_edge :: "Engine \<Rightarrow> FactEvent \<Rightarrow> ('v PgTables, unit) sql" where
  "insert_edge F e = (case edge_of e of
      None \<Rightarrow> sql_return ()
    | Some g \<Rightarrow> statement F pg_unavailable (\<lambda>d.
        (if edge_key g \<in> edge_key ` set (edges d) then d else d\<lparr>edges := edges d @ [g]\<rparr>, Inr ())))"

section \<open>Operations\<close>

definition pg_append_event_in_tx ::
    "Engine \<Rightarrow> 'j Externs \<Rightarrow> 'v PgCodec \<Rightarrow> FactEvent \<Rightarrow> ('v PgTables, AppendReceipt) sql" where
  "pg_append_event_in_tx F X K e =
     sql_bind (insert_event F pg_unavailable X (event_codec K) e) (\<lambda>(existing, hash, n).
     sql_bind (sql_lift (map_err Fail (fold_state existing))) (\<lambda>current.
     sql_bind (sql_lift (map_err (\<lambda>err. Fail (StoreError.CorruptEvent (show_TransitionError err))) (apply_event current e))) (\<lambda>s.
     sql_bind (upsert_projection F K s) (\<lambda>_.
     sql_bind (insert_edge F e) (\<lambda>_. sql_lift (receipt_for e hash n))))))"

definition keep_sequence :: "'v PgTables \<Rightarrow> 'v PgTables \<Rightarrow> 'v PgTables" where
  "keep_sequence db d = db\<lparr>last_sequence := last_sequence d\<rparr>"

definition pg_append_many ::
    "Engine \<Rightarrow> 'j Externs \<Rightarrow> 'v PgCodec \<Rightarrow> FactEvent list \<Rightarrow> 'v PgTables \<Rightarrow>
       'v PgTables \<times> (StoreError fault + AppendReceipt list)" where
  "pg_append_many F X K es db = run_tx F pg_unavailable (keep_sequence db)
     (batch_in_tx F pg_unavailable (event_codec K) (pg_append_event_in_tx F X K) es) db"

definition pg_append ::
    "Engine \<Rightarrow> 'j Externs \<Rightarrow> 'v PgCodec \<Rightarrow> 'v PgTables \<Rightarrow> FactEvent \<Rightarrow>
       'v PgTables \<times> (StoreError fault + AppendReceipt)" where
  "pg_append F X K db e = pop_receipt (pg_append_many F X K [e] db)"

definition pg_load_fact_events ::
    "Engine \<Rightarrow> 'v PgCodec \<Rightarrow> 'v PgTables \<Rightarrow> FactId \<Rightarrow> StoreError fault + FactEvent list" where
  "pg_load_fact_events F K db f = on_pool db (load_fact_in_tx F pg_unavailable (event_codec K) (fact_str f))"

definition pg_scan_events ::
    "Engine \<Rightarrow> 'v PgCodec \<Rightarrow> 'v PgTables \<Rightarrow> EventFilter \<Rightarrow> StoreError fault + FactEvent list" where
  "pg_scan_events F K db fl = on_pool db (scan_rows F pg_unavailable (event_codec K) fl)"

definition pg_verify_chain ::
    "Engine \<Rightarrow> 'j Externs \<Rightarrow> 'v PgCodec \<Rightarrow> 'v PgTables \<Rightarrow> StoreError fault + bool" where
  "pg_verify_chain F X K db = on_pool db (verify_rows F pg_unavailable X (event_codec K))"

definition materialized_projection ::
    "Engine \<Rightarrow> 'v PgCodec \<Rightarrow> 'v PgTables \<Rightarrow> FactId \<Rightarrow> StoreError fault + FactState option" where
  "materialized_projection F K db f = on_pool db
     (sql_bind (fetch F pg_unavailable (\<lambda>d. Inr (find (\<lambda>p. proj_fact_id p = fact_str f) (projection d)))) (\<lambda>row.
      sql_lift (case row of
          None \<Rightarrow> Inr None
        | Some p \<Rightarrow> map_ok Some (map_err (\<lambda>m. Fail (StoreError.CorruptEvent m)) (state_from_json K (state_json p))))))"

definition edges_from :: "Engine \<Rightarrow> 'v PgTables \<Rightarrow> FactId \<Rightarrow> StoreError fault + FactEdge list" where
  "edges_from F db f = on_pool db (fetch F pg_unavailable (\<lambda>d. Inr
     (sort_key (\<lambda>g. (sint (edge_recorded_at g), edge_event_id g)) (filter (\<lambda>g. from_fact_id g = fact_str f) (edges d)))))"

text \<open>Two statements outside any transaction: the tables may change in between.\<close>

definition verify_projection ::
    "Engine \<Rightarrow> Engine \<Rightarrow> 'v PgCodec \<Rightarrow> 'v PgTables \<Rightarrow> 'v PgTables \<Rightarrow> FactId \<Rightarrow> StoreError fault + bool" where
  "verify_projection F F' K db db' f =
     and_then (pg_load_fact_events F K db f) (\<lambda>es. and_then (map_err Fail (fold_state es)) (\<lambda>folded.
     map_ok (\<lambda>materialized. folded = materialized) (materialized_projection F' K db' f)))"

text \<open>
  \<open>UPDATE ... RETURNING next_value - $1\<close> and the allocator's migration. A \<open>BIGINT\<close> out of range is
  an error of the statement, and so is a numeral that does not fit.
\<close>

definition pg_reserve_event_ids ::
    "Engine \<Rightarrow> 32 word \<Rightarrow> ('v, 'z) Tables_scheme \<Rightarrow> ('v, 'z) Tables_scheme \<times> (StoreError fault + u64)" where
  "pg_reserve_event_ids F count db =
     (if count = 0 then (db, Inl (Fail (StoreError.Unavailable ''cannot reserve zero event ids'')))
      else run_tx F pg_unavailable (\<lambda>_. db)
        (sql_bind (statement F pg_unavailable (\<lambda>d. case next_value d of
             None \<Rightarrow> (d, fetch_i64 F None)
           | Some v \<Rightarrow> if i64_max < v + uint count then (d, Inl (violated F ''bigint''))
               else (d\<lparr>next_value := Some (v + uint count)\<rparr>, fetch_i64 F (Some v)))) (\<lambda>start.
         sql_lift (if start < 0 then Inl (Fail (StoreError.CorruptEvent (''negative event-id allocator '' @ show_int start)))
           else Inr (word_of_int start)))) db)"

definition pg_suffix :: "string \<Rightarrow> int option" where
  "pg_suffix s = (case strip_prefix ''event:'' s of
      None \<Rightarrow> None
    | Some ds \<Rightarrow> if ds \<noteq> [] \<and> (\<forall>c \<in> set ds. is_digit c) then Some (digits_value 0 ds) else None)"

definition pg_suffixes :: "('v, 'z) Tables_scheme \<Rightarrow> int list" where
  "pg_suffixes d = List.map_filter pg_suffix (map row_event_id (log_rows d))"

definition pg_migrate ::
    "Engine \<Rightarrow> ('v, 'z) Tables_scheme \<Rightarrow> ('v, 'z) Tables_scheme \<times> (StoreError fault + unit)" where
  "pg_migrate F db = run_tx F pg_unavailable (\<lambda>_. db)
     (sql_bind (touch F pg_unavailable) (\<lambda>_. sql_bind (touch F pg_unavailable) (\<lambda>_. sql_bind (touch F pg_unavailable) (\<lambda>_.
      sql_bind (statement F pg_unavailable (\<lambda>d.
        let v = (case next_value d of None \<Rightarrow> 0 | Some v \<Rightarrow> v); ns = pg_suffixes d in
        if \<exists>n \<in> set ns. i64_max < n + 1 then (d, Inl (violated F ''bigint''))
        else (d\<lparr>next_value := Some (foldr max (map (\<lambda>n. n + 1) ns) v)\<rparr>, Inr ()))) (\<lambda>_.
      touch F pg_unavailable))))) db"

section \<open>The projection is the fold of the log\<close>

definition row_at :: "'v ProjectionRow list \<Rightarrow> FactId \<Rightarrow> 'v ProjectionRow option" where
  "row_at ps f = find (\<lambda>p. proj_fact_id p = fact_str f) ps"

definition cached :: "'v PgCodec \<Rightarrow> 'v ProjectionRow list \<Rightarrow> FactId \<Rightarrow> FactState option \<Rightarrow> bool" where
  "cached K ps f current \<longleftrightarrow> (case current of None \<Rightarrow> row_at ps f = None
     | Some s \<Rightarrow> \<exists>v. state_to_json K s = Inr v \<and> row_at ps f = Some (projection_row s v))"

definition pg_inv :: "'v PgCodec \<Rightarrow> 'v PgTables \<Rightarrow> bool" where
  "pg_inv K d \<longleftrightarrow> (\<forall>f. \<exists>current. replay_fact (stream_of f (log_events (event_codec K) d)) = Inr current \<and>
       cached K (projection d) f current) \<and>
     edges d = List.map_filter edge_of (log_events (event_codec K) d)"

lemma fold_state_replay: "replay_fact es = Inr current \<Longrightarrow> fold_state es = Inr current"
proof (induction es arbitrary: current rule: rev_induct)
  case (snoc e es)
  obtain c where c: "replay_fact es = Inr c" using replay_fact_prefix snoc.prems by blast
  then have "map_err Transition (map_ok Some (apply_event c e)) = Inr current"
    using replay_fact_snoc [OF c, of e] snoc.prems by simp
  then show ?case using snoc.IH [OF c] by (auto simp: fold_state_def try_fold_snoc)
qed (simp add: fold_state_def)

lemma row_at_upsert:
  "row_at (upsert_row p ps) f =
     (if proj_fact_id p = fact_str f
      then Some (case row_at ps f of None \<Rightarrow> p | Some q \<Rightarrow> updated_row q p)
      else row_at ps f)"
  by (induction ps) (auto simp: row_at_def updated_row_def)

text \<open>What the update leaves alone never changes, so the row is the one a fresh insert would write.\<close>

lemma updated_projection_row:
  "apply_event (Some s) e = Inr t \<Longrightarrow> updated_row (projection_row s v) (projection_row t w) = projection_row t w"
  by (auto simp: updated_row_def projection_row_def dest: apply_next_frame)

lemma proj_row_id [simp]: "proj_fact_id (projection_row s v) = fact_str (FactState.fact_id s)"
  by (simp add: projection_row_def)

lemma cached_upsert:
  assumes "cached K ps (FactEvent.fact_id e) current" and t: "apply_event current e = Inr t" and w: "state_to_json K t = Inr w"
  shows "cached K (upsert_row (projection_row t w) ps) (FactEvent.fact_id e) (Some t)"
    and "f \<noteq> FactEvent.fact_id e \<Longrightarrow> cached K (upsert_row (projection_row t w) ps) f c = cached K ps f c"
proof -
  have id: "FactState.fact_id t = FactEvent.fact_id e"
  proof (cases current)
    case (Some a)
    then have n: "apply_next_event a e = Inr t" using t by simp
    then have "FactState.fact_id a = FactEvent.fact_id e" by (simp add: apply_next_Inr)
    then show ?thesis using apply_next_frame(1) [OF n] by simp
  qed (use t in \<open>auto dest: apply_initial_iff\<close>)
  show "cached K (upsert_row (projection_row t w) ps) (FactEvent.fact_id e) (Some t)"
    using assms(1) w t
    by (cases current) (auto simp: cached_def row_at_upsert id updated_projection_row simp del: apply_event_Some)
  have "fact_str (FactEvent.fact_id e) \<noteq> fact_str f" if "f \<noteq> FactEvent.fact_id e" using that FactId.expand by metis
  then show "cached K (upsert_row (projection_row t w) ps) f c = cached K ps f c" if "f \<noteq> FactEvent.fact_id e"
    using that by (auto simp: cached_def row_at_upsert id split: option.split)
qed

lemma map_filter_snoc: "List.map_filter f (xs @ [x]) = List.map_filter f xs @ (case f x of None \<Rightarrow> [] | Some y \<Rightarrow> [y])"
  by (simp add: List.map_filter_def split: option.split)

lemma edge_key_id: "edge_of e = Some g \<Longrightarrow> edge_event_id g = event_str (event_id e)"
  by (auto simp: edge_of_def)

lemma fresh_edge:
  assumes "edge_of e = Some g" and "event_str (event_id e) \<notin> (\<lambda>e. event_str (event_id e)) ` set es"
  shows "edge_key g \<notin> edge_key ` set (List.map_filter edge_of es)"
proof
  assume "edge_key g \<in> edge_key ` set (List.map_filter edge_of es)"
  then obtain d g' where "d \<in> set es" "edge_of d = Some g'" "edge_event_id g' = edge_event_id g"
    by (force simp: List.map_filter_def edge_key_def)
  then show False using assms edge_key_id by (metis image_eqI)
qed

lemma pg_inv_step:
  assumes inv: "pg_inv K d0" and L: "log_events (event_codec K) d = log_events (event_codec K) d0 @ [e]"
    and adm: "admits_next (log_events (event_codec K) d0) e"
    and c: "replay_fact (stream_of (FactEvent.fact_id e) (log_events (event_codec K) d0)) = Inr current"
    and t: "apply_event current e = Inr t" and w: "state_to_json K t = Inr w"
    and p: "projection d = upsert_row (projection_row t w) (projection d0)"
    and g: "edges d = edges d0 @ (case edge_of e of None \<Rightarrow> [] | Some g \<Rightarrow> [g])"
  shows "pg_inv K d"
proof -
  have "cached K (projection d0) (FactEvent.fact_id e) current" using inv c unfolding pg_inv_def by (metis sum.inject(2))
  note up = cached_upsert [OF this t w]
  have "\<exists>current. replay_fact (stream_of f (log_events (event_codec K) d)) = Inr current \<and> cached K (projection d) f current" for f
  proof (cases "f = FactEvent.fact_id e")
    case True
    then show ?thesis using up(1) replay_fact_snoc [OF c, of e] t by (simp add: L stream_of_snoc p)
  next
    case False
    then show ?thesis using inv up(2) [OF False] by (auto simp: L stream_of_snoc p pg_inv_def)
  qed
  then show ?thesis using inv g by (simp add: pg_inv_def L map_filter_snoc)
qed

definition states_encode :: "'v PgCodec \<Rightarrow> bool" where
  "states_encode K \<longleftrightarrow> (\<forall>s. is_ok (state_to_json K s))"

lemma derived_keep [simp]:
  "log_events J (d\<lparr>projection := p\<rparr>) = log_events J d" "log_events J (d\<lparr>edges := g\<rparr>) = log_events J d"
  "sql_ok X J (d\<lparr>projection := p\<rparr>) = sql_ok X J d" "sql_ok X J (d\<lparr>edges := g\<rparr>) = sql_ok X J d"
  "one_more J e rc d0 (d\<lparr>projection := p\<rparr>) = one_more J e rc d0 d" "one_more J e rc d0 (d\<lparr>edges := g\<rparr>) = one_more J e rc d0 d"
  for d :: "'v PgTables"
  by (simp_all add: log_events_def sql_ok_def one_more_def)

lemma upsert_spec:
  "sql_spec (\<lambda>d. d = d0) (upsert_projection F K s)
     (\<lambda>_ d. \<exists>v. state_to_json K s = Inr v \<and> d = d0\<lparr>projection := upsert_row (projection_row s v) (projection d0)\<rparr>)
     (\<lambda>err d. err \<noteq> Panic \<and> d = d0 \<and> \<not> (quiet F \<and> states_encode K))"
  unfolding upsert_projection_def
proof (rule spec_then [where A = "\<lambda>v. state_to_json K s = Inr v"])
  show "sql_spec (\<lambda>d. d = d0) (sql_lift (map_err (\<lambda>m. Fail (StoreError.Canonicalization m)) (state_to_json K s)))
    (\<lambda>v d. state_to_json K s = Inr v \<and> d = d0) (\<lambda>err d. err \<noteq> Panic \<and> d = d0 \<and> \<not> (quiet F \<and> states_encode K))"
    by (rule spec_lift) (auto simp: states_encode_def is_ok_iff, metis Inl_Inr_False)
qed (auto intro!: spec_statement simp: quiet_def)

lemma insert_edge_spec:
  assumes "event_str (event_id e) \<notin> (\<lambda>e. event_str (event_id e)) ` set es" and "edges d0 = List.map_filter edge_of es"
  shows "sql_spec (\<lambda>d. d = d0) (insert_edge F e)
     (\<lambda>_ d. d = d0\<lparr>edges := edges d0 @ (case edge_of e of None \<Rightarrow> [] | Some g \<Rightarrow> [g])\<rparr>)
     (\<lambda>err d. err \<noteq> Panic \<and> d = d0 \<and> \<not> quiet F)"
  unfolding insert_edge_def
  by (cases "edge_of e") (use fresh_edge [OF _ assms(1)] assms(2) in \<open>auto intro!: spec_statement spec_return simp: quiet_def\<close>)

lemma derive_spec:
  assumes J: "json_ok (event_codec K)" and ok: "sql_ok X (event_codec K) d0" and inv: "pg_inv K d0"
    and a: "appended X (event_codec K) e hash d0 d1"
    and c: "replay_fact (stream_of (FactEvent.fact_id e) (log_events (event_codec K) d0)) = Inr current"
    and t: "apply_event current e = Inr t"
  shows "sql_spec (\<lambda>d. d = d1) (sql_bind (upsert_projection F K t) (\<lambda>_.
      sql_bind (insert_edge F e) (\<lambda>_. sql_lift (receipt_for e hash (last_sequence d0 + 1)))))
    (\<lambda>rc d. sql_ok X (event_codec K) d \<and> pg_inv K d \<and> one_more (event_codec K) e rc d0 d)
    (\<lambda>err d. err \<noteq> Panic \<and> last_sequence d \<in> {last_sequence d0..i64_max} \<and> \<not> (quiet F \<and> states_encode K))"
    (is "sql_spec _ _ ?Q ?E")
proof (rule spec_bind [OF spec_post [OF upsert_spec]])
  let ?L = "log_events (event_codec K) d0"
  obtain v where v: "d1 = inserted e hash v d0" "admits_next ?L e" using a by (auto simp: appended_def can_append_def)
  then have frame: "projection d1 = projection d0" "edges d1 = edges d0" "last_sequence d1 = last_sequence d0 + 1"
    by (simp_all add: inserted_def)
  show "?E err d" if "err \<noteq> Panic \<and> d = d1 \<and> \<not> (quiet F \<and> states_encode K)" for err d
    using that frame sql_ok_bound [OF conjunct1 [OF appended_one_more [OF ok J a]]] by auto
  let ?up = "\<lambda>w. d1\<lparr>projection := upsert_row (projection_row t w) (projection d1)\<rparr>"
  show "\<exists>w. state_to_json K t = Inr w \<and> d = ?up w" if "\<exists>w. state_to_json K t = Inr w \<and> d = ?up w" for d
    using that .
  show "sql_spec (\<lambda>d. \<exists>w. state_to_json K t = Inr w \<and> d = ?up w)
    (sql_bind (insert_edge F e) (\<lambda>_. sql_lift (receipt_for e hash (last_sequence d0 + 1)))) ?Q ?E"
  proof (rule spec_all, elim exE conjE)
    fix d2 w
    assume w: "state_to_json K t = Inr w" and d2: "d2 = ?up w"
    note one = appended_one_more [OF ok J a]
    have new: "event_str (event_id e) \<notin> (\<lambda>e. event_str (event_id e)) ` set ?L" using v(2) by (simp add: admits_next_def)
    have e2: "edges d2 = List.map_filter edge_of ?L" using inv by (simp add: d2 frame pg_inv_def)
    let ?d3 = "d2\<lparr>edges := edges d2 @ (case edge_of e of None \<Rightarrow> [] | Some g \<Rightarrow> [g])\<rparr>"
    have d3: "pg_inv K ?d3"
      by (rule pg_inv_step [OF inv _ v(2) c t w]) (use one in \<open>simp_all add: d2 frame one_more_def\<close>)
    have pos: "0 \<le> last_sequence d0" using ok by (simp add: sql_ok_def)
    show "sql_spec (\<lambda>d. d = d2) (sql_bind (insert_edge F e) (\<lambda>_. sql_lift (receipt_for e hash (last_sequence d0 + 1)))) ?Q ?E"
    proof (rule spec_bind)
      show "sql_spec (\<lambda>d. d = d2) (insert_edge F e) (\<lambda>_ d. d = ?d3) ?E"
        by (rule spec_post [OF insert_edge_spec [OF new e2]]) (use sql_ok_bound [OF conjunct1 [OF one]] in \<open>auto simp: d2 frame\<close>)
      show "sql_spec (\<lambda>d. d = ?d3) (sql_lift (receipt_for e hash (last_sequence d0 + 1))) ?Q ?E"
        by (rule spec_lift) (use one pos d3 in \<open>auto simp: receipt_row d2\<close>)
    qed
  qed
qed

lemma pg_one:
  assumes J: "json_ok (event_codec K)" and ok: "sql_ok X (event_codec K) d0" and inv: "pg_inv K d0"
  shows "sql_spec (\<lambda>d. d = d0) (pg_append_event_in_tx F X K e)
    (\<lambda>rc d. sql_ok X (event_codec K) d \<and> pg_inv K d \<and> one_more (event_codec K) e rc d0 d)
    (\<lambda>err d. err \<noteq> Panic \<and> last_sequence d \<in> {last_sequence d0..i64_max} \<and>
       (quiet F \<and> states_encode K \<longrightarrow> \<not> can_append X (event_codec K) d0 e))"
    (is "sql_spec _ _ ?Q ?E")
  unfolding pg_append_event_in_tx_def
proof (rule spec_bind)
  let ?L = "log_events (event_codec K) d0"
  let ?R = "\<lambda>(existing, hash, n) d. existing = stream_of (FactEvent.fact_id e) ?L \<and> n = last_sequence d0 + 1 \<and>
    appended X (event_codec K) e hash d0 d"
  show "sql_spec (\<lambda>d. d = d0) (insert_event F pg_unavailable X (event_codec K) e) ?R ?E"
    by (rule spec_post [OF insert_event_spec [OF ok]]) (auto simp: append_error_def)
  fix x :: "FactEvent list \<times> string \<times> int"
  obtain existing hash n where x: "x = (existing, hash, n)" by (cases x) auto
  show "sql_spec (?R x) (case x of (existing, hash, n) \<Rightarrow>
      sql_bind (sql_lift (map_err Fail (fold_state existing))) (\<lambda>current.
      sql_bind (sql_lift (map_err (\<lambda>err. Fail (StoreError.CorruptEvent (show_TransitionError err))) (apply_event current e))) (\<lambda>s.
      sql_bind (upsert_projection F K s) (\<lambda>_.
      sql_bind (insert_edge F e) (\<lambda>_. sql_lift (receipt_for e hash n)))))) ?Q ?E"
  proof (rule spec_all)
    fix d1
    assume "?R x d1"
    then have a: "appended X (event_codec K) e hash d0 d1" and n: "n = last_sequence d0 + 1"
      and ex: "existing = stream_of (FactEvent.fact_id e) ?L" by (simp_all add: x)
    obtain current where c: "replay_fact existing = Inr current" using inv ex by (auto simp: pg_inv_def)
    have adm: "admits_next ?L e" using a by (simp add: appended_def can_append_def)
    obtain t where t: "apply_event current e = Inr t"
      using adm c unfolding admits_next_def arbitrate_events_Inr firewall_admits_def ex [symmetric] by auto
    have "sql_spec (\<lambda>d. d = d1) (sql_bind (upsert_projection F K t) (\<lambda>_.
        sql_bind (insert_edge F e) (\<lambda>_. sql_lift (receipt_for e hash (last_sequence d0 + 1))))) ?Q ?E"
      by (rule spec_post [OF derive_spec [OF J ok inv a c [unfolded ex] t]]) auto
    then show "sql_spec (\<lambda>d. d = d1) (case x of (existing, hash, n) \<Rightarrow>
        sql_bind (sql_lift (map_err Fail (fold_state existing))) (\<lambda>current.
        sql_bind (sql_lift (map_err (\<lambda>err. Fail (StoreError.CorruptEvent (show_TransitionError err))) (apply_event current e))) (\<lambda>s.
        sql_bind (upsert_projection F K s) (\<lambda>_.
        sql_bind (insert_edge F e) (\<lambda>_. sql_lift (receipt_for e hash n)))))) ?Q ?E"
      using fold_state_replay [OF c]
      by (simp add: x n t sql_bind_def [of "sql_lift _"] sql_lift_def sql_spec_def del: apply_event_None apply_event_Some)
  qed
qed

lemma pg_inv_rows: "pg_inv K db \<Longrightarrow> pg_inv K (keep_sequence db d)"
  by (simp add: pg_inv_def keep_sequence_def)

interpretation pg: sql_adapter X "event_codec K" F pg_unavailable "pg_append_event_in_tx F X K" "pg_inv K"
  "quiet F \<and> states_encode K" keep_sequence for X K F
proof unfold_locales
  show "sql_spec (\<lambda>d. d = d0) (pg_append_event_in_tx F X K e)
      (\<lambda>rc d. sql_ok X (event_codec K) d \<and> pg_inv K d \<and> one_more (event_codec K) e rc d0 d)
      (\<lambda>err d. err \<noteq> Panic \<and> last_sequence d \<in> {last_sequence d0..i64_max} \<and>
         (quiet F \<and> states_encode K \<longrightarrow> \<not> can_append X (event_codec K) d0 e))"
    if "json_ok (event_codec K)" "sql_ok X (event_codec K) d0" "pg_inv K d0" for d0 e
    by (rule pg_one [OF that])
next
  show "sql_ok X (event_codec K) (keep_sequence db d) \<and> pg_inv K (keep_sequence db d) \<and>
      log_rows (keep_sequence db d) = log_rows db \<and> next_value (keep_sequence db d) = next_value db \<and>
      last_sequence db \<le> last_sequence (keep_sequence db d)"
    if "sql_ok X (event_codec K) db" "pg_inv K db" "last_sequence d \<in> {last_sequence db..i64_max}" for db d
    using that pg_inv_rows [of K db d] sql_ok_last [of X "event_codec K" db "last_sequence d"] by (simp add: keep_sequence_def)
qed auto

lemmas pg_outcome = pg.run_outcome [folded pg_append_many_def]

lemma pg_load_ok: "sql_ok X (event_codec K) db \<Longrightarrow> pg_load_fact_events calm K db f = Inr (stream_of f (log_events (event_codec K) db))"
  unfolding pg_load_fact_events_def by (rule on_pool_load)

interpretation pg_store: event_store "pg_load_fact_events calm K" "pg_append F X K" "log_events (event_codec K)"
  "\<lambda>db. pg_codec_ok K \<and> sql_ok X (event_codec K) db \<and> pg_inv K db" for F X K
proof unfold_locales
  fix db :: "'a PgTables" and f
  assume "pg_codec_ok K \<and> sql_ok X (event_codec K) db \<and> pg_inv K db"
  then show "pg_load_fact_events calm K db f = Inr (stream_of f (log_events (event_codec K) db))" by (auto intro: pg_load_ok)
next
  fix db db' :: "'a PgTables" and e and r :: "StoreError fault + AppendReceipt"
  assume ok: "pg_codec_ok K \<and> sql_ok X (event_codec K) db \<and> pg_inv K db" and a: "pg_append F X K db e = (db', r)"
  from pg.append_outcome [of K X db F e db' r] ok a
  show "(pg_codec_ok K \<and> sql_ok X (event_codec K) db' \<and> pg_inv K db') \<and>
      (log_events (event_codec K) db' = log_events (event_codec K) db \<or>
       arbitrate (pg_load_fact_events calm K db) e = Inr () \<and>
       log_events (event_codec K) db' = log_events (event_codec K) db @ [e])"
    using admits_arbitrates [of "pg_load_fact_events calm K db" "log_events (event_codec K) db" e] pg_load_ok [of X K db]
    by (auto simp: pg_append_def pg_append_many_def pg_codec_ok_def)
next
  fix db db' :: "'a PgTables" and e and x :: AppendReceipt
  assume "pg_codec_ok K \<and> sql_ok X (event_codec K) db \<and> pg_inv K db" and "pg_append F X K db e = (db', Inr x)"
  then show "log_events (event_codec K) db' = log_events (event_codec K) db @ [e]"
    using pg.append_outcome [of K X db F e db' "Inr x"] by (simp add: pg_append_def pg_append_many_def pg_codec_ok_def)
qed

end
