(* ===== verification/Sql_Sessions.thy ===== *)
theory Sql_Sessions
  imports Postgres_Store
begin

text \<open>
  What holds of a database that any number of writers share. A writer's call is one atomic step,
  whatever batch it carries and however the engine behaves: the transaction lock serializes the
  calls, not the decisions behind them, so a batch may have been decided on any stale snapshot. The
  properties are of every database reachable from the empty one: the log stays arbitrated and
  chained, a batch lands whole or not at all, an acknowledged event stays, the projection is the
  fold of the log, and reserved ids are never handed out twice.
\<close>

section \<open>Writers on one database\<close>

inductive sqlite_step :: "'j Externs \<Rightarrow> string Json \<Rightarrow> string Tables \<Rightarrow> string Tables \<Rightarrow> bool" for X J where
  migrating: "sqlite_migrate F db = (db', r) \<Longrightarrow> sqlite_step X J db db'"
| reserving: "sqlite_reserve_event_ids F n db = (db', q) \<Longrightarrow> sqlite_step X J db db'"
| appending: "sqlite_append_many F X J es db = (db', rcs) \<Longrightarrow> sqlite_step X J db db'"

inductive pg_step :: "'j Externs \<Rightarrow> 'v PgCodec \<Rightarrow> 'v PgTables \<Rightarrow> 'v PgTables \<Rightarrow> bool" for X K where
  migrating: "pg_migrate F db = (db', r) \<Longrightarrow> pg_step X K db db'"
| reserving: "pg_reserve_event_ids F n db = (db', q) \<Longrightarrow> pg_step X K db db'"
| appending: "pg_append_many F X K es db = (db', rcs) \<Longrightarrow> pg_step X K db db'"

section \<open>Calls that append nothing\<close>

definition alloc_only :: "('v, 'z) Tables_scheme \<Rightarrow> ('v, 'z) Tables_scheme \<Rightarrow> bool" where
  "alloc_only d d' \<longleftrightarrow> d' = d\<lparr>next_value := next_value d'\<rparr> \<and>
     (\<forall>n. next_value d = Some n \<longrightarrow> (\<exists>m \<ge> n. next_value d' = Some m))"

lemma alloc_only_refl [simp]: "alloc_only d d"
  by (simp add: alloc_only_def)

lemma alloc_only_set:
  "(\<And>n. next_value d = Some n \<Longrightarrow> \<exists>m \<ge> n. v = Some m) \<Longrightarrow> alloc_only d (d\<lparr>next_value := v\<rparr>)"
  by (simp add: alloc_only_def)

text \<open>What a reservation hands out: the allocator's value, which then moves past the range.\<close>

definition hands_out :: "32 word \<Rightarrow> u64 \<Rightarrow> ('v, 'z) Tables_scheme \<Rightarrow> ('v, 'z) Tables_scheme \<Rightarrow> bool" where
  "hands_out count q d d' \<longleftrightarrow> count \<noteq> 0 \<and> (\<exists>v. next_value d = Some v \<and> 0 \<le> v \<and> v \<le> i64_max \<and>
     q = word_of_int v \<and> next_value d' = Some (v + uint count))"

lemma migrate_frame: "sqlite_migrate F db = (db', r) \<Longrightarrow> alloc_only db db'"
  by (auto simp: sqlite_migrate_def sql_bind_def touch_def statement_def intro!: alloc_only_set split: option.splits)

lemma reserve_frame:
  assumes "sqlite_reserve_event_ids F count db = (db', r)"
  shows "alloc_only db db'" and "r = Inr q \<Longrightarrow> hands_out count q db db'"
  using assms
  by (auto simp: sqlite_reserve_event_ids_def run_tx_def sqlite_reserve_in_tx_def sql_bind_def touch_def hands_out_def
      statement_def fetch_def sql_lift_def fetch_i64_def intro!: alloc_only_set split: option.splits if_splits prod.splits)

lemma pg_migrate_frame: "pg_migrate F db = (db', r) \<Longrightarrow> alloc_only db db'"
proof -
  have ge: "v \<le> foldr max xs v" for xs and v :: int by (induction xs) (auto simp: max_def)
  assume "pg_migrate F db = (db', r)"
  then show ?thesis
    by (auto simp: pg_migrate_def run_tx_def sql_bind_def touch_def statement_def Let_def ge intro!: alloc_only_set
        split: option.splits if_splits prod.splits)
qed

lemma pg_reserve_frame:
  assumes "pg_reserve_event_ids F count db = (db', r)"
  shows "alloc_only db db'" and "r = Inr q \<Longrightarrow> hands_out count q db db'"
  using assms
  by (auto simp: pg_reserve_event_ids_def run_tx_def sql_bind_def hands_out_def
      statement_def sql_lift_def fetch_i64_def intro!: alloc_only_set split: option.splits if_splits prod.splits)

lemma alloc_only_keeps:
  assumes "alloc_only d d'"
  shows "log_rows d' = log_rows d" "last_sequence d' = last_sequence d" "log_events J d' = log_events J d"
    "sql_ok X J d' \<longleftrightarrow> sql_ok X J d"
proof -
  have d': "d' = d\<lparr>next_value := next_value d'\<rparr>" using assms by (simp add: alloc_only_def)
  show "log_rows d' = log_rows d" "last_sequence d' = last_sequence d" "log_events J d' = log_events J d"
    "sql_ok X J d' \<longleftrightarrow> sql_ok X J d" by (subst d', simp)+
qed

lemma alloc_only_pg: "alloc_only d d' \<Longrightarrow> pg_inv K d' \<longleftrightarrow> pg_inv K (d :: 'v PgTables)"
proof -
  assume "alloc_only d d'"
  then have d': "d' = d\<lparr>next_value := next_value d'\<rparr>" by (simp add: alloc_only_def)
  show ?thesis by (subst d') (simp add: pg_inv_def)
qed

section \<open>Databases that writers share\<close>

text \<open>
  The contract of a step: it keeps the invariant, extends the log by an admitted batch and never
  lowers the allocator.
\<close>

definition extended :: "'v Json \<Rightarrow> ('v, 'z) Tables_scheme \<Rightarrow> ('v, 'z) Tables_scheme \<Rightarrow> bool" where
  "extended J d d' \<longleftrightarrow>
     (\<exists>es. log_events J d' = log_events J d @ es \<and> log_admits (log_events J d) es) \<and>
     (\<exists>rs. log_rows d' = log_rows d @ rs) \<and>
     (\<forall>n. next_value d = Some n \<longrightarrow> (\<exists>m \<ge> n. next_value d' = Some m))"

lemma extended_refl: "extended J d d"
  by (auto simp: extended_def intro: exI [of _ "[]"])

lemma extended_trans:
  assumes "extended J a b" and "extended J b c"
  shows "extended J a c"
proof -
  obtain es fs where "log_events J b = log_events J a @ es" "log_events J c = log_events J b @ fs"
    "log_admits (log_events J a) es" "log_admits (log_events J b) fs"
    using assms by (auto simp: extended_def)
  then have "log_events J c = log_events J a @ (es @ fs) \<and> log_admits (log_events J a) (es @ fs)"
    by (simp add: log_admits_append)
  moreover have "\<exists>rs. log_rows c = log_rows a @ rs" using assms by (auto simp: extended_def)
  moreover have "\<exists>m \<ge> n. next_value c = Some m" if "next_value a = Some n" for n
    using assms that by (fastforce simp: extended_def)
  ultimately show ?thesis unfolding extended_def by blast
qed

lemma extended_alloc: "alloc_only d d' \<Longrightarrow> extended J d d'"
  using alloc_only_keeps [of d d'] by (auto simp: extended_def alloc_only_def intro: exI [of _ "[]"])

locale shared_log =
  fixes step :: "('v, 'z) Tables_scheme \<Rightarrow> ('v, 'z) Tables_scheme \<Rightarrow> bool" and J :: "'v Json"
    and ok :: "('v, 'z) Tables_scheme \<Rightarrow> bool" and start :: "('v, 'z) Tables_scheme"
  assumes step_extends: "ok d \<Longrightarrow> step d d' \<Longrightarrow> ok d' \<and> extended J d d'"
    and start_empty: "log_events J start = []"
begin

lemma reach_extends:
  assumes "step\<^sup>*\<^sup>* d d'" and "ok d"
  shows "ok d' \<and> extended J d d'"
  using assms
proof (induction rule: rtranclp_induct)
  case base
  then show ?case by (simp add: extended_refl)
next
  case (step b c)
  then show ?case using step_extends [of b c] extended_trans [of J d b c] by blast
qed

lemma reach_log_inv:
  assumes "step\<^sup>*\<^sup>* start d" and "ok start"
  shows "log_inv (log_events J d)"
proof -
  obtain es where "log_events J d = [] @ es" "log_admits [] es"
    using reach_extends [OF assms] start_empty by (auto simp: extended_def)
  then show ?thesis using log_admits_inv [OF log_inv_Nil, of es] by simp
qed

end

context sql_adapter
begin

lemma batch_extends:
  assumes "json_ok J" "sql_ok X J db" "inv db" and "run_tx F h (rolled_back db) (batch_in_tx F h J one es) db = (db', r)"
  shows "sql_ok X J db' \<and> inv db' \<and> extended J db db'"
  using run_outcome [OF assms]
proof (elim conjE disjE exE, goal_cases)
  case (3 err)
  then have "log_events J db' = log_events J db" by (simp add: log_events_def)
  then show ?case using 3 by (auto simp: extended_def intro: exI [of _ "[]"])
qed (auto simp: extended_def batch_more_def)

text \<open>With an engine that fails nothing, a batch commits exactly when the in-memory store takes it.\<close>

lemma commit_agrees:
  assumes ok: "json_ok J" "sql_ok X J db" "inv db" and live
    and run: "run_tx F h (rolled_back db) (batch_in_tx F h J one es) db = (db', r)"
    and mem: "memory_ok X st" "all_events st = log_events J db" "append_each X st es = (st', q)"
    and room: "last_sequence db + int (length es) \<le> Sql_Log.i64_max" and enc: "\<forall>e \<in> set es. is_ok (to_json J e)"
    and apart: "\<And>hs. hash_chain X (log_events J db @ es) = Inr hs \<Longrightarrow> distinct hs"
  shows "(is_ok r \<longleftrightarrow> is_ok q \<and> groups_unique es (log_events J db @ es)) \<and>
    log_events J db' = (if is_ok r then all_events st' else log_events J db)"
proof -
  note out = run_outcome [OF ok run] and each = append_each_spec [OF mem(1,3)]
  show ?thesis
  proof (cases r)
    case (Inr rcs)
    then have b: "batch_more J es rcs db db'" "groups_unique es (log_events J db')" "sql_ok X J db'" using out by auto
    then have L: "log_events J db' = log_events J db @ es" "log_admits (log_events J db) es" by (auto simp: batch_more_def)
    moreover have "is_ok (hash_chain X (log_events J db @ es))" using b(3) L by (simp add: sql_ok_def)
    ultimately show ?thesis using b(2) each(2,3) mem(2) Inr by simp
  next
    case (Inl err)
    have quiet: "quiet F" using \<open>live\<close> by (rule live_quiet)
    have same: "log_rows db' = log_rows db" "\<not> (batch_ok X J db es \<and> groups_unique es (log_events J db @ es))"
      using out Inl quiet \<open>live\<close> by (auto simp: quiet_def)
    have "\<not> (is_ok q \<and> groups_unique es (log_events J db @ es))"
      using same(2) each(2) mem(2) room enc apart by (auto simp: batch_ok_def is_ok_iff)
    moreover have "log_events J db' = log_events J db" using same(1) by (simp add: log_events_def)
    ultimately show ?thesis using Inl by simp
  qed
qed

end

interpretation sqlite_shared: shared_log "sqlite_step X J" J "\<lambda>db. json_ok J \<and> sql_ok X J db" no_tables for X J
proof unfold_locales
  fix d d' :: "string Tables"
  assume ok: "json_ok J \<and> sql_ok X J d" and "sqlite_step X J d d'"
  from this(2) show "(json_ok J \<and> sql_ok X J d') \<and> extended J d d'"
  proof cases
    case (migrating F r)
    from migrate_frame [OF this] show ?thesis using ok alloc_only_keeps(4) extended_alloc by blast
  next
    case (reserving F n q)
    from reserve_frame(1) [OF this] show ?thesis using ok alloc_only_keeps(4) extended_alloc by blast
  next
    case (appending F es rcs)
    from sqlite.batch_extends [OF conjunct1 [OF ok] conjunct2 [OF ok] TrueI appending [unfolded sqlite_append_many_def]] ok
    show ?thesis by blast
  qed
qed (simp add: no_tables_def log_events_def)

interpretation pg_shared: shared_log "pg_step X K" "event_codec K"
  "\<lambda>db. json_ok (event_codec K) \<and> sql_ok X (event_codec K) db \<and> pg_inv K db" no_pg_tables
  for X :: "'j Externs" and K :: "'v PgCodec"
proof unfold_locales
  fix d d' :: "'v PgTables"
  assume ok: "json_ok (event_codec K) \<and> sql_ok X (event_codec K) d \<and> pg_inv K d" and "pg_step X K d d'"
  from this(2) show "(json_ok (event_codec K) \<and> sql_ok X (event_codec K) d' \<and> pg_inv K d') \<and> extended (event_codec K) d d'"
  proof cases
    case (migrating F r)
    from pg_migrate_frame [OF this] show ?thesis using ok alloc_only_keeps(4) alloc_only_pg extended_alloc by blast
  next
    case (reserving F n q)
    from pg_reserve_frame(1) [OF this] show ?thesis using ok alloc_only_keeps(4) alloc_only_pg extended_alloc by blast
  next
    case (appending F es rcs)
    have "sql_ok X (event_codec K) d" "pg_inv K d" "json_ok (event_codec K)" using ok by simp_all
    from pg.batch_extends [OF this(3,1,2) appending [unfolded pg_append_many_def]] ok show ?thesis by blast
  qed
qed (simp add: no_pg_tables_def log_events_def)

section \<open>Reads of a sound log\<close>

lemma rows_all: "sql_ok X J db \<Longrightarrow> rows_events J (log_rows db) = Inr (log_events J db)"
  using rows_filter [OF ok_holds, of X J db "\<lambda>_. True" "\<lambda>_. True"] by simp

lemmas on_calm = on_pool_def sql_bind_def fetch_def statement_def sql_lift_def sql_return_def calm_def

lemma verify_ok: "sql_ok X J db \<Longrightarrow> on_pool db (verify_rows calm h X J) = Inr True"
  by (simp add: verify_rows_def on_calm ordered_ok rows_all) (simp add: sql_ok_def)

lemma rows_bound:
  assumes "sorted_wrt (<) (map row_sequence rows)" and "\<forall>r \<in> set rows. 1 \<le> row_sequence r \<and> row_sequence r \<le> n"
  shows "length rows \<le> nat n"
proof -
  have "distinct (map row_sequence rows)" using assms(1) strict_sorted_iff by blast
  then have "length rows = card (row_sequence ` set rows)" by (metis distinct_card length_map list.set_map)
  also have "\<dots> \<le> card {1..n}" using assms(2) by (intro card_mono) auto
  finally show ?thesis by simp
qed

lemma scan_ok: "sql_ok X J db \<Longrightarrow> on_pool db (scan_rows calm h J EventFilter_default) = Inr (log_events J db)"
proof -
  assume ok: "sql_ok X J db"
  then have "length (log_rows db) \<le> nat (last_sequence db)" using rows_bound by (auto simp: sql_ok_def)
  then have "take (nat Sql_Log.i64_max) (log_rows db) = log_rows db" using sql_ok_bound [OF ok] by (simp add: nat_le_iff)
  then show ?thesis using rows_all [OF ok]
    by (simp add: scan_rows_def on_calm select_rows_def ordered_ok [OF ok] filter_row_def opt_matches_def row_limit_def
        EventFilter_default_def)
qed

lemma materialized_ok:
  assumes "pg_codec_ok K" and "pg_inv K db"
  shows "\<exists>current. fold_state (stream_of f (log_events (event_codec K) db)) = Inr current \<and>
    materialized_projection calm K db f = Inr current"
proof -
  obtain current where c: "replay_fact (stream_of f (log_events (event_codec K) db)) = Inr current"
      "cached K (projection db) f current" using assms(2) by (auto simp: pg_inv_def)
  have "materialized_projection calm K db f = Inr current"
    using c(2) assms(1) by (cases current)
      (auto simp: materialized_projection_def on_calm cached_def row_at_def pg_codec_ok_def projection_row_def)
  then show ?thesis using fold_state_replay [OF c(1)] by blast
qed

text \<open>Every accepted event leaves its id on the state, so the fold of a stream determines how far it goes.\<close>

lemma apply_last_id: "apply_event c e = Inr s \<Longrightarrow> last_event_id s = event_id e"
  by (cases c) (auto simp: apply_next_Inr dest!: apply_initial_iff)

lemma fold_last_id:
  assumes "fold_state (es @ [e]) = Inr c"
  shows "\<exists>s. c = Some s \<and> last_event_id s = event_id e"
  using assms apply_last_id
  by (fastforce simp: fold_state_def try_fold_snoc split: sum.splits simp del: apply_event_None apply_event_Some)

lemma fold_pins_stream:
  assumes "fold_state es = Inr c" and "fold_state (es @ fs) = Inr c" and "distinct (map (\<lambda>e. event_str (event_id e)) (es @ fs))"
  shows "fs = []"
proof (rule ccontr)
  assume "fs \<noteq> []"
  then obtain gs e where fs: "fs = gs @ [e]" by (metis rev_exhaust)
  from assms(2) fs fold_last_id [of "es @ gs" e c] obtain s where s: "c = Some s" "last_event_id s = event_id e" by auto
  show False
  proof (cases es rule: rev_cases)
    case Nil
    then show False using assms(1) s by (simp add: fold_state_def)
  next
    case (snoc ds d)
    then have "event_id d = event_id e" using assms(1) s fold_last_id [of ds d c] by auto
    then show False using assms(3) snoc fs by simp
  qed
qed

section \<open>What holds of every shared database\<close>

lemma sqlite_reach: "json_ok J \<Longrightarrow> (sqlite_step X J)\<^sup>*\<^sup>* no_tables db \<Longrightarrow> sql_ok X J db"
  using sqlite_shared.reach_extends [of X J no_tables db] sql_ok_empty [of no_tables X J] by (simp add: no_tables_def)

lemma pg_reach:
  assumes "pg_codec_ok K" and "(pg_step X K)\<^sup>*\<^sup>* no_pg_tables db"
  shows "json_ok (event_codec K)" "sql_ok X (event_codec K) db" "pg_inv K db" "log_inv (log_events (event_codec K) db)"
proof -
  have start: "json_ok (event_codec K) \<and> sql_ok X (event_codec K) no_pg_tables \<and> pg_inv K no_pg_tables"
    using assms(1)
    by (auto simp: pg_codec_ok_def no_pg_tables_def pg_inv_def log_events_def stream_of_def cached_def row_at_def
        List.map_filter_def intro!: sql_ok_empty)
  show "json_ok (event_codec K)" "sql_ok X (event_codec K) db" "pg_inv K db"
    using pg_shared.reach_extends [OF assms(2) start] by auto
  show "log_inv (log_events (event_codec K) db)" by (rule pg_shared.reach_log_inv [OF assms(2) start])
qed

text \<open>
  C6: Whatever writers share a SQLite log, in whatever order their calls are serialized and however
  the engine fails, the log they leave is arbitrated: every stream replays and every supersession
  is backed by a successor that exists and ranks. Its stored chain verifies, a scan without a
  filter returns the whole log, a load returns the stream of the fact, and no event id occurs twice.
\<close>

theorem sqlite_log_sound:
  assumes "json_ok J" and "(sqlite_step X J)\<^sup>*\<^sup>* no_tables db"
  shows "log_inv (log_events J db) \<and> sqlite_verify_chain calm X J db = Inr True \<and>
    sqlite_scan_events calm J db EventFilter_default = Inr (log_events J db) \<and>
    sqlite_load_fact_events calm J db f = Inr (stream_of f (log_events J db)) \<and>
    distinct (map (\<lambda>e. event_str (event_id e)) (log_events J db))"
proof -
  note ok = sqlite_reach [OF assms]
  have "log_inv (log_events J db)"
    by (rule sqlite_shared.reach_log_inv [OF assms(2)]) (simp add: assms(1) sql_ok_empty no_tables_def)
  then show ?thesis using verify_ok [OF ok] scan_ok [OF ok] sqlite_load_ok [OF ok] ok
    by (simp add: sqlite_verify_chain_def sqlite_scan_events_def sql_ok_def)
qed

text \<open>
  C9: The Postgres projection is the fold of the log. In every database that writers can reach, the
  cached state of a fact is the fold of its stream, the edges are the links of the log in order,
  the log is arbitrated and its chain verifies, whatever failed on the way.
\<close>

theorem pg_projection_is_fold:
  assumes "pg_codec_ok K" and "(pg_step X K)\<^sup>*\<^sup>* no_pg_tables db"
  shows "(\<exists>current. fold_state (stream_of f (log_events (event_codec K) db)) = Inr current \<and>
      materialized_projection calm K db f = Inr current) \<and>
    edges db = List.map_filter edge_of (log_events (event_codec K) db) \<and>
    log_inv (log_events (event_codec K) db) \<and> pg_verify_chain calm X K db = Inr True"
  using pg_reach [OF assms] materialized_ok [OF assms(1), of db f] verify_ok [of X "event_codec K" db]
  by (auto simp: pg_inv_def pg_verify_chain_def)

text \<open>
  C34: \<open>verify_projection\<close> reads the log and the projection in two statements outside any transaction. Its
  answer is whether the stream of the fact stood still in between: over an untampered database it
  reports a divergence exactly when another writer committed an event of the fact after the
  first read.
\<close>

theorem verify_projection_races:
  assumes "pg_codec_ok K" and "(pg_step X K)\<^sup>*\<^sup>* no_pg_tables db" and "(pg_step X K)\<^sup>*\<^sup>* db db'"
  shows "verify_projection calm calm K db db' f =
    Inr (stream_of f (log_events (event_codec K) db) = stream_of f (log_events (event_codec K) db'))"
proof -
  let ?S = "\<lambda>d. stream_of f (log_events (event_codec K) d)"
  note r = pg_reach [OF assms(1,2)] and r' = pg_reach [OF assms(1) rtranclp_trans [OF assms(2,3)]]
  obtain c where c: "fold_state (?S db) = Inr c" using materialized_ok [OF assms(1) r(3)] by blast
  obtain c' where c': "fold_state (?S db') = Inr c'" "materialized_projection calm K db' f = Inr c'"
    using materialized_ok [OF assms(1) r'(3)] by blast
  obtain es where "log_events (event_codec K) db' = log_events (event_codec K) db @ es"
    using pg_shared.reach_extends [OF assms(3)] r by (auto simp: extended_def)
  then have more: "?S db' = ?S db @ stream_of f es" by (simp add: stream_of_def)
  have "distinct (map (\<lambda>e. event_str (event_id e)) (?S db'))"
    using r'(2) by (simp add: sql_ok_def stream_of_def distinct_map_filter)
  then have "c = c' \<longleftrightarrow> ?S db = ?S db'" using fold_pins_stream [of "?S db" c "stream_of f es"] c c'(1) more by auto
  then show ?thesis using pg_load_ok [OF r(2)] c c' by (simp add: verify_projection_def)
qed

text \<open>
  C7: A batch is all or nothing and an acknowledged batch stays. A call on a SQLite log either appends
  the whole batch, contiguously and as admitted, or no row; when it is acknowledged it was the
  former, the receipts describe its rows one by one, and every database reached later holds the
  batch at the same place. An error whose commit was not reported lost appended nothing.
\<close>

theorem acknowledged_batch_stays:
  assumes "json_ok J" and "(sqlite_step X J)\<^sup>*\<^sup>* no_tables db"
    and "sqlite_append_many F X J es db = (db1, r)" and "(sqlite_step X J)\<^sup>*\<^sup>* db1 db2"
  shows "log_events J db1 \<in> {log_events J db, log_events J db @ es} \<and>
    (commit_fault F = None \<longrightarrow> (\<exists>err. r = Inl err) \<longrightarrow> log_rows db1 = log_rows db) \<and>
    (\<forall>rcs. r = Inr rcs \<longrightarrow> log_admits (log_events J db) es \<and>
      (\<exists>rows rest later. log_rows db2 = log_rows db @ rows @ rest \<and> list_all2 (row_receipt J) rows rcs \<and>
         log_events J db2 = log_events J db @ es @ later))"
proof (intro conjI allI impI)
  note ok = sqlite_reach [OF assms(1,2)]
  note out = sqlite_outcome [OF assms(1) ok TrueI assms(3)]
  then show "log_events J db1 \<in> {log_events J db, log_events J db @ es}"
    by (auto simp: batch_more_def) (auto simp: log_events_def)
  show "log_rows db1 = log_rows db" if "commit_fault F = None" "\<exists>err. r = Inl err" using out that by auto
  fix rcs
  assume r: "r = Inr rcs"
  have b: "batch_more J es rcs db db1" "sql_ok X J db1" using out r by auto
  then show "log_admits (log_events J db) es" by (simp add: batch_more_def)
  have "extended J db1 db2" using sqlite_shared.reach_extends [OF assms(4)] b(2) assms(1) by blast
  with b(1) show "\<exists>rows rest later. log_rows db2 = log_rows db @ rows @ rest \<and> list_all2 (row_receipt J) rows rcs \<and>
      log_events J db2 = log_events J db @ es @ later"
    by (fastforce simp: batch_more_def extended_def)
qed

text \<open>
  C8: The SQLite adapter implements the in-memory store. With an engine that fails nothing, over any
  reachable log, a batch commits exactly when the in-memory store over the same events takes every
  event of it and the groups it touches keep their registry rule; the log is then the in-memory
  store's, and untouched otherwise. What the batch needs beyond the store is stated: room below
  \<open>i64::MAX\<close>, events that serialize, and no two equal hashes in the chain.
\<close>

theorem sqlite_commits_as_memory:
  assumes "json_ok J" and "(sqlite_step X J)\<^sup>*\<^sup>* no_tables db" and "quiet F"
    and "sqlite_append_many F X J es db = (db', r)"
    and "memory_ok X st" and "all_events st = log_events J db" and "append_each X st es = (st', q)"
    and "last_sequence db + int (length es) \<le> Sql_Log.i64_max" and "\<forall>e \<in> set es. is_ok (to_json J e)"
    and "\<And>hs. hash_chain X (log_events J db @ es) = Inr hs \<Longrightarrow> distinct hs"
  shows "(is_ok r \<longleftrightarrow> is_ok q \<and> groups_unique es (log_events J db @ es)) \<and>
    log_events J db' = (if is_ok r then all_events st' else log_events J db)"
  using sqlite.commit_agrees [OF assms(1) sqlite_reach [OF assms(1,2)] TrueI assms(3) assms(4) [unfolded sqlite_append_many_def]
      assms(5-10)] .

lemma suffix_below: "r \<in> set (log_rows d) \<Longrightarrow> numeric_suffix (row_event_id r) = Some k \<Longrightarrow> k < suffix_bound d"
proof -
  have "x \<in> set xs \<Longrightarrow> f x = Some k \<Longrightarrow> k < foldr max (map (\<lambda>n. n + 1) (List.map_filter f xs)) 0" for x xs and f :: "string \<Rightarrow> int option"
    by (induction xs) (auto simp: List.map_filter_def)
  then show "r \<in> set (log_rows d) \<Longrightarrow> numeric_suffix (row_event_id r) = Some k \<Longrightarrow> k < suffix_bound d"
    unfolding suffix_bound_def by (metis image_eqI list.set_map)
qed

lemma migrate_raises: "sqlite_migrate F db = (db', Inr ()) \<Longrightarrow> \<exists>n \<ge> suffix_bound db. next_value db' = Some n"
  by (auto simp: sqlite_migrate_def sql_bind_def touch_def statement_def suffix_bound_def split: option.splits)

lemma handed_value: "hands_out count q d d' \<Longrightarrow> next_value d = Some (uint q) \<and> next_value d' = Some (uint q + uint count)"
  by (auto simp: hands_out_def Sql_Log.i64_max_def uint_word_of_int take_bit_int_eq_self)


section \<open>Witnesses\<close>

definition sample_json :: "string Json" where
  "sample_json = \<lparr>to_json = \<lambda>e. if e = sample_assert ''event:1'' ''fact:1'' High then Inr ''1'' else Inl ''no'',
     from_json = \<lambda>v. if v = ''1'' then Inr (sample_assert ''event:1'' ''fact:1'' High) else Inl ''no''\<rparr>"

lemma sample_json_ok: "json_ok sample_json"
  by (simp add: json_ok_def sample_json_def)

definition sample_db :: "string Tables" where
  "sample_db = fst (sqlite_append_many calm sample_externs sample_json [sample_assert ''event:1'' ''fact:1'' High] no_tables)"

lemma sample_acknowledged: "is_ok (snd (sqlite_append_many calm sample_externs sample_json
    [sample_assert ''event:1'' ''fact:1'' High] no_tables))"
  by code_simp

lemma sample_db_log: "log_events sample_json sample_db = [sample_assert ''event:1'' ''fact:1'' High]"
  by code_simp

lemma sample_sql_append:
  "\<exists>rcs. sqlite_append_many calm sample_externs sample_json [sample_assert ''event:1'' ''fact:1'' High] no_tables = (sample_db, Inr rcs)"
  using sample_acknowledged unfolding sample_db_def is_ok_iff by (metis prod.collapse)

lemma sample_reach: "(sqlite_step sample_externs sample_json)\<^sup>*\<^sup>* no_tables sample_db"
  using sample_sql_append by (blast intro: sqlite_step.appending)

theorem sqlite_log_sound_witness:
  "log_events sample_json sample_db = [sample_assert ''event:1'' ''fact:1'' High] \<and>
   sqlite_scan_events calm sample_json sample_db EventFilter_default = Inr [sample_assert ''event:1'' ''fact:1'' High] \<and>
   sqlite_verify_chain calm sample_externs sample_json sample_db = Inr True"
  using sqlite_log_sound [OF sample_json_ok sample_reach] sample_db_log by simp

theorem acknowledged_batch_stays_witness:
  "\<exists>rcs rows rest. sqlite_append_many calm sample_externs sample_json [sample_assert ''event:1'' ''fact:1'' High] no_tables =
       (sample_db, Inr rcs) \<and>
     log_rows sample_db = rows @ rest \<and> list_all2 (row_receipt sample_json) rows rcs"
proof -
  obtain rcs where a: "sqlite_append_many calm sample_externs sample_json [sample_assert ''event:1'' ''fact:1'' High] no_tables =
      (sample_db, Inr rcs)" using sample_sql_append by blast
  from acknowledged_batch_stays [OF sample_json_ok rtranclp.rtrancl_refl a rtranclp.rtrancl_refl] a
  show ?thesis by (auto simp: no_tables_def)
qed

theorem sqlite_commits_as_memory_witness:
  "\<exists>st q. append_each sample_externs new_store [sample_assert ''event:1'' ''fact:1'' High] = (st, q) \<and> is_ok q \<and>
     groups_unique [sample_assert ''event:1'' ''fact:1'' High] [sample_assert ''event:1'' ''fact:1'' High] \<and>
     all_events st = log_events sample_json sample_db"
proof -
  let ?e = "sample_assert ''event:1'' ''fact:1'' High"
  obtain st q where each: "append_each sample_externs new_store [?e] = (st, q)" by force
  obtain rcs where a: "sqlite_append_many calm sample_externs sample_json [?e] no_tables = (sample_db, Inr rcs)"
    using sample_sql_append by blast
  have empty: "log_events sample_json no_tables = []" "all_events new_store = []"
    by (simp_all add: log_events_def no_tables_def all_events_def new_store_def)
  have apart: "distinct hs" if "hash_chain sample_externs (log_events sample_json no_tables @ [?e]) = Inr hs" for hs
    using hash_chain_length [OF sample_externs_ok(1) that] by (cases hs) (auto simp: empty)
  have room: "last_sequence no_tables + int (length [?e]) \<le> Sql_Log.i64_max" by (simp add: no_tables_def Sql_Log.i64_max_def)
  have enc: "\<forall>e \<in> set [?e]. is_ok (to_json sample_json e)" by (simp add: sample_json_def)
  from sqlite_commits_as_memory [OF sample_json_ok rtranclp.rtrancl_refl quiet_calm a memory_ok_new _ each room enc apart] each empty
  show ?thesis by auto
qed

definition sample_migrated :: "string Tables" where
  "sample_migrated = fst (sqlite_migrate calm sample_db)"

definition sample_reserved :: "string Tables" where
  "sample_reserved = fst (sqlite_reserve_event_ids calm 3 sample_migrated)"

lemma sample_reservations:
  "snd (sqlite_migrate calm sample_db) = Inr ()"
  "snd (sqlite_reserve_event_ids calm 3 sample_migrated) = Inr 2"
  "snd (sqlite_reserve_event_ids calm 1 sample_reserved) = Inr 5"
  by code_simp+

lemma sample_row: "\<exists>r. r \<in> set (log_rows sample_db) \<and> numeric_suffix (row_event_id r) = Some 1"
proof -
  have "map (\<lambda>r. numeric_suffix (row_event_id r)) (log_rows sample_db) = [Some 1]" by code_simp
  then show ?thesis by auto
qed


definition sample_pg_codec :: "(FactEvent + FactState) PgCodec" where
  "sample_pg_codec = \<lparr>event_codec = \<lparr>to_json = \<lambda>e. Inr (Inl e), from_json = \<lambda>v. (case v of Inl e \<Rightarrow> Inr e | Inr _ \<Rightarrow> Inl [])\<rparr>,
     state_to_json = \<lambda>s. Inr (Inr s), state_from_json = \<lambda>v. (case v of Inl _ \<Rightarrow> Inl [] | Inr s \<Rightarrow> Inr s)\<rparr>"

definition sample_pg_db :: "(FactEvent + FactState) PgTables" where
  "sample_pg_db = fst (pg_append_many calm sample_externs sample_pg_codec [sample_assert ''event:1'' ''fact:1'' High] no_pg_tables)"

lemma sample_pg_ok: "pg_codec_ok sample_pg_codec"
  by (auto simp: pg_codec_ok_def json_ok_def sample_pg_codec_def)

lemma sample_pg_log: "log_events (event_codec sample_pg_codec) sample_pg_db = [sample_assert ''event:1'' ''fact:1'' High]"
  by code_simp

lemma sample_pg_step: "(pg_step sample_externs sample_pg_codec)\<^sup>*\<^sup>* no_pg_tables sample_pg_db"
  unfolding sample_pg_db_def by (rule r_into_rtranclp, rule pg_step.appending, rule prod.collapse [symmetric])

theorem pg_projection_is_fold_witness:
  "\<exists>current. fold_state [sample_assert ''event:1'' ''fact:1'' High] = Inr current \<and>
     materialized_projection calm sample_pg_codec sample_pg_db (FactId ''fact:1'') = Inr current"
proof -
  have "stream_of (FactId ''fact:1'') [sample_assert ''event:1'' ''fact:1'' High] = [sample_assert ''event:1'' ''fact:1'' High]"
    by (simp add: stream_of_def sample_defs)
  then show ?thesis using pg_projection_is_fold [OF sample_pg_ok sample_pg_step, of "FactId ''fact:1''"] sample_pg_log by simp
qed

theorem verify_projection_races_witness:
  "verify_projection calm calm sample_pg_codec no_pg_tables sample_pg_db (FactId ''fact:1'') = Inr False \<and>
   verify_projection calm calm sample_pg_codec sample_pg_db sample_pg_db (FactId ''fact:1'') = Inr True"
proof -
  have none: "log_events (event_codec sample_pg_codec) no_pg_tables = []" by (simp add: log_events_def no_pg_tables_def)
  have "stream_of (FactId ''fact:1'') [sample_assert ''event:1'' ''fact:1'' High] = [sample_assert ''event:1'' ''fact:1'' High]"
      "stream_of (FactId ''fact:1'') [] = []"
    by (simp_all add: stream_of_def sample_defs)
  then show ?thesis
    using verify_projection_races [OF sample_pg_ok rtranclp.rtrancl_refl sample_pg_step, of "FactId ''fact:1''"]
      verify_projection_races [OF sample_pg_ok sample_pg_step rtranclp.rtrancl_refl, of "FactId ''fact:1''"] sample_pg_log none
    by simp
qed

end
