(* ===== verification/Op_Reads.thy ===== *)
theory Op_Reads
  imports Op_Effects
begin

text \<open>
  The read side of \<open>crates/dent8-cli/src/ops.rs\<close>: the temporal frame of a read, the receipt of the
  current fact, the history, the listing of fact streams with their freshness, the open conflicts
  and the counterfactual replay. Each is modelled up to its outcome value, before it is rendered as
  text or JSON. No read changes the log file; what each outcome says of the log is stated over the
  events that the file parses to.
\<close>

section \<open>The temporal frame\<close>

record ReadClock =
  as_of :: "i64 option"
  valid_at :: "i64 option"

definition ReadClock_default :: ReadClock where
  "ReadClock_default = \<lparr>as_of = None, valid_at = None\<rparr>"

definition clock_now :: "'j Env \<Rightarrow> ReadClock \<Rightarrow> TimestampMillis op" where
  "clock_now E ck = (case valid_at ck of None \<Rightarrow> now_op E | Some t \<Rightarrow> op_return (TimestampMillis t))"

definition recorded_by :: "i64 \<Rightarrow> FactEvent \<Rightarrow> bool" where
  "recorded_by t e \<longleftrightarrow> recorded_at (provenance e) \<le> TimestampMillis t"

definition clock_store :: "'j Env \<Rightarrow> ReadClock \<Rightarrow> InMemoryEventStore op" where
  "clock_store E ck =
     op_bind (load_op E) (\<lambda>st. case as_of ck of
       None \<Rightarrow> op_return st
     | Some t \<Rightarrow> op_lift (map_err (fault_map (\<lambda>e. op_invalid (''as-of load: '' @ show_StoreError e)))
         (from_trusted_events (externs E) (filter (recorded_by t) (scan_events st EventFilter_default)))))"

section \<open>The receipt and the history\<close>

definition op_explain_receipt ::
    "'j Env \<Rightarrow> string \<Rightarrow> string \<Rightarrow> string \<Rightarrow> ReadClock \<Rightarrow> IntegrityReceipt op" where
  "op_explain_receipt E sk key pred ck =
     op_bind (clock_store E ck) (\<lambda>st.
     op_bind (parse_subject ''invalid subject'' sk key) (\<lambda>sj.
     op_bind (parse_pred ''invalid predicate'' pred) (\<lambda>pd.
     op_bind (clock_now E ck) (\<lambda>now.
     case explain_latest (externs E) st sj pd now of
       Inr (Some r) \<Rightarrow> op_return r
     | Inr None \<Rightarrow> op_fail (op_rejected (''no fact for '' @ sk @ '':'' @ key @ '' '' @ pred))
     | Inl Panic \<Rightarrow> op_lift (Inl Panic)
     | Inl (Fail e) \<Rightarrow> op_fail (op_rejected (''explain failed: '' @ show_StoreError e))))))"

record ReplayOutcome =
  replayed_kind :: string
  replayed_key :: string
  replayed_predicate :: string
  replayed_events :: "FactEvent list"
  replayed_current :: "IntegrityReceipt option"

definition replay_outcome ::
    "'j Env \<Rightarrow> string \<Rightarrow> string \<Rightarrow> string \<Rightarrow> ReadClock \<Rightarrow> ReplayOutcome op" where
  "replay_outcome E sk key pred ck =
     op_bind (clock_store E ck) (\<lambda>st.
     op_bind (parse_subject ''invalid subject'' sk key) (\<lambda>sj.
     op_bind (parse_pred ''invalid predicate'' pred) (\<lambda>pd.
     let events = scan_events st (pair_filter sj pd) in
     if events = [] then op_fail (op_rejected (''no events for '' @ sk @ '':'' @ key @ '' '' @ pred))
     else
     op_bind (clock_now E ck) (\<lambda>now.
     op_bind (op_lift (case explain_latest (externs E) st sj pd now of
         Inr r \<Rightarrow> Inr r | Inl Panic \<Rightarrow> Inl Panic | Inl (Fail _) \<Rightarrow> Inr None)) (\<lambda>current.
     op_return \<lparr>replayed_kind = sk, replayed_key = key, replayed_predicate = pred, replayed_events = events,
       replayed_current = current\<rparr>)))))"

section \<open>The listing\<close>

datatype FactFreshness = Fresh | Stale | NotYetValid | NoLongerBelieved

definition freshness_of_receipt :: "IntegrityReceipt \<Rightarrow> FactFreshness" where
  "freshness_of_receipt r =
     (if is_terminal (IntegrityReceipt.lifecycle r) then NoLongerBelieved
      else if IntegrityReceipt.not_yet_valid r then NotYetValid
      else if \<not> IntegrityReceipt.fresh r then Stale
      else Fresh)"

fun freshness_json_name :: "FactFreshness \<Rightarrow> string" where
  "freshness_json_name Fresh = ''fresh''"
| "freshness_json_name Stale = ''stale''"
| "freshness_json_name NotYetValid = ''not_yet_valid''"
| "freshness_json_name NoLongerBelieved = ''no_longer_believed''"

fun freshness_text_marker :: "FactFreshness \<Rightarrow> string" where
  "freshness_text_marker Fresh = []"
| "freshness_text_marker Stale = ''  [stale]''"
| "freshness_text_marker NotYetValid = ''  [not yet valid]''"
| "freshness_text_marker NoLongerBelieved = ''  [no longer believed]''"

definition starts_with :: "string \<Rightarrow> string \<Rightarrow> bool" where
  "starts_with p s \<longleftrightarrow> take (length p) s = p"

definition is_diagnostic_fact_stream :: "string \<Rightarrow> string \<Rightarrow> string \<Rightarrow> bool" where
  "is_diagnostic_fact_stream sk key pred \<longleftrightarrow>
     sk = ''diagnostic'' \<and> starts_with ''dent8.'' pred \<or>
     pred = ''dent8.write_check'' \<or> starts_with ''dent8.write_check.'' pred \<or>
     sk = ''person'' \<and> starts_with ''alice-doctor-'' key \<and> pred = ''favorite_drink''"

type_synonym ListedFact = "string \<times> string \<times> string \<times> FactFreshness"

text \<open>\<open>.ok().flatten().map_or(Fresh, \<dots>)\<close>\<close>

definition listed_fact ::
    "'j Externs \<Rightarrow> InMemoryEventStore \<Rightarrow> TimestampMillis \<Rightarrow> Subject \<times> Predicate \<Rightarrow> OpError fault + ListedFact" where
  "listed_fact X st now = (\<lambda>(sj, pd).
     map_ok (\<lambda>fr. (Model.subject_kind sj, Model.subject_key sj, predicate_str pd, fr))
       (case latest_freshness X st sj pd now of
          Inl Panic \<Rightarrow> Inl Panic
        | Inl (Fail _) \<Rightarrow> Inr Fresh
        | Inr None \<Rightarrow> Inr Fresh
        | Inr (Some r) \<Rightarrow> Inr (freshness_of_receipt r)))"

definition op_list_subjects_with_freshness :: "'j Env \<Rightarrow> bool \<Rightarrow> ListedFact list op" where
  "op_list_subjects_with_freshness E include_diagnostics =
     op_bind (load_op E) (\<lambda>st.
     op_bind (now_op E) (\<lambda>now.
     op_lift (try_map (listed_fact (externs E) st now)
       (filter (\<lambda>(sj, pd). include_diagnostics \<or>
            \<not> is_diagnostic_fact_stream (Model.subject_kind sj) (Model.subject_key sj) (predicate_str pd))
          (subjects st)))))"

record FactsListArgs =
  kind_filter :: "string option"
  key_filter :: "string option"
  predicate_filter :: "string option"
  include_diagnostics :: bool

definition fact_stream_matches :: "string \<Rightarrow> string \<Rightarrow> string \<Rightarrow> FactsListArgs \<Rightarrow> bool" where
  "fact_stream_matches sk key pred a \<longleftrightarrow>
     opt_matches (kind_filter a) sk \<and> opt_matches (key_filter a) key \<and> opt_matches (predicate_filter a) pred"

definition filters_are_empty :: "FactsListArgs \<Rightarrow> bool" where
  "filters_are_empty a \<longleftrightarrow> kind_filter a = None \<and> key_filter a = None \<and> predicate_filter a = None"

record FactsListOutcome =
  listed :: "ListedFact list"
  listed_diagnostics :: bool
  hidden_diagnostics_count :: nat
  filters_applied :: bool
  listed_kind :: "string option"
  listed_key :: "string option"
  listed_predicate :: "string option"

definition facts_list_outcome :: "'j Env \<Rightarrow> FactsListArgs \<Rightarrow> FactsListOutcome op" where
  "facts_list_outcome E a =
     op_bind (op_list_subjects_with_freshness E True) (\<lambda>all.
       let matching = filter (\<lambda>(sk, key, pred, fr). fact_stream_matches sk key pred a) all;
           hidden = (\<lambda>(sk, key, pred, fr). \<not> include_diagnostics a \<and> is_diagnostic_fact_stream sk key pred)
       in op_return \<lparr>listed = filter (\<lambda>x. \<not> hidden x) matching, listed_diagnostics = include_diagnostics a,
            hidden_diagnostics_count = length (filter hidden matching),
            filters_applied = (\<not> filters_are_empty a), listed_kind = kind_filter a, listed_key = key_filter a,
            listed_predicate = predicate_filter a\<rparr>)"

section \<open>The open conflicts\<close>

record ConflictRival =
  rival_fact_id :: FactId
  rival_value :: FactValue
  rival_authority :: AuthorityLevel
  rival_lifecycle :: FactLifecycle

record ConflictFact =
  conflict_kind :: string
  conflict_key :: string
  conflict_predicate :: string
  rivals :: "ConflictRival list"

definition rival_of :: "FactState \<Rightarrow> ConflictRival" where
  "rival_of s = \<lparr>rival_fact_id = FactState.fact_id s, rival_value = FactState.val s, rival_authority = state_level s,
     rival_lifecycle = FactState.lifecycle s\<rparr>"

definition conflict_at :: "InMemoryEventStore \<Rightarrow> Subject \<times> Predicate \<Rightarrow> ConflictFact option" where
  "conflict_at st = (\<lambda>(sj, pd). case replay_subject (scan_events st (pair_filter sj pd)) of
      Inl _ \<Rightarrow> None
    | Inr pr \<Rightarrow>
        if \<exists>s \<in> set (believed pr). FactState.lifecycle s = FactLifecycle.Contested
        then Some \<lparr>conflict_kind = Model.subject_kind sj, conflict_key = Model.subject_key sj,
          conflict_predicate = predicate_str pd, rivals = map rival_of (believed pr)\<rparr>
        else None)"

definition conflicts_outcome :: "'j Env \<Rightarrow> ConflictFact list op" where
  "conflicts_outcome E =
     op_bind (load_op E) (\<lambda>st. op_return (List.map_filter (conflict_at st) (subjects st)))"

section \<open>Counterfactuals\<close>

record WhatifFact =
  whatif_fact_id :: FactId
  whatif_value :: "FactValue option"
  whatif_lifecycle :: FactLifecycle
  whatif_authority :: AuthorityLevel

record WhatifOutcome =
  whatif_kind :: string
  whatif_key :: string
  whatif_predicate :: string
  whatif_policy :: EpistemicPolicy
  base :: "WhatifFact list"
  counterfactual_facts :: "WhatifFact list"
  diffs :: "(FactId \<times> StateDiff) list"

definition whatif_fact :: "FactState \<Rightarrow> WhatifFact" where
  "whatif_fact s = \<lparr>whatif_fact_id = FactState.fact_id s, whatif_value = Some (FactState.val s),
     whatif_lifecycle = FactState.lifecycle s, whatif_authority = state_level s\<rparr>"

definition whatif_changed :: "WhatifOutcome \<Rightarrow> bool" where
  "whatif_changed out \<longleftrightarrow> diffs out \<noteq> []"

definition whatif_diffs :: "SubjectProjection \<Rightarrow> SubjectProjection \<Rightarrow> (FactId \<times> StateDiff) list" where
  "whatif_diffs b c = List.map_filter (\<lambda>f.
       let d = diff_states (projection_get b f) (projection_get c f) in if d \<noteq> Unchanged then Some (f, d) else None)
     (btm_keys (facts b) @ filter (\<lambda>f. f \<notin> set (btm_keys (facts b))) (btm_keys (facts c)))"

definition op_whatif ::
    "'j Env \<Rightarrow> string \<Rightarrow> string \<Rightarrow> string \<Rightarrow> EpistemicPolicy \<Rightarrow> WhatifOutcome op" where
  "op_whatif E sk key pred p =
     op_bind (parse_subject ''invalid subject'' sk key) (\<lambda>sj.
     op_bind (parse_pred ''invalid predicate'' pred) (\<lambda>pd.
     op_bind (load_op E) (\<lambda>st.
     let events = scan_events st (pair_filter sj pd);
         failed = (\<lambda>err. Fail (rejected_as ErrorCode.ReplayFailed (''REJECTED: replay failed: '' @ show_ReplayError err)))
     in
     op_bind (op_lift (map_err failed (replay_subject events))) (\<lambda>b.
     op_bind (op_lift (map_err failed (replay_subject_with_policy events p))) (\<lambda>c.
     op_return \<lparr>whatif_kind = sk, whatif_key = key, whatif_predicate = pred, whatif_policy = p,
       base = map whatif_fact (believed b), counterfactual_facts = map whatif_fact (believed c),
       diffs = whatif_diffs b c\<rparr>)))))"

section \<open>Reads leave the log alone\<close>

definition reads :: "'a op \<Rightarrow> bool" where
  "reads m \<longleftrightarrow> (\<forall>w. contents (fst (m w)) = contents w)"

lemma reads_bind [intro]: "reads m \<Longrightarrow> (\<And>x. reads (f x)) \<Longrightarrow> reads (op_bind m f)"
  by (auto simp: reads_def op_bind_def split: prod.split sum.split) (metis fst_conv)+

lemma reads_basic [intro, simp]: "reads (op_return x)" "reads (op_fail e)" "reads (op_lift r)" "reads (now_op E)"
  "reads (load_op E)" "reads (parse_subject what sk key)" "reads (parse_pred what pred)" "reads (clock_now E ck)"
  by (auto simp: reads_def op_return_def op_fail_def op_lift_def now_op_def next_tick_def load_op_def load_raw_def
      parse_subject_def parse_pred_def invalid_op_def clock_now_def split: option.split)

lemma reads_clock [intro, simp]: "reads (clock_store E ck)"
  unfolding clock_store_def by (auto split: option.split)

lemma reads_all:
  "reads (op_explain_receipt E sk key pred ck)" "reads (replay_outcome E sk key pred ck)"
  "reads (op_list_subjects_with_freshness E d)" "reads (facts_list_outcome E a)" "reads (conflicts_outcome E)"
  "reads (op_whatif E sk key pred p)"
  unfolding op_explain_receipt_def replay_outcome_def op_list_subjects_with_freshness_def facts_list_outcome_def
    conflicts_outcome_def op_whatif_def Let_def
  by (auto intro!: reads_bind split: sum.split option.split fault.split)

lemma reads_at: "reads m \<Longrightarrow> m w = (w', r) \<Longrightarrow> contents w' = contents w"
  unfolding reads_def by (metis fst_conv)

section \<open>The fact streams of a log\<close>

definition pairs_of :: "FactEvent list \<Rightarrow> (Subject \<times> Predicate) set" where
  "pairs_of es = (\<lambda>e. (FactEvent.subject e, FactEvent.predicate e)) ` set es"

lemma subjects_set: "distinct (subjects st) \<and> set (subjects st) = pairs_of (all_events st)"
proof -
  let ?step = "\<lambda>(seen, out) s. let pair = (FactEvent.subject (event s), FactEvent.predicate (event s)) in
      if pair \<in> seen then (seen, out) else (insert pair seen, out @ [pair])"
  have "let (seen', out') = foldl ?step (seen, out) l in
      distinct out' \<and> seen' = set out' \<and> set out' = set out \<union> pairs_of (map event l)"
    if "distinct out" "seen = set out" for seen out l
    using that
  proof (induction l arbitrary: seen out)
    case (Cons s l)
    show ?case
      using Cons.IH [of "if (FactEvent.subject (event s), FactEvent.predicate (event s)) \<in> seen then out
          else out @ [(FactEvent.subject (event s), FactEvent.predicate (event s))]" "insert (FactEvent.subject (event s), FactEvent.predicate (event s)) seen"] Cons.prems
      by (auto simp: Let_def pairs_of_def insert_absorb split: if_splits)
  qed (simp add: pairs_of_def)
  from this [of "[]" "{}" "log st"] show ?thesis
    by (auto simp: subjects_def all_events_def Let_def split: prod.splits)
qed

lemma load_op_Inr: "load_op E w = (w', Inr st) \<Longrightarrow> memory_ok (externs E) st \<and> all_events st = log_in E w"
  using load_raw_Inr [of E w w' st] by (auto simp: load_op_def split: prod.splits)

text \<open>What a read finds in the log of a session.\<close>

lemma loaded:
  assumes "session (externs E) (codec E) w" and "load_op E w = (w', Inr st)"
  shows "memory_ok (externs E) st" and "all_events st = log_in E w" and "log_inv (all_events st)"
  using load_op_Inr [OF assms(2)] session_log(1) [OF assms(1)] by auto

section \<open>Conflicts\<close>

lemma conflict_at_iff:
  assumes "log_inv (all_events st)"
  shows "case conflict_at st (sj, pd) of
      None \<Rightarrow> \<forall>s \<in> believed_in (all_events st) sj pd. FactState.lifecycle s \<noteq> FactLifecycle.Contested
    | Some c \<Rightarrow> (\<exists>s \<in> believed_in (all_events st) sj pd. FactState.lifecycle s = FactLifecycle.Contested) \<and>
        (conflict_kind c, conflict_key c, conflict_predicate c) = (Model.subject_kind sj, Model.subject_key sj, predicate_str pd) \<and>
        set (rivals c) = rival_of ` believed_in (all_events st) sj pd"
proof -
  obtain pr where pr: "replay_subject (scan_events st (pair_filter sj pd)) = Inr pr" "btm_ok (facts pr)"
    and get: "\<And>f s. btm_get (facts pr) f = Some s \<longleftrightarrow> fact_state (all_events st) f = Some s \<and> has_shape sj pd s"
    by (rule pair_projection [OF assms]) blast
  then show ?thesis by (simp add: conflict_at_def believed_set [OF pr(2) get])
qed

text \<open>
  C32: No dispute is hidden and none is invented. Over the log of any session, the conflicts that are
  reported are exactly the pairs of subject and predicate with a contested believed fact, each
  with every believed fact of the pair as a rival; the report changes nothing.
\<close>

theorem conflicts_exact:
  assumes "session (externs E) (codec E) w" and "conflicts_outcome E w = (w', Inr cs)"
  shows "contents w' = contents w \<and>
    (\<forall>sk key pred. (\<exists>c \<in> set cs. conflict_kind c = sk \<and> conflict_key c = key \<and> conflict_predicate c = pred) \<longleftrightarrow>
       (\<exists>s \<in> believed_now E w sk key pred. FactState.lifecycle s = FactLifecycle.Contested)) \<and>
    (\<forall>c \<in> set cs. set (rivals c) = rival_of ` believed_now E w (conflict_kind c) (conflict_key c) (conflict_predicate c))"
proof -
  obtain w1 st where l: "load_op E w = (w1, Inr st)" and cs: "cs = List.map_filter (conflict_at st) (subjects st)"
    using assms(2) by (auto simp: conflicts_outcome_def op_bind_def op_return_def split: prod.splits sum.splits)
  note ld = loaded [OF assms(1) l]
  have pair: "(sj, pd) \<in> pairs_of (all_events st)" if bel: "s \<in> believed_in (all_events st) sj pd" for s sj pd
  proof -
    obtain f where f: "fact_state (all_events st) f = Some s" "has_shape sj pd s"
      using bel unfolding believed_in_def by blast
    then have "stream_state (stream_of f (all_events st)) s" by (simp add: fact_state_stream)
    note st = this
    obtain e where e: "e \<in> set (stream_of f (all_events st))" using stream_state_nonempty [OF st] by (meson last_in_set)
    then have "FactEvent.subject e = sj \<and> FactEvent.predicate e = pd" using stream_state_ids [OF st] f(2) by (auto simp: has_shape_def)
    then show ?thesis using e by (force simp: pairs_of_def stream_of_def)
  qed
  have key: "(Model.subject_kind sj, Model.subject_key sj, predicate_str pd) = (sk, key, pred) \<longleftrightarrow>
      sj = Subject sk key \<and> pd = Predicate pred" for sj pd sk key pred
    by (cases sj; cases pd) auto
  have mem: "c \<in> set cs \<longleftrightarrow> (\<exists>sj pd. (sj, pd) \<in> pairs_of (all_events st) \<and> conflict_at st (sj, pd) = Some c)" for c
    using subjects_set [of st] by (auto simp: cs set_map_filter)
  have at: "c \<in> set cs \<longleftrightarrow> conflict_at st (Subject (conflict_kind c) (conflict_key c), Predicate (conflict_predicate c)) = Some c" for c
  proof
    assume "c \<in> set cs"
    then obtain sj pd where c: "conflict_at st (sj, pd) = Some c" using mem by blast
    then show "conflict_at st (Subject (conflict_kind c) (conflict_key c), Predicate (conflict_predicate c)) = Some c"
      using conflict_at_iff [OF ld(3), of sj pd] by (cases sj; cases pd) simp
  next
    assume c: "conflict_at st (Subject (conflict_kind c) (conflict_key c), Predicate (conflict_predicate c)) = Some c"
    then obtain s where "s \<in> believed_in (all_events st) (Subject (conflict_kind c) (conflict_key c)) (Predicate (conflict_predicate c))"
      using conflict_at_iff [OF ld(3), of "Subject (conflict_kind c) (conflict_key c)" "Predicate (conflict_predicate c)"] by auto
    then show "c \<in> set cs" using c mem pair by blast
  qed
  have "(\<exists>c \<in> set cs. conflict_kind c = sk \<and> conflict_key c = key \<and> conflict_predicate c = pred) \<longleftrightarrow>
      conflict_at st (Subject sk key, Predicate pred) \<noteq> None" for sk key pred
    using at conflict_at_iff [OF ld(3), of "Subject sk key" "Predicate pred"] by (fastforce split: option.splits)
  then have "(\<exists>c \<in> set cs. conflict_kind c = sk \<and> conflict_key c = key \<and> conflict_predicate c = pred) \<longleftrightarrow>
      (\<exists>s \<in> believed_now E w sk key pred. FactState.lifecycle s = FactLifecycle.Contested)" for sk key pred
    using conflict_at_iff [OF ld(3), of "Subject sk key" "Predicate pred"] ld(2) by (auto split: option.splits)
  moreover have "set (rivals c) = rival_of ` believed_now E w (conflict_kind c) (conflict_key c) (conflict_predicate c)" if "c \<in> set cs" for c
    using that at conflict_at_iff [OF ld(3), of "Subject (conflict_kind c) (conflict_key c)" "Predicate (conflict_predicate c)"] ld(2) by auto
  ultimately show ?thesis using reads_at [OF reads_all(5) assms(2)] by blast
qed

section \<open>Counterfactuals\<close>

text \<open>The stream of a fact of the pair, and the states it folds to with and without the policy.\<close>

definition pair_events :: "FactEvent list \<Rightarrow> Subject \<Rightarrow> Predicate \<Rightarrow> FactEvent list" where
  "pair_events es sj pd = filter (\<lambda>e. FactEvent.subject e = sj \<and> FactEvent.predicate e = pd) es"

lemma whatif_diffs_iff:
  assumes "btm_ok (facts b)" and "btm_ok (facts c)"
  shows "(f, d) \<in> set (whatif_diffs b c) \<longleftrightarrow> d \<noteq> Unchanged \<and> d = diff_states (projection_get b f) (projection_get c f)"
proof -
  have "diff_states (projection_get b f) (projection_get c f) = Unchanged"
    if "f \<notin> set (btm_keys (facts b))" "f \<notin> set (btm_keys (facts c))"
    using that assms by (simp add: btm_keys_get projection_get_def diff_states_def)
  then show ?thesis by (auto simp: whatif_diffs_def set_map_filter Let_def)
qed

lemma invalid_not_rejected [simp]: "fault_map op_invalid d \<noteq> Fail (OpError.Rejected c m)"
  by (cases d) (simp_all add: op_error_defs)


section \<open>Time travel\<close>

lemma from_trusted_prefix:
  assumes "memory_ok X st" and "all_events st = pre @ post"
  shows "\<exists>st'. from_trusted_events X pre = Inr st' \<and> memory_ok X st' \<and> all_events st' = pre"
proof -
  have "distinct (map (\<lambda>e. event_str (event_id e)) pre)" "is_ok (hash_chain X pre)"
    using assms hash_prefix [of X pre post] memory_hashed [OF assms(1)] by (simp_all add: memory_ok_def)
  then obtain st' where "from_trusted_events X pre = Inr st'" using from_trusted_succeeds [of X pre] by auto
  then show ?thesis using persist_all_ok [OF memory_ok_new, of X pre st']
    by (auto simp: from_trusted_events_def all_events_def new_store_def)
qed

text \<open>
  Transaction-time travel restores the past. When the log splits at an instant into the events
  recorded by it and the events recorded after it, a receipt as of that instant is the receipt
  that the store of the first part gives: what was written later does not show.
\<close>

theorem as_of_restores_past:
  assumes "log_in E w = pre @ post" and "\<forall>e \<in> set pre. recorded_by t e" and "\<forall>e \<in> set post. \<not> recorded_by t e"
    and "as_of ck = Some t" and "op_explain_receipt E sk key pred ck w = (w', Inr rc)"
  shows "contents w' = contents w \<and> (\<exists>st now. memory_ok (externs E) st \<and> all_events st = pre \<and>
    explain_latest (externs E) st (Subject sk key) (Predicate pred) now = Inr (Some rc) \<and>
    (\<forall>v. valid_at ck = Some v \<longrightarrow> now = TimestampMillis v))"
proof -
  obtain w1 st where l: "load_op E w = (w1, Inr st)"
    using assms(5) by (auto simp: op_explain_receipt_def clock_store_def op_bind_def split: prod.splits sum.splits)
  note ld = load_op_Inr [OF l]
  obtain st' where st': "from_trusted_events (externs E) pre = Inr st'" "memory_ok (externs E) st'" "all_events st' = pre"
    using from_trusted_prefix [of "externs E" st pre post] ld assms(1) by auto
  have "scan_events st EventFilter_default = pre @ post"
    using ld assms(1) by (simp add: scan_events_def EventFilter_default_def opt_matches_def all_events_def)
  then have "filter (recorded_by t) (scan_events st EventFilter_default) = pre"
    using assms(2,3) by (simp add: filter_id_conv)
  then have cs: "clock_store E ck w = (w1, Inr st')"
    using l st'(1) by (simp add: clock_store_def op_bind_def assms(4) op_lift_def)
  obtain sj pd where p: "Subject_new sk key = Inr sj" "Predicate_new pred = Inr pd"
    using assms(5) by (auto simp: op_explain_receipt_def op_bind_def cs parse_subject_def parse_pred_def invalid_op_def op_lift_def
        split: prod.splits sum.splits)
  then have sj: "sj = Subject sk key" "pd = Predicate pred" by (auto simp: Subject_new_def Predicate_new_def split: if_splits)
  have "\<exists>now. explain_latest (externs E) st' sj pd now = Inr (Some rc) \<and> (\<forall>v. valid_at ck = Some v \<longrightarrow> now = TimestampMillis v)"
    using assms(5) p
    by (auto simp: op_explain_receipt_def op_bind_def cs parse_subject_def parse_pred_def invalid_op_def op_lift_def
        clock_now_def op_return_def op_fail_def split: prod.splits sum.splits option.splits fault.splits)
  then show ?thesis using st'(2,3) sj reads_at [OF reads_all(1) assms(5)] by blast
qed

section \<open>The listing\<close>

lemma max_by_key_in: "max_by_key k xs = Some y \<Longrightarrow> y \<in> set xs"
  by (induction xs arbitrary: y) (auto split: option.splits if_splits)

lemma max_by_key_some: "xs \<noteq> [] \<Longrightarrow> \<exists>y. max_by_key k xs = Some y"
  by (cases xs) (auto split: option.split)

lemma pair_has_state:
  assumes "log_inv es" and "(sj, pd) \<in> pairs_of es"
  shows "\<exists>f s. fact_state es f = Some s \<and> has_shape sj pd s"
proof -
  obtain e where e: "e \<in> set es" "FactEvent.subject e = sj" "FactEvent.predicate e = pd" using assms(2) by (auto simp: pairs_of_def)
  let ?f = "FactEvent.fact_id e"
  obtain c where c: "replay_fact (stream_of ?f es) = Inr c" using assms(1) log_inv_def by blast
  have "e \<in> set (stream_of ?f es)" using e(1) by (simp add: stream_of_def)
  moreover from this c obtain s where s: "c = Some s" by (cases c) (auto simp: replay_fact_None)
  moreover from this c have "stream_state (stream_of ?f es) s" by (simp add: replay_fact_Some)
  ultimately have "fact_state es ?f = Some s \<and> has_shape sj pd s"
    using stream_state_ids [of "stream_of ?f es" s] e(2,3) fact_state_stream [of es ?f s] unfolding has_shape_def by metis
  then show ?thesis by blast
qed

lemma latest_freshness_ok:
  assumes ok: "memory_ok X st" and inv: "log_inv (all_events st)" and pair: "(sj, pd) \<in> pairs_of (all_events st)"
  obtains s v where "latest_freshness X st sj pd now = Inr (Some (receipt_of s v now False))"
    and "if is_terminal (FactState.lifecycle s) then believed_in (all_events st) sj pd = {}
      else s \<in> believed_in (all_events st) sj pd"
    and "\<And>t. t \<in> believed_in (all_events st) sj pd \<Longrightarrow> FactState.lifecycle t = FactLifecycle.Contested \<Longrightarrow>
      \<not> is_expired_at t now \<Longrightarrow> FactState.lifecycle s = FactLifecycle.Contested"
proof -
  obtain pr where pr: "replay_subject (scan_events st (pair_filter sj pd)) = Inr pr" "btm_ok (facts pr)"
    and get: "\<And>f s. btm_get (facts pr) f = Some s \<longleftrightarrow> fact_state (all_events st) f = Some s \<and> has_shape sj pd s"
    by (rule pair_projection [OF inv]) blast
  note bel = believed_set [OF pr(2) get]
  have "\<exists>s. latest_fact_id st sj pd now = Inr (Some (FactState.fact_id s)) \<and> s \<in> set (btm_values (facts pr)) \<and>
    (if is_terminal (FactState.lifecycle s) then believed pr = [] else s \<in> set (believed pr)) \<and>
    (\<forall>t \<in> set (believed pr). FactState.lifecycle t = FactLifecycle.Contested \<longrightarrow> \<not> is_expired_at t now \<longrightarrow>
       FactState.lifecycle s = FactLifecycle.Contested)"
  proof (cases "pick_believed pr now")
    case (Some s)
    then show ?thesis using pick_believed_Some(1,2) [OF Some] pr(1)
      by (intro exI [of _ s]) (auto simp: latest_fact_id_def believed_def)
  next
    case None
    then have none: "believed pr = []" by (simp add: pick_believed_None)
    have "btm_values (facts pr) \<noteq> []"
    proof -
      obtain f s where "btm_get (facts pr) f = Some s" using pair_has_state [OF inv pair] get by metis
      then have "s \<in> set (btm_values (facts pr))" unfolding btm_values_get [OF pr(2)] by blast
      then show ?thesis by auto
    qed
    then obtain t where t: "max_by_key updated_at (btm_values (facts pr)) = Some t" using max_by_key_some by blast
    have "t \<in> set (btm_values (facts pr))" by (rule max_by_key_in [OF t])
    moreover from this none have "is_terminal (FactState.lifecycle t)" by (auto simp: believed_def filter_empty_conv)
    ultimately show ?thesis using t None pr(1) none by (intro exI [of _ t]) (simp add: latest_fact_id_def)
  qed
  then obtain s where s: "latest_fact_id st sj pd now = Inr (Some (FactState.fact_id s))" "s \<in> set (btm_values (facts pr))"
      "if is_terminal (FactState.lifecycle s) then believed pr = [] else s \<in> set (believed pr)"
      "\<And>t. t \<in> set (believed pr) \<Longrightarrow> FactState.lifecycle t = FactLifecycle.Contested \<Longrightarrow> \<not> is_expired_at t now \<Longrightarrow>
         FactState.lifecycle s = FactLifecycle.Contested" by blast
  obtain f where f: "fact_state (all_events st) f = Some s" using s(2) get btm_values_get [OF pr(2)] by auto
  then have id: "FactState.fact_id s = f" by (rule fact_state_id)
  have "replay_fact (stream_of f (all_events st)) = Inr (Some s)" using f by (simp add: fact_state_stream replay_fact_Some)
  then have "latest_freshness X st sj pd now =
      Inr (Some (receipt_of s (last (filter (\<lambda>v. FactEvent.fact_id (event v) = f) (log st))) now False))"
    using s(1) id by (simp add: latest_freshness_def explain_with_ok [OF ok])
  then show thesis
  proof (rule that)
    show "if is_terminal (FactState.lifecycle s) then believed_in (all_events st) sj pd = {}
        else s \<in> believed_in (all_events st) sj pd" using s(3) unfolding bel [symmetric] by (simp split: if_splits)
    show "FactState.lifecycle s = FactLifecycle.Contested"
      if "t \<in> believed_in (all_events st) sj pd" "FactState.lifecycle t = FactLifecycle.Contested" "\<not> is_expired_at t now" for t
      using s(4) that unfolding bel [symmetric] by blast
  qed
qed

definition listing_honest :: "FactEvent list \<Rightarrow> TimestampMillis \<Rightarrow> ListedFact \<Rightarrow> bool" where
  "listing_honest es now = (\<lambda>(sk, key, pred, fr).
     (fr = NoLongerBelieved \<longleftrightarrow> believed_in es (Subject sk key) (Predicate pred) = {}) \<and>
     (fr = Fresh \<longrightarrow> (\<exists>s \<in> believed_in es (Subject sk key) (Predicate pred).
        is_fresh_at s now \<and> \<not> is_not_yet_valid_at s now)))"

lemma listed_fact_ok:
  assumes "memory_ok X st" and "log_inv (all_events st)" and "(sj, pd) \<in> pairs_of (all_events st)"
  shows "\<exists>fr. listed_fact X st now (sj, pd) = Inr (Model.subject_kind sj, Model.subject_key sj, predicate_str pd, fr) \<and>
    listing_honest (all_events st) now (Model.subject_kind sj, Model.subject_key sj, predicate_str pd, fr)"
proof -
  obtain s v where "latest_freshness X st sj pd now = Inr (Some (receipt_of s v now False))"
    "if is_terminal (FactState.lifecycle s) then believed_in (all_events st) sj pd = {}
      else s \<in> believed_in (all_events st) sj pd"
    by (rule latest_freshness_ok [OF assms, of now]) blast
  then show ?thesis
    by (cases sj; cases pd) (auto simp: listed_fact_def listing_honest_def freshness_of_receipt_def receipt_of_def split: if_splits)
qed

lemma try_map_listed:
  assumes "\<And>p. p \<in> set ps \<Longrightarrow> \<exists>y. g p = Inr y \<and> k y = p \<and> P y"
  shows "\<exists>ys. try_map g ps = Inr ys \<and> map k ys = ps \<and> (\<forall>y \<in> set ys. P y)"
  using assms
proof (induction ps)
  case (Cons p ps)
  then obtain y ys where "g p = Inr y" "k y = p" "P y" "try_map g ps = Inr ys" "map k ys = ps" "\<forall>y \<in> set ys. P y"
    by (metis list.set_intros)
  then show ?case by simp
qed simp

text \<open>
  C31: The listing is complete and never overstates. Over the log of a session a listing lists every
  fact stream of the log that matches its filters and is not a hidden diagnostic, once, and counts
  the hidden ones; a stream is marked as no longer believed exactly when nothing of it is believed,
  and shown as fresh only when a believed fact of it is fresh and already valid.
\<close>

theorem listing_never_overstates:
  assumes "session (externs E) (codec E) w" and "facts_list_outcome E a w = (w', Inr out)"
  shows "contents w' = contents w \<and> distinct (map (\<lambda>(sk, key, pred, fr). (sk, key, pred)) (listed out)) \<and>
    (\<exists>now. \<forall>x \<in> set (listed out). listing_honest (log_in E w) now x) \<and>
    (\<forall>sk key pred. (\<exists>fr. (sk, key, pred, fr) \<in> set (listed out)) \<longleftrightarrow>
       (Subject sk key, Predicate pred) \<in> pairs_of (log_in E w) \<and> fact_stream_matches sk key pred a \<and>
       (include_diagnostics a \<or> \<not> is_diagnostic_fact_stream sk key pred)) \<and>
    length (listed out) + hidden_diagnostics_count out =
      card {(sk, key, pred). (Subject sk key, Predicate pred) \<in> pairs_of (log_in E w) \<and> fact_stream_matches sk key pred a}"
proof -
  let ?k = "\<lambda>(sk, key, pred, fr :: FactFreshness). (Subject sk key, Predicate pred)"
  let ?n = "\<lambda>(sk, key, pred, fr :: FactFreshness). (sk, key, pred)"
  define m where "m = (\<lambda>(sk, key, pred, fr :: FactFreshness). fact_stream_matches sk key pred a)"
  define h where "h = (\<lambda>(sk, key, pred, fr :: FactFreshness). \<not> include_diagnostics a \<and> is_diagnostic_fact_stream sk key pred)"
  have facts: "facts_list_outcome E a = op_bind (op_list_subjects_with_freshness E True) (\<lambda>all. op_return
      \<lparr>listed = filter (\<lambda>x. \<not> h x) (filter m all), listed_diagnostics = include_diagnostics a, hidden_diagnostics_count = length (filter h (filter m all)),
       filters_applied = (\<not> filters_are_empty a), listed_kind = kind_filter a, listed_key = key_filter a,
       listed_predicate = predicate_filter a\<rparr>)"
    by (simp add: facts_list_outcome_def Let_def m_def h_def)
  obtain w2 ys where o: "op_list_subjects_with_freshness E True w = (w2, Inr ys)"
    and out: "listed out = filter (\<lambda>x. \<not> h x) (filter m ys)" "hidden_diagnostics_count out = length (filter h (filter m ys))"
    using assms(2) unfolding facts by (auto simp: op_bind_def op_return_def split: prod.splits sum.splits)
  obtain w1 st now where l: "load_op E w = (w1, Inr st)"
    and ys: "try_map (listed_fact (externs E) st now) (subjects st) = Inr ys"
    using o by (auto simp: op_list_subjects_with_freshness_def op_bind_def op_lift_def split: prod.splits sum.splits)
  note ld = loaded [OF assms(1) l]
  have "\<exists>y. listed_fact (externs E) st now p = Inr y \<and> ?k y = p \<and> listing_honest (all_events st) now y" if "p \<in> set (subjects st)" for p
  proof -
    obtain sk key pred where p: "p = (Subject sk key, Predicate pred)"
      by (metis Predicate.exhaust Subject.exhaust surj_pair)
    then show ?thesis using listed_fact_ok [OF ld(1,3), of "Subject sk key" "Predicate pred" now] that subjects_set [of st] by auto
  qed
  from try_map_listed [of "subjects st" "listed_fact (externs E) st now" ?k, OF this] ys
  have names: "map ?k ys = subjects st" and honest: "\<forall>y \<in> set ys. listing_honest (all_events st) now y" by auto
  have "map ?k ys = map (\<lambda>(sk, key, pred). (Subject sk key, Predicate pred)) (map ?n ys)" by (simp add: case_prod_beta')
  then have d: "distinct (map ?n ys)" using names subjects_set [of st] by (metis distinct_map)
  have mem: "(\<exists>fr. (sk, key, pred, fr) \<in> set ys) \<longleftrightarrow> (Subject sk key, Predicate pred) \<in> pairs_of (log_in E w)" for sk key pred
  proof -
    have "(Subject sk key, Predicate pred) \<in> set (map ?k ys) \<longleftrightarrow> (\<exists>fr. (sk, key, pred, fr) \<in> set ys)"
      by (force simp: image_iff)
    then show ?thesis unfolding names using subjects_set [of st] ld(2) by simp
  qed
  have "length (listed out) + hidden_diagnostics_count out = length (filter m ys)"
    unfolding out using sum_length_filter_compl [of h "filter m ys"] by simp
  also have "\<dots> = card (set (map ?n (filter m ys)))"
    using distinct_card [OF distinct_map_filter [OF d, of m]] by simp
  also have "set (map ?n (filter m ys)) =
      {(sk, key, pred). (Subject sk key, Predicate pred) \<in> pairs_of (log_in E w) \<and> fact_stream_matches sk key pred a}"
    unfolding mem [symmetric] by (force simp: m_def)
  finally have count: "length (listed out) + hidden_diagnostics_count out = card
      {(sk, key, pred). (Subject sk key, Predicate pred) \<in> pairs_of (log_in E w) \<and> fact_stream_matches sk key pred a}" .
  have one: "(\<exists>fr. (sk, key, pred, fr) \<in> set (listed out)) \<longleftrightarrow>
      (Subject sk key, Predicate pred) \<in> pairs_of (log_in E w) \<and> fact_stream_matches sk key pred a \<and>
      (include_diagnostics a \<or> \<not> is_diagnostic_fact_stream sk key pred)" for sk key pred
    unfolding mem [symmetric] by (auto simp: out m_def h_def)
  have "distinct (map ?n (listed out))" unfolding out by (intro distinct_map_filter d)
  moreover have "\<forall>x \<in> set (listed out). listing_honest (log_in E w) now x" using honest ld(2) by (simp add: out)
  ultimately show ?thesis using count one reads_at [OF reads_all(4) assms(2)] by blast
qed

end
