(* ===== verification/Op_Context.thy ===== *)
theory Op_Context
  imports Op_Reads Identity_Session
begin

text \<open>
  The context pack of \<open>crates/dent8-cli/src/context.rs\<close>: the believed facts that are injected into
  an agent's context, with what was left out counted, and the retrieval audit of a pack; with the
  write defaults of an identity (\<open>IdentityContext::write_defaults\<close> of
  \<open>crates/dent8-cli/src/identity.rs\<close>). The rendering of a pack is not modelled.
\<close>

section \<open>The pack\<close>

record ContextArgs =
  context_kind :: "string option"
  context_key :: "string option"
  context_predicate :: "string option"
  include_stale :: bool
  context_diagnostics :: bool
  record_retrieval :: bool
  context_purpose :: string

record ContextFact =
  listed_fact_id :: string
  listed_subject_kind :: string
  listed_subject_key :: string
  listed_pred :: string
  listed_value :: FactValue
  listed_authority :: AuthorityLevel
  listed_source :: "string option"
  listed_freshness :: FactFreshness
  contested_by :: usize
  listed_expires_at :: "TimestampMillis option"
  listed_event_hash :: string

record ContextOutcome =
  context_facts :: "ContextFact list"
  omitted_stale :: usize
  omitted_not_yet_valid :: usize
  generated_at :: i64
  recorded_retrievals :: "usize option"

definition outcome_contested :: "ContextOutcome \<Rightarrow> bool" where
  "outcome_contested out \<longleftrightarrow> (\<exists>x \<in> set (context_facts out). 0 < contested_by x)"

definition omitted :: "ContextOutcome \<Rightarrow> usize" where
  "omitted out = omitted_stale out + omitted_not_yet_valid out"

definition matches_filters :: "ContextArgs \<Rightarrow> string \<Rightarrow> string \<Rightarrow> string \<Rightarrow> bool" where
  "matches_filters a sk key pred \<longleftrightarrow>
     opt_matches (context_kind a) sk \<and> opt_matches (context_key a) key \<and> opt_matches (context_predicate a) pred"

text \<open>A fault of the store's index is not an error that \<open>ok()\<close> drops.\<close>

definition asserting_source :: "InMemoryEventStore \<Rightarrow> IntegrityReceipt \<Rightarrow> OpError fault + string option" where
  "asserting_source st rc = (case load_fact_events st (IntegrityReceipt.fact_id rc) of
      Inl Panic \<Rightarrow> Inl Panic
    | Inl (Fail _) \<Rightarrow> Inr None
    | Inr es \<Rightarrow> Inr (map_option (\<lambda>e. source_str (Provenance.source (provenance e)))
        (find (\<lambda>e. FactEvent.kind e = Asserted) es)))"

text \<open>What the loop does with one stream: skips it, counts it as left out, or lists it.\<close>

datatype ContextEntry = Skipped | CountedStale | CountedNotYetValid | Listed ContextFact

definition context_freshness :: "IntegrityReceipt \<Rightarrow> FactFreshness" where
  "context_freshness rc = (if IntegrityReceipt.not_yet_valid rc then NotYetValid
     else if IntegrityReceipt.fresh rc then Fresh else Stale)"

definition context_entry ::
    "'j Externs \<Rightarrow> InMemoryEventStore \<Rightarrow> TimestampMillis \<Rightarrow> ContextArgs \<Rightarrow> Subject \<times> Predicate \<Rightarrow> OpError fault + ContextEntry" where
  "context_entry X st now a = (\<lambda>(sj, pd).
     let sk = Model.subject_kind sj; key = Model.subject_key sj; pred = predicate_str pd in
     if \<not> matches_filters a sk key pred then Inr Skipped
     else if \<not> context_diagnostics a \<and> is_diagnostic_fact_stream sk key pred then Inr Skipped
     else
       and_then (map_err (fault_map (\<lambda>e. op_rejected (''context failed: '' @ show_StoreError e))) (latest_freshness X st sj pd now))
         (\<lambda>r. case r of
            None \<Rightarrow> Inr Skipped
          | Some rc \<Rightarrow>
              if is_terminal (IntegrityReceipt.lifecycle rc) then Inr Skipped
              else let fr = context_freshness rc in
                if \<not> include_stale a \<and> fr = Stale then Inr CountedStale
                else if \<not> include_stale a \<and> fr = NotYetValid then Inr CountedNotYetValid
                else map_ok (\<lambda>src. Listed \<lparr>
                    listed_fact_id = fact_str (IntegrityReceipt.fact_id rc), listed_subject_kind = sk,
                    listed_subject_key = key, listed_pred = pred, listed_value = IntegrityReceipt.val rc,
                    listed_authority = receipt_authority rc, listed_source = src, listed_freshness = fr,
                    contested_by = (if IntegrityReceipt.lifecycle rc = FactLifecycle.Contested
                      then max (length (IntegrityReceipt.contradicted_by rc)) 1 else 0),
                    listed_expires_at = receipt_expires_at rc, listed_event_hash = last_event_hash rc\<rparr>)
                  (asserting_source st rc)))"

fun listed_of :: "ContextEntry \<Rightarrow> ContextFact option" where
  "listed_of (Listed x) = Some x"
| "listed_of _ = None"

definition context_outcome :: "'j Env \<Rightarrow> ContextArgs \<Rightarrow> ContextOutcome op" where
  "context_outcome E a =
     op_bind (load_op E) (\<lambda>st.
     op_bind (now_op E) (\<lambda>now.
     op_bind (op_lift (try_map (context_entry (externs E) st now a) (subjects st))) (\<lambda>entries.
     op_return \<lparr>
       context_facts = sort_key (\<lambda>x. (listed_subject_kind x, listed_subject_key x, listed_pred x))
         (List.map_filter listed_of entries),
       omitted_stale = length (filter (\<lambda>x. x = CountedStale) entries),
       omitted_not_yet_valid = length (filter (\<lambda>x. x = CountedNotYetValid) entries),
       generated_at = (case now of TimestampMillis t \<Rightarrow> t),
       recorded_retrievals = None\<rparr>)))"

section \<open>The audit of a pack\<close>

record WriteDefaults =
  default_source :: string
  default_authority :: AuthorityLevel

definition context_write_defaults ::
    "Host \<Rightarrow> (IdentityError \<Rightarrow> string) \<Rightarrow> IdentityContext \<Rightarrow> string + WriteDefaults option" where
  "context_write_defaults D shown ctx = (case grant_path ctx of
      None \<Rightarrow> Inr None
    | Some p \<Rightarrow> map_ok (\<lambda>g. Some \<lparr>default_source = SourceGrantPayload.source (grant g),
        default_authority = SourceGrantPayload.max_authority (grant g)\<rparr>) (map_err shown (load_grant D p)))"

text \<open>\<open>write_defaults\<close> of \<open>mcp.rs\<close> and \<open>pack_write_defaults\<close> of \<open>context.rs\<close>, before their errors are wrapped\<close>

fun identity_defaults ::
    "Host \<Rightarrow> (IdentityError \<Rightarrow> string) \<Rightarrow> string + IdentityContext \<Rightarrow> IdentityContext WriteIdentity \<Rightarrow>
       string + WriteDefaults option" where
  "identity_defaults D shown from_env Env = and_then from_env (context_write_defaults D shown)"
| "identity_defaults D shown from_env (Connection ctx) = context_write_defaults D shown ctx"
| "identity_defaults D shown from_env Unauthenticated = Inr None"

definition CAPTURE_FALLBACK_SOURCE :: string where
  "CAPTURE_FALLBACK_SOURCE = ''source:agent''"

definition CAPTURE_FALLBACK_AUTHORITY :: AuthorityLevel where
  "CAPTURE_FALLBACK_AUTHORITY = Low"

definition audit_identity :: "WriteDefaults option \<Rightarrow> AuthorityLevel \<times> string" where
  "audit_identity d = (case d of None \<Rightarrow> (CAPTURE_FALLBACK_AUTHORITY, CAPTURE_FALLBACK_SOURCE)
     | Some x \<Rightarrow> (default_authority x, default_source x))"

definition record_pack_retrievals ::
    "'j Env \<Rightarrow> string + WriteDefaults option \<Rightarrow> ContextOutcome \<Rightarrow> string \<Rightarrow> usize op" where
  "record_pack_retrievals E defaults out purpose =
     (let refs = map (\<lambda>x. \<lparr>ref_fact_id = listed_fact_id x, ref_subject_kind = listed_subject_kind x,
          ref_subject_key = listed_subject_key x, ref_predicate = listed_pred x\<rparr>) (context_facts out)
      in op_bind (op_lift (map_err (\<lambda>m. Fail (op_invalid m)) defaults)) (\<lambda>d.
         case audit_identity d of (lvl, src) \<Rightarrow> op_record_retrievals E refs purpose lvl src))"

section \<open>What a pack holds\<close>

lemma context_reads: "reads (context_outcome E a)"
  unfolding context_outcome_def by (intro reads_bind reads_basic)

definition entry_honest :: "FactEvent list \<Rightarrow> TimestampMillis \<Rightarrow> ContextArgs \<Rightarrow> Subject \<times> Predicate \<Rightarrow> ContextEntry \<Rightarrow> bool" where
  "entry_honest es now a = (\<lambda>(sj, pd) x.
     (x = Skipped \<longleftrightarrow> \<not> matches_filters a (Model.subject_kind sj) (Model.subject_key sj) (predicate_str pd) \<or>
        (\<not> context_diagnostics a \<and> is_diagnostic_fact_stream (Model.subject_kind sj) (Model.subject_key sj) (predicate_str pd)) \<or>
        believed_in es sj pd = {}) \<and>
     (\<forall>f. x = Listed f \<longrightarrow>
        (listed_subject_kind f, listed_subject_key f, listed_pred f) =
          (Model.subject_kind sj, Model.subject_key sj, predicate_str pd) \<and>
        (\<exists>s \<in> believed_in es sj pd. listed_fact_id f = fact_str (FactState.fact_id s) \<and> listed_value f = FactState.val s \<and>
           listed_authority f = state_level s \<and> (include_stale a \<or> is_fresh_at s now)) \<and>
        (\<forall>t \<in> believed_in es sj pd. FactState.lifecycle t = FactLifecycle.Contested \<longrightarrow> \<not> is_expired_at t now \<longrightarrow>
           0 < contested_by f)))"

lemma try_map_total:
  assumes "\<And>p. p \<in> set ps \<Longrightarrow> \<exists>x. g p = Inr x \<and> P p x"
  shows "\<exists>ys. try_map g ps = Inr ys \<and> list_all2 P ps ys"
  using assms
proof (induction ps)
  case (Cons p ps)
  then obtain ys where "try_map g ps = Inr ys" "list_all2 P ps ys" by auto
  moreover obtain x where "g p = Inr x" "P p x" using Cons.prems by auto
  ultimately show ?case by auto
qed simp

lemma context_entry_ok:
  assumes "memory_ok X st" and "log_inv (all_events st)" and "(sj, pd) \<in> pairs_of (all_events st)"
  shows "\<exists>x. context_entry X st now a (sj, pd) = Inr x \<and> entry_honest (all_events st) now a (sj, pd) x"
proof -
  obtain s v where r: "latest_freshness X st sj pd now = Inr (Some (receipt_of s v now False))"
    and bel: "if is_terminal (FactState.lifecycle s) then believed_in (all_events st) sj pd = {}
      else s \<in> believed_in (all_events st) sj pd"
    and con: "\<And>t. t \<in> believed_in (all_events st) sj pd \<Longrightarrow> FactState.lifecycle t = FactLifecycle.Contested \<Longrightarrow>
      \<not> is_expired_at t now \<Longrightarrow> FactState.lifecycle s = FactLifecycle.Contested"
    by (rule latest_freshness_ok [OF assms, of now]) blast
  obtain src where src: "asserting_source st (receipt_of s v now False) = Inr src"
    using load_ok [OF assms(1), of "FactState.fact_id s"] by (auto simp: asserting_source_def receipt_of_def)
  define fit where "fit \<longleftrightarrow> matches_filters a (Model.subject_kind sj) (Model.subject_key sj) (predicate_str pd) \<and>
    (context_diagnostics a \<or> \<not> is_diagnostic_fact_stream (Model.subject_kind sj) (Model.subject_key sj) (predicate_str pd))"
  consider "\<not> fit" | "fit" "is_terminal (FactState.lifecycle s)" | "fit" "\<not> is_terminal (FactState.lifecycle s)" by blast
  then show ?thesis
  proof cases
    case 1
    then have "context_entry X st now a (sj, pd) = Inr Skipped" by (auto simp: context_entry_def fit_def Let_def)
    with 1 show ?thesis by (auto simp: entry_honest_def fit_def)
  next
    case 2
    then have "context_entry X st now a (sj, pd) = Inr Skipped"
      by (auto simp: context_entry_def fit_def Let_def r receipt_of_def)
    with 2 bel show ?thesis by (auto simp: entry_honest_def)
  next
    case 3
    then have s: "s \<in> believed_in (all_events st) sj pd" using bel by simp
    from 3 have "context_entry X st now a (sj, pd) =
        (let fr = context_freshness (receipt_of s v now False) in
         if \<not> include_stale a \<and> fr = Stale then Inr CountedStale
         else if \<not> include_stale a \<and> fr = NotYetValid then Inr CountedNotYetValid
         else Inr (Listed \<lparr>listed_fact_id = fact_str (FactState.fact_id s), listed_subject_kind = Model.subject_kind sj,
           listed_subject_key = Model.subject_key sj, listed_pred = predicate_str pd, listed_value = FactState.val s,
           listed_authority = state_level s, listed_source = src, listed_freshness = fr,
           contested_by = (if FactState.lifecycle s = FactLifecycle.Contested then max (length (FactState.contradicted_by s)) 1 else 0),
           listed_expires_at = expires_at s, listed_event_hash = event_hash v\<rparr>))"
      using src by (auto simp: context_entry_def fit_def Let_def r receipt_of_def)
    moreover have "\<not> include_stale a \<Longrightarrow> context_freshness (receipt_of s v now False) = Fresh \<Longrightarrow> is_fresh_at s now"
      by (auto simp: context_freshness_def receipt_of_def split: if_splits)
    moreover have "context_freshness (receipt_of s v now False) \<in> {Fresh, Stale, NotYetValid}"
      by (simp add: context_freshness_def)
    ultimately show ?thesis
      using 3 s con by (auto simp: entry_honest_def fit_def Let_def)
  qed
qed

lemma listed_of_Some: "listed_of z = Some x \<longleftrightarrow> z = Listed x"
  by (cases z) auto


end
