(* ===== verification/Read_Witness.thy ===== *)
theory Read_Witness
  imports Op_Witness Op_Context
begin

text \<open>
  The properties of the read side applied to reads of two small logs: a contested pair, and a fact
  that was asserted once.
\<close>

abbreviation disputed_log :: "FactEvent list" where
  "disputed_log \<equiv> first_event # contest_batch"

lemma read_sample_loads:
  assumes "table_ok L" and "\<forall>e \<in> set L. subject_sound L (TimestampMillis 5) (FactEvent.subject e)"
  shows "loads (sample_env L g) L (TimestampMillis 5)"
  using assms by (simp add: loads_def sample_hashable table_ok_def)

lemma disputed_sound: "\<forall>e \<in> set disputed_log. subject_sound disputed_log (TimestampMillis 5) (FactEvent.subject e)"
  by code_simp

lemmas disputed_loads = read_sample_loads [OF contest_table(1) disputed_sound]

lemma first_loads: "loads (sample_env disputed_log g) [first_event] (TimestampMillis 5)"
  using contest_table(3) [of g] by (simp add: goes_through_def)

lemma disputed_holds: "\<exists>w. holds (sample_env disputed_log g) w disputed_log"
proof -
  let ?E = "sample_env disputed_log g"
  obtain w where w: "holds ?E w [first_event]" using first_holds [OF contest_table(2)] by blast
  obtain e ds oid where b: "build_contradiction (next_id [first_event]) (fact_str sample_id) ''r'' ''k'' ''p'' ''v'' ''b'' Low
      (TimestampMillis 5) = Inr (e # ds, oid)"
    and es: "contest_batch = apply_policy_defaults coding_agent (stamp no_validity e) # ds"
    unfolding first_reads(2) by (rule contest_split) blast
  show ?thesis
    using contradict_runs [OF sample_steady w sample_names first_reads(4) b es contest_table(3)] by auto
qed

theorem conflicts_exact_witness:
  "\<exists>w cs c. log_in (sample_env disputed_log NotPresent) w = disputed_log \<and>
     snd (conflicts_outcome (sample_env disputed_log NotPresent) w) = Inr cs \<and> c \<in> set cs \<and>
     conflict_kind c = ''r'' \<and> conflict_key c = ''k'' \<and> conflict_predicate c = ''p''"
proof -
  let ?E = "sample_env disputed_log NotPresent"
  obtain w where w: "session (externs ?E) (codec ?E) w" "log_in ?E w = disputed_log"
    using disputed_holds by (auto simp: holds_def)
  obtain w' cs where r: "conflicts_outcome ?E w = (w', Inr cs)"
    using steady_load [OF sample_steady disputed_loads w(2)]
    by (auto simp: conflicts_outcome_def op_bind_def op_return_def)
  have "case fact_state disputed_log sample_id of None \<Rightarrow> False | Some s \<Rightarrow>
      has_shape (Subject ''r'' ''k'') (Predicate ''p'') s \<and> FactState.lifecycle s = FactLifecycle.Contested"
    by code_simp
  then obtain s where s: "fact_state disputed_log sample_id = Some s" "has_shape (Subject ''r'' ''k'') (Predicate ''p'') s"
    "FactState.lifecycle s = FactLifecycle.Contested"
    by (auto split: option.splits)
  have "s \<in> believed_now ?E w ''r'' ''k'' ''p''"
    using s fact_state_id [OF s(1)] w(2) by (simp add: believed_iff)
  with conflicts_exact [OF w(1) r] s(3) w(2) r show ?thesis by (metis snd_conv)
qed

text \<open>Under a floor of high authority, the fact of medium authority disappears.\<close>

definition demanding_policy :: EpistemicPolicy where
  "demanding_policy = \<lparr>distrusted_sources = {}, authority_floor = High, confidence_floor = Confidence_ZERO\<rparr>"

lemma demanding_folds:
  "case replay_subject (pair_events [first_event] (Subject ''r'' ''k'') (Predicate ''p'')) of Inl _ \<Rightarrow> False | Inr b \<Rightarrow>
   (case replay_subject_with_policy (pair_events [first_event] (Subject ''r'' ''k'') (Predicate ''p'')) demanding_policy of
      Inl _ \<Rightarrow> False | Inr c \<Rightarrow> whatif_diffs b c = [(sample_id, Disappeared)])"
  by code_simp


theorem listing_never_overstates_witness:
  "\<exists>w w' out fr. log_in (sample_env disputed_log NotPresent) w = [first_event] \<and>
     facts_list_outcome (sample_env disputed_log NotPresent)
       \<lparr>kind_filter = Some ''r'', key_filter = None, predicate_filter = None, include_diagnostics = False\<rparr> w = (w', Inr out) \<and>
     (''r'', ''k'', ''p'', fr) \<in> set (listed out) \<and> fr \<noteq> NoLongerBelieved"
proof -
  let ?E = "sample_env disputed_log NotPresent"
  let ?a = "\<lparr>kind_filter = Some ''r'', key_filter = None, predicate_filter = None, include_diagnostics = False\<rparr>"
  obtain w where w: "session (externs ?E) (codec ?E) w" "log_in ?E w = [first_event]"
    using first_holds [OF contest_table(2)] by (auto simp: holds_def)
  have st: "memory_ok (externs ?E) (store_of ?E [first_event])" "all_events (store_of ?E [first_event]) = [first_event]"
    using loads_store(2,3) [OF first_loads] by auto
  have inv: "log_inv (all_events (store_of ?E [first_event]))"
    using session_log(1) [OF w(1)] w(2) st(2) by simp
  have "\<exists>ys. try_map (listed_fact (externs ?E) (store_of ?E [first_event]) (TimestampMillis 5))
      (subjects (store_of ?E [first_event])) = Inr ys"
    using try_map_listed [of "subjects (store_of ?E [first_event])"
        "listed_fact (externs ?E) (store_of ?E [first_event]) (TimestampMillis 5)"
        "\<lambda>(sk, key, pred, fr). (Subject sk key, Predicate pred)" "\<lambda>_. True"]
      listed_fact_ok [OF st(1) inv] subjects_set [of "store_of ?E [first_event]"] by fastforce
  then obtain w' out where r: "facts_list_outcome ?E ?a w = (w', Inr out)"
    using steady_load [OF sample_steady first_loads w(2)] steady_steps(2) [OF sample_steady]
    by (auto simp: facts_list_outcome_def op_list_subjects_with_freshness_def op_bind_def op_return_def op_lift_def Let_def)
  have "fact_stream_matches ''r'' ''k'' ''p'' ?a" "\<not> is_diagnostic_fact_stream ''r'' ''k'' ''p''" by code_simp+
  moreover have "(Subject ''r'' ''k'', Predicate ''p'') \<in> pairs_of [first_event]"
    and bel: "case fact_state [first_event] sample_id of None \<Rightarrow> False | Some s \<Rightarrow>
      has_shape (Subject ''r'' ''k'') (Predicate ''p'') s \<and> \<not> is_terminal (FactState.lifecycle s)"
    by code_simp+
  moreover note spec [OF spec [OF spec [OF conjunct1 [OF conjunct2 [OF conjunct2 [OF conjunct2 [OF
    listing_never_overstates [OF w(1) r]]]]], of "''r''"], of "''k''"], of "''p''", unfolded w(2)]
  ultimately obtain fr where fr: "(''r'', ''k'', ''p'', fr) \<in> set (listed out)" by metis
  have "believed_in [first_event] (Subject ''r'' ''k'') (Predicate ''p'') \<noteq> {}"
    using bel unfolding believed_in_def by (auto split: option.splits)
  with listing_never_overstates [OF w(1) r] fr w(2) have "fr \<noteq> NoLongerBelieved" by (auto simp: listing_honest_def)
  with fr r w(2) show ?thesis by blast
qed


text \<open>A fact that was asserted at 5 and retracted at 9.\<close>

definition dated :: "FactEvent \<Rightarrow> int \<Rightarrow> FactEvent" where
  "dated e t = (e\<lparr>FactEvent.provenance := (FactEvent.provenance e)\<lparr>recorded_at := TimestampMillis (word_of_int t)\<rparr>\<rparr>)"

abbreviation early_part :: "FactEvent list" where
  "early_part \<equiv> [dated (sample_assert ''a'' ''f'' Low) 5]"

abbreviation late_part :: "FactEvent list" where
  "late_part \<equiv> [dated (sample_mark ''b'' ''f'' (FactEventKind.Retracted UserDeleted) Low) 9]"

definition late_world :: World where
  "late_world = empty_world\<lparr>contents := Some (''{a}'' @ [nl] @ ''{b}'' @ [nl])\<rparr>"

lemma late_log: "log_in (sample_env (early_part @ late_part) NotPresent) late_world = early_part @ late_part"
proof -
  have "str_lines (''{a}'' @ [nl] @ ''{b}'' @ [nl]) = [''{a}'', ''{b}'']" "trim ''{a}'' = ''{a}''" "trim ''{b}'' = ''{b}''"
    by code_simp+
  then show ?thesis
    by (simp add: events_at_def late_world_def text_of_def parse_jsonl_events_def Op_Witness.sample_codec_def Let_def dated_def
        Op_Witness.sample_line_def sample_defs)
qed

text \<open>The fact was retracted at 9; as of 7 its receipt is that of the assertion alone.\<close>

theorem as_of_restores_past_witness:
  "\<exists>w' rc st now.
     op_explain_receipt (sample_env (early_part @ late_part) NotPresent) ''repo'' ''dent8'' ''database'' \<lparr>as_of = Some 7, valid_at = None\<rparr> late_world = (w', Inr rc) \<and>
     all_events st = early_part \<and> explain_latest sample_externs st (Subject ''repo'' ''dent8'') (Predicate ''database'') now = Inr (Some rc)"
proof -
  let ?E = "sample_env (early_part @ late_part) NotPresent"
  let ?ck = "\<lparr>as_of = Some 7, valid_at = None\<rparr>"
  have before: "\<forall>e \<in> set early_part. recorded_by 7 e" and after: "\<forall>e \<in> set late_part. \<not> recorded_by 7 e"
    by code_simp+
  have ok: "is_ok (snd (op_explain_receipt ?E ''repo'' ''dent8'' ''database'' ?ck late_world))"
    by code_simp
  from ok obtain w' rc where r: "op_explain_receipt ?E ''repo'' ''dent8'' ''database'' ?ck late_world = (w', Inr rc)"
    by (cases "op_explain_receipt ?E ''repo'' ''dent8'' ''database'' ?ck late_world") (auto simp: is_ok_iff)
  from as_of_restores_past [OF late_log before after _ r] r show ?thesis by auto
qed

end
