(* ===== verification/Mcp_Uri.thy ===== *)
theory Mcp_Uri
  imports Prelude
begin

text \<open>
  The resource URIs of \<open>crates/dent8-cli/src/mcp.rs\<close>: \<open>encode_segment\<close>, \<open>decode_segment\<close>,
  \<open>resource_uri\<close> and \<open>parse_resource_uri\<close>. A string is its list of UTF-8 bytes; that a Rust
  \<open>String\<close> is well-formed UTF-8 is the predicate \<open>utf8\<close>, the test of \<open>String::from_utf8\<close>.
\<close>

section \<open>UTF-8\<close>

definition cont :: "char \<Rightarrow> bool" where
  "cont c \<longleftrightarrow> 0x80 \<le> byte_of c \<and> byte_of c \<le> 0xBF"

text \<open>The lengths of the well-formed sequences (the Unicode standard, table 3-7); 0 for none.\<close>

fun seq2 :: "nat \<Rightarrow> bool" where
  "seq2 a \<longleftrightarrow> 0xC2 \<le> a \<and> a \<le> 0xDF"

fun seq3 :: "nat \<Rightarrow> nat \<Rightarrow> bool" where
  "seq3 a b \<longleftrightarrow> a = 0xE0 \<and> 0xA0 \<le> b \<and> b \<le> 0xBF \<or>
     (0xE1 \<le> a \<and> a \<le> 0xEC \<or> a = 0xEE \<or> a = 0xEF) \<and> 0x80 \<le> b \<and> b \<le> 0xBF \<or>
     a = 0xED \<and> 0x80 \<le> b \<and> b \<le> 0x9F"

fun seq4 :: "nat \<Rightarrow> nat \<Rightarrow> bool" where
  "seq4 a b \<longleftrightarrow> a = 0xF0 \<and> 0x90 \<le> b \<and> b \<le> 0xBF \<or>
     0xF1 \<le> a \<and> a \<le> 0xF3 \<and> 0x80 \<le> b \<and> b \<le> 0xBF \<or> a = 0xF4 \<and> 0x80 \<le> b \<and> b \<le> 0x8F"

fun utf8 :: "string \<Rightarrow> bool" where
  "utf8 [] = True"
| "utf8 (a # s) =
     (if byte_of a < 0x80 then utf8 s
      else case s of
        b # t \<Rightarrow>
          if seq2 (byte_of a) then cont b \<and> utf8 t
          else (case t of
            c # u \<Rightarrow>
              if seq3 (byte_of a) (byte_of b) then cont c \<and> utf8 u
              else (case u of d # v \<Rightarrow> seq4 (byte_of a) (byte_of b) \<and> cont c \<and> cont d \<and> utf8 v | [] \<Rightarrow> False)
          | [] \<Rightarrow> False)
      | [] \<Rightarrow> False)"

section \<open>Segments\<close>

text \<open>\<open>u8::is_ascii_alphanumeric\<close>\<close>

definition is_ascii_alphanumeric :: "char \<Rightarrow> bool" where
  "is_ascii_alphanumeric c \<longleftrightarrow> (let n = byte_of c in
     48 \<le> n \<and> n \<le> 57 \<or> 65 \<le> n \<and> n \<le> 90 \<or> 97 \<le> n \<and> n \<le> 122)"

definition unreserved :: "char \<Rightarrow> bool" where
  "unreserved c \<longleftrightarrow> is_ascii_alphanumeric c \<or> c \<in> {CHR ''-'', CHR ''.'', CHR ''_'', CHR ''~''}"

definition HEX :: string where
  "HEX = ''0123456789ABCDEF''"

definition encode_byte :: "char \<Rightarrow> string" where
  "encode_byte c =
     (if unreserved c then [c] else [CHR ''%'', HEX ! (byte_of c div 16), HEX ! (byte_of c mod 16)])"

definition encode_segment :: "string \<Rightarrow> string" where
  "encode_segment segment = concat (map encode_byte segment)"

text \<open>\<open>char::to_digit\<close> with radix 16\<close>

definition to_digit16 :: "char \<Rightarrow> nat option" where
  "to_digit16 c = (let n = byte_of c in
     if 48 \<le> n \<and> n \<le> 57 then Some (n - 48)
     else if 97 \<le> n \<and> n \<le> 102 then Some (n - 87)
     else if 65 \<le> n \<and> n \<le> 70 then Some (n - 55)
     else None)"

text \<open>The loop over the index; a byte that is missing is \<open>get\<close>'s \<open>None\<close>.\<close>

fun decode_bytes :: "string \<Rightarrow> string option" where
  "decode_bytes [] = Some []"
| "decode_bytes (c # s) =
     (if c = CHR ''%'' then
        (case s of
          h # l # rest \<Rightarrow>
            (case (to_digit16 h, to_digit16 l) of
              (Some hi, Some lo) \<Rightarrow> map_option (\<lambda>out. char_of (hi * 16 + lo) # out) (decode_bytes rest)
            | _ \<Rightarrow> None)
        | _ \<Rightarrow> None)
      else map_option (\<lambda>out. c # out) (decode_bytes s))"

definition decode_segment :: "string \<Rightarrow> string option" where
  "decode_segment segment = (case decode_bytes segment of
     None \<Rightarrow> None | Some out \<Rightarrow> if utf8 out then Some out else None)"

section \<open>URIs\<close>

definition SCHEME :: string where
  "SCHEME = ''dent8://''"

definition resource_uri :: "string \<Rightarrow> string \<Rightarrow> string \<Rightarrow> string" where
  "resource_uri sk key pred =
     SCHEME @ encode_segment sk @ ''/'' @ encode_segment key @ ''/'' @ encode_segment pred"

text \<open>\<open>str::split\<close> at a character\<close>

fun str_split :: "char \<Rightarrow> string \<Rightarrow> string list" where
  "str_split d [] = [[]]"
| "str_split d (c # s) = (if c = d then [] # str_split d s
     else case str_split d s of p # ps \<Rightarrow> (c # p) # ps | [] \<Rightarrow> [[c]])"

definition parse_resource_uri :: "string \<Rightarrow> (string \<times> string \<times> string) option" where
  "parse_resource_uri uri = (case strip_prefix SCHEME uri of None \<Rightarrow> None | Some rest \<Rightarrow>
     let parts = str_split (CHR ''/'') rest in
     if length parts \<noteq> 3 \<or> [] \<in> set parts then None
     else (case (decode_segment (parts ! 0), decode_segment (parts ! 1), decode_segment (parts ! 2)) of
         (Some sk, Some key, Some pred) \<Rightarrow> Some (sk, key, pred)
       | _ \<Rightarrow> None))"

section \<open>Round trip\<close>

lemma hex_bytes_check:
  "\<forall>n < 256. to_digit16 (HEX ! (n div 16)) = Some (n div 16) \<and> to_digit16 (HEX ! (n mod 16)) = Some (n mod 16) \<and>
     HEX ! (n div 16) \<noteq> CHR ''/'' \<and> HEX ! (n mod 16) \<noteq> CHR ''/''"
proof -
  have "\<forall>k < 16. to_digit16 (HEX ! k) = Some k \<and> HEX ! k \<noteq> CHR ''/''"
    by (simp add: HEX_def to_digit16_def byte_of_def All_less_Suc eval_nat_numeral)
  then show ?thesis by auto
qed

lemma byte_lt: "byte_of c < 256"
  by (simp add: byte_of_def)

lemma char_of_byte [simp]: "char_of (byte_of c) = c"
  by (simp add: byte_of_def)

lemma not_unreserved: "\<not> unreserved (CHR ''%'')" "\<not> unreserved (CHR ''/'')"
  by (simp_all add: unreserved_def is_ascii_alphanumeric_def byte_of_def)

lemma decode_encode_byte: "decode_bytes (encode_byte c @ s) = map_option (\<lambda>out. c # out) (decode_bytes s)"
proof (cases "unreserved c")
  case True
  then have "c \<noteq> CHR ''%''" using not_unreserved by auto
  with True show ?thesis by (simp add: encode_byte_def)
next
  case False
  have "byte_of c div 16 * 16 + byte_of c mod 16 = byte_of c" by simp
  with False hex_bytes_check byte_lt [of c] show ?thesis by (simp add: encode_byte_def)
qed

lemma decode_encode: "decode_bytes (encode_segment s) = Some s"
  by (induction s) (simp_all add: encode_segment_def decode_encode_byte)

lemma encode_no_slash: "CHR ''/'' \<notin> set (encode_segment s)"
proof -
  have "CHR ''/'' \<notin> set (encode_byte c)" for c
    using hex_bytes_check byte_lt [of c] not_unreserved by (auto simp: encode_byte_def)
  then show ?thesis by (auto simp: encode_segment_def)
qed

lemma encode_empty: "encode_segment s = [] \<longleftrightarrow> s = []"
  by (cases s) (simp_all add: encode_segment_def encode_byte_def)

lemma split_ne: "str_split d s \<noteq> []"
  by (cases s) (simp_all split: list.splits)

lemma split_one: "d \<notin> set s \<Longrightarrow> str_split d s = [s]"
  by (induction s) auto

lemma split_more: "d \<notin> set s \<Longrightarrow> str_split d (s @ d # t) = s # str_split d t"
  by (induction s) auto

lemma uri_parses:
  assumes "utf8 sk" "utf8 key" "utf8 pred" "sk \<noteq> []" "key \<noteq> []" "pred \<noteq> []"
  shows "parse_resource_uri (resource_uri sk key pred) = Some (sk, key, pred)"
proof -
  have "str_split (CHR ''/'') (encode_segment sk @ CHR ''/'' # encode_segment key @ CHR ''/'' # encode_segment pred) =
      [encode_segment sk, encode_segment key, encode_segment pred]"
    by (simp add: split_more split_one encode_no_slash)
  then show ?thesis
    using assms by (simp add: parse_resource_uri_def resource_uri_def strip_prefix_def Let_def decode_segment_def
        decode_encode encode_empty eq_commute [of "[]"])
qed

lemma uri_inj: "resource_uri a b c = resource_uri a' b' c' \<longleftrightarrow> a = a' \<and> b = b' \<and> c = c'"
proof
  assume "resource_uri a b c = resource_uri a' b' c'"
  then have "str_split (CHR ''/'') (encode_segment a @ CHR ''/'' # encode_segment b @ CHR ''/'' # encode_segment c) =
      str_split (CHR ''/'') (encode_segment a' @ CHR ''/'' # encode_segment b' @ CHR ''/'' # encode_segment c')"
    by (simp add: resource_uri_def)
  then have "encode_segment a = encode_segment a'" "encode_segment b = encode_segment b'" "encode_segment c = encode_segment c'"
    by (simp_all add: split_more split_one encode_no_slash)
  then show "a = a' \<and> b = b' \<and> c = c'" using decode_encode by (metis option.inject)
qed simp

text \<open>
  C28: A resource URI names one fact stream and no other. The URI of any three non-empty segments
  parses back to them, whatever bytes they hold, and two streams with one URI are the same stream;
  whatever parses has three segments of well-formed UTF-8.
\<close>

theorem resource_uri_roundtrip:
  assumes "utf8 sk \<and> utf8 key \<and> utf8 pred" and "sk \<noteq> [] \<and> key \<noteq> [] \<and> pred \<noteq> []"
  shows "parse_resource_uri (resource_uri sk key pred) = Some (sk, key, pred) \<and>
    (\<forall>a b c. resource_uri a b c = resource_uri sk key pred \<longrightarrow> a = sk \<and> b = key \<and> c = pred) \<and>
    (\<forall>uri a b c. parse_resource_uri uri = Some (a, b, c) \<longrightarrow> utf8 a \<and> utf8 b \<and> utf8 c)"
proof -
  have "utf8 a \<and> utf8 b \<and> utf8 c" if "parse_resource_uri uri = Some (a, b, c)" for uri a b c
    using that by (auto simp: parse_resource_uri_def decode_segment_def Let_def split: option.splits if_splits)
  then show ?thesis using assms by (simp add: uri_parses uri_inj)
qed

text \<open>A slash, a percent sign and an e with acute accent (two bytes).\<close>

theorem resource_uri_roundtrip_witness:
  "parse_resource_uri (resource_uri ''repo'' ''a/b%'' [char_of (0xC3 :: nat), char_of (0xA9 :: nat)]) =
     Some (''repo'', ''a/b%'', [char_of (0xC3 :: nat), char_of (0xA9 :: nat)])"
proof -
  have "utf8 ''repo'' \<and> utf8 ''a/b%'' \<and> utf8 [char_of (0xC3 :: nat), char_of (0xA9 :: nat)]" by code_simp
  then show ?thesis
    using resource_uri_roundtrip [of "''repo''" "''a/b%''" "[char_of (0xC3 :: nat), char_of (0xA9 :: nat)]"] by simp
qed

end
