(* ===== verification/Mcp_Subscriptions.thy ===== *)
theory Mcp_Subscriptions
  imports Op_Env Mcp_Uri
begin

text \<open>
  The resource subscriptions of one connection (\<open>SubscriptionState\<close> of
  \<open>crates/dent8-cli/src/mcp.rs\<close>). The request loop subscribes and unsubscribes while the notifier
  polls; both hold the lock only briefly, so a poll is two steps: \<open>poll_begin\<close> copies the state
  under the lock, the log is then read without it, and \<open>poll_end\<close> takes the lock again. Runs in
  which every poll is undisturbed notify every change; a subscription that lands between the two
  halves of a poll can lose one.
\<close>

section \<open>The state\<close>

record SubscriptionInner =
  uris :: "string set"
  seen_events :: "usize option"

definition SubscriptionInner_default :: SubscriptionInner where
  "SubscriptionInner_default = \<lparr>uris = {}, seen_events = None\<rparr>"

definition subscribe :: "string \<Rightarrow> usize \<Rightarrow> SubscriptionInner \<Rightarrow> SubscriptionInner" where
  "subscribe uri hd0 s = s\<lparr>
     seen_events := Some (case seen_events s of None \<Rightarrow> hd0 | Some n \<Rightarrow> n),
     uris := insert uri (uris s)\<rparr>"

definition unsubscribe :: "string \<Rightarrow> SubscriptionInner \<Rightarrow> SubscriptionInner" where
  "unsubscribe uri s = (let us = uris s - {uri} in
     s\<lparr>uris := us, seen_events := (if us = {} then None else seen_events s)\<rparr>)"

definition event_uri :: "FactEvent \<Rightarrow> string" where
  "event_uri e = resource_uri (Model.subject_kind (FactEvent.subject e)) (Model.subject_key (FactEvent.subject e))
     (predicate_str (FactEvent.predicate e))"

text \<open>The copy of the subscribed URIs and of the baseline; none when nothing is subscribed.\<close>

definition poll_begin :: "SubscriptionInner \<Rightarrow> (string set \<times> usize option) option" where
  "poll_begin s = (if uris s = {} then None else Some (uris s, seen_events s))"

text \<open>The URIs to notify, in the order of the \<open>BTreeSet\<close> they are collected in.\<close>

definition poll_end ::
    "string set \<times> usize option \<Rightarrow> string + FactEvent list \<Rightarrow> SubscriptionInner \<Rightarrow> SubscriptionInner \<times> string list" where
  "poll_end snap r s = (case r of
      Inl _ \<Rightarrow> (s, [])
    | Inr events \<Rightarrow> (let hd0 = length events in
        case snd snap of
          None \<Rightarrow> (s\<lparr>seen_events := Some hd0\<rparr>, [])
        | Some seen \<Rightarrow>
            if \<not> seen \<le> hd0 then (s\<lparr>seen_events := Some hd0\<rparr>, [])
            else (s\<lparr>seen_events := Some hd0\<rparr>,
              filter (\<lambda>u. u \<in> fst snap) (sort (remdups (map event_uri (drop seen events)))))))"

text \<open>The events a poll or a subscription reads; a fault of the hasher is not caught here.\<close>

definition scan_all :: "'j Env \<Rightarrow> World \<Rightarrow> World \<times> (string fault + FactEvent list)" where
  "scan_all E w = (case load_raw E w of (w', r) \<Rightarrow> (w', map_ok (\<lambda>st. scan_events st EventFilter_default) r))"

definition store_head :: "'j Env \<Rightarrow> World \<Rightarrow> World \<times> (string fault + usize)" where
  "store_head E w = (case scan_all E w of (w', r) \<Rightarrow> (w', map_ok length r))"

definition poll ::
    "'j Env \<Rightarrow> SubscriptionInner \<Rightarrow> World \<Rightarrow> World \<times> (string fault + SubscriptionInner \<times> string list)" where
  "poll E s w = (case poll_begin s of
      None \<Rightarrow> (w, Inr (s, []))
    | Some snap \<Rightarrow> (case scan_all E w of
        (w', Inl Panic) \<Rightarrow> (w', Inl Panic)
      | (w', Inl (Fail e)) \<Rightarrow> (w', Inr (poll_end snap (Inl e) s))
      | (w', Inr events) \<Rightarrow> (w', Inr (poll_end snap (Inr events) s))))"

section \<open>Undisturbed polls\<close>

text \<open>What happens to one connection: other writers, its requests, its polls and its failed ones.\<close>

datatype SubsAct = Grows "FactEvent list" | Subscribes string | Unsubscribes string | Polls | PollFails string

fun subs_act ::
    "SubsAct \<Rightarrow> SubscriptionInner \<times> FactEvent list \<Rightarrow> (SubscriptionInner \<times> FactEvent list) \<times> (usize \<times> string) list" where
  "subs_act (Grows es) (s, L) = ((s, L @ es), [])"
| "subs_act (Subscribes u) (s, L) = ((subscribe u (length L) s, L), [])"
| "subs_act (Unsubscribes u) (s, L) = ((unsubscribe u s, L), [])"
| "subs_act Polls (s, L) = (case poll_begin s of
      None \<Rightarrow> ((s, L), [])
    | Some snap \<Rightarrow> (case poll_end snap (Inr L) s of (s', us) \<Rightarrow> ((s', L), map (Pair (length L)) us)))"
| "subs_act (PollFails e) (s, L) = (case poll_begin s of
      None \<Rightarrow> ((s, L), [])
    | Some snap \<Rightarrow> (case poll_end snap (Inl e) s of (s', us) \<Rightarrow> ((s', L), map (Pair (length L)) us)))"

fun subs_run ::
    "SubsAct list \<Rightarrow> SubscriptionInner \<times> FactEvent list \<Rightarrow> (SubscriptionInner \<times> FactEvent list) \<times> (usize \<times> string) list" where
  "subs_run [] x = (x, [])"
| "subs_run (a # acts) x = (case subs_act a x of (y, out) \<Rightarrow> (case subs_run acts y of (z, out') \<Rightarrow> (z, out @ out')))"

text \<open>A stream that is subscribed from a baseline inside the log.\<close>

definition follows :: "string \<Rightarrow> usize \<Rightarrow> SubscriptionInner \<Rightarrow> FactEvent list \<Rightarrow> bool" where
  "follows u b s L \<longleftrightarrow> u \<in> uris s \<and> seen_events s = Some b \<and> b \<le> length L"

lemma subs_act_follows:
  assumes "follows u b s L" and "a \<noteq> Unsubscribes u" and "subs_act a (s, L) = ((s', L'), out)"
  shows "\<exists>b' es. L' = L @ es \<and> follows u b' s' L' \<and> b \<le> b' \<and> (a = Polls \<longrightarrow> b' = length L') \<and>
    (\<forall>i. b \<le> i \<and> i < b' \<and> event_uri (L' ! i) = u \<longrightarrow> (\<exists>h. (h, u) \<in> set out \<and> i < h)) \<and>
    (\<forall>h v. (h, v) \<in> set out \<longrightarrow> h \<le> length L' \<and> (\<exists>i. b \<le> i \<and> i < h \<and> event_uri (L' ! i) = v))"
proof (cases a)
  case Polls
  have "x \<in> set (drop b L) \<longleftrightarrow> (\<exists>i. b \<le> i \<and> i < length L \<and> L ! i = x)" for x
  proof
    assume "\<exists>i. b \<le> i \<and> i < length L \<and> L ! i = x"
    then obtain i where "b \<le> i" "i < length L" "L ! i = x" by blast
    then have "drop b L ! (i - b) = x" "i - b < length (drop b L)" by simp_all
    then show "x \<in> set (drop b L)" by (metis nth_mem)
  next
    assume "x \<in> set (drop b L)"
    then obtain k where "k < length L - b" "L ! (b + k) = x" by (auto simp: in_set_conv_nth)
    then show "\<exists>i. b \<le> i \<and> i < length L \<and> L ! i = x" by (intro exI [of _ "b + k"]) auto
  qed
  then have new: "v \<in> set (map event_uri (drop b L)) \<longleftrightarrow> (\<exists>i. b \<le> i \<and> i < length L \<and> event_uri (L ! i) = v)" for v
    by auto
  have s': "s' = s\<lparr>seen_events := Some (length L)\<rparr>" "L' = L"
    "out = map (Pair (length L)) (filter (\<lambda>v. v \<in> uris s) (sort (remdups (map event_uri (drop b L)))))"
    using assms(1,3) Polls by (auto simp: follows_def poll_begin_def poll_end_def Let_def split: if_splits)
  then have "follows u (length L) s' L'" using assms(1) by (simp add: follows_def)
  moreover have "(h, v) \<in> set out \<longleftrightarrow> h = length L \<and> v \<in> uris s \<and> (\<exists>i. b \<le> i \<and> i < length L \<and> event_uri (L ! i) = v)" for h v
    unfolding s'(3) new [symmetric] by auto
  ultimately show ?thesis
    using assms(1) s'(2) unfolding follows_def by (intro exI [of _ "length L"] exI [of _ "[]"]) auto
next
  case (PollFails e)
  with assms(1,3) have "s' = s" "L' = L" "out = []"
    by (auto simp: follows_def poll_begin_def poll_end_def split: if_splits)
  with assms(1) PollFails show ?thesis by auto
next
  case (Unsubscribes v)
  with assms have "u \<in> uris s - {v}" "s' = unsubscribe v s" "L' = L" "out = []" by (auto simp: follows_def)
  with assms(1) Unsubscribes show ?thesis by (auto simp: follows_def unsubscribe_def Let_def)
qed (use assms in \<open>auto simp: follows_def subscribe_def\<close>)

text \<open>
  C29: No change of a subscribed stream is lost or invented by undisturbed polls. Whatever other writers
  append, whatever else is subscribed or dropped and however many polls fail, from the baseline of
  the subscription on every event of the stream is notified by a poll that saw it, or is still ahead
  of the baseline, where the next poll finds it; right after a poll nothing is ahead. Every
  notification is for a stream that changed since.
\<close>

theorem subscribed_stream_notified:
  assumes "subs_run acts (s, L) = ((s', L'), out)" and "follows u b s L" and "Unsubscribes u \<notin> set acts"
  shows "\<exists>b'. follows u b' s' L' \<and> b \<le> b' \<and>
    (\<forall>i. b \<le> i \<and> i < b' \<and> event_uri (L' ! i) = u \<longrightarrow> (\<exists>h. (h, u) \<in> set out \<and> i < h)) \<and>
    (acts \<noteq> [] \<and> last acts = Polls \<longrightarrow> b' = length L') \<and>
    (\<forall>h v. (h, v) \<in> set out \<longrightarrow> (\<exists>i. b \<le> i \<and> i < h \<and> h \<le> length L' \<and> event_uri (L' ! i) = v))"
proof -
  have "\<exists>b' es. L' = L @ es \<and> follows u b' s' L' \<and> b \<le> b' \<and> (acts \<noteq> [] \<and> last acts = Polls \<longrightarrow> b' = length L') \<and>
    (\<forall>i. b \<le> i \<and> i < b' \<and> event_uri (L' ! i) = u \<longrightarrow> (\<exists>h. (h, u) \<in> set out \<and> i < h)) \<and>
    (\<forall>h v. (h, v) \<in> set out \<longrightarrow> h \<le> length L' \<and> (\<exists>i. b \<le> i \<and> i < h \<and> event_uri (L' ! i) = v))"
    using assms
  proof (induction acts arbitrary: s L b out)
    case (Cons a acts)
    obtain s1 L1 out1 where a: "subs_act a (s, L) = ((s1, L1), out1)" by (metis prod.exhaust)
    then obtain out2 where r: "subs_run acts (s1, L1) = ((s', L'), out2)" and out: "out = out1 @ out2"
      using Cons.prems(1) by (auto split: prod.splits)
    have "a \<noteq> Unsubscribes u" "Unsubscribes u \<notin> set acts" using Cons.prems(3) by auto
    from subs_act_follows [OF Cons.prems(2) this(1) a] obtain b1 es1 where
      L1: "L1 = L @ es1" and f1: "follows u b1 s1 L1" and le1: "b \<le> b1" and p1: "a = Polls \<longrightarrow> b1 = length L1"
      and told1: "\<forall>i. b \<le> i \<and> i < b1 \<and> event_uri (L1 ! i) = u \<longrightarrow> (\<exists>h. (h, u) \<in> set out1 \<and> i < h)"
      and true1: "\<forall>h v. (h, v) \<in> set out1 \<longrightarrow> h \<le> length L1 \<and> (\<exists>i. b \<le> i \<and> i < h \<and> event_uri (L1 ! i) = v)"
      by (elim exE conjE) (rule that)
    from Cons.IH [OF r f1 \<open>Unsubscribes u \<notin> set acts\<close>] obtain b2 es2 where
      L': "L' = L1 @ es2" and f2: "follows u b2 s' L'" and le2: "b1 \<le> b2"
      and p2: "acts \<noteq> [] \<and> last acts = Polls \<longrightarrow> b2 = length L'"
      and told2: "\<forall>i. b1 \<le> i \<and> i < b2 \<and> event_uri (L' ! i) = u \<longrightarrow> (\<exists>h. (h, u) \<in> set out2 \<and> i < h)"
      and true2: "\<forall>h v. (h, v) \<in> set out2 \<longrightarrow> h \<le> length L' \<and> (\<exists>i. b1 \<le> i \<and> i < h \<and> event_uri (L' ! i) = v)"
      by (elim exE conjE) (rule that)
    have same: "L' ! i = L1 ! i" if "i < length L1" for i using that by (simp add: L' nth_append)
    have b1: "b1 \<le> length L1" using f1 by (simp add: follows_def)
    have told: "\<exists>h. (h, u) \<in> set out \<and> i < h" if "b \<le> i" "i < b2" "event_uri (L' ! i) = u" for i
    proof (cases "i < b1")
      case True
      with told1 that(1,3) same [of i] b1 obtain h where "(h, u) \<in> set out1" "i < h" by auto
      then show ?thesis by (auto simp: out)
    next
      case False
      with told2 that(2,3) obtain h where "(h, u) \<in> set out2" "i < h" by (auto simp: not_less)
      then show ?thesis by (auto simp: out)
    qed
    have true: "h \<le> length L' \<and> (\<exists>i. b \<le> i \<and> i < h \<and> event_uri (L' ! i) = v)" if "(h, v) \<in> set out" for h v
    proof (cases "(h, v) \<in> set out1")
      case True
      then obtain i where "h \<le> length L1" "b \<le> i" "i < h" "event_uri (L1 ! i) = v" using true1 by blast
      then show ?thesis using same [of i] by (auto simp: L')
    next
      case False
      with that have "(h, v) \<in> set out2" by (simp add: out)
      then obtain i where "h \<le> length L'" "b1 \<le> i" "i < h" "event_uri (L' ! i) = v" using true2 by blast
      moreover have "b \<le> i" using le1 \<open>b1 \<le> i\<close> by simp
      ultimately show ?thesis by blast
    qed
    have last: "a # acts \<noteq> [] \<and> last (a # acts) = Polls \<longrightarrow> b2 = length L'"
    proof (cases "acts = []")
      case True
      then have "L' = L1" "s' = s1" using r by auto
      with f1 f2 p1 True show ?thesis by (simp add: follows_def)
    qed (use p2 in simp)
    have "L' = L @ (es1 @ es2)" by (simp add: L' L1)
    show ?case
    proof (intro exI [of _ b2] exI [of _ "es1 @ es2"] conjI)
      show "\<forall>i. b \<le> i \<and> i < b2 \<and> event_uri (L' ! i) = u \<longrightarrow> (\<exists>h. (h, u) \<in> set out \<and> i < h)" using told by blast
      show "\<forall>h v. (h, v) \<in> set out \<longrightarrow> h \<le> length L' \<and> (\<exists>i. b \<le> i \<and> i < h \<and> event_uri (L' ! i) = v)" using true by blast
    qed (use \<open>L' = L @ (es1 @ es2)\<close> f2 le1 le2 last in simp_all)
  qed (auto simp: follows_def)
  then show ?thesis by blast
qed

section \<open>A subscription during a poll\<close>

text \<open>
  C30: A subscription that lands inside a poll can lose a change. When a URI is subscribed after a poll
  took its copy, the URI was not subscribed before and events of it are appended before the poll
  reads the log, then the poll does not notify them, and moves the baseline past them: no later poll
  over the same log notifies them either, although the subscription stands.
\<close>

theorem subscribe_during_poll_loses:
  assumes "poll_begin s = Some snap" and "follows v b s L" and "u \<notin> uris s"
    and "poll_end snap (Inr (L @ es)) (subscribe u (length L) s) = (s', out)"
  shows "u \<in> uris s' \<and> u \<notin> set out \<and> seen_events s' = Some (length (L @ es)) \<and>
    (\<forall>n. subs_run (replicate n Polls) (s', L @ es) = ((s', L @ es), []))"
proof -
  have s': "s' = (subscribe u (length L) s)\<lparr>seen_events := Some (length (L @ es))\<rparr>" and out: "u \<notin> set out"
    using assms by (auto simp: poll_begin_def poll_end_def follows_def Let_def split: if_splits)
  then have u: "u \<in> uris s'" and seen: "seen_events s' = Some (length (L @ es))" by (simp_all add: subscribe_def)
  then have "uris s' \<noteq> {}" by blast
  with seen have "subs_act Polls (s', L @ es) = ((s', L @ es), [])"
    by (simp add: poll_begin_def poll_end_def)
  then have "subs_run (replicate n Polls) (s', L @ es) = ((s', L @ es), [])" for n
    by (induction n) (simp_all del: subs_act.simps)
  with u seen out show ?thesis by simp
qed

section \<open>Witnesses\<close>

definition following_a :: SubscriptionInner where
  "following_a = subscribe (event_uri (sample_assert ''a'' ''f'' Low)) 0 SubscriptionInner_default"

theorem subscribed_stream_notified_witness:
  "\<exists>s' h. subs_run [Grows [sample_assert ''a'' ''f'' Low], PollFails ''locked'', Polls] (following_a, []) =
     ((s', [sample_assert ''a'' ''f'' Low]), [(h, event_uri (sample_assert ''a'' ''f'' Low))]) \<and> 0 < h"
proof -
  let ?u = "event_uri (sample_assert ''a'' ''f'' Low)"
  obtain s' out where r: "subs_run [Grows [sample_assert ''a'' ''f'' Low], PollFails ''locked'', Polls] (following_a, []) =
      ((s', [sample_assert ''a'' ''f'' Low]), out)" and one: "length out = 1"
    by (simp add: following_a_def subscribe_def SubscriptionInner_default_def poll_begin_def poll_end_def)
  have "follows ?u 0 following_a []" by (simp add: follows_def following_a_def subscribe_def SubscriptionInner_default_def)
  from subscribed_stream_notified [OF r this] obtain b' where
    "b' = 1" "\<forall>i. i < b' \<and> event_uri ([sample_assert ''a'' ''f'' Low] ! i) = ?u \<longrightarrow> (\<exists>h. (h, ?u) \<in> set out \<and> i < h)"
    by auto
  then obtain h where h: "(h, ?u) \<in> set out" "0 < h" by (metis less_one nth_Cons_0)
  obtain z where z: "out = [z]" using one by (cases out) auto
  with h have "out = [(h, ?u)]" by simp
  with r h(2) show ?thesis by blast
qed

text \<open>The stream of the appended event is the one that was subscribed; it is never notified.\<close>

theorem subscribe_during_poll_loses_witness:
  "\<exists>snap s' out u. poll_begin \<lparr>uris = {''dent8://x/y/z''}, seen_events = Some 0\<rparr> = Some snap \<and>
     u = event_uri (sample_assert ''a'' ''f'' Low) \<and>
     poll_end snap (Inr [sample_assert ''a'' ''f'' Low]) (subscribe u 0 \<lparr>uris = {''dent8://x/y/z''}, seen_events = Some 0\<rparr>) = (s', out) \<and>
     u \<in> uris s' \<and> (\<forall>n. snd (subs_run (replicate n Polls) (s', [sample_assert ''a'' ''f'' Low])) = []) \<and> out = []"
proof -
  let ?s = "\<lparr>uris = {''dent8://x/y/z''}, seen_events = Some 0\<rparr> :: SubscriptionInner"
  let ?u = "event_uri (sample_assert ''a'' ''f'' Low)"
  have b: "poll_begin ?s = Some ({''dent8://x/y/z''}, Some 0)" by (simp add: poll_begin_def)
  have f: "follows ''dent8://x/y/z'' 0 ?s []" by (simp add: follows_def)
  have u: "?u \<notin> uris ?s" by code_simp
  obtain s' out where e: "poll_end ({''dent8://x/y/z''}, Some 0) (Inr ([] @ [sample_assert ''a'' ''f'' Low])) (subscribe ?u (length ([] :: FactEvent list)) ?s) = (s', out)"
    by force
  have "out = []" using e u by (auto simp: poll_end_def split: if_splits)
  with subscribe_during_poll_loses [OF b f u e] b e show ?thesis by auto
qed

end
