(* ===== verification/Mcp_Tools.thy ===== *)
theory Mcp_Tools
  imports Op_Context Mcp_Subscriptions Op_Retry
begin

text \<open>
  The tools of the MCP server (\<open>dispatch_tool\<close> of \<open>crates/dent8-cli/src/mcp.rs\<close>): the arguments
  are read off a JSON value, an operation runs, and its outcome is the result. \<open>serde_json\<close>'s
  \<open>Value\<close> is a parameter, reached through the accessors that the code calls. A result is modelled up to
  what it reports of the store; its text and JSON are not rendered, but for the message of a write.
  Four tools whose arms only read (\<open>runtime_status\<close>, \<open>snapshot\<close>, \<open>native_scan\<close> and
  \<open>native_reconcile\<close>) are one parameter, which cannot change the world.
\<close>

section \<open>Values and errors\<close>

record 'v Json =
  json_get :: "'v \<Rightarrow> string \<Rightarrow> 'v option"
  as_str :: "'v \<Rightarrow> string option"
  as_array :: "'v \<Rightarrow> 'v list option"
  as_bool :: "'v \<Rightarrow> bool option"
  as_i64 :: "'v \<Rightarrow> i64 option"
  is_object :: "'v \<Rightarrow> bool"
  is_string :: "'v \<Rightarrow> bool"
  is_number :: "'v \<Rightarrow> bool"
  is_null :: "'v \<Rightarrow> bool"
  json_null :: 'v
  empty_object :: 'v

datatype ToolError =
    Unknown string
  | Invalid ErrorCode string
  | Rejected ErrorCode string
  | Failed string

definition tool_invalid :: "string \<Rightarrow> ToolError" where
  "tool_invalid m = ToolError.Invalid InvalidArgument m"

fun tool_message :: "ToolError \<Rightarrow> string" where
  "tool_message (ToolError.Unknown m) = m"
| "tool_message (ToolError.Failed m) = m"
| "tool_message (ToolError.Invalid _ m) = m"
| "tool_message (ToolError.Rejected _ m) = m"

fun tool_error_status :: "ToolError \<Rightarrow> Status" where
  "tool_error_status (ToolError.Unknown _) = Status.Status.Invalid"
| "tool_error_status (ToolError.Invalid _ _) = Status.Status.Invalid"
| "tool_error_status (ToolError.Rejected _ _) = Status.Status.Rejected"
| "tool_error_status (ToolError.Failed _) = Status.Status.Failed"

fun tool_error_code :: "ToolError \<Rightarrow> ErrorCode" where
  "tool_error_code (ToolError.Unknown _) = UnknownTool"
| "tool_error_code (ToolError.Invalid c _) = c"
| "tool_error_code (ToolError.Rejected c _) = c"
| "tool_error_code (ToolError.Failed _) = OperationFailed"

fun into_tool_error :: "OpError \<Rightarrow> ToolError" where
  "into_tool_error (OpError.Invalid c m) = ToolError.Invalid c m"
| "into_tool_error (OpError.Rejected c m) = ToolError.Rejected c m"
| "into_tool_error (OpError.Conflict m) = ToolError.Rejected (code (OpError.Conflict m)) m"

type_synonym 'a tool = "World \<Rightarrow> World \<times> (ToolError fault + 'a)"

definition tool_return :: "'a \<Rightarrow> 'a tool" where
  "tool_return x w = (w, Inr x)"

definition tool_lift :: "ToolError + 'a \<Rightarrow> 'a tool" where
  "tool_lift r w = (w, map_err Fail r)"

definition tool_bind :: "'a tool \<Rightarrow> ('a \<Rightarrow> 'b tool) \<Rightarrow> 'b tool" where
  "tool_bind m f w = (case m w of (w', Inl e) \<Rightarrow> (w', Inl e) | (w', Inr x) \<Rightarrow> f x w')"

definition run_op :: "'a op \<Rightarrow> 'a tool" where
  "run_op m w = (case m w of (w', r) \<Rightarrow> (w', map_err (fault_map into_tool_error) r))"

text \<open>An \<open>Ok\<close> or \<open>Err\<close> that the caller looks at; a panic is neither.\<close>

definition tool_try :: "'a tool \<Rightarrow> (ToolError + 'a) tool" where
  "tool_try m w = (case m w of
      (w', Inl Panic) \<Rightarrow> (w', Inl Panic)
    | (w', Inl (Fail e)) \<Rightarrow> (w', Inr (Inl e))
    | (w', Inr x) \<Rightarrow> (w', Inr (Inr x)))"

section \<open>Arguments\<close>

definition arg :: "'v Json \<Rightarrow> 'v \<Rightarrow> string \<Rightarrow> ToolError + string" where
  "arg J a name = ok_or (tool_invalid (''missing required string argument: '' @ name))
     (Option.bind (json_get J a name) (as_str J))"

definition parse_subject_str :: "string \<Rightarrow> string \<Rightarrow> ToolError + string \<times> string" where
  "parse_subject_str raw name = (case split_once (CHR '':'') raw of
      None \<Rightarrow> Inl (tool_invalid (''invalid '' @ name @ '' '' @ quoted raw @ '' (expected <kind>:<key>, e.g. person:alice)''))
    | Some (sk, key) \<Rightarrow>
        (case Subject_new sk key of
           Inl err \<Rightarrow> Inl (tool_invalid (''invalid '' @ name @ '' '' @ quoted raw @ '' (expected <kind>:<key>): '' @
             show_ValidationError err))
         | Inr _ \<Rightarrow> Inr (sk, key)))"

definition arg_subject :: "'v Json \<Rightarrow> 'v \<Rightarrow> string \<Rightarrow> ToolError + string \<times> string" where
  "arg_subject J a name = and_then (arg J a name) (\<lambda>raw. parse_subject_str raw name)"

definition optional_string :: "'v Json \<Rightarrow> 'v \<Rightarrow> string \<Rightarrow> ToolError + string option" where
  "optional_string J a name = (case json_get J a name of
      None \<Rightarrow> Inr None
    | Some v \<Rightarrow> if is_null J v then Inr None else
        (case as_str J v of Some s \<Rightarrow> Inr (Some s)
         | None \<Rightarrow> Inl (tool_invalid (''optional argument '' @ name @ '' must be a string''))))"

definition optional_bool :: "'v Json \<Rightarrow> 'v \<Rightarrow> string \<Rightarrow> ToolError + bool" where
  "optional_bool J a name = (case json_get J a name of
      None \<Rightarrow> Inr False
    | Some v \<Rightarrow> (case as_bool J v of Some b \<Rightarrow> Inr b
        | None \<Rightarrow> Inl (tool_invalid (''optional argument '' @ name @ '' must be a boolean''))))"

definition optional_i64 :: "'v Json \<Rightarrow> 'v \<Rightarrow> string \<Rightarrow> ToolError + i64 option" where
  "optional_i64 J a name = (case json_get J a name of
      None \<Rightarrow> Inr None
    | Some v \<Rightarrow> if is_null J v then Inr None else
        (case as_i64 J v of Some i \<Rightarrow> Inr (Some i)
         | None \<Rightarrow> Inl (tool_invalid (''optional argument '' @ name @ '' must be an integer (unix millis)''))))"

definition arg_validity :: "'v Json \<Rightarrow> 'v \<Rightarrow> ToolError + Validity" where
  "arg_validity J a =
     and_then (optional_i64 J a ''valid_from'') (\<lambda>f.
     and_then (optional_i64 J a ''valid_to'') (\<lambda>t.
       Inr \<lparr>validity_from = f, validity_to = t, validity_ttl = None\<rparr>))"

definition arg_read_clock :: "'v Json \<Rightarrow> 'v \<Rightarrow> ToolError + ReadClock" where
  "arg_read_clock J a =
     and_then (optional_i64 J a ''as_of'') (\<lambda>t.
     and_then (optional_i64 J a ''valid_at'') (\<lambda>v.
       Inr \<lparr>as_of = t, valid_at = v\<rparr>))"

definition parse_authority :: "string \<Rightarrow> AuthorityLevel option" where
  "parse_authority v = (let l = to_ascii_lowercase v in
     if l = ''low'' then Some Low else if l = ''medium'' then Some Medium
     else if l = ''high'' then Some High else if l = ''canonical'' then Some Canonical else None)"

definition optional_authority :: "'v Json \<Rightarrow> 'v \<Rightarrow> ToolError + AuthorityLevel option" where
  "optional_authority J a = and_then (optional_string J a ''authority'') (\<lambda>r. case r of
      None \<Rightarrow> Inr None
    | Some raw \<Rightarrow> map_ok Some (ok_or (tool_invalid (''unknown authority '' @ quoted raw @
        '' (expected: low | medium | high | canonical)'')) (parse_authority raw)))"

datatype DetailLevel = Full | Summary

definition arg_detail :: "'v Json \<Rightarrow> 'v \<Rightarrow> ToolError + DetailLevel" where
  "arg_detail J a = (case json_get J a ''detail'' of
      None \<Rightarrow> Inr Full
    | Some v \<Rightarrow> if is_null J v then Inr Full else
        (case as_str J v of
           None \<Rightarrow> Inl (tool_invalid ''optional argument detail must be a string'')
         | Some raw \<Rightarrow>
             if raw = ''full'' then Inr Full else if raw = ''summary'' then Inr Summary
             else Inl (tool_invalid (''invalid detail '' @ quoted raw @ '' (expected: full | summary)''))))"

text \<open>The policy of a counterfactual: at least one knob.\<close>

definition distrust_arg :: "'v Json \<Rightarrow> 'v \<Rightarrow> ToolError + SourceId set" where
  "distrust_arg J a = (case json_get J a ''distrust'' of
      None \<Rightarrow> Inr {}
    | Some v \<Rightarrow>
        and_then (ok_or (tool_invalid ''argument distrust must be an array of source ids'') (as_array J v)) (\<lambda>vs.
          map_ok set (try_map (\<lambda>x.
            and_then (ok_or (tool_invalid ''argument distrust must be an array of source ids'') (as_str J x)) (\<lambda>s.
              map_err (\<lambda>e. tool_invalid (''invalid source: '' @ show_IdError e)) (SourceId_new s))) vs)))"

definition authority_floor_arg :: "'v Json \<Rightarrow> 'v \<Rightarrow> ToolError + AuthorityLevel" where
  "authority_floor_arg J a = (case json_get J a ''authority_floor'' of
      None \<Rightarrow> Inr AuthorityLevel.Unknown
    | Some v \<Rightarrow> and_then (ok_or (tool_invalid ''argument authority_floor must be a string'') (as_str J v)) (\<lambda>name.
        ok_or (tool_invalid (''invalid authority_floor: '' @ show_debug name)) (parse_authority name)))"

definition confidence_floor_arg :: "'v Json \<Rightarrow> 'v \<Rightarrow> ToolError + Confidence" where
  "confidence_floor_arg J a = and_then (optional_i64 J a ''confidence_floor'') (\<lambda>r. case r of
      None \<Rightarrow> Inr Confidence_ZERO
    | Some i \<Rightarrow>
        if sint i < 0 \<or> 65535 < sint i then Inl (tool_invalid ''confidence_floor must be 0-1000'')
        else map_err (\<lambda>e. tool_invalid (''invalid confidence_floor: '' @ show_ValidationError e))
          (Confidence_from_millis (word_of_int (sint i))))"

definition arg_whatif_policy :: "'v Json \<Rightarrow> 'v \<Rightarrow> ToolError + EpistemicPolicy" where
  "arg_whatif_policy J a =
     and_then (distrust_arg J a) (\<lambda>ds.
     and_then (authority_floor_arg J a) (\<lambda>fl.
     and_then (confidence_floor_arg J a) (\<lambda>cf.
       let p = \<lparr>distrusted_sources = ds, authority_floor = fl, confidence_floor = cf\<rparr> in
       if is_identity p
       then Inl (tool_invalid (''whatif needs at least one policy knob (distrust, authority_floor, or '' @
         ''confidence_floor); without one it is the plain fold '' @ em_dash @ '' use explain''))
       else Inr p)))"

section \<open>The server\<close>

text \<open>
  What a server process holds: its JSON library, for each identity the environment whose write gate
  and signer act as it and its write defaults, the write lease, the variable
  \<open>DENT8_MCP_RECORD_RETRIEVAL\<close>, the four reporting tools, and the attestation check of \<open>verify\<close>.
\<close>

record ('j, 'v) Server =
  json :: "'v Json"
  env_of :: "IdentityContext WriteIdentity \<Rightarrow> 'j Env"
  defaults_of :: "IdentityContext WriteIdentity \<Rightarrow> string + WriteDefaults option"
  leases :: "nat \<Rightarrow> string option"
  retrieval_var :: "string option"
  report_tool :: "string \<Rightarrow> 'v \<Rightarrow> World \<Rightarrow> ToolError fault + string"
  attestation_issues :: "FactEvent list \<Rightarrow> string list \<times> string"

datatype Access = FullAccess | ReadOnly

fun access_for :: "'i WriteIdentity \<Rightarrow> Access" where
  "access_for Env = FullAccess"
| "access_for Unauthenticated = ReadOnly"
| "access_for (Connection _) = FullAccess"

definition is_write_tool :: "string \<Rightarrow> bool" where
  "is_write_tool name \<longleftrightarrow> name \<in> {''assert'', ''supersede'', ''retract'', ''contradict'', ''derive'', ''reinforce'', ''expire''}"

definition tool_persists :: "'v Json \<Rightarrow> string \<Rightarrow> 'v option \<Rightarrow> bool" where
  "tool_persists J name arguments \<longleftrightarrow> is_write_tool name \<or>
     name = ''context'' \<and> Option.bind (Option.bind arguments (\<lambda>a. json_get J a ''record_retrieval'')) (as_bool J) = Some True"

section \<open>Write tools\<close>

record ResolvedWriteMeta =
  meta_authority :: AuthorityLevel
  meta_source :: string

definition resolve_write_meta ::
    "'v Json \<Rightarrow> string + WriteDefaults option \<Rightarrow> 'v \<Rightarrow> ToolError + ResolvedWriteMeta" where
  "resolve_write_meta J defaults a =
     and_then (optional_authority J a) (\<lambda>lvl.
     and_then (optional_string J a ''source'') (\<lambda>src.
     case (lvl, src) of
       (Some l, Some s) \<Rightarrow> Inr \<lparr>meta_authority = l, meta_source = s\<rparr>
     | _ \<Rightarrow>
         and_then (map_err tool_invalid defaults) (\<lambda>d.
         and_then (ok_or (tool_invalid ''missing authority (or configure a signed source grant with DENT8_GRANT)'')
           (case lvl of Some l \<Rightarrow> Some l | None \<Rightarrow> map_option default_authority d)) (\<lambda>l.
         and_then (ok_or (tool_invalid ''missing source (or configure a signed source grant with DENT8_GRANT)'')
           (case src of Some s \<Rightarrow> Some s | None \<Rightarrow> map_option default_source d)) (\<lambda>s.
           Inr \<lparr>meta_authority = l, meta_source = s\<rparr>)))))"

record WriteContext =
  write_kind :: string
  write_key :: string
  write_predicate :: string
  attempted_value :: "string option"
  write_level :: AuthorityLevel
  write_source :: string

fun event_kind_name :: "FactEventKind \<Rightarrow> string" where
  "event_kind_name Asserted = ''Asserted''"
| "event_kind_name (FactEventKind.Superseded _ _) = ''Superseded''"
| "event_kind_name (FactEventKind.Contradicted _ _) = ''Contradicted''"
| "event_kind_name (FactEventKind.Retracted _) = ''Retracted''"
| "event_kind_name (FactEventKind.Expired _) = ''Expired''"
| "event_kind_name (Reinforced _) = ''Reinforced''"
| "event_kind_name (Retrieved _) = ''Retrieved''"
| "event_kind_name (UsedInDecision _) = ''UsedInDecision''"
| "event_kind_name (ChallengeRejected _ _ _) = ''ChallengeRejected''"

record AcceptedEvent =
  accepted_event_id :: string
  accepted_fact_id :: string
  accepted_kind :: string
  accepted_subject_kind :: string
  accepted_subject_key :: string
  accepted_predicate :: string
  accepted_value :: "FactValue option"
  accepted_authority :: string
  accepted_source :: string
  accepted_hash :: string

definition accepted_event :: "FactEvent \<Rightarrow> string \<Rightarrow> AcceptedEvent" where
  "accepted_event e h = \<lparr>
     accepted_event_id = event_str (event_id e), accepted_fact_id = fact_str (FactEvent.fact_id e),
     accepted_kind = event_kind_name (FactEvent.kind e),
     accepted_subject_kind = Model.subject_kind (FactEvent.subject e),
     accepted_subject_key = Model.subject_key (FactEvent.subject e),
     accepted_predicate = predicate_str (FactEvent.predicate e), accepted_value = FactEvent.val e,
     accepted_authority = AuthorityLevel_name (event_level e), accepted_source = source_str (event_source e),
     accepted_hash = h\<rparr>"

text \<open>\<open>all_events\<close> of \<open>mcp.rs\<close>\<close>

definition log_events :: "'j Env \<Rightarrow> FactEvent list tool" where
  "log_events E w = (case scan_all E w of (w', r) \<Rightarrow> (w', map_err (fault_map ToolError.Failed) r))"

definition accepted_events_since ::
    "'j Externs \<Rightarrow> FactEvent list \<Rightarrow> usize \<Rightarrow> ToolError + AcceptedEvent list" where
  "accepted_events_since X es start =
     and_then (map_err (\<lambda>e. ToolError.Failed (''could not hash accepted events: '' @ show_CanonError e)) (hash_chain X es)) (\<lambda>hs.
       Inr (map (\<lambda>(e, h). accepted_event e h) (drop start (zip es hs))))"

datatype ToolOutput =
    WriteOutput string Status WriteContext string "AcceptedEvent list" "IntegrityReceipt option"
      "(string \<times> string \<times> string) option"
  | ContextOutput DetailLevel ContextOutcome
  | ListOutput "ListedFact list" bool usize
  | VerifyOutput bool string
  | ConflictsOutput Status "ConflictFact list"
  | ExplainOutput DetailLevel IntegrityReceipt
  | ExplainBatch DetailLevel Status "(string \<times> string \<times> (ToolError + IntegrityReceipt)) list"
  | ReplayOutput ReplayOutcome "IntegrityReceipt option"
  | WhatifOutput WhatifOutcome
  | ReportOutput string string

text \<open>\<open>write_output\<close>: the receipt of the current fact, when it can be read.\<close>

definition write_output ::
    "'j Env \<Rightarrow> string \<Rightarrow> Status \<Rightarrow> WriteContext \<Rightarrow> string \<Rightarrow> AcceptedEvent list \<Rightarrow> ToolOutput tool" where
  "write_output E tool_name st c msg accepted =
     tool_bind (tool_try (run_op (op_explain_receipt E (write_kind c) (write_key c) (write_predicate c) ReadClock_default))) (\<lambda>r.
     tool_return (WriteOutput tool_name st c msg accepted
       (case r of Inr rc \<Rightarrow> Some rc | Inl _ \<Rightarrow> None) None))"

definition run_write_tool ::
    "'j Env \<Rightarrow> (nat \<Rightarrow> string option) \<Rightarrow> string \<Rightarrow> Status \<Rightarrow> WriteContext \<Rightarrow> string op \<Rightarrow> ToolOutput tool" where
  "run_write_tool E lease tool_name st c m =
     tool_bind (log_events E) (\<lambda>before.
     tool_bind (run_op (with_write_retry lease m)) (\<lambda>msg.
     tool_bind (tool_try (log_events E)) (\<lambda>after.
     write_output E tool_name st c msg
       (case and_then after (\<lambda>es. accepted_events_since (externs E) es (length before)) of
          Inr accepted \<Rightarrow> accepted | Inl _ \<Rightarrow> []))))"

section \<open>The arms\<close>

text \<open>The subject, the predicate and the value, read in the order of the arms.\<close>

definition triple_args :: "'v Json \<Rightarrow> 'v \<Rightarrow> ToolError + string \<times> string \<times> string" where
  "triple_args J a =
     and_then (arg_subject J a ''subject'') (\<lambda>(sk, key).
     and_then (arg J a ''predicate'') (\<lambda>pred. Inr (sk, key, pred)))"

definition assert_tool :: "('j, 'v) Server \<Rightarrow> 'v \<Rightarrow> IdentityContext WriteIdentity \<Rightarrow> ToolOutput tool" where
  "assert_tool S a i = (let J = json S; E = env_of S i in
     tool_bind (tool_lift (resolve_write_meta J (defaults_of S i) a)) (\<lambda>m.
     tool_bind (tool_lift (triple_args J a)) (\<lambda>(sk, key, pred).
     tool_bind (tool_lift (arg J a ''value'')) (\<lambda>v.
     tool_bind (tool_lift (arg_validity J a)) (\<lambda>va.
     run_write_tool E (leases S) ''assert'' Status.Accepted
       \<lparr>write_kind = sk, write_key = key, write_predicate = pred, attempted_value = Some v,
        write_level = meta_authority m, write_source = meta_source m\<rparr>
       (op_assert E sk key pred v (meta_authority m) (meta_source m) va))))))"

definition supersede_tool :: "('j, 'v) Server \<Rightarrow> 'v \<Rightarrow> IdentityContext WriteIdentity \<Rightarrow> ToolOutput tool" where
  "supersede_tool S a i = (let J = json S; E = env_of S i in
     tool_bind (tool_lift (resolve_write_meta J (defaults_of S i) a)) (\<lambda>m.
     tool_bind (tool_lift (triple_args J a)) (\<lambda>(sk, key, pred).
     tool_bind (tool_lift (arg J a ''value'')) (\<lambda>v.
     tool_bind (tool_lift (arg_validity J a)) (\<lambda>va.
     run_write_tool E (leases S) ''supersede'' Status.Accepted
       \<lparr>write_kind = sk, write_key = key, write_predicate = pred, attempted_value = Some v,
        write_level = meta_authority m, write_source = meta_source m\<rparr>
       (op_supersede E sk key pred v (meta_authority m) (meta_source m) va))))))"

definition retract_tool :: "('j, 'v) Server \<Rightarrow> 'v \<Rightarrow> IdentityContext WriteIdentity \<Rightarrow> ToolOutput tool" where
  "retract_tool S a i = (let J = json S; E = env_of S i in
     tool_bind (tool_lift (resolve_write_meta J (defaults_of S i) a)) (\<lambda>m.
     tool_bind (tool_lift (triple_args J a)) (\<lambda>(sk, key, pred).
     run_write_tool E (leases S) ''retract'' Status.Accepted
       \<lparr>write_kind = sk, write_key = key, write_predicate = pred, attempted_value = None,
        write_level = meta_authority m, write_source = meta_source m\<rparr>
       (op_retract E sk key pred (meta_authority m) (meta_source m)))))"

definition reinforce_tool :: "('j, 'v) Server \<Rightarrow> 'v \<Rightarrow> IdentityContext WriteIdentity \<Rightarrow> ToolOutput tool" where
  "reinforce_tool S a i = (let J = json S; E = env_of S i in
     tool_bind (tool_lift (resolve_write_meta J (defaults_of S i) a)) (\<lambda>m.
     tool_bind (tool_lift (triple_args J a)) (\<lambda>(sk, key, pred).
     run_write_tool E (leases S) ''reinforce'' Status.Accepted
       \<lparr>write_kind = sk, write_key = key, write_predicate = pred, attempted_value = None,
        write_level = meta_authority m, write_source = meta_source m\<rparr>
       (op_reinforce E sk key pred (meta_authority m) (meta_source m)))))"

definition expire_tool :: "('j, 'v) Server \<Rightarrow> 'v \<Rightarrow> IdentityContext WriteIdentity \<Rightarrow> ToolOutput tool" where
  "expire_tool S a i = (let J = json S; E = env_of S i in
     tool_bind (tool_lift (resolve_write_meta J (defaults_of S i) a)) (\<lambda>m.
     tool_bind (tool_lift (triple_args J a)) (\<lambda>(sk, key, pred).
     run_write_tool E (leases S) ''expire'' Status.Accepted
       \<lparr>write_kind = sk, write_key = key, write_predicate = pred, attempted_value = None,
        write_level = meta_authority m, write_source = meta_source m\<rparr>
       (op_expire E sk key pred (meta_authority m) (meta_source m)))))"

fun with_basis :: "string \<times> string \<times> string \<Rightarrow> ToolOutput \<Rightarrow> ToolOutput" where
  "with_basis b (WriteOutput t st c msg accepted rc _) = WriteOutput t st c msg accepted rc (Some b)"
| "with_basis b out = out"

definition derive_tool :: "('j, 'v) Server \<Rightarrow> 'v \<Rightarrow> IdentityContext WriteIdentity \<Rightarrow> ToolOutput tool" where
  "derive_tool S a i = (let J = json S; E = env_of S i in
     tool_bind (tool_lift (resolve_write_meta J (defaults_of S i) a)) (\<lambda>m.
     tool_bind (tool_lift (triple_args J a)) (\<lambda>(sk, key, pred).
     tool_bind (tool_lift (arg J a ''value'')) (\<lambda>v.
     tool_bind (tool_lift (arg_subject J a ''basis'')) (\<lambda>(fk, fkey).
     tool_bind (tool_lift (arg J a ''basis_predicate'')) (\<lambda>fp.
     tool_bind (tool_lift (arg_validity J a)) (\<lambda>va.
     tool_bind (run_write_tool E (leases S) ''derive'' Status.Accepted
       \<lparr>write_kind = sk, write_key = key, write_predicate = pred, attempted_value = Some v,
        write_level = meta_authority m, write_source = meta_source m\<rparr>
       (op_derive E sk key pred v (meta_authority m) (meta_source m) fk fkey fp va)) (\<lambda>out.
     tool_return (with_basis (fk, fkey, fp) out)))))))))"

definition contradict_tool :: "('j, 'v) Server \<Rightarrow> 'v \<Rightarrow> IdentityContext WriteIdentity \<Rightarrow> ToolOutput tool" where
  "contradict_tool S a i = (let J = json S; E = env_of S i in
     tool_bind (tool_lift (resolve_write_meta J (defaults_of S i) a)) (\<lambda>m.
     tool_bind (tool_lift (triple_args J a)) (\<lambda>(sk, key, pred).
     tool_bind (tool_lift (arg J a ''value'')) (\<lambda>v.
     tool_bind (tool_lift (arg_validity J a)) (\<lambda>va.
     run_write_tool E (leases S) ''contradict'' Status.Contested
       \<lparr>write_kind = sk, write_key = key, write_predicate = pred, attempted_value = Some v,
        write_level = meta_authority m, write_source = meta_source m\<rparr>
       (op_contradict E sk key pred v (meta_authority m) (meta_source m) va))))))"

definition context_args :: "'v Json \<Rightarrow> 'v \<Rightarrow> bool \<Rightarrow> string \<Rightarrow> ToolError + ContextArgs" where
  "context_args J a rec purpose =
     and_then (optional_string J a ''kind'') (\<lambda>sk.
     and_then (optional_string J a ''key'') (\<lambda>key.
     and_then (optional_string J a ''predicate'') (\<lambda>pred.
     and_then (optional_bool J a ''include_stale'') (\<lambda>stale.
     and_then (optional_bool J a ''include_diagnostics'') (\<lambda>diag.
       Inr \<lparr>context_kind = sk, context_key = key, context_predicate = pred, include_stale = stale,
         context_diagnostics = diag, record_retrieval = rec, context_purpose = purpose\<rparr>)))))"

definition context_tool :: "('j, 'v) Server \<Rightarrow> 'v \<Rightarrow> IdentityContext WriteIdentity \<Rightarrow> ToolOutput tool" where
  "context_tool S a i = (let J = json S; E = env_of S i in
     tool_bind (tool_lift (arg_detail J a)) (\<lambda>detail.
     tool_bind (tool_lift (optional_bool J a ''record_retrieval'')) (\<lambda>rec.
     tool_bind (tool_lift (optional_string J a ''purpose'')) (\<lambda>p.
     let purpose = (case p of Some x \<Rightarrow> x | None \<Rightarrow> if rec then ''mcp:context'' else ''context-pack'') in
     if trim purpose = [] then tool_lift (Inl (tool_invalid ''purpose must not be empty when provided''))
     else if rec \<and> access_for i \<noteq> FullAccess
     then tool_lift (Inl (tool_invalid (''record_retrieval requires a write-capable connection (prove a source identity; '' @
       ''unauthenticated connections may read context but cannot append retrieval audits)'')))
     else
     tool_bind (tool_lift (context_args J a rec purpose)) (\<lambda>ca.
     tool_bind (run_op (context_outcome E ca)) (\<lambda>out.
     tool_bind (if record_retrieval ca
         then tool_bind (run_op (record_pack_retrievals E (defaults_of S i) out (context_purpose ca)))
           (\<lambda>n. tool_return (out\<lparr>recorded_retrievals := Some n\<rparr>))
         else tool_return out) (\<lambda>final.
     tool_return (ContextOutput detail final))))))))"

definition list_facts :: "('j, 'v) Server \<Rightarrow> 'v \<Rightarrow> 'j Env \<Rightarrow> ToolOutput tool" where
  "list_facts S a E =
     tool_bind (tool_lift (optional_bool (json S) a ''include_diagnostics'')) (\<lambda>diag.
     tool_bind (run_op (op_list_subjects_with_freshness E True)) (\<lambda>all.
     let shown = (\<lambda>(sk, key, pred, fr). diag \<or> \<not> is_diagnostic_fact_stream sk key pred) in
     tool_return (ListOutput (filter shown all) diag (length (filter (\<lambda>x. \<not> shown x) all)))))"

text \<open>A verdict, good or bad, is a result.\<close>

definition verify_tool :: "('j, 'v) Server \<Rightarrow> 'j Env \<Rightarrow> ToolOutput tool" where
  "verify_tool S E w =
     (next_tick w, case verify_log (externs E) (codec E) (attestation_issues S) (log_path E) (read_log E w) (clock E (tick w)) of
        Inl Panic \<Rightarrow> Inl Panic
      | Inl (Fail report) \<Rightarrow> Inr (VerifyOutput False report)
      | Inr report \<Rightarrow> Inr (VerifyOutput True report))"

definition conflicts_tool :: "'j Env \<Rightarrow> ToolOutput tool" where
  "conflicts_tool E =
     tool_bind (run_op (conflicts_outcome E)) (\<lambda>cs.
     tool_return (ConflictsOutput (if cs = [] then Status.Ok else Status.Contested) cs))"

definition batch_query :: "'v Json \<Rightarrow> nat \<times> 'v \<Rightarrow> ToolError + string \<times> string" where
  "batch_query J = (\<lambda>(n, entry).
     if \<not> is_object J entry
     then Inl (tool_invalid (''queries['' @ show_nat n @ ''] must be an object with subject and predicate''))
     else
       and_then (ok_or (tool_invalid (''queries['' @ show_nat n @ ''].subject is required''))
         (Option.bind (json_get J entry ''subject'') (as_str J))) (\<lambda>sj.
       and_then (ok_or (tool_invalid (''queries['' @ show_nat n @ ''].predicate is required''))
         (Option.bind (json_get J entry ''predicate'') (as_str J))) (\<lambda>pred.
         Inr (sj, pred))))"

definition batch_item :: "'j Env \<Rightarrow> ReadClock \<Rightarrow> string \<Rightarrow> string \<Rightarrow> (ToolError + IntegrityReceipt) tool" where
  "batch_item E ck sj pred = (case parse_subject_str sj ''subject'' of
      Inl e \<Rightarrow> tool_return (Inl e)
    | Inr (sk, key) \<Rightarrow> tool_try (run_op (op_explain_receipt E sk key pred ck)))"

fun batch_loop ::
    "'v Json \<Rightarrow> 'j Env \<Rightarrow> ReadClock \<Rightarrow> (nat \<times> 'v) list \<Rightarrow> (string \<times> string \<times> (ToolError + IntegrityReceipt)) list tool" where
  "batch_loop J E ck [] = tool_return []"
| "batch_loop J E ck (q # qs) =
     tool_bind (tool_lift (batch_query J q)) (\<lambda>(sj, pred).
     tool_bind (batch_item E ck sj pred) (\<lambda>r.
     tool_bind (batch_loop J E ck qs) (\<lambda>rest.
     tool_return ((sj, pred, r) # rest))))"

definition batch_status :: "(string \<times> string \<times> (ToolError + IntegrityReceipt)) list \<Rightarrow> Status" where
  "batch_status rs =
     (if \<exists>(sj, pred, r) \<in> set rs. (case r of Inr rc \<Rightarrow> IntegrityReceipt.lifecycle rc = FactLifecycle.Contested | Inl _ \<Rightarrow> False)
      then Status.Contested
      else if \<exists>(sj, pred, r) \<in> set rs. is_ok r then Status.Ok
      else if \<exists>(sj, pred, r) \<in> set rs. \<not> is_ok r then Status.Failed else Status.Ok)"

definition explain_batch :: "'v Json \<Rightarrow> 'j Env \<Rightarrow> DetailLevel \<Rightarrow> ReadClock \<Rightarrow> 'v \<Rightarrow> 'v \<Rightarrow> ToolOutput tool" where
  "explain_batch J E detail ck a queries =
     tool_bind (tool_lift (ok_or (tool_invalid ''argument queries must be an array of {subject, predicate} objects'')
       (as_array J queries))) (\<lambda>qs.
     if qs = [] then tool_lift (Inl (tool_invalid ''argument queries must contain at least one {{subject, predicate}} entry''))
     else if json_get J a ''subject'' \<noteq> None \<or> json_get J a ''predicate'' \<noteq> None
     then tool_lift (Inl (tool_invalid ''explain accepts either subject+predicate or queries[], not both''))
     else
     tool_bind (batch_loop J E ck (enumerate 0 qs)) (\<lambda>rs.
     tool_return (ExplainBatch detail (batch_status rs) rs)))"

definition explain_tool :: "('j, 'v) Server \<Rightarrow> 'v \<Rightarrow> 'j Env \<Rightarrow> ToolOutput tool" where
  "explain_tool S a E = (let J = json S in
     tool_bind (tool_lift (arg_detail J a)) (\<lambda>detail.
     tool_bind (tool_lift (arg_read_clock J a)) (\<lambda>ck.
     case json_get J a ''queries'' of
       Some queries \<Rightarrow> explain_batch J E detail ck a queries
     | None \<Rightarrow>
         tool_bind (tool_lift (triple_args J a)) (\<lambda>(sk, key, pred).
         tool_bind (run_op (op_explain_receipt E sk key pred ck)) (\<lambda>rc.
         tool_bind (if detail = Summary then tool_return rc else run_op (op_explain_receipt E sk key pred ck)) (\<lambda>_.
         tool_return (ExplainOutput detail rc)))))))"

definition replay_tool :: "('j, 'v) Server \<Rightarrow> 'v \<Rightarrow> 'j Env \<Rightarrow> ToolOutput tool" where
  "replay_tool S a E =
     tool_bind (tool_lift (triple_args (json S) a)) (\<lambda>(sk, key, pred).
     tool_bind (tool_lift (arg_read_clock (json S) a)) (\<lambda>ck.
     tool_bind (run_op (replay_outcome E sk key pred ck)) (\<lambda>out.
     tool_bind (tool_try (run_op (op_explain_receipt E sk key pred ck))) (\<lambda>r.
     tool_return (ReplayOutput out (case r of Inr rc \<Rightarrow> Some rc | Inl _ \<Rightarrow> None))))))"

definition whatif_tool :: "('j, 'v) Server \<Rightarrow> 'v \<Rightarrow> 'j Env \<Rightarrow> ToolOutput tool" where
  "whatif_tool S a E =
     tool_bind (tool_lift (triple_args (json S) a)) (\<lambda>(sk, key, pred).
     tool_bind (tool_lift (arg_whatif_policy (json S) a)) (\<lambda>p.
     tool_bind (run_op (op_whatif E sk key pred p)) (\<lambda>out.
     tool_return (WhatifOutput out))))"

definition is_report_tool :: "string \<Rightarrow> bool" where
  "is_report_tool name \<longleftrightarrow> name \<in> {''runtime_status'', ''snapshot'', ''native_scan'', ''native_reconcile''}"

definition dispatch_tool :: "('j, 'v) Server \<Rightarrow> string \<Rightarrow> 'v \<Rightarrow> IdentityContext WriteIdentity \<Rightarrow> ToolOutput tool" where
  "dispatch_tool S name a i =
     (if is_report_tool name then (\<lambda>w. (w, map_ok (ReportOutput name) (report_tool S name a w)))
      else if name = ''context'' then context_tool S a i
      else if name = ''list_facts'' then list_facts S a (env_of S i)
      else if name = ''verify'' then verify_tool S (env_of S i)
      else if name = ''conflicts'' then conflicts_tool (env_of S i)
      else if name = ''assert'' then assert_tool S a i
      else if name = ''supersede'' then supersede_tool S a i
      else if name = ''retract'' then retract_tool S a i
      else if name = ''reinforce'' then reinforce_tool S a i
      else if name = ''expire'' then expire_tool S a i
      else if name = ''derive'' then derive_tool S a i
      else if name = ''contradict'' then contradict_tool S a i
      else if name = ''explain'' then explain_tool S a (env_of S i)
      else if name = ''replay'' then replay_tool S a (env_of S i)
      else if name = ''whatif'' then whatif_tool S a (env_of S i)
      else tool_lift (Inl (ToolError.Unknown (''unknown tool: '' @ name))))"

end
