(* ===== verification/Mcp_Effects.thy ===== *)
theory Mcp_Effects
  imports Mcp_Tools Op_Effects
begin

text \<open>
  What the tools do to the log. A log is sound when it parses without corrupt lines, replays and ends
  its last line; every tool keeps a sound log sound and only appends to it, a tool that is not a
  write tool and records no retrieval leaves it alone, and a write tool reports exactly what it
  appended.
\<close>

section \<open>Sound logs\<close>

definition log_of :: "Codec \<Rightarrow> World \<Rightarrow> FactEvent list" where
  "log_of K w = fst (parse_jsonl_events K (text_of (contents w)))"

definition sound_log :: "Codec \<Rightarrow> World \<Rightarrow> bool" where
  "sound_log K w \<longleftrightarrow> log_inv (log_of K w) \<and> snd (parse_jsonl_events K (text_of (contents w))) = [] \<and> ends_line (contents w)"

lemma log_of_events: "codec E = K \<Longrightarrow> events_at E (contents w) = log_of K w"
  by (auto simp: events_at_def log_of_def)

lemma sound_start: "contents w = None \<Longrightarrow> sound_log K w"
  by (simp add: sound_log_def log_of_def text_of_def parse_jsonl_events_def str_lines_def ends_line_def log_inv_Nil)

lemma sound_cong: "contents w' = contents w \<Longrightarrow> sound_log K w' = sound_log K w \<and> log_of K w' = log_of K w"
  by (simp add: sound_log_def log_of_def)

definition grows :: "Codec \<Rightarrow> World \<Rightarrow> World \<Rightarrow> bool" where
  "grows K w w' \<longleftrightarrow> (sound_log K w \<longrightarrow> sound_log K w' \<and> (\<exists>es. log_of K w' = log_of K w @ es))"

lemma grows_same: "contents w' = contents w \<Longrightarrow> grows K w w'"
  using sound_cong [of w' w K] by (simp add: grows_def)

lemma grows_refl [simp]: "grows K w w"
  by (rule grows_same) simp

lemma grows_trans: "grows K u v \<Longrightarrow> grows K v w \<Longrightarrow> grows K u w"
  by (auto simp: grows_def)

lemma step_grows:
  assumes "env_ok E" and "codec E = K" and "op_step E w ok w'"
  shows "grows K w w'"
  unfolding grows_def
proof
  assume s: "sound_log K w"
  note ev = log_of_events [OF assms(2), of w] log_of_events [OF assms(2), of w']
  have k: "kept E (contents w) w'"
    using op_step_contract [OF assms(1,3)] unharmed_kept by (auto split: if_splits)
  have i: "log_inv (events_at E (contents w))" "ends_line (contents w)" using s ev by (simp_all add: sound_log_def)
  obtain es fs where "events_at E (contents w') = events_at E (contents w) @ fs"
    "log_inv (events_at E (contents w'))" "ends_line (contents w')"
    "snd (parse_jsonl_events (codec E) (text_of (contents w'))) = snd (parse_jsonl_events (codec E) (text_of (contents w)))"
    by (rule kept_extends [OF assms(1) i k]) blast
  with s ev assms(2) show "sound_log K w' \<and> (\<exists>es. log_of K w' = log_of K w @ es)"
    by (simp add: sound_log_def) (metis ev)
qed

section \<open>Safe programs\<close>

definition safe_op :: "Codec \<Rightarrow> 'a op \<Rightarrow> bool" where
  "safe_op K m \<longleftrightarrow> (\<forall>w. grows K w (fst (m w)))"

definition safe_tool :: "Codec \<Rightarrow> 'a tool \<Rightarrow> bool" where
  "safe_tool K m \<longleftrightarrow> (\<forall>w. grows K w (fst (m w)))"

named_theorems safe_intro

lemma safe_reads [safe_intro]: "reads m \<Longrightarrow> safe_op K m"
  by (auto simp: safe_op_def reads_def intro: grows_same)

lemma safe_retry [safe_intro]:
  assumes "safe_op K m"
  shows "safe_op K (with_write_retry lease m)"
proof -
  have "grows K w (fst (retry_from lease m a latest n w))" for a latest n w
  proof (induction n arbitrary: a latest w)
    case (Suc n)
    have m: "grows K w (fst (m w))" using assms by (simp add: safe_op_def)
    obtain w' r where mw: "m w = (w', r)" by force
    show ?case
    proof (cases "lease a")
      case None
      show ?thesis
      proof (cases "\<exists>msg. r = Inl (Fail (OpError.Conflict msg))")
        case True
        then obtain msg where "retry_from lease m a latest (Suc n) w = retry_from lease m (Suc a) msg n w'"
          using None mw by auto
        then show ?thesis using Suc.IH [of w' "Suc a" msg] m mw by (auto intro: grows_trans)
      next
        case False
        then have "retry_from lease m a latest (Suc n) w = m w"
          using None mw by (auto split: sum.splits fault.splits OpError.splits)
        then show ?thesis using m by simp
      qed
    qed (use Suc.IH in simp)
  qed simp
  then show ?thesis by (simp add: safe_op_def with_write_retry_def)
qed

lemma safe_basic [safe_intro]: "safe_tool K (tool_return x)" "safe_tool K (tool_lift r)"
  by (simp_all add: safe_tool_def tool_return_def tool_lift_def)

lemma safe_bind [safe_intro]: "safe_tool K m \<Longrightarrow> (\<And>x. safe_tool K (f x)) \<Longrightarrow> safe_tool K (tool_bind m f)"
  by (fastforce simp: safe_tool_def tool_bind_def split: prod.split sum.split intro: grows_trans)

lemma safe_run [safe_intro]: "safe_op K m \<Longrightarrow> safe_tool K (run_op m)"
  by (auto simp: safe_tool_def safe_op_def run_op_def split: prod.split) (metis fst_conv)

lemma safe_try [safe_intro]: "safe_tool K m \<Longrightarrow> safe_tool K (tool_try m)"
  by (auto simp: safe_tool_def tool_try_def split: prod.split sum.split fault.split) (metis fst_conv)+

lemma scan_all_reads: "contents (fst (scan_all E w)) = contents w"
  by (simp add: scan_all_def load_raw_def next_tick_def)

lemma safe_log_events [safe_intro]: "safe_tool K (log_events E)"
proof -
  have "contents (fst (log_events E w)) = contents w" for w
    using scan_all_reads [of E w] by (auto simp: log_events_def split: prod.split)
  then show ?thesis by (simp add: safe_tool_def grows_same)
qed

text \<open>The operations of the write tools and the audit of retrievals.\<close>

lemma safe_ops [safe_intro]:
  assumes "env_ok E" and "codec E = K"
  shows "safe_op K (op_assert E sk key pred v lvl src va)" "safe_op K (op_derive E sk key pred v lvl src fk fkey fp va)"
    "safe_op K (op_supersede E sk key pred v lvl src va)" "safe_op K (op_retract E sk key pred lvl src)"
    "safe_op K (op_contradict E sk key pred v lvl src va)" "safe_op K (op_reinforce E sk key pred lvl src)"
    "safe_op K (op_expire E sk key pred lvl src)" "safe_op K (op_record_retrievals E refs p lvl src)"
  unfolding safe_op_def
  by (intro allI step_grows [OF assms], rule op_step.intros, rule surjective_pairing)+

lemma safe_audit [safe_intro]:
  assumes "env_ok E" and "codec E = K"
  shows "safe_op K (record_pack_retrievals E defaults out purpose)"
proof -
  have "grows K w (fst (record_pack_retrievals E defaults out purpose w))" for w
  proof (cases defaults)
    case (Inr d)
    obtain lvl src where "audit_identity d = (lvl, src)" by force
    then show ?thesis
      using safe_ops(8) [OF assms] Inr by (simp add: record_pack_retrievals_def Let_def op_bind_def op_lift_def safe_op_def)
  qed (simp add: record_pack_retrievals_def Let_def op_bind_def op_lift_def)
  then show ?thesis by (simp add: safe_op_def)
qed

lemma safe_write_tool [safe_intro]: "safe_op K m \<Longrightarrow> safe_tool K (run_write_tool E lease name st c m)"
  unfolding run_write_tool_def write_output_def
  by (intro safe_basic safe_bind safe_run safe_try safe_log_events safe_retry) (assumption | rule safe_reads, rule reads_all)+

lemma safe_batch [safe_intro]: "safe_tool K (batch_loop J E ck qs)"
  by (induction qs) (auto intro!: safe_intro reads_all simp: batch_item_def split: prod.split sum.split)

definition server_ok :: "('j, 'v) Server \<Rightarrow> 'j Externs \<Rightarrow> Codec \<Rightarrow> bool" where
  "server_ok S X K \<longleftrightarrow> (\<forall>i. env_ok (env_of S i) \<and> externs (env_of S i) = X \<and> codec (env_of S i) = K)"

lemma server_env: "server_ok S X K \<Longrightarrow> env_ok (env_of S i)" "server_ok S X K \<Longrightarrow> codec (env_of S i) = K"
  "server_ok S X K \<Longrightarrow> externs (env_of S i) = X"
  by (simp_all add: server_ok_def)

lemma safe_dispatch_tool [safe_intro]:
  assumes "server_ok S X K"
  shows "safe_tool K (dispatch_tool S name a i)"
proof -
  note ops = safe_ops [OF server_env(1,2) [OF assms], of i]
  have w: "safe_tool K (assert_tool S a i)" "safe_tool K (supersede_tool S a i)" "safe_tool K (retract_tool S a i)"
    "safe_tool K (reinforce_tool S a i)" "safe_tool K (expire_tool S a i)" "safe_tool K (derive_tool S a i)"
    "safe_tool K (contradict_tool S a i)"
    unfolding assert_tool_def supersede_tool_def retract_tool_def reinforce_tool_def expire_tool_def derive_tool_def
      contradict_tool_def Let_def
    by (auto intro!: safe_intro ops split: prod.split)
  have r: "safe_tool K (list_facts S a E)" "safe_tool K (conflicts_tool E)" "safe_tool K (explain_tool S a E)"
    "safe_tool K (replay_tool S a E)" "safe_tool K (whatif_tool S a E)" "safe_tool K (verify_tool S E)" for E
    unfolding list_facts_def conflicts_tool_def explain_tool_def explain_batch_def replay_tool_def whatif_tool_def Let_def
    by (auto intro!: safe_intro reads_all split: prod.split option.split)
      (simp add: safe_tool_def verify_tool_def grows_same next_tick_def)
  have "safe_tool K (context_tool S a i)"
    unfolding context_tool_def Let_def
    by (auto intro!: safe_intro context_reads safe_audit [OF server_env(1,2) [OF assms]])
  moreover have "safe_tool K (\<lambda>w. (w, g w))" for g :: "World \<Rightarrow> ToolError fault + ToolOutput" by (simp add: safe_tool_def)
  ultimately show ?thesis using w r by (simp add: dispatch_tool_def safe_basic)
qed

section \<open>What a write tool reports\<close>

lemma log_events_Inr:
  assumes "codec E = K" and "log_events E w = (w', Inr es)"
  shows "es = log_of K w" and "contents w' = contents w"
proof -
  obtain st where st: "load_raw E w = (w', Inr st)" and es: "es = scan_events st EventFilter_default"
    using assms(2) by (auto simp: log_events_def scan_all_def split: prod.splits sum.splits)
  have "all_events st = log_of K w" using load_raw_Inr [OF st] log_of_events [OF assms(1), of w] by simp
  then show "es = log_of K w"
    by (simp add: es scan_events_def EventFilter_default_def opt_matches_def all_events_def)
  show "contents w' = contents w" using st by (auto simp: load_raw_def next_tick_def)
qed

lemma log_events_quiet: "log_events E w = (w', r) \<Longrightarrow> contents w' = contents w"
  using scan_all_reads [of E w] by (auto simp: log_events_def split: prod.splits)

text \<open>An operation whose failure changes no belief.\<close>

definition keeps_op :: "Codec \<Rightarrow> 'a op \<Rightarrow> bool" where
  "keeps_op K m \<longleftrightarrow> (\<forall>w w' e. sound_log K w \<longrightarrow> m w = (w', Inl (Fail e)) \<longrightarrow> beliefs_kept (log_of K w) (log_of K w'))"

lemma keeps_opD: "keeps_op K m \<Longrightarrow> sound_log K w \<Longrightarrow> m w = (w', Inl (Fail e)) \<Longrightarrow> beliefs_kept (log_of K w) (log_of K w')"
  by (simp add: keeps_op_def)

lemma step_keeps:
  assumes "env_ok E" and "codec E = K" and "\<And>w w' r. m w = (w', r) \<Longrightarrow> op_step E w (is_ok r) w'"
  shows "keeps_op K m"
  unfolding keeps_op_def
proof (intro allI impI)
  fix w w' e
  assume s: "sound_log K w" and r: "m w = (w', Inl (Fail e))"
  note ev = log_of_events [OF assms(2)]
  have "op_step E w False w'" using assms(3) [OF r] by simp
  from failed_step_keeps [OF assms(1) _ _ this] s ev show "beliefs_kept (log_of K w) (log_of K w')"
    by (auto simp: sound_log_def)
qed

lemma keeps_ops:
  assumes "env_ok E" and "codec E = K"
  shows "keeps_op K (op_assert E sk key pred v lvl src va)" "keeps_op K (op_derive E sk key pred v lvl src fk fkey fp va)"
    "keeps_op K (op_supersede E sk key pred v lvl src va)" "keeps_op K (op_retract E sk key pred lvl src)"
    "keeps_op K (op_contradict E sk key pred v lvl src va)" "keeps_op K (op_reinforce E sk key pred lvl src)"
    "keeps_op K (op_expire E sk key pred lvl src)"
  by (rule step_keeps [OF assms], rule op_step.intros, assumption)+

lemma keeps_retry:
  assumes "safe_op K m" and "keeps_op K m"
  shows "keeps_op K (with_write_retry lease m)"
proof -
  have "beliefs_kept (log_of K w) (log_of K w')"
    if "retry_from lease m a latest n w = (w', Inl (Fail e))" "sound_log K w" for a latest n w w' e
    using that
  proof (induction n arbitrary: a latest w)
    case (Suc n)
    obtain w1 r where m: "m w = (w1, r)" by force
    show ?case
    proof (cases "lease a")
      case None
      show ?thesis
      proof (cases "\<exists>msg. r = Inl (Fail (OpError.Conflict msg))")
        case True
        then obtain msg where msg: "r = Inl (Fail (OpError.Conflict msg))" by blast
        then have "retry_from lease m (Suc a) msg n w1 = (w', Inl (Fail e))" using None m Suc.prems(1) by simp
        moreover have "grows K w w1" using assms(1) m by (metis fst_conv safe_op_def)
        then have "sound_log K w1" using Suc.prems(2) by (simp add: grows_def)
        ultimately have "beliefs_kept (log_of K w1) (log_of K w')" by (rule Suc.IH)
        moreover have "beliefs_kept (log_of K w) (log_of K w1)"
          using keeps_opD [OF assms(2) Suc.prems(2)] m msg by simp
        ultimately show ?thesis by (rule beliefs_kept_trans [rotated])
      next
        case False
        then have "retry_from lease m a latest (Suc n) w = m w"
          using None m by (auto split: sum.splits fault.splits OpError.splits)
        then show ?thesis using keeps_opD [OF assms(2) Suc.prems(2)] Suc.prems(1) by simp
      qed
    qed (use Suc in simp)
  qed simp
  then show ?thesis unfolding keeps_op_def with_write_retry_def by blast
qed

definition reports_exactly :: "'j Externs \<Rightarrow> Codec \<Rightarrow> string \<Rightarrow> World \<Rightarrow> World \<Rightarrow> ToolError fault + ToolOutput \<Rightarrow> bool" where
  "reports_exactly X K name w w' r \<longleftrightarrow>
     (\<forall>out. r = Inr out \<longrightarrow> (\<exists>st c msg accepted rc b es. out = WriteOutput name st c msg accepted rc b \<and>
        log_of K w' = log_of K w @ es \<and>
        (accepted = [] \<or> (\<exists>hs. hash_chain X (log_of K w') = Inr hs \<and>
           accepted = map2 accepted_event es (drop (length (log_of K w)) hs))))) \<and>
     (\<forall>e. r = Inl (Fail e) \<longrightarrow> beliefs_kept (log_of K w) (log_of K w'))"

lemma run_write_reports:
  assumes "codec E = K" and "safe_op K m" and "keeps_op K m" and s: "sound_log K w"
    and "run_write_tool E lease name st c m w = (w', r)"
  shows "reports_exactly (externs E) K name w w' r"
proof -
  obtain w1 r1 where l: "log_events E w = (w1, r1)" by force
  note q = sound_cong [OF log_events_quiet [OF l], of K]
  show ?thesis
  proof (cases r1)
    case (Inl e)
    then show ?thesis using assms(5) l q by (auto simp: run_write_tool_def tool_bind_def reports_exactly_def)
  next
    case (Inr before)
    have before: "before = log_of K w" using log_events_Inr(1) [OF assms(1)] l Inr by blast
    obtain w2 r2 where m: "with_write_retry lease m w1 = (w2, r2)" by force
    show ?thesis
    proof (cases r2)
      case (Inl e)
      then have r: "w' = w2" "r = Inl (fault_map into_tool_error e)"
        using assms(5) l Inr m by (simp_all add: run_write_tool_def tool_bind_def run_op_def)
      have "beliefs_kept (log_of K w) (log_of K w2)" if "e = Fail x" for x
        using keeps_opD [OF keeps_retry [OF assms(2,3)], of w1 lease w2 x] m Inl that q s by simp
      then show ?thesis using r by (cases e) (auto simp: reports_exactly_def)
    next
      case (Inr msg)
      have "grows K w1 w2" using safe_retry [OF assms(2), of lease] m by (metis fst_conv safe_op_def)
      then obtain es where es: "log_of K w2 = log_of K w @ es" using q s by (auto simp: grows_def)
      obtain w3 r3 where a: "log_events E w2 = (w3, r3)" by force
      obtain w4 r4 where x: "op_explain_receipt E (write_kind c) (write_key c) (write_predicate c) ReadClock_default w3 = (w4, r4)" by force
      have same: "contents w3 = contents w2" "contents w4 = contents w3"
        using log_events_quiet [OF a] reads_at [OF reads_all(1) x] by simp_all
      show ?thesis
      proof (cases r3)
        case e: (Inl e)
        show ?thesis
          using assms(5) l \<open>r1 = Inr before\<close> m Inr a x e es same
          by (cases e; cases r4; cases "projl r4")
            (auto simp: run_write_tool_def write_output_def tool_bind_def run_op_def tool_try_def tool_return_def
              reports_exactly_def log_of_def)
      next
        case all: (Inr full)
        have full: "full = log_of K w2" using log_events_Inr(1) [OF assms(1)] a all by blast
        obtain ac where ac: "(case accepted_events_since (externs E) full (length before) of Inr accepted \<Rightarrow> accepted | Inl _ \<Rightarrow> []) = ac" by blast
        have acs: "ac = [] \<or> (\<exists>hs. hash_chain (externs E) (log_of K w2) = Inr hs \<and>
            ac = map2 accepted_event es (drop (length (log_of K w)) hs))"
          using ac by (cases "hash_chain (externs E) full") (auto simp: accepted_events_since_def full before es drop_zip)
        show ?thesis
          using assms(5) l \<open>r1 = Inr before\<close> m Inr a x all es same acs ac
          by (cases r4; cases "projl r4")
            (auto simp: run_write_tool_def write_output_def tool_bind_def run_op_def tool_try_def tool_return_def
              reports_exactly_def log_of_def)
      qed
    qed
  qed
qed

definition reporting :: "'j Externs \<Rightarrow> Codec \<Rightarrow> string \<Rightarrow> World \<Rightarrow> ToolOutput tool \<Rightarrow> bool" where
  "reporting X K name w m \<longleftrightarrow> reports_exactly X K name w (fst (m w)) (snd (m w))"

lemma reporting_lift: "(\<And>y. reporting X K name w (f y)) \<Longrightarrow> reporting X K name w (tool_bind (tool_lift x) f)"
  by (cases x) (auto simp: reporting_def tool_bind_def tool_lift_def reports_exactly_def)

lemma reporting_basis: "reporting X K name w m \<Longrightarrow> reporting X K name w (tool_bind m (\<lambda>out. tool_return (with_basis b out)))"
  by (fastforce simp: reporting_def tool_bind_def tool_return_def reports_exactly_def split: prod.split sum.split)

lemma reporting_run:
  assumes "codec E = K" and "externs E = X" and "sound_log K w" and "safe_op K m" and "keeps_op K m"
  shows "reporting X K name w (run_write_tool E lease name st c m)"
  using run_write_reports [OF assms(1,4,5,3) surjective_pairing] by (simp add: reporting_def assms(2))


end
