(* ===== verification/Mcp_Witness.thy ===== *)
theory Mcp_Witness
  imports Mcp_Effects Op_Witness
begin

text \<open>
  The properties of the MCP server applied to requests of a small JSON type, over the small
  environment of \<open>Op_Witness\<close>.
\<close>

datatype SampleJson = JNull | JStr string | JArr "SampleJson list" | JObj "(string \<times> SampleJson) list"

definition sample_json :: "SampleJson Json" where
  "sample_json = \<lparr>
     json_get = (\<lambda>v k. case v of JObj al \<Rightarrow> map_of al k | _ \<Rightarrow> None),
     as_str = (\<lambda>v. case v of JStr s \<Rightarrow> Some s | _ \<Rightarrow> None),
     as_array = (\<lambda>v. case v of JArr vs \<Rightarrow> Some vs | _ \<Rightarrow> None),
     as_bool = (\<lambda>_. None), as_i64 = (\<lambda>_. None),
     is_object = (\<lambda>v. case v of JObj _ \<Rightarrow> True | _ \<Rightarrow> False),
     is_string = (\<lambda>v. case v of JStr _ \<Rightarrow> True | _ \<Rightarrow> False),
     is_number = (\<lambda>_. False), is_null = (\<lambda>v. v = JNull), json_null = JNull, empty_object = JObj []\<rparr>"

definition sample_server :: "FactEvent list \<Rightarrow> (string, SampleJson) Server" where
  "sample_server tbl = \<lparr>json = sample_json, env_of = (\<lambda>_. sample_env tbl NotPresent), defaults_of = (\<lambda>_. Inr None),
     leases = (\<lambda>_. None), retrieval_var = None, report_tool = (\<lambda>_ _ _. Inr ''ok''), attestation_issues = (\<lambda>_. ([], []))\<rparr>"

lemma sample_server_ok: "server_ok (sample_server tbl) sample_externs (sample_codec tbl)"
  using sample_ok [of tbl NotPresent] by (simp add: server_ok_def sample_server_def)

definition assert_args :: SampleJson where
  "assert_args = JObj [(''subject'', JStr ''r:k''), (''predicate'', JStr ''p''), (''value'', JStr ''u''),
     (''authority'', JStr ''medium''), (''source'', JStr ''a'')]"

lemma assert_args_read:
  "resolve_write_meta sample_json d assert_args = Inr \<lparr>meta_authority = Medium, meta_source = ''a''\<rparr>"
  "triple_args sample_json assert_args = Inr (''r'', ''k'', ''p'')"
  "arg sample_json assert_args ''value'' = Inr ''u''"
  "arg_validity sample_json assert_args = Inr no_validity"
  by code_simp+

lemma run_at_once:
  assumes "lease 0 = None" and "m w = (w', Inr x)"
  shows "with_write_retry lease m w = (w', Inr x)"
proof -
  obtain n where "MAX_ATTEMPTS = Suc n" by (simp add: MAX_ATTEMPTS_def numeral_eq_Suc)
  then have "with_write_retry lease m w = retry_from lease m 0 [] (Suc n) w" by (simp only: with_write_retry_def)
  then show ?thesis using assms by simp
qed

lemma table_loads:
  assumes "steady E now" and "loads E L now" and "log_in E w = L"
  shows "log_events E w = (next_tick w, Inr L)"
proof -
  have "load_raw E w = (next_tick w, Inr (store_of E L))"
    using steady_load [OF assms] by (auto simp: load_op_def split: prod.splits sum.splits)
  then show ?thesis
    using loads_store(3) [OF assms(2)]
    by (simp add: log_events_def scan_all_def scan_events_def EventFilter_default_def opt_matches_def all_events_def)
qed

lemma mapped_panic [simp]: "fault_map f d = Panic \<longleftrightarrow> d = Panic" "Panic = fault_map f d \<longleftrightarrow> d = Panic"
  by (cases d; simp)+

lemma latest_total:
  assumes "memory_ok X st" and "log_inv (all_events st)"
  shows "explain_latest X st sj pd now \<noteq> Inl Panic"
proof -
  have "explain X st f now \<noteq> Inl Panic" for f
  proof -
    obtain r where "replay_fact (stream_of f (all_events st)) = Inr r" using assms(2) unfolding log_inv_def by meson
    then show ?thesis by (simp add: explain_def explain_with_ok [OF assms(1)])
  qed
  moreover have "latest_fact_id st sj pd now \<noteq> Inl Panic"
    by (cases "replay_subject (scan_events st (pair_filter sj pd))") (auto simp: latest_fact_id_def split: option.split)
  ultimately show ?thesis
    by (cases "latest_fact_id st sj pd now"; cases "projr (latest_fact_id st sj pd now)")
      (auto simp: explain_latest_def map_err_Inl split: option.split)
qed

abbreviation called_table :: "FactEvent list" where
  "called_table \<equiv> first_event # revision_batch"

lemma sample_assert_call:
  assumes "contents w = None"
  shows "\<exists>w' out. dispatch_tool (sample_server called_table) ''assert'' assert_args i w = (w', Inr out) \<and>
    log_of (sample_codec called_table) w' = [first_event]"
proof -
  let ?E = "sample_env called_table NotPresent"
  have empty: "holds ?E u []" if "contents u = None" for u
    using that by (simp add: holds_def session.start events_at_def text_of_def parse_jsonl_events_def str_lines_def)
  have ld: "loads ?E [] (TimestampMillis 5)" "loads ?E [first_event] (TimestampMillis 5)"
    using revision_table(2,3) [of NotPresent] by (simp_all add: goes_through_def)
  have l: "log_events ?E w = (next_tick w, Inr [])"
    by (rule table_loads [OF sample_steady ld(1)]) (use empty [OF assms] in \<open>simp add: holds_def\<close>)
  have h0: "holds ?E (next_tick w) []" using assms by (intro empty) (simp add: next_tick_def)
  have b: "build_assertion (next_id []) ''r'' ''k'' ''p'' ''u'' ''a'' Medium (TimestampMillis 5) = Inr first_event"
    unfolding first_reads(1) by (rule first_build)
  obtain x w1 where r: "op_assert ?E ''r'' ''k'' ''p'' ''u'' Medium ''a'' no_validity (next_tick w) = (w1, Inr x)"
    and h: "holds ?E w1 [first_event]"
    using assert_runs [OF sample_steady h0 b first_unbounded(2) revision_table(2) sample_unregistered
        first_unbounded(1)] by (auto simp only: append_Nil)
  have L1: "log_in ?E w1 = [first_event]" "log_in ?E (next_tick w1) = [first_event]"
    using h by (simp_all add: holds_def next_tick_def)
  have a: "log_events ?E w1 = (next_tick w1, Inr [first_event])" by (rule table_loads [OF sample_steady ld(2) L1(1)])
  note st = loads_store [OF ld(2)]
  have inv: "log_inv (all_events (store_of ?E [first_event]))"
    using session_log(1) [of ?E w1] h st(3) by (simp add: holds_def)
  have "explain_latest sample_externs (store_of ?E [first_event]) (Subject ''r'' ''k'') (Predicate ''p'') (TimestampMillis 5) \<noteq> Inl Panic"
    using latest_total [OF st(2) inv] by simp
  then have "snd (op_explain_receipt ?E ''r'' ''k'' ''p'' ReadClock_default (next_tick w1)) \<noteq> Inl Panic"
    by (auto simp: op_explain_receipt_def ReadClock_default_def clock_store_def clock_now_def op_bind_def op_return_def op_fail_def
        op_lift_def steady_load [OF sample_steady ld(2) L1(2)] steady_names sample_names steady_steps [OF sample_steady]
        split: sum.split option.split fault.split)
  moreover obtain w2 q where q: "op_explain_receipt ?E ''r'' ''k'' ''p'' ReadClock_default (next_tick w1) = (w2, q)" by force
  ultimately have np: "q \<noteq> Inl Panic" by simp
  have "contents w2 = contents w1" using reads_at [OF reads_all(1) q] by (simp add: next_tick_def)
  then have L2: "log_of (sample_codec called_table) w2 = [first_event]"
    using L1(1) log_of_events [of ?E "sample_codec called_table" w1] by (simp add: log_of_def)
  have "\<exists>out. dispatch_tool (sample_server called_table) ''assert'' assert_args i w = (w2, Inr out)"
    using l r a q np
    by (cases q; cases "projl q")
      (auto simp: dispatch_tool_def is_report_tool_def assert_tool_def sample_server_def assert_args_read tool_bind_def tool_lift_def
        run_write_tool_def write_output_def run_op_def tool_try_def tool_return_def run_at_once Let_def split: sum.splits fault.splits)
  with L2 show ?thesis by blast
qed


end
