(* ===== verification/Spec2Isabelle.thy ===== *)
theory Spec2Isabelle
  imports Identity_Session Witness_Run Op_Retry Taint Status Sql_Sessions Read_Witness Mcp_Witness
begin

text \<open>
  A verification development for dent8: the event model, the fold of a fact, the firewall, the
  store, the durable log and the operations.
\<close>

end
